(* ===== verification/Prelude.thy ===== *)
theory Prelude
  imports Main "HOL-Library.Word" "HOL-Library.Monad_Syntax"
begin

text \<open>
  Prelude of the yesos development: the integer types of \<^verbatim>\<open>student-distrib/types.h\<close>, the
  error values shared by the components, the \<^theory_text>\<open>named_theorems\<close> collections that carry
  the component proofs, and generic facts about lists, modular indices and words.

  Conventions used by every component.
  \<^item> \<open>uint8_t\<close>, \<open>uint16_t\<close>, \<open>uint32_t\<close> are \<open>8 word\<close>, \<open>16 word\<close>, \<open>32 word\<close>; a signed value
    whose range matters is an \<open>int\<close>, with the truncation to 32 bits written out where the
    code relies on it.
  \<^item> A pointer into an array is the index it points at; an access outside the array is the
    error value \<open>OutOfBounds\<close> (or \<open>None\<close>), never an unspecified element.
  \<^item> A status code of the kernel (0, -1, a descriptor, a byte count) is an \<open>int\<close>.
\<close>

unbundle bit_operations_syntax

type_synonym u8 = "8 word"
type_synonym u16 = "16 word"
type_synonym u32 = "32 word"

datatype c_error = OutOfBounds | NullPointer

named_theorems circ_simps \<open>the circular buffer against its list of elements\<close>
named_theorems kdefs \<open>definitions unfolded when an operation is executed symbolically\<close>

section \<open>Modular indices\<close>

text \<open>The distance from \<open>h\<close> to \<open>t\<close> on a ring of \<open>n\<close> cells, and how it moves with its ends.\<close>

lemma ring_dist_less: "0 < n \<Longrightarrow> (t + n - h) mod n < (n::nat)"
  by simp

lemma mod_Suc_ring: "p < n \<Longrightarrow> (p + 1) mod n = (if p + 1 = n then 0 else p + 1)" for p n :: nat
  by auto

lemma ring_dist_cases:
  fixes t h n :: nat
  assumes "t < n" "h < n"
  shows "(t + n - h) mod n = (if h \<le> t then t - h else t + n - h)"
proof (cases "h \<le> t")
  case True
  then have "t + n - h = (t - h) + n" by simp
  then have "(t + n - h) mod n = (t - h) mod n" by (simp only: mod_add_self2)
  with True assms show ?thesis by simp
next
  case False
  with assms show ?thesis by simp
qed

lemma ring_index_cases:
  fixes h i n :: nat
  assumes "h < n" "i \<le> n"
  shows "(h + i) mod n = (if h + i < n then h + i else h + i - n)"
proof (cases "h + i < n")
  case False
  then have "(h + i) mod n = (h + i - n) mod n" by (simp add: le_mod_geq)
  also have "\<dots> = h + i - n" using assms by (intro mod_less) arith
  finally show ?thesis using False by simp
qed simp

lemma ring_index_inj:
  fixes h i j n :: nat
  assumes "h < n" "i < n" "j < n" "(h + i) mod n = (h + j) mod n"
  shows "i = j"
  using assms by (simp add: ring_index_cases split: if_splits)

section \<open>Lists\<close>

lemma take_Suc_snoc: "i < length xs \<Longrightarrow> take (Suc i) xs = take i xs @ [xs ! i]"
  by (rule take_Suc_conv_app_nth)

lemma nth_take_drop: "n \<le> length xs \<Longrightarrow> i < n \<Longrightarrow> take n xs ! i = xs ! i"
  by simp

lemma takeWhile_length_le: "length (takeWhile P xs) \<le> length xs"
  by (induction xs) auto

lemma list_update_same_length: "length (xs[i := v]) = length xs"
  by simp

lemma find_SomeD: "List.find P xs = Some x \<Longrightarrow> x \<in> set xs \<and> P x"
  by (induction xs) (auto split: if_splits)

lemma find_SomeI: "x \<in> set xs \<Longrightarrow> P x \<Longrightarrow> \<exists>y. List.find P xs = Some y"
  by (induction xs) auto

section \<open>Words\<close>

lemma sint_inject: "sint (a :: 'a::len word) = sint b \<longleftrightarrow> a = b"
proof
  assume "sint a = sint b"
  then have "of_int (sint a) = (of_int (sint b) :: 'a word)" by simp
  then show "a = b" by simp
qed simp

lemma unat_u32_less: "unat (w :: u32) < 2 ^ 32"
  using unsigned_less [where 'b = 32 and 'a = nat, of w] by simp

lemma unat_of_nat_u32: "n < 2 ^ 32 \<Longrightarrow> unat (of_nat n :: u32) = n"
  by (simp add: unat_of_nat)

lemma sint_small:
  assumes "unat (w :: u32) < 2 ^ 31"
  shows "sint w = int (unat w)"
proof -
  have "int (unat w) < int (2 ^ 31)" using assms by (simp only: of_nat_less_iff)
  then have "uint w < 2 ^ 31" by simp
  moreover have "0 \<le> uint w" by simp
  ultimately have "sint w = uint w" unfolding sint_uint by (intro signed_take_bit_int_eq_self) (auto intro: order_trans [of _ 0])
  then show ?thesis by simp
qed

lemma byte_mask_eq: "(0xFF :: 'a::len word) = mask 8"
  by (simp add: mask_eq_exp_minus_1)

lemma ucast_byte_mask [simp]: "(ucast (w AND 0xFF) :: u8) = ucast (w :: 'a::len word)"
  unfolding byte_mask_eq by (rule bit_word_eqI) (auto simp: bit_simps dest: bit_imp_le_length)

lemma uint_ucast_byte: "uint (ucast (w :: 'a::len word) :: u8) = uint w mod 256"
  by (simp add: unsigned_ucast_eq take_bit_eq_mod)

lemma uint_drop_byte: "uint (drop_bit 8 (w :: 'a::len word)) = uint w div 256"
  unfolding unsigned_drop_bit_eq by (simp add: drop_bit_eq_div take_bit_eq_mod unsigned_less)

end
