(* ===== verification/Circ_Buf.thy ===== *)
theory Circ_Buf
  imports Prelude
begin

text \<open>
  \<^verbatim>\<open>student-distrib/queue.h\<close>: the circular buffer macros. A buffer is the record of its
  \<open>head\<close> and \<open>tail\<close> pointers, as offsets from \<open>buf\<close>, and the array \<open>buf\<close> of \<open>size+1\<close> cells.
  Every macro is one definition; a macro with an \<open>ok\<close> output returns an option or a pair.
  The abstraction \<open>circ_list\<close> reads the elements from head to tail; the lemmas say that the
  macros implement a bounded double-ended queue on that list, and that \<open>CIRC_BUF_PEEK_TAIL\<close>
  and \<open>CIRC_BUF_POKE_TAIL\<close> leave the array when the tail has wrapped to its first cell.
\<close>

section \<open>The macros\<close>

record 'a circ_buf =
  cb_head :: nat
  cb_tail :: nat
  cb_buf :: "'a list"

text \<open>A freshly declared buffer of \<open>size\<close> elements: \<open>size+1\<close> cells of the initial value.\<close>

definition CIRC_BUF_TYPE :: "'a \<Rightarrow> nat \<Rightarrow> 'a circ_buf" where
  "CIRC_BUF_TYPE z sz = \<lparr>cb_head = 0, cb_tail = 0, cb_buf = replicate (sz + 1) z\<rparr>"

definition SIZEOF_BUF :: "'a circ_buf \<Rightarrow> nat" where
  "SIZEOF_BUF q = length (cb_buf q)"

definition BUF_PTR_INC :: "'a circ_buf \<Rightarrow> nat \<Rightarrow> nat" where
  "BUF_PTR_INC q ptr = (ptr + 1) mod SIZEOF_BUF q"

definition BUF_PTR_DEC :: "'a circ_buf \<Rightarrow> nat \<Rightarrow> nat" where
  "BUF_PTR_DEC q ptr = (ptr + SIZEOF_BUF q - 1) mod SIZEOF_BUF q"

definition BUF_PTR_DIFF :: "'a circ_buf \<Rightarrow> nat \<Rightarrow> nat \<Rightarrow> nat" where
  "BUF_PTR_DIFF q ptr1 ptr2 = (ptr1 + SIZEOF_BUF q - ptr2) mod SIZEOF_BUF q"

definition CIRC_BUF_FULL :: "'a circ_buf \<Rightarrow> bool" where
  "CIRC_BUF_FULL q \<longleftrightarrow> BUF_PTR_DIFF q (cb_tail q) (cb_head q) = SIZEOF_BUF q - 2"

definition CIRC_BUF_EMPTY :: "'a circ_buf \<Rightarrow> bool" where
  "CIRC_BUF_EMPTY q \<longleftrightarrow> BUF_PTR_DIFF q (cb_tail q) (cb_head q) = 0"

definition CIRC_BUF_INIT :: "'a circ_buf \<Rightarrow> 'a circ_buf" where
  "CIRC_BUF_INIT q = q\<lparr>cb_head := 0, cb_tail := 0\<rparr>"

definition CIRC_BUF_PUSH :: "'a circ_buf \<Rightarrow> 'a \<Rightarrow> 'a circ_buf \<times> bool" where
  "CIRC_BUF_PUSH q val =
     (if CIRC_BUF_FULL q then (q, False)
      else (q\<lparr>cb_buf := (cb_buf q)[cb_tail q := val], cb_tail := BUF_PTR_INC q (cb_tail q)\<rparr>, True))"

definition CIRC_BUF_POP :: "'a circ_buf \<Rightarrow> 'a circ_buf \<times> 'a option" where
  "CIRC_BUF_POP q =
     (if CIRC_BUF_EMPTY q then (q, None)
      else (q\<lparr>cb_head := BUF_PTR_INC q (cb_head q)\<rparr>, Some (cb_buf q ! cb_head q)))"

definition CIRC_BUF_POP_TAIL :: "'a circ_buf \<Rightarrow> 'a circ_buf \<times> 'a option" where
  "CIRC_BUF_POP_TAIL q =
     (if CIRC_BUF_EMPTY q then (q, None)
      else let t = BUF_PTR_DEC q (cb_tail q) in (q\<lparr>cb_tail := t\<rparr>, Some (cb_buf q ! t)))"

definition CIRC_BUF_PEEK :: "'a circ_buf \<Rightarrow> 'a option" where
  "CIRC_BUF_PEEK q = (if CIRC_BUF_EMPTY q then None else Some (cb_buf q ! cb_head q))"

text \<open>
  \<open>*((buf).tail - 1)\<close> has no wrap-around: with the tail at cell 0 it addresses the word
  before the array.
\<close>

definition CIRC_BUF_PEEK_TAIL :: "'a circ_buf \<Rightarrow> c_error + 'a option" where
  "CIRC_BUF_PEEK_TAIL q =
     (if CIRC_BUF_EMPTY q then Inr None
      else if cb_tail q = 0 then Inl OutOfBounds
      else Inr (Some (cb_buf q ! (cb_tail q - 1))))"

definition CIRC_BUF_POKE :: "'a circ_buf \<Rightarrow> 'a \<Rightarrow> 'a circ_buf \<times> bool" where
  "CIRC_BUF_POKE q val =
     (if CIRC_BUF_EMPTY q then (q, False)
      else (q\<lparr>cb_buf := (cb_buf q)[cb_head q := val]\<rparr>, True))"

definition CIRC_BUF_POKE_TAIL :: "'a circ_buf \<Rightarrow> 'a \<Rightarrow> c_error + ('a circ_buf \<times> bool)" where
  "CIRC_BUF_POKE_TAIL q val =
     (if CIRC_BUF_EMPTY q then Inr (q, False)
      else if cb_tail q = 0 then Inl OutOfBounds
      else Inr (q\<lparr>cb_buf := (cb_buf q)[cb_tail q - 1 := val]\<rparr>, True))"

text \<open>
  The pointer difference is an \<open>int\<close> and \<open>SIZEOF_BUF\<close> an unsigned 32-bit value, so the sum is
  reduced modulo \<open>2^32\<close> before the remainder is taken.
\<close>

definition CIRC_BUF_IDX :: "'a circ_buf \<Rightarrow> int \<Rightarrow> nat" where
  "CIRC_BUF_IDX q idx =
     nat (((int (if 0 \<le> idx then cb_head q else cb_tail q) + idx) mod 2 ^ 32) mod int (SIZEOF_BUF q))"

text \<open>Popping \<open>n\<close> times, keeping what came out.\<close>

fun circ_drain :: "nat \<Rightarrow> 'a circ_buf \<Rightarrow> 'a list \<times> 'a circ_buf" where
  "circ_drain 0 q = ([], q)"
| "circ_drain (Suc n) q =
     (case CIRC_BUF_POP q of
        (q', None) \<Rightarrow> ([], q')
      | (q', Some x) \<Rightarrow> (case circ_drain n q' of (xs, q'') \<Rightarrow> (x # xs, q'')))"

section \<open>Abstraction and invariant\<close>

definition circ_count :: "'a circ_buf \<Rightarrow> nat" where
  "circ_count q = BUF_PTR_DIFF q (cb_tail q) (cb_head q)"

definition circ_list :: "'a circ_buf \<Rightarrow> 'a list" where
  "circ_list q = map (\<lambda>i. cb_buf q ! ((cb_head q + i) mod SIZEOF_BUF q)) [0..<circ_count q]"

definition circ_cap :: "'a circ_buf \<Rightarrow> nat" where
  "circ_cap q = SIZEOF_BUF q - 2"

definition circ_inv :: "'a circ_buf \<Rightarrow> bool" where
  "circ_inv q \<longleftrightarrow> 2 \<le> SIZEOF_BUF q \<and> cb_head q < SIZEOF_BUF q \<and> cb_tail q < SIZEOF_BUF q
     \<and> circ_count q \<le> circ_cap q"

section \<open>The ring as a list\<close>

lemma circ_count_cases:
  "circ_inv q \<Longrightarrow> circ_count q =
     (if cb_head q \<le> cb_tail q then cb_tail q - cb_head q
      else cb_tail q + SIZEOF_BUF q - cb_head q)"
  by (simp add: circ_inv_def circ_count_def BUF_PTR_DIFF_def ring_dist_cases)

lemma length_circ_list [simp]: "length (circ_list q) = circ_count q"
  by (simp add: circ_list_def)

lemma circ_list_nth:
  "i < circ_count q \<Longrightarrow> circ_list q ! i = cb_buf q ! ((cb_head q + i) mod SIZEOF_BUF q)"
  by (simp add: circ_list_def)

lemma circ_list_Nil: "circ_list q = [] \<longleftrightarrow> circ_count q = 0"
  by (metis length_0_conv length_circ_list)

lemma CIRC_BUF_FULL_iff [circ_simps]:
  "CIRC_BUF_FULL q \<longleftrightarrow> length (circ_list q) = circ_cap q"
  by (simp add: CIRC_BUF_FULL_def circ_count_def circ_cap_def)

lemma CIRC_BUF_EMPTY_iff [circ_simps]: "CIRC_BUF_EMPTY q \<longleftrightarrow> circ_list q = []"
  by (simp add: CIRC_BUF_EMPTY_def circ_list_Nil circ_count_def)

lemma circ_tail_eq: "circ_inv q \<Longrightarrow> cb_tail q = (cb_head q + circ_count q) mod SIZEOF_BUF q"
proof -
  assume q: "circ_inv q"
  then have "cb_head q < SIZEOF_BUF q" "cb_tail q < SIZEOF_BUF q" by (simp_all add: circ_inv_def)
  then show ?thesis by (simp add: circ_count_cases [OF q] ring_index_cases)
qed

lemma circ_invI:
  assumes "2 \<le> SIZEOF_BUF q" "cb_head q < SIZEOF_BUF q" "n \<le> circ_cap q"
    and "cb_tail q = (cb_head q + n) mod SIZEOF_BUF q"
  shows "circ_inv q" and "circ_count q = n"
proof -
  have n: "n < SIZEOF_BUF q" using assms(1,3) by (simp add: circ_cap_def)
  have t: "cb_tail q < SIZEOF_BUF q" using assms(1,4) by simp
  have c: "circ_count q = n"
    using assms(2,4) n t
    by (simp add: circ_count_def BUF_PTR_DIFF_def ring_dist_cases ring_index_cases split: if_splits)
  show "circ_count q = n" by (rule c)
  show "circ_inv q" using assms(1-3) t c by (simp add: circ_inv_def)
qed

lemma circ_inv_fresh: "1 \<le> sz \<Longrightarrow> circ_inv (CIRC_BUF_TYPE z sz)"
  by (rule circ_invI(1) [where n = 0]) (simp_all add: CIRC_BUF_TYPE_def SIZEOF_BUF_def)

lemma circ_list_fresh [circ_simps]: "circ_list (CIRC_BUF_TYPE z sz) = []"
  by (simp add: circ_list_Nil circ_count_def CIRC_BUF_TYPE_def SIZEOF_BUF_def BUF_PTR_DIFF_def)

lemma circ_cap_fresh [circ_simps]: "circ_cap (CIRC_BUF_TYPE z sz) = sz - 1"
  by (simp add: circ_cap_def CIRC_BUF_TYPE_def SIZEOF_BUF_def)

lemma circ_init: "circ_inv q \<Longrightarrow> circ_inv (CIRC_BUF_INIT q)"
  by (rule circ_invI(1) [where n = 0]) (auto simp: CIRC_BUF_INIT_def SIZEOF_BUF_def circ_inv_def)

lemma circ_list_init [circ_simps]: "circ_list (CIRC_BUF_INIT q) = []"
  by (simp add: circ_list_Nil circ_count_def CIRC_BUF_INIT_def SIZEOF_BUF_def BUF_PTR_DIFF_def)

lemma circ_cap_init [circ_simps]: "circ_cap (CIRC_BUF_INIT q) = circ_cap q"
  by (simp add: circ_cap_def CIRC_BUF_INIT_def SIZEOF_BUF_def)

section \<open>Each macro on the list\<close>

lemma circ_push_full: "length (circ_list q) = circ_cap q \<Longrightarrow> CIRC_BUF_PUSH q v = (q, False)"
  by (simp add: CIRC_BUF_PUSH_def CIRC_BUF_FULL_iff)

lemma circ_push_ok:
  assumes q: "circ_inv q" and room: "length (circ_list q) < circ_cap q"
    and push: "CIRC_BUF_PUSH q v = (q', ok)"
  shows "circ_inv q'" and "ok" and "circ_list q' = circ_list q @ [v]" and "circ_cap q' = circ_cap q"
proof -
  let ?n = "SIZEOF_BUF q" and ?c = "circ_count q"
  have b: "2 \<le> ?n" "cb_head q < ?n" "cb_tail q < ?n" "?c + 1 < ?n"
    using q room by (auto simp: circ_inv_def circ_cap_def)
  have q': "q' = q\<lparr>cb_buf := (cb_buf q)[cb_tail q := v], cb_tail := BUF_PTR_INC q (cb_tail q)\<rparr>"
    and "ok" using push room by (auto simp: CIRC_BUF_PUSH_def CIRC_BUF_FULL_iff)
  show "ok" by fact
  have n': "SIZEOF_BUF q' = ?n" and h': "cb_head q' = cb_head q" by (simp_all add: q' SIZEOF_BUF_def)
  show cap: "circ_cap q' = circ_cap q" by (simp add: circ_cap_def n')
  have t: "cb_tail q = (cb_head q + ?c) mod ?n" by (rule circ_tail_eq [OF q])
  have t': "cb_tail q' = (cb_head q' + (?c + 1)) mod SIZEOF_BUF q'"
    unfolding n' h' by (simp add: q' BUF_PTR_INC_def t mod_simps)
  have "?c + 1 \<le> circ_cap q'" using room cap by simp
  then have *: "circ_inv q'" "circ_count q' = ?c + 1"
    using circ_invI [of q' "?c + 1"] b n' h' t' by simp_all
  show "circ_inv q'" by fact
  show "circ_list q' = circ_list q @ [v]"
  proof (rule nth_equalityI)
    fix i assume "i < length (circ_list q')"
    then have i: "i \<le> ?c" using * by simp
    have "(cb_head q + i) mod ?n = cb_tail q \<longleftrightarrow> i = ?c"
      using ring_index_inj [of "cb_head q" ?n i ?c] b i t by auto
    moreover have "circ_list q' ! i = (cb_buf q)[cb_tail q := v] ! ((cb_head q + i) mod ?n)"
      using i * by (simp add: circ_list_nth n' h') (simp add: q')
    moreover have "(cb_head q + i) mod ?n < length (cb_buf q)"
      using b by (simp add: SIZEOF_BUF_def [symmetric])
    ultimately show "circ_list q' ! i = (circ_list q @ [v]) ! i"
      using i by (cases "i = ?c") (simp_all add: circ_list_nth nth_append)
  qed (use * in simp)
qed

lemma circ_pop_empty: "circ_list q = [] \<Longrightarrow> CIRC_BUF_POP q = (q, None)"
  by (simp add: CIRC_BUF_POP_def CIRC_BUF_EMPTY_iff)

lemma circ_pop_ok:
  assumes q: "circ_inv q" and ne: "circ_list q = x # xs" and pop: "CIRC_BUF_POP q = (q', r)"
  shows "circ_inv q'" and "r = Some x" and "circ_list q' = xs" and "circ_cap q' = circ_cap q"
proof -
  let ?n = "SIZEOF_BUF q"
  obtain c where c: "circ_count q = Suc c" using ne by (metis length_Cons length_circ_list)
  have b: "2 \<le> ?n" "cb_head q < ?n" "Suc c \<le> circ_cap q"
    using q c by (auto simp: circ_inv_def)
  have q': "q' = q\<lparr>cb_head := BUF_PTR_INC q (cb_head q)\<rparr>" and r: "r = Some (cb_buf q ! cb_head q)"
    using pop ne by (auto simp: CIRC_BUF_POP_def CIRC_BUF_EMPTY_iff)
  have n': "SIZEOF_BUF q' = ?n" by (simp add: q' SIZEOF_BUF_def)
  show cap: "circ_cap q' = circ_cap q" by (simp add: circ_cap_def n')
  have "cb_tail q' = (cb_head q' + c) mod SIZEOF_BUF q'"
    unfolding n' using circ_tail_eq [OF q] c by (simp add: q' BUF_PTR_INC_def mod_simps)
  moreover have "cb_head q' < ?n" using b by (simp add: q' BUF_PTR_INC_def)
  ultimately have *: "circ_inv q'" "circ_count q' = c"
    using circ_invI [of q' c] b n' cap by simp_all
  show "circ_inv q'" by fact
  have "circ_list q ! 0 = cb_buf q ! cb_head q"
    using c b by (simp add: circ_list_nth)
  then show "r = Some x" using r ne by simp
  have "xs ! i = circ_list q' ! i" if "i < c" for i
  proof -
    have "xs ! i = circ_list q ! Suc i" using ne by simp
    also have "\<dots> = cb_buf q ! ((cb_head q + Suc i) mod ?n)" using that c by (simp add: circ_list_nth)
    also have "\<dots> = circ_list q' ! i"
      using that * n' by (simp add: circ_list_nth q' BUF_PTR_INC_def mod_simps)
    finally show ?thesis .
  qed
  moreover have "length xs = c" using ne c by (metis length_Cons length_circ_list nat.inject)
  ultimately show "circ_list q' = xs" using * by (intro nth_equalityI) simp_all
qed

lemma circ_pop_tail_empty: "circ_list q = [] \<Longrightarrow> CIRC_BUF_POP_TAIL q = (q, None)"
  by (simp add: CIRC_BUF_POP_TAIL_def CIRC_BUF_EMPTY_iff)

lemma circ_tail_pred:
  assumes q: "circ_inv q" and c: "circ_count q = Suc c"
  shows "BUF_PTR_DEC q (cb_tail q) = (cb_head q + c) mod SIZEOF_BUF q"
proof -
  let ?n = "SIZEOF_BUF q"
  have n: "1 \<le> ?n" using q by (simp add: circ_inv_def)
  have "BUF_PTR_DEC q (cb_tail q) = ((cb_head q + Suc c) mod ?n + (?n - 1)) mod ?n"
    using circ_tail_eq [OF q] c n by (simp add: BUF_PTR_DEC_def)
  also have "\<dots> = (cb_head q + Suc c + (?n - 1)) mod ?n" by (simp only: mod_add_left_eq)
  also have "\<dots> = (cb_head q + c + ?n) mod ?n" using n by simp
  finally show ?thesis by simp
qed

lemma circ_pop_tail_ok:
  assumes q: "circ_inv q" and ne: "circ_list q = xs @ [x]" and pop: "CIRC_BUF_POP_TAIL q = (q', r)"
  shows "circ_inv q'" and "r = Some x" and "circ_list q' = xs" and "circ_cap q' = circ_cap q"
proof -
  let ?n = "SIZEOF_BUF q"
  obtain c where c: "circ_count q = Suc c" and len: "length xs = c"
    using ne by (metis length_append_singleton length_circ_list)
  have b: "2 \<le> ?n" "cb_head q < ?n" "Suc c \<le> circ_cap q"
    using q c by (auto simp: circ_inv_def)
  let ?t = "(cb_head q + c) mod ?n"
  have q': "q' = q\<lparr>cb_tail := ?t\<rparr>" and r: "r = Some (cb_buf q ! ?t)"
    using pop ne circ_tail_pred [OF q c] by (auto simp: CIRC_BUF_POP_TAIL_def CIRC_BUF_EMPTY_iff Let_def)
  have n': "SIZEOF_BUF q' = ?n" by (simp add: q' SIZEOF_BUF_def)
  show cap: "circ_cap q' = circ_cap q" by (simp add: circ_cap_def n')
  have *: "circ_inv q'" "circ_count q' = c"
    using circ_invI [of q' c] b n' cap by (simp_all add: q')
  show "circ_inv q'" by fact
  have "circ_list q ! c = cb_buf q ! ?t" using c by (simp add: circ_list_nth)
  moreover have "circ_list q ! c = x" using ne len by (simp add: nth_append)
  ultimately show "r = Some x" using r by simp
  have "circ_list q' ! i = xs ! i" if "i < c" for i
  proof -
    have "xs ! i = circ_list q ! i" using ne len that by (simp add: nth_append)
    then show ?thesis using that * c n' by (simp add: circ_list_nth q')
  qed
  then show "circ_list q' = xs" using * len by (intro nth_equalityI) simp_all
qed

lemma circ_peek_ok:
  assumes q: "circ_inv q"
  shows "CIRC_BUF_PEEK q = (case circ_list q of [] \<Rightarrow> None | x # _ \<Rightarrow> Some x)"
proof (cases "circ_list q")
  case (Cons x xs)
  then have "0 < circ_count q" by (metis length_circ_list length_greater_0_conv list.distinct(1))
  then have "circ_list q ! 0 = cb_buf q ! cb_head q" using q by (simp add: circ_list_nth circ_inv_def)
  with Cons show ?thesis by (simp add: CIRC_BUF_PEEK_def CIRC_BUF_EMPTY_iff)
qed (simp add: CIRC_BUF_PEEK_def CIRC_BUF_EMPTY_iff)

lemma circ_peek_tail_ok:
  assumes q: "circ_inv q" and t: "cb_tail q \<noteq> 0"
  shows "CIRC_BUF_PEEK_TAIL q = Inr (if circ_list q = [] then None else Some (last (circ_list q)))"
proof (cases "circ_list q = []")
  case False
  then obtain c where c: "circ_count q = Suc c" by (metis circ_list_Nil not0_implies_Suc)
  have "BUF_PTR_DEC q (cb_tail q) = (cb_tail q - 1 + SIZEOF_BUF q) mod SIZEOF_BUF q"
    using t by (simp add: BUF_PTR_DEC_def)
  also have "\<dots> = cb_tail q - 1" using q by (simp only: mod_add_self2) (auto simp: circ_inv_def)
  finally have "cb_tail q - 1 = (cb_head q + c) mod SIZEOF_BUF q"
    using circ_tail_pred [OF q c] by simp
  moreover have "last (circ_list q) = circ_list q ! c" using False c by (simp add: last_conv_nth)
  ultimately show ?thesis
    using False t c by (simp add: CIRC_BUF_PEEK_TAIL_def CIRC_BUF_EMPTY_iff circ_list_nth)
qed (simp add: CIRC_BUF_PEEK_TAIL_def CIRC_BUF_EMPTY_iff)

section \<open>The contract of a bounded queue\<close>

text \<open>
  What the clients of the buffer (the scheduler, the keyboard command queue, the terminals)
  rely on, and what follows for them.
\<close>

locale bounded_queue =
  fixes enq :: "'q \<Rightarrow> 'a \<Rightarrow> 'q \<times> bool"
    and deq :: "'q \<Rightarrow> 'q \<times> 'a option"
    and elems :: "'q \<Rightarrow> 'a list"
    and cap :: "'q \<Rightarrow> nat"
    and invar :: "'q \<Rightarrow> bool"
  assumes elems_cap: "invar q \<Longrightarrow> length (elems q) \<le> cap q"
    and enq_full: "invar q \<Longrightarrow> length (elems q) = cap q \<Longrightarrow> enq q x = (q, False)"
    and enq_room: "invar q \<Longrightarrow> length (elems q) < cap q \<Longrightarrow> enq q x = (q', ok) \<Longrightarrow>
      invar q' \<and> ok \<and> elems q' = elems q @ [x] \<and> cap q' = cap q"
    and deq_empty: "invar q \<Longrightarrow> elems q = [] \<Longrightarrow> deq q = (q, None)"
    and deq_cons: "invar q \<Longrightarrow> elems q = x # xs \<Longrightarrow> deq q = (q', r) \<Longrightarrow>
      invar q' \<and> r = Some x \<and> elems q' = xs \<and> cap q' = cap q"
begin

lemma enq_cases:
  assumes "invar q" "enq q x = (q', ok)"
  shows "invar q' \<and> cap q' = cap q \<and>
    (ok \<and> elems q' = elems q @ [x] \<or> \<not> ok \<and> q' = q \<and> length (elems q) = cap q)"
proof (cases "length (elems q) = cap q")
  case True
  with assms enq_full [OF assms(1) True, of x] show ?thesis by simp
next
  case False
  with elems_cap [OF assms(1)] have "length (elems q) < cap q" by simp
  from enq_room [OF assms(1) this assms(2)] show ?thesis by simp
qed

lemma enq_ok_iff: "invar q \<Longrightarrow> enq q x = (q', ok) \<Longrightarrow> ok \<longleftrightarrow> length (elems q) < cap q"
  using enq_cases [of q x q' ok] elems_cap [of q'] by auto

lemma deq_cases:
  assumes "invar q" "deq q = (q', r)"
  shows "invar q' \<and> cap q' = cap q \<and>
    (r = None \<and> q' = q \<and> elems q = [] \<or> (\<exists>x. r = Some x \<and> elems q = x # elems q'))"
proof (cases "elems q")
  case Nil
  with assms deq_empty [OF assms(1) Nil] show ?thesis by simp
next
  case (Cons x xs)
  from deq_cons [OF assms(1) Cons assms(2)] Cons show ?thesis by simp
qed

lemma invar_enq: "invar q \<Longrightarrow> invar (fst (enq q x))"
  using enq_cases [of q x "fst (enq q x)" "snd (enq q x)"] by simp

lemma invar_deq: "invar q \<Longrightarrow> invar (fst (deq q))"
  using deq_cases [of q "fst (deq q)" "snd (deq q)"] by simp

lemma enq_many:
  assumes "invar q" "length (elems q) + length xs \<le> cap q"
  shows "invar (fold (\<lambda>x q. fst (enq q x)) xs q)
    \<and> elems (fold (\<lambda>x q. fst (enq q x)) xs q) = elems q @ xs
    \<and> cap (fold (\<lambda>x q. fst (enq q x)) xs q) = cap q"
  using assms
proof (induction xs arbitrary: q)
  case (Cons x xs)
  obtain q' ok where e: "enq q x = (q', ok)" by fastforce
  with Cons.prems have q': "invar q'" "elems q' = elems q @ [x]" "cap q' = cap q"
    using enq_room [of q x q' ok] by auto
  with Cons.prems have "length (elems q') + length xs \<le> cap q'" by simp
  from Cons.IH [OF q'(1) this] show ?case using e q' by simp
qed simp

end

interpretation circ: bounded_queue CIRC_BUF_PUSH CIRC_BUF_POP circ_list circ_cap circ_inv
proof unfold_locales
  show "length (circ_list q) \<le> circ_cap q" if "circ_inv q" for q :: "'a circ_buf"
    using that by (simp add: circ_inv_def)
qed (auto intro: circ_push_full circ_pop_empty dest: circ_push_ok circ_pop_ok)

lemma circ_drain_list:
  "circ_inv q \<Longrightarrow> circ_drain n q = (ys, q') \<Longrightarrow>
     circ_inv q' \<and> ys = take n (circ_list q) \<and> circ_list q' = drop n (circ_list q)"
proof (induction n arbitrary: q ys q')
  case (Suc n)
  obtain q1 r where p: "CIRC_BUF_POP q = (q1, r)" by fastforce
  note c = circ.deq_cases [OF Suc.prems(1) p]
  show ?case
  proof (cases r)
    case None
    with Suc.prems(2) p c show ?thesis by auto
  next
    case (Some x)
    obtain xs q2 where d: "circ_drain n q1 = (xs, q2)" by fastforce
    from c have "circ_inv q1" by simp
    from Suc.IH [OF this d] Suc.prems(2) p c Some d show ?thesis by auto
  qed
qed auto

section \<open>Properties\<close>



text \<open>
  First in, first out: elements pushed onto a freshly declared buffer, as many as it can
  hold, come out of \<^verbatim>\<open>CIRC_BUF_POP\<close> in the order they were pushed, whatever the wrap-around.
\<close>

theorem circ_fifo:
  assumes "1 \<le> sz" "length xs \<le> sz - 1"
  shows "fst (circ_drain (length xs) (fold (\<lambda>x q. fst (CIRC_BUF_PUSH q x)) xs (CIRC_BUF_TYPE z sz))) = xs"
proof -
  let ?q = "fold (\<lambda>x q. fst (CIRC_BUF_PUSH q x)) xs (CIRC_BUF_TYPE z sz)"
  have "length (circ_list (CIRC_BUF_TYPE z sz)) + length xs \<le> circ_cap (CIRC_BUF_TYPE z sz)"
    using assms by (simp only: circ_list_fresh circ_cap_fresh) simp
  from circ.enq_many [OF circ_inv_fresh [OF assms(1)] this]
  have "circ_inv ?q" "circ_list ?q = xs" by (simp_all add: circ_list_fresh)
  moreover obtain ys q' where d: "circ_drain (length xs) ?q = (ys, q')" by fastforce
  ultimately have "ys = xs" using circ_drain_list [of ?q "length xs" ys q'] by simp
  with d show ?thesis by simp
qed

theorem circ_fifo_witness:
  "fst (circ_drain 3 (fold (\<lambda>x q. fst (CIRC_BUF_PUSH q x)) [1, 2, 3] (CIRC_BUF_TYPE (0::u8) 128))) = [1, 2, 3]"
  using circ_fifo [of 128 "[1, 2, 3]" "0::u8"] by (simp add: numeral_3_eq_3)

text \<open>
  \<^verbatim>\<open>CIRC_BUF_PEEK_TAIL\<close> and \<^verbatim>\<open>CIRC_BUF_POKE_TAIL\<close> do not wrap: on a well-formed buffer
  they leave the array exactly when it is non-empty and its tail pointer is at the first
  cell, although \<^verbatim>\<open>CIRC_BUF_POP_TAIL\<close> on the same buffer returns the last element.
\<close>

theorem circ_peek_tail_out_of_bounds:
  assumes "circ_inv q"
  shows "(CIRC_BUF_PEEK_TAIL q = Inl OutOfBounds \<longleftrightarrow> circ_list q \<noteq> [] \<and> cb_tail q = 0)
    \<and> (CIRC_BUF_POKE_TAIL q v = Inl OutOfBounds \<longleftrightarrow> circ_list q \<noteq> [] \<and> cb_tail q = 0)
    \<and> (circ_list q \<noteq> [] \<longrightarrow> snd (CIRC_BUF_POP_TAIL q) = Some (last (circ_list q)))"
proof (intro conjI impI)
  show "CIRC_BUF_PEEK_TAIL q = Inl OutOfBounds \<longleftrightarrow> circ_list q \<noteq> [] \<and> cb_tail q = 0"
    by (auto simp: CIRC_BUF_PEEK_TAIL_def CIRC_BUF_EMPTY_iff)
  show "CIRC_BUF_POKE_TAIL q v = Inl OutOfBounds \<longleftrightarrow> circ_list q \<noteq> [] \<and> cb_tail q = 0"
    by (auto simp: CIRC_BUF_POKE_TAIL_def CIRC_BUF_EMPTY_iff)
  show "snd (CIRC_BUF_POP_TAIL q) = Some (last (circ_list q))" if "circ_list q \<noteq> []"
  proof -
    obtain q' r where p: "CIRC_BUF_POP_TAIL q = (q', r)" by fastforce
    from that have "circ_list q = butlast (circ_list q) @ [last (circ_list q)]" by simp
    from circ_pop_tail_ok(2) [OF assms this p] p show ?thesis by simp
  qed
qed

theorem circ_peek_tail_out_of_bounds_witness:
  "CIRC_BUF_PEEK_TAIL \<lparr>cb_head = 3, cb_tail = 0, cb_buf = [0, 0, 0, 5 :: u8]\<rparr> = Inl OutOfBounds"
proof -
  let ?q = "\<lparr>cb_head = 3, cb_tail = 0, cb_buf = [0, 0, 0, 5 :: u8]\<rparr>"
  have "circ_inv ?q" by code_simp
  moreover have "circ_list ?q = [5]" by code_simp
  ultimately show ?thesis using circ_peek_tail_out_of_bounds [of ?q 0] by simp
qed

end
