(* ===== verification/Lib_String.thy ===== *)
theory Lib_String
  imports Prelude
begin

text \<open>
  \<^verbatim>\<open>student-distrib/lib.c\<close>, the string and formatting functions. A \<open>char *\<close> is the list of bytes from the pointer to
  the end of the object it points into; an access past that end is \<open>None\<close>. Loops keep the
  index of the source. The lemmas describe each function on the C string \<open>cstr\<close> it reads
  (the bytes before the first NUL).
\<close>

section \<open>Definitions\<close>

definition cstr :: "u8 list \<Rightarrow> u8 list" where
  "cstr s = takeWhile (\<lambda>c. c \<noteq> 0) s"

definition chars :: "string \<Rightarrow> u8 list" where
  "chars s = map (\<lambda>c. of_nat (of_char c)) s"

function strlen_loop :: "u8 list \<Rightarrow> nat \<Rightarrow> nat option" where
  "strlen_loop s len =
     (if len < length s then (if s ! len \<noteq> 0 then strlen_loop s (len + 1) else Some len)
      else None)"
  by pat_completeness auto
termination by (relation "measure (\<lambda>(s, len). length s - len)") auto

definition strlen :: "u8 list \<Rightarrow> nat option" where
  "strlen s = strlen_loop s 0"

text \<open>\<open>strncmp\<close>: characters are signed, the result is their difference.\<close>

function strncmp_loop :: "u8 list \<Rightarrow> u8 list \<Rightarrow> nat \<Rightarrow> nat \<Rightarrow> int option" where
  "strncmp_loop s1 s2 n i =
     (if i < n then
        if i < length s1 \<and> i < length s2 then
          if s1 ! i \<noteq> s2 ! i \<or> s1 ! i = 0 then Some (sint (s1 ! i) - sint (s2 ! i))
          else strncmp_loop s1 s2 n (i + 1)
        else None
      else Some 0)"
  by pat_completeness auto
termination by (relation "measure (\<lambda>(s1, s2, n, i). n - i)") auto

definition strncmp :: "u8 list \<Rightarrow> u8 list \<Rightarrow> nat \<Rightarrow> int option" where
  "strncmp s1 s2 n = strncmp_loop s1 s2 n 0"

text \<open>Stores into the destination are checked against its length.\<close>

definition store :: "u8 list \<Rightarrow> nat \<Rightarrow> u8 \<Rightarrow> u8 list option" where
  "store dest i v = (if i < length dest then Some (dest[i := v]) else None)"

function strcpy_loop :: "u8 list \<Rightarrow> u8 list \<Rightarrow> nat \<Rightarrow> u8 list option" where
  "strcpy_loop dest src i =
     (if i < length src then
        if src ! i \<noteq> 0 then
          (case store dest i (src ! i) of None \<Rightarrow> None | Some dest' \<Rightarrow> strcpy_loop dest' src (i + 1))
        else store dest i 0
      else None)"
  by pat_completeness auto
termination by (relation "measure (\<lambda>(dest, src, i). length src - i)") auto

definition strcpy :: "u8 list \<Rightarrow> u8 list \<Rightarrow> u8 list option" where
  "strcpy dest src = strcpy_loop dest src 0"

text \<open>
  \<open>strncpy\<close> tests \<open>src[i]\<close> before \<open>i < n\<close>, so it reads \<open>src[n]\<close> when no NUL comes before.
\<close>

function strncpy_copy :: "u8 list \<Rightarrow> u8 list \<Rightarrow> nat \<Rightarrow> nat \<Rightarrow> (u8 list \<times> nat) option" where
  "strncpy_copy dest src n i =
     (if i < length src then
        if src ! i \<noteq> 0 \<and> i < n then
          (case store dest i (src ! i) of None \<Rightarrow> None | Some dest' \<Rightarrow> strncpy_copy dest' src n (i + 1))
        else Some (dest, i)
      else None)"
  by pat_completeness auto
termination by (relation "measure (\<lambda>(dest, src, n, i). n - i)") auto

function strncpy_pad :: "u8 list \<Rightarrow> nat \<Rightarrow> nat \<Rightarrow> u8 list option" where
  "strncpy_pad dest n i =
     (if i < n then
        (case store dest i 0 of None \<Rightarrow> None | Some dest' \<Rightarrow> strncpy_pad dest' n (i + 1))
      else Some dest)"
  by pat_completeness auto
termination by (relation "measure (\<lambda>(dest, n, i). n - i)") auto

definition strncpy :: "u8 list \<Rightarrow> u8 list \<Rightarrow> nat \<Rightarrow> u8 list option" where
  "strncpy dest src n =
     (case strncpy_copy dest src n 0 of None \<Rightarrow> None | Some (dest', i) \<Rightarrow> strncpy_pad dest' n i)"

text \<open>\<open>strrev\<close> and \<open>itoa\<close> work in place.\<close>

function strrev_loop :: "u8 list \<Rightarrow> int \<Rightarrow> int \<Rightarrow> u8 list" where
  "strrev_loop s beg end =
     (if beg < end
      then strrev_loop (s[nat end := s ! nat beg, nat beg := s ! nat end]) (beg + 1) (end - 1)
      else s)"
  by pat_completeness auto
termination by (relation "measure (\<lambda>(s, beg, end). nat (end - beg))") auto

definition strrev :: "u8 list \<Rightarrow> u8 list option" where
  "strrev s = (case strlen s of None \<Rightarrow> None | Some n \<Rightarrow> Some (strrev_loop s 0 (int n - 1)))"

definition lookup :: "u8 list" where
  "lookup = chars ''0123456789ABCDEFGHIJKLMNOPQRSTUVWXYZ'' @ [0]"

text \<open>A radix of 0 divides by zero and a radix of 1 never returns: both are \<open>None\<close>.\<close>

function itoa_loop :: "nat \<Rightarrow> nat \<Rightarrow> u8 list \<Rightarrow> nat \<Rightarrow> (u8 list \<times> nat) option" where
  "itoa_loop radix newval buf newbuf =
     (if newval > 0 then
        if radix < 2 then None
        else if newval mod radix < length lookup then
          (case store buf newbuf (lookup ! (newval mod radix)) of
             None \<Rightarrow> None
           | Some buf' \<Rightarrow> itoa_loop radix (newval div radix) buf' (newbuf + 1))
        else None
      else Some (buf, newbuf))"
  by pat_completeness auto
termination by (relation "measure (\<lambda>(radix, newval, buf, newbuf). newval)") auto

definition itoa :: "u32 \<Rightarrow> u8 list \<Rightarrow> u32 \<Rightarrow> u8 list option" where
  "itoa val buf radix =
     (if val = 0 then
        (case store buf 0 (of_char (CHR ''0'')) of None \<Rightarrow> None | Some buf' \<Rightarrow> store buf' 1 0)
      else
        (case itoa_loop (unat radix) (unat val) buf 0 of
           None \<Rightarrow> None
         | Some (buf', newbuf) \<Rightarrow>
             (case store buf' newbuf 0 of None \<Rightarrow> None | Some buf'' \<Rightarrow> strrev buf'')))"

text \<open>
  \<open>printf\<close>: \<open>fmt\<close> is the rest of the format string, \<open>args\<close> the words on the stack after it and
  \<open>strs a\<close> the bytes at address \<open>a\<close>. The result is what is passed to \<open>putc\<close>, in order, and how
  far the format pointer moved. \<open>conv_buf\<close> is a local array that \<open>itoa\<close> overwrites.
\<close>

function printf_pad :: "u8 list \<Rightarrow> nat \<Rightarrow> u8 list" where
  "printf_pad conv_buf i = (if i < 8 then printf_pad (conv_buf[i := of_char (CHR ''0'')]) (i + 1) else conv_buf)"
  by pat_completeness auto
termination by (relation "measure (\<lambda>(c, i). 8 - i)") auto

definition puts_bytes :: "u8 list \<Rightarrow> u8 list option" where
  "puts_bytes s = (case strlen s of None \<Rightarrow> None | Some n \<Rightarrow> Some (take n s))"

definition printf_hex :: "bool \<Rightarrow> u32 \<Rightarrow> u8 list option" where
  "printf_hex alternate a =
     (let conv_buf = replicate 64 0 in
      if \<not> alternate then Option.bind (itoa a conv_buf 16) puts_bytes
      else case itoa a (drop 8 conv_buf) 16 of
          None \<Rightarrow> None
        | Some hi \<Rightarrow> (case strlen hi of
              None \<Rightarrow> None
            | Some starting_index \<Rightarrow>
                puts_bytes (drop starting_index (printf_pad (take 8 conv_buf @ hi) starting_index))))"

definition printf_signed :: "u32 \<Rightarrow> u8 list option" where
  "printf_signed a =
     (let conv_buf = replicate 36 0 in
      if sint a < 0 then
        (case itoa (- a) (drop 1 conv_buf) 10 of
           None \<Rightarrow> None | Some hi \<Rightarrow> puts_bytes (of_char (CHR ''-'') # hi))
      else Option.bind (itoa a conv_buf 10) puts_bytes)"

definition pop_arg :: "u32 list \<Rightarrow> (u32 \<Rightarrow> u8 list option) \<Rightarrow> (u8 list \<times> u32 list) option" where
  "pop_arg args f = (case args of [] \<Rightarrow> None | a # as \<Rightarrow> map_option (\<lambda>out. (out, as)) (f a))"

fun format_char_switch ::
  "(u32 \<Rightarrow> u8 list) \<Rightarrow> bool \<Rightarrow> u8 list \<Rightarrow> u32 list \<Rightarrow> (u8 list \<times> u8 list \<times> u32 list) option" where
  "format_char_switch strs alternate [] args = None"
| "format_char_switch strs alternate (c # rest) args =
     (if c = of_char (CHR ''%'') then Some ([c], rest, args)
      else if c = of_char (CHR ''#'') then format_char_switch strs True rest args
      else map_option (\<lambda>(out, as). (out, rest, as))
        (if c = of_char (CHR ''x'') then pop_arg args (printf_hex alternate)
         else if c = of_char (CHR ''u'') then
           pop_arg args (\<lambda>a. Option.bind (itoa a (replicate 36 0) 10) puts_bytes)
         else if c = of_char (CHR ''d'') then pop_arg args printf_signed
         else if c = of_char (CHR ''c'') then pop_arg args (\<lambda>a. Some [ucast a])
         else if c = of_char (CHR ''s'') then pop_arg args (\<lambda>a. puts_bytes (strs a))
         else Some ([], args)))"

lemma format_char_switch_length:
  "format_char_switch strs alternate fmt args = Some (out, rest, args') \<Longrightarrow> length rest < length fmt"
  by (induction strs alternate fmt args rule: format_char_switch.induct)
    (auto split: if_splits simp: less_SucI)

function printf_loop :: "(u32 \<Rightarrow> u8 list) \<Rightarrow> u8 list \<Rightarrow> u32 list \<Rightarrow> (u8 list \<times> nat) option" where
  "printf_loop strs fmt args =
     (case fmt of
        [] \<Rightarrow> None
      | c # rest \<Rightarrow>
          if c = 0 then Some ([], 0)
          else if c = of_char (CHR ''%'') then
            (case format_char_switch strs False rest args of
               None \<Rightarrow> None
             | Some (out, rest', args') \<Rightarrow>
                 map_option (\<lambda>(out', n). (out @ out', length fmt - length rest' + n))
                   (printf_loop strs rest' args'))
          else map_option (\<lambda>(out', n). (c # out', n + 1)) (printf_loop strs rest args))"
  by pat_completeness auto
termination
  by (relation "measure (\<lambda>(strs, fmt, args). length fmt)")
    (auto dest: format_char_switch_length)

definition printf :: "(u32 \<Rightarrow> u8 list) \<Rightarrow> u8 list \<Rightarrow> u32 list \<Rightarrow> (u8 list \<times> nat) option" where
  "printf strs format args = printf_loop strs format args"

text \<open>The digits of a number, least significant first, as the specification of \<open>itoa\<close>.\<close>

fun digits :: "nat \<Rightarrow> nat \<Rightarrow> nat list" where
  "digits radix n = (if n = 0 \<or> radix < 2 then [] else n mod radix # digits radix (n div radix))"

fun digits_value :: "nat \<Rightarrow> nat list \<Rightarrow> nat" where
  "digits_value radix [] = 0"
| "digits_value radix (d # ds) = d + radix * digits_value radix ds"

definition numeral_text :: "nat \<Rightarrow> nat \<Rightarrow> u8 list" where
  "numeral_text radix n =
     (if n = 0 then [of_char (CHR ''0'')] else map (\<lambda>d. lookup ! d) (rev (digits radix n)))"

declare strlen_loop.simps [simp del] strncmp_loop.simps [simp del] strcpy_loop.simps [simp del]
  strncpy_copy.simps [simp del] strncpy_pad.simps [simp del] strrev_loop.simps [simp del]
  itoa_loop.simps [simp del] digits.simps [simp del] printf_pad.simps [simp del]
  printf_loop.simps [simp del]

section \<open>strlen, strncmp, strncpy\<close>

lemma strlen_loop_eq:
  "k \<le> length s \<Longrightarrow> strlen_loop s k =
     (if 0 \<in> set (drop k s) then Some (k + length (cstr (drop k s))) else None)"
proof (induction s k rule: strlen_loop.induct)
  case (1 s k)
  show ?case
  proof (cases "k < length s")
    case True
    then have d: "drop k s = s ! k # drop (Suc k) s" by (rule Cons_nth_drop_Suc [symmetric])
    from True 1 show ?thesis by (subst strlen_loop.simps) (auto simp: d cstr_def)
  next
    case False
    with 1 show ?thesis by (subst strlen_loop.simps) auto
  qed
qed

lemma strlen_eq: "strlen s = (if 0 \<in> set s then Some (length (cstr s)) else None)"
  by (simp add: strlen_def strlen_loop_eq)

lemma cstr_no_nul [simp]: "0 \<notin> set (cstr s)"
  by (auto simp: cstr_def dest: set_takeWhileD)

lemma cstr_append_nul [simp]: "0 \<notin> set xs \<Longrightarrow> cstr (xs @ 0 # ys) = xs"
  by (induction xs) (auto simp: cstr_def)

lemma cstr_nth: "i < length (cstr s) \<Longrightarrow> cstr s ! i = s ! i"
  by (simp add: cstr_def takeWhile_nth)

lemma cstr_length_le: "length (cstr s) \<le> length s"
  by (simp add: cstr_def length_takeWhile_le)

lemma nul_after_cstr: "0 \<in> set s \<Longrightarrow> length (cstr s) < length s \<and> s ! length (cstr s) = 0"
  by (induction s) (auto simp: cstr_def)

lemma cstr_take: "cstr (take n s) = take n (cstr s)"
  by (induction s arbitrary: n) (auto simp: cstr_def take_Cons')

lemma cstr_drop: "i \<le> length (cstr s) \<Longrightarrow> cstr (drop i s) = drop i (cstr s)"
  by (induction s arbitrary: i) (auto simp: cstr_def drop_Cons' split: if_splits)

text \<open>The comparison loop as a recursion on the two strings.\<close>

fun cmpn :: "nat \<Rightarrow> u8 list \<Rightarrow> u8 list \<Rightarrow> int option" where
  "cmpn 0 _ _ = Some 0"
| "cmpn (Suc n) (a # as) (b # bs) =
     (if a \<noteq> b \<or> a = 0 then Some (sint a - sint b) else cmpn n as bs)"
| "cmpn (Suc n) _ _ = None"

lemma strncmp_loop_cmpn:
  "strncmp_loop s1 s2 n i = cmpn (n - i) (drop i s1) (drop i s2)"
proof (induction s1 s2 n i rule: strncmp_loop.induct)
  case (1 s1 s2 n i)
  show ?case
  proof (cases "i < n")
    case True
    then have n: "n - i = Suc (n - Suc i)" by simp
    show ?thesis
    proof (cases "i < length s1 \<and> i < length s2")
      case True
      then have "drop i s1 = s1 ! i # drop (Suc i) s1" "drop i s2 = s2 ! i # drop (Suc i) s2"
        by (simp_all add: Cons_nth_drop_Suc)
      with True \<open>i < n\<close> 1 show ?thesis by (subst strncmp_loop.simps) (simp add: n)
    next
      case False
      with \<open>i < n\<close> show ?thesis
        by (subst strncmp_loop.simps) (cases "drop i s1"; cases "drop i s2"; auto simp: n)
    qed
  qed (subst strncmp_loop.simps, simp)
qed

definition readable :: "u8 list \<Rightarrow> nat \<Rightarrow> bool" where
  "readable s n \<longleftrightarrow> 0 \<in> set s \<or> n \<le> length s"

lemma cmpn_zero:
  "readable s1 n \<Longrightarrow> readable s2 n \<Longrightarrow>
     \<exists>r. cmpn n s1 s2 = Some r \<and> (r = 0 \<longleftrightarrow> take n (cstr s1) = take n (cstr s2))"
proof (induction n s1 s2 rule: cmpn.induct)
  case (2 n a as b bs)
  show ?case
  proof (cases "a = b \<and> a \<noteq> 0")
    case True
    with 2 show ?thesis by (auto simp: readable_def cstr_def)
  next
    case False
    have "sint a - sint b = 0 \<longleftrightarrow> a = b" by (simp add: sint_inject)
    with False show ?thesis by (auto simp: cstr_def)
  qed
qed (auto simp: readable_def)

lemma strncmp_zero_iff:
  assumes "readable s1 n" "readable s2 n"
  shows "\<exists>r. strncmp s1 s2 n = Some r \<and> (r = 0 \<longleftrightarrow> take n (cstr s1) = take n (cstr s2))"
  using cmpn_zero [OF assms] by (simp add: strncmp_def strncmp_loop_cmpn)

lemma store_Some [simp]: "i < length dest \<Longrightarrow> store dest i v = Some (dest[i := v])"
  by (simp add: store_def)

lemma strncpy_copy_eq:
  "i \<le> n \<Longrightarrow> n \<le> length dest \<Longrightarrow> i \<le> length src \<Longrightarrow> 0 \<in> set (drop i src) \<or> n < length src \<Longrightarrow>
   w = take (n - i) (cstr (drop i src)) \<Longrightarrow>
   strncpy_copy dest src n i = Some (take i dest @ w @ drop (i + length w) dest, i + length w)"
proof (induction dest src n i arbitrary: w rule: strncpy_copy.induct)
  case (1 dest src n i)
  from "1.prems" have i: "i < length src" by (cases "i = length src") auto
  then have d: "drop i src = src ! i # drop (Suc i) src" by (simp add: Cons_nth_drop_Suc)
  show ?case
  proof (cases "src ! i \<noteq> 0 \<and> i < n")
    case True
    let ?w = "take (n - Suc i) (cstr (drop (Suc i) src))"
    have w: "w = src ! i # ?w"
      using "1.prems" True d by (simp add: cstr_def take_Cons')
    have z: "0 \<in> set (drop (Suc i) src) \<or> n < length src" using "1.prems"(4) d True by auto
    have s: "store dest i (src ! i) = Some (dest[i := src ! i])" using "1.prems" True by simp
    have "strncpy_copy (dest[i := src ! i]) src n (i + 1)
        = Some (take (i + 1) (dest[i := src ! i]) @ ?w @ drop (i + 1 + length ?w) (dest[i := src ! i]),
            i + 1 + length ?w)"
      using "1.IH" [OF i True s, of ?w] "1.prems" True i z by simp
    moreover have "take (i + 1) (dest[i := src ! i]) = take i dest @ [src ! i]"
      using "1.prems" True by (simp add: take_Suc_snoc)
    ultimately show ?thesis
      using i True s by (subst strncpy_copy.simps) (simp add: w)
  next
    case False
    with "1.prems" d have "w = []" by (auto simp: cstr_def)
    moreover have "strncpy_copy dest src n i = Some (dest, i)"
      using False i by (subst strncpy_copy.simps) auto
    ultimately show ?thesis by simp
  qed
qed

lemma strncpy_pad_eq:
  "i \<le> n \<Longrightarrow> n \<le> length dest \<Longrightarrow>
   strncpy_pad dest n i = Some (take i dest @ replicate (n - i) 0 @ drop n dest)"
proof (induction dest n i rule: strncpy_pad.induct)
  case (1 dest n i)
  show ?case
  proof (cases "i < n")
    case True
    have s: "store dest i 0 = Some (dest[i := 0])" using "1.prems" True by simp
    have "strncpy_pad (dest[i := 0]) n (i + 1)
        = Some (take (i + 1) (dest[i := 0]) @ replicate (n - (i + 1)) 0 @ drop n (dest[i := 0]))"
      using "1.IH" [OF True s] "1.prems" True by simp
    moreover have "take (i + 1) (dest[i := 0]) = take i dest @ [0]"
      using "1.prems" True by (simp add: take_Suc_snoc)
    moreover have "n - i = Suc (n - (i + 1))" using True by simp
    ultimately show ?thesis using True s by (subst strncpy_pad.simps) simp
  next
    case False
    with "1.prems" show ?thesis by (subst strncpy_pad.simps) simp
  qed
qed

lemma strncpy_eq:
  assumes "n \<le> length dest" "0 \<in> set src \<or> n < length src"
  shows "strncpy dest src n = Some (take n (cstr src) @ replicate (n - length (cstr src)) 0 @ drop n dest)"
proof -
  let ?w = "take n (cstr src)"
  have "strncpy_copy dest src n 0 = Some (?w @ drop (length ?w) dest, length ?w)"
    using strncpy_copy_eq [of 0 n dest src ?w] assms by simp
  moreover have "strncpy_pad (?w @ drop (length ?w) dest) n (length ?w)
      = Some (?w @ replicate (n - length ?w) 0 @ drop n dest)"
    using assms(1) strncpy_pad_eq [of "length ?w" n "?w @ drop (length ?w) dest"]
    by (simp add: min_def take_all_iff)
  moreover have "n - length ?w = n - length (cstr src)" by simp
  ultimately show ?thesis by (simp add: strncpy_def)
qed

section \<open>strrev and itoa\<close>

lemma strrev_loop_nth:
  "0 \<le> b \<Longrightarrow> e < int (length s) \<Longrightarrow>
   length (strrev_loop s b e) = length s \<and>
   (\<forall>i < length s. strrev_loop s b e ! i =
      (if b \<le> int i \<and> int i \<le> e then s ! nat (b + e - int i) else s ! i))"
proof (induction s b e rule: strrev_loop.induct)
  case (1 s b e)
  show ?case
  proof (cases "b < e")
    case True
    let ?s = "s[nat e := s ! nat b, nat b := s ! nat e]"
    have IH: "length (strrev_loop ?s (b + 1) (e - 1)) = length s \<and>
      (\<forall>i < length s. strrev_loop ?s (b + 1) (e - 1) ! i =
        (if b + 1 \<le> int i \<and> int i \<le> e - 1 then ?s ! nat (b + e - int i) else ?s ! i))"
      using "1.IH" [OF True] "1.prems" True by simp
    have "strrev_loop ?s (b + 1) (e - 1) ! i =
        (if b \<le> int i \<and> int i \<le> e then s ! nat (b + e - int i) else s ! i)" if "i < length s" for i
    proof -
      consider "int i = b" | "int i = e" | "b < int i \<and> int i < e" | "int i < b \<or> e < int i"
        by linarith
      then show ?thesis
      proof cases
        case 3
        then have "nat (b + e - int i) \<noteq> nat b" "nat (b + e - int i) \<noteq> nat e"
          using "1.prems" by auto
        with 3 IH that show ?thesis by simp
      next
        case 1
        then have "i = nat b" by simp
        with 1 IH that True show ?thesis by simp
      next
        case 2
        then have "i = nat e" "nat b \<noteq> nat e" using True "1.prems" by auto
        with 2 IH that True show ?thesis by simp
      next
        case 4
        then have "i \<noteq> nat b" "i \<noteq> nat e" using "1.prems" True by linarith+
        with 4 IH that show ?thesis by auto
      qed
    qed
    with IH True show ?thesis by (subst (1 2) strrev_loop.simps) simp
  next
    case False
    then show ?thesis using "1.prems" by (subst (1 2) strrev_loop.simps) (auto simp: antisym_conv)
  qed
qed

lemma strrev_eq:
  assumes "0 \<notin> set xs"
  shows "strrev (xs @ 0 # ys) = Some (rev xs @ 0 # ys)"
proof -
  let ?s = "xs @ 0 # ys" and ?e = "int (length xs) - 1"
  have nth: "length (strrev_loop ?s 0 ?e) = length ?s \<and>
    (\<forall>i < length ?s. strrev_loop ?s 0 ?e ! i =
      (if 0 \<le> int i \<and> int i \<le> ?e then ?s ! nat (0 + ?e - int i) else ?s ! i))"
    by (rule strrev_loop_nth) simp_all
  have "strrev_loop ?s 0 ?e = rev xs @ 0 # ys"
  proof (rule nth_equalityI)
    fix i assume "i < length (strrev_loop ?s 0 ?e)"
    then have i: "i < length ?s" using nth by simp
    have "nat (?e - int i) = length xs - Suc i" by simp
    then show "strrev_loop ?s 0 ?e ! i = (rev xs @ 0 # ys) ! i"
      using nth i by (auto simp: nth_append rev_nth)
  qed (use nth in simp)
  then show ?thesis using assms by (simp add: strrev_def strlen_eq)
qed

lemma length_lookup: "length lookup = 37"
  by (simp add: lookup_def chars_def)

lemma digits_Nil [simp]: "digits radix 0 = []"
  by (simp add: digits.simps)

lemma digits_pos: "0 < n \<Longrightarrow> 2 \<le> radix \<Longrightarrow> digits radix n = n mod radix # digits radix (n div radix)"
  by (simp add: digits.simps [of radix n])

lemma digits_less: "2 \<le> radix \<Longrightarrow> d \<in> set (digits radix n) \<Longrightarrow> d < radix"
proof (induction radix n rule: digits.induct)
  case (1 radix n)
  then show ?case by (cases "n = 0") (auto simp: digits_pos)
qed

lemma digits_value: "2 \<le> radix \<Longrightarrow> digits_value radix (digits radix n) = n"
proof (induction radix n rule: digits.induct)
  case (1 radix n)
  then show ?case by (cases "n = 0") (auto simp: digits_pos)
qed

lemma digits_length: "2 \<le> radix \<Longrightarrow> n < radix ^ k \<Longrightarrow> length (digits radix n) \<le> k"
proof (induction k arbitrary: n)
  case (Suc k)
  show ?case
  proof (cases "n = 0")
    case False
    have "n div radix < radix ^ k" using Suc.prems by (simp add: less_mult_imp_div_less mult.commute)
    with Suc False show ?thesis by (simp add: digits_pos)
  qed simp
qed simp

lemma digits_last: "2 \<le> radix \<Longrightarrow> 0 < n \<Longrightarrow> digits radix n \<noteq> []"
  by (simp add: digits_pos)

lemma itoa_loop_eq:
  "2 \<le> radix \<Longrightarrow> radix \<le> 36 \<Longrightarrow> k + length (digits radix v) \<le> length buf \<Longrightarrow>
   itoa_loop radix v buf k = Some (take k buf @ map (\<lambda>d. lookup ! d) (digits radix v)
      @ drop (k + length (digits radix v)) buf, k + length (digits radix v))"
proof (induction radix v buf k rule: itoa_loop.induct)
  case (1 radix v buf k)
  show ?case
  proof (cases "v > 0")
    case True
    let ?x = "lookup ! (v mod radix)"
    have d: "digits radix v = v mod radix # digits radix (v div radix)"
      using True 1 by (simp add: digits_pos)
    have k: "k < length buf" using "1.prems" d by simp
    have "v mod radix < radix" using "1.prems" by (intro mod_less_divisor) simp
    then have l: "v mod radix < length lookup" using "1.prems" length_lookup by linarith
    have "\<not> radix < 2" using "1.prems" by simp
    note IH = "1.IH" [OF True this l store_Some [OF k]]
    have "itoa_loop radix (v div radix) (buf[k := ?x]) (k + 1)
        = Some (take (k + 1) (buf[k := ?x]) @ map (\<lambda>d. lookup ! d) (digits radix (v div radix))
            @ drop (k + 1 + length (digits radix (v div radix))) (buf[k := ?x]),
            k + 1 + length (digits radix (v div radix)))"
      by (rule IH) (use "1.prems" d in auto)
    moreover have "take (k + 1) (buf[k := ?x]) = take k buf @ [?x]" using k by (simp add: take_Suc_snoc)
    ultimately show ?thesis
      using True "1.prems" l k by (subst itoa_loop.simps) (simp add: d)
  next
    case False
    then show ?thesis by (subst itoa_loop.simps) simp
  qed
qed

lemma lookup_nonzero: "d < 36 \<Longrightarrow> lookup ! d \<noteq> 0"
proof -
  assume d: "d < 36"
  then have "lookup ! d = take 36 lookup ! d" by simp
  also have "\<dots> \<in> set (take 36 lookup)" using d length_lookup by (intro nth_mem) simp
  finally have "lookup ! d \<in> set (take 36 lookup)" .
  moreover have "0 \<notin> set (take 36 lookup)" by code_simp
  ultimately show ?thesis by metis
qed

lemma length_numeral_text:
  "2 \<le> radix \<Longrightarrow> n < radix ^ k \<Longrightarrow> 1 \<le> k \<Longrightarrow> length (numeral_text radix n) \<le> k"
  by (simp add: numeral_text_def digits_length)

lemma numeral_text_no_nul: "2 \<le> radix \<Longrightarrow> radix \<le> 36 \<Longrightarrow> 0 \<notin> set (numeral_text radix n)"
proof -
  assume r: "2 \<le> radix" "radix \<le> 36"
  have "lookup ! d \<noteq> 0" if "d \<in> set (digits radix n)" for d
    using lookup_nonzero digits_less [OF r(1) that] r(2) by simp
  then show ?thesis by (auto simp: numeral_text_def)
qed

lemma itoa_eq:
  assumes "2 \<le> unat radix" "unat radix \<le> 36" and "length (numeral_text (unat radix) (unat v)) < length buf"
  shows "itoa v buf radix = Some (numeral_text (unat radix) (unat v)
    @ 0 # drop (Suc (length (numeral_text (unat radix) (unat v)))) buf)"
proof (cases "v = 0")
  case True
  with assms(3) obtain a b rest where "buf = a # b # rest"
    by (cases buf; cases "tl buf") (auto simp: numeral_text_def)
  with True show ?thesis by (simp add: itoa_def numeral_text_def)
next
  case False
  let ?ds = "digits (unat radix) (unat v)" and ?t = "map (\<lambda>d. lookup ! d) (digits (unat radix) (unat v))"
  have pos: "unat v \<noteq> 0" using False by (simp add: unat_eq_0)
  then have t: "numeral_text (unat radix) (unat v) = rev ?t" by (simp add: numeral_text_def rev_map)
  have len: "length ?t < length buf" using assms(3) t by simp
  have z: "0 \<notin> set ?t" using numeral_text_no_nul [OF assms(1,2), of "unat v"] t by simp
  have l: "itoa_loop (unat radix) (unat v) buf 0 = Some (?t @ drop (length ?t) buf, length ?t)"
    using itoa_loop_eq [OF assms(1,2), of 0 "unat v" buf] len by simp
  have "(?t @ drop (length ?t) buf)[length ?t := 0] = ?t @ 0 # drop (Suc (length ?t)) buf"
    using len by (simp add: list_update_append Cons_nth_drop_Suc [symmetric])
  then have "store (?t @ drop (length ?t) buf) (length ?t) 0 = Some (?t @ 0 # drop (Suc (length ?t)) buf)"
    using len by (simp add: store_def)
  then show ?thesis using False l z t by (simp add: itoa_def strrev_eq)
qed

lemma puts_bytes_eq: "0 \<notin> set xs \<Longrightarrow> puts_bytes (xs @ 0 # ys) = Some xs"
  by (simp add: puts_bytes_def strlen_eq)

lemma printf_pad_nth:
  "8 \<le> length b \<Longrightarrow> length (printf_pad b i) = length b \<and>
   (\<forall>j < length b. printf_pad b i ! j = (if i \<le> j \<and> j < 8 then of_char (CHR ''0'') else b ! j))"
proof (induction b i rule: printf_pad.induct)
  case (1 b i)
  show ?case
  proof (cases "i < 8")
    case True
    with 1 show ?thesis by (subst (1 2) printf_pad.simps) (auto simp: nth_list_update)
  next
    case False
    then show ?thesis by (subst (1 2) printf_pad.simps) auto
  qed
qed

lemma printf_pad_eq:
  assumes "length pre = 8" "i \<le> 8"
  shows "drop i (printf_pad (pre @ t) i) = replicate (8 - i) (of_char (CHR ''0'')) @ t"
  using assms printf_pad_nth [of "pre @ t" i]
  by (intro nth_equalityI) (auto simp: nth_append add.commute)

lemma digits_last_nonzero: "2 \<le> radix \<Longrightarrow> 0 < n \<Longrightarrow> last (digits radix n) \<noteq> 0"
proof (induction radix n rule: digits.induct)
  case (1 radix n)
  show ?case
  proof (cases "n div radix = 0")
    case True
    then have "n < radix" using 1 by (simp add: div_eq_0_iff)
    with 1 True show ?thesis by (simp add: digits_pos)
  next
    case False
    with 1 show ?thesis by (simp add: digits_pos digits_last)
  qed
qed

lemma length_numeral_text_32:
  assumes "2 \<le> radix" shows "length (numeral_text radix (unat (v :: u32))) \<le> 32"
proof -
  have "unat v < 2 ^ 32" by (rule unat_u32_less)
  also have "\<dots> \<le> radix ^ 32" using assms by (rule power_mono) simp
  finally show ?thesis using length_numeral_text [OF assms, of "unat v" 32] by simp
qed

lemma length_numeral_text_hex: "length (numeral_text 16 (unat (v :: u32))) \<le> 8"
  using unat_u32_less [of v] length_numeral_text [of 16 "unat v" 8] by simp

lemma printf_hex_eq:
  "printf_hex True a = Some (replicate (8 - length (numeral_text 16 (unat a))) (of_char (CHR ''0''))
     @ numeral_text 16 (unat a))"
proof -
  let ?t = "numeral_text 16 (unat a)"
  have l: "length ?t \<le> 8" by (rule length_numeral_text_hex)
  have z: "0 \<notin> set ?t" by (simp add: numeral_text_no_nul)
  obtain ys where i: "itoa a (replicate 56 0) 16 = Some (?t @ 0 # ys)"
    using itoa_eq [of 16 a "replicate 56 0"] l by simp
  have "drop 8 (replicate 64 (0::u8)) = replicate 56 0" "length (take 8 (replicate 64 (0::u8))) = 8"
    by simp_all
  moreover have "puts_bytes ((replicate (8 - length ?t) (of_char (CHR ''0'')) @ ?t) @ 0 # ys)
      = Some (replicate (8 - length ?t) (of_char (CHR ''0'')) @ ?t)"
    using z by (intro puts_bytes_eq) auto
  ultimately show ?thesis
    using i z l printf_pad_eq [of "take 8 (replicate 64 0)" "length ?t" "?t @ 0 # ys"]
    by (simp add: printf_hex_def Let_def strlen_eq)
qed

section \<open>Properties\<close>

text \<open>
  \<^verbatim>\<open>itoa\<close> terminates for every radix from 2 to 36 and never writes past 33 bytes: the C string
  it leaves in the buffer is the digits of the value, most significant first and without a
  leading zero, and reading them back in that radix gives the value.
\<close>

theorem itoa_correct:
  assumes "2 \<le> unat radix" "unat radix \<le> 36" "33 \<le> length buf"
  shows "\<exists>buf' ds. itoa v buf radix = Some buf' \<and> length buf' = length buf
    \<and> cstr buf' = map (\<lambda>d. lookup ! d) ds \<and> (\<forall>d \<in> set ds. d < unat radix)
    \<and> digits_value (unat radix) (rev ds) = unat v \<and> (v \<noteq> 0 \<longrightarrow> hd ds \<noteq> 0)
    \<and> drop 33 buf' = drop 33 buf"
proof -
  let ?r = "unat radix" and ?t = "numeral_text (unat radix) (unat v)"
  let ?ds = "if v = 0 then [0] else rev (digits ?r (unat v))"
  have l: "length ?t \<le> 32" by (rule length_numeral_text_32 [OF assms(1)])
  have t: "?t = map (\<lambda>d. lookup ! d) ?ds"
    by (simp add: numeral_text_def unat_eq_0) (simp add: lookup_def chars_def)
  have i: "itoa v buf radix = Some (?t @ 0 # drop (Suc (length ?t)) buf)"
    by (rule itoa_eq) (use assms l in auto)
  have "cstr (?t @ 0 # drop (Suc (length ?t)) buf) = ?t"
    using numeral_text_no_nul [OF assms(1,2)] by simp
  moreover have "digits_value ?r (rev ?ds) = unat v" using assms(1) by (simp add: digits_value)
  moreover have "\<forall>d \<in> set ?ds. d < ?r" using assms(1) by (auto dest: digits_less)
  moreover have "v \<noteq> 0 \<longrightarrow> hd ?ds \<noteq> 0"
    using assms(1) digits_last_nonzero [of ?r "unat v"] by (auto simp: hd_rev unat_gt_0)
  moreover have "length (?t @ 0 # drop (Suc (length ?t)) buf) = length buf" using assms(3) l by simp
  moreover have "drop 33 (?t @ 0 # drop (Suc (length ?t)) buf) = drop 33 buf"
    using l by (simp add: drop_Cons')
  ultimately show ?thesis using i t by metis
qed

theorem itoa_correct_witness:
  "\<exists>buf' ds. itoa 391 (replicate 36 0) 10 = Some buf' \<and> cstr buf' = map (\<lambda>d. lookup ! d) ds
     \<and> digits_value 10 (rev ds) = 391"
  using itoa_correct [of 10 "replicate 36 0" 391] by auto

text \<open>
  The conversion \<^verbatim>\<open>%#x\<close> prints exactly eight hexadecimal digits: the value, zero-padded on
  the left, and consumes one argument and three format characters.
\<close>

theorem printf_hex_aligned:
  "printf strs (chars ''%#x'' @ 0 # rest) (a # args)
     = Some (replicate (8 - length (numeral_text 16 (unat a))) (of_char (CHR ''0''))
         @ numeral_text 16 (unat a), 3)
   \<and> length (replicate (8 - length (numeral_text 16 (unat a))) (of_char (CHR ''0'') :: u8)
         @ numeral_text 16 (unat a)) = 8"
  using length_numeral_text_hex [of a]
  by (simp add: printf_def printf_loop.simps [of _ "_ # _"] chars_def pop_arg_def printf_hex_eq)

text \<open>
  \<^verbatim>\<open>strncpy\<close> writes exactly \<open>n\<close> bytes of the destination: the source string cut at \<open>n\<close> bytes,
  then NULs; bytes from \<open>n\<close> on are untouched. It is defined when the source has a NUL or more
  than \<open>n\<close> bytes, one more than it copies.
\<close>

theorem strncpy_writes:
  assumes "n \<le> length dest" "0 \<in> set src \<or> n < length src"
  shows "strncpy dest src n = Some (take n (cstr src) @ replicate (n - length (cstr src)) 0 @ drop n dest)"
  by (rule strncpy_eq [OF assms])

theorem strncpy_writes_witness:
  "strncpy [9, 9, 9, 9] [1, 2, 0] 3 = Some [1, 2, 0, 9]"
  using strncpy_writes [of 3 "[9, 9, 9, 9]" "[1, 2, 0]"] by (simp add: cstr_def)

end
