(* ===== verification/Lib_Printf.thy ===== *)
theory Lib_Printf
  imports Lib_String
begin

text \<open>
  What \<open>printf\<close> of \<^verbatim>\<open>student-distrib/lib.c\<close> prints. A format string with its arguments is a list of pieces:
  plain text and conversions. Parsing the format and converting the arguments prints the pieces one
  after the other, whatever they are, which covers every message the kernel formats.
\<close>

datatype piece =
    Lit "u8 list"
  | Hex u32
  | Hex8 u32
  | Unsigned u32
  | Signed u32
  | Text u32

fun piece_format :: "piece \<Rightarrow> u8 list" where
  "piece_format (Lit w) = w"
| "piece_format (Hex a) = chars ''%x''"
| "piece_format (Hex8 a) = chars ''%#x''"
| "piece_format (Unsigned a) = chars ''%u''"
| "piece_format (Signed a) = chars ''%d''"
| "piece_format (Text a) = chars ''%s''"

fun piece_args :: "piece \<Rightarrow> u32 list" where
  "piece_args (Lit w) = []"
| "piece_args (Hex a) = [a]"
| "piece_args (Hex8 a) = [a]"
| "piece_args (Unsigned a) = [a]"
| "piece_args (Signed a) = [a]"
| "piece_args (Text a) = [a]"

text \<open>\<open>strs a\<close> are the bytes at address \<open>a\<close>.\<close>

fun piece_text :: "(u32 \<Rightarrow> u8 list) \<Rightarrow> piece \<Rightarrow> u8 list" where
  "piece_text strs (Lit w) = w"
| "piece_text strs (Hex a) = numeral_text 16 (unat a)"
| "piece_text strs (Hex8 a) = replicate (8 - length (numeral_text 16 (unat a))) (of_char (CHR ''0'')) @ numeral_text 16 (unat a)"
| "piece_text strs (Unsigned a) = numeral_text 10 (unat a)"
| "piece_text strs (Signed a) = (if sint a < 0 then of_char (CHR ''-'') # numeral_text 10 (unat (- a)) else numeral_text 10 (unat a))"
| "piece_text strs (Text a) = takeWhile (\<lambda>c. c \<noteq> 0) (strs a)"

text \<open>Plain text has no percent sign and no end of string, a string argument has one.\<close>

fun piece_ok :: "(u32 \<Rightarrow> u8 list) \<Rightarrow> piece \<Rightarrow> bool" where
  "piece_ok strs (Lit w) \<longleftrightarrow> 0 \<notin> set w \<and> 37 \<notin> set w"
| "piece_ok strs (Text a) \<longleftrightarrow> 0 \<in> set (strs a)"
| "piece_ok strs p \<longleftrightarrow> True"

definition format_of :: "piece list \<Rightarrow> u8 list" where
  "format_of ps = concat (map piece_format ps)"

definition args_of :: "piece list \<Rightarrow> u32 list" where
  "args_of ps = concat (map piece_args ps)"

definition text_of :: "(u32 \<Rightarrow> u8 list) \<Rightarrow> piece list \<Rightarrow> u8 list" where
  "text_of strs ps = concat (map (piece_text strs) ps)"

lemma format_of_simps [simp]:
  "format_of [] = []" "format_of (p # ps) = piece_format p @ format_of ps"
  "args_of [] = []" "args_of (p # ps) = piece_args p @ args_of ps"
  "text_of strs [] = []" "text_of strs (p # ps) = piece_text strs p @ text_of strs ps"
  by (simp_all add: format_of_def args_of_def text_of_def)

section \<open>The conversions\<close>

lemma itoa_prints:
  assumes "2 \<le> unat radix" "unat radix \<le> 36" "32 < length buf"
  shows "\<exists>ys. itoa v buf radix = Some (numeral_text (unat radix) (unat v) @ 0 # ys)"
    and "Option.bind (itoa v buf radix) puts_bytes = Some (numeral_text (unat radix) (unat v))"
  using itoa_eq [of radix v buf] length_numeral_text_32 [OF assms(1), of v] assms
    puts_bytes_eq [OF numeral_text_no_nul [OF assms(1,2)]] by simp_all

lemma printf_hex_plain: "printf_hex False a = Some (numeral_text 16 (unat a))"
  using itoa_prints(2) [of 16 "replicate 64 0" a] by (simp add: printf_hex_def)

lemma printf_signed_eq: "printf_signed a = Some (piece_text strs (Signed a))"
proof (cases "sint a < 0")
  case True
  obtain ys where i: "itoa (- a) (drop 1 (replicate 36 0)) 10 = Some (numeral_text 10 (unat (- a)) @ 0 # ys)"
    using itoa_prints(1) [of 10 "drop 1 (replicate 36 0)" "- a"] by auto
  have "puts_bytes ((of_char (CHR ''-'') # numeral_text 10 (unat (- a))) @ 0 # ys) = Some (of_char (CHR ''-'') # numeral_text 10 (unat (- a)))"
    by (rule puts_bytes_eq) (use numeral_text_no_nul [of 10] in auto)
  then show ?thesis using True i by (simp add: printf_signed_def)
next
  case False
  then show ?thesis using itoa_prints(2) [of 10 "replicate 36 0" a] by (simp add: printf_signed_def)
qed

lemma puts_bytes_nul: "0 \<in> set bs \<Longrightarrow> puts_bytes bs = Some (takeWhile (\<lambda>c. c \<noteq> 0) bs)"
proof -
  assume "0 \<in> set bs"
  then obtain xs ys where s: "bs = xs @ 0 # ys" "0 \<notin> set xs" by (meson split_list_first)
  then have "takeWhile (\<lambda>c. c \<noteq> 0) bs = xs" by (subst s(1), subst takeWhile_append2) auto
  then show ?thesis using s puts_bytes_eq [of xs ys] by simp
qed

lemma conversion:
  assumes "piece_ok strs p" "\<forall>w. p \<noteq> Lit w"
  shows "\<exists>cs. piece_format p = 37 # cs \<and>
    format_char_switch strs False (cs @ rest) (piece_args p @ args) = Some (piece_text strs p, rest, args)"
  using assms printf_hex_plain itoa_prints(2) [of 10 "replicate 36 0"] printf_signed_eq [of _ strs] puts_bytes_nul
    printf_hex_eq
  by (cases p) (auto simp: chars_def pop_arg_def)

lemma printf_plain:
  "0 \<notin> set w \<Longrightarrow> 37 \<notin> set w \<Longrightarrow> printf_loop strs (w @ fmt) args = map_option (\<lambda>(out, n). (w @ out, length w + n)) (printf_loop strs fmt args)"
proof (induction w)
  case (Cons c w)
  then show ?case by (subst printf_loop.simps) (auto simp: option.map_comp comp_def split_def)
qed (simp add: split_def option.map_ident)

lemma printf_pieces:
  assumes "\<forall>p \<in> set ps. piece_ok strs p"
  shows "printf strs (format_of ps @ [0]) (args_of ps) = Some (text_of strs ps, length (format_of ps))"
  using assms
proof (induction ps)
  case Nil
  show ?case by (simp add: printf_def) (subst printf_loop.simps, simp)
next
  case (Cons p ps)
  show ?case
  proof (cases "\<exists>w. p = Lit w")
    case True
    then show ?thesis using Cons printf_plain [of _ strs "format_of ps @ [0]" "args_of ps"] by (auto simp: printf_def)
  next
    case False
    then obtain cs where cs: "piece_format p = 37 # cs"
      "format_char_switch strs False (cs @ format_of ps @ [0]) (piece_args p @ args_of ps) =
         Some (piece_text strs p, format_of ps @ [0], args_of ps)"
      using conversion [of strs p "format_of ps @ [0]" "args_of ps"] Cons.prems by auto
    then show ?thesis using Cons unfolding printf_def by (subst printf_loop.simps) simp
  qed
qed

section \<open>Properties\<close>



end
