(* ===== verification/Lib_Mem.thy ===== *)
theory Lib_Mem
  imports Prelude
begin

text \<open>
  \<^verbatim>\<open>student-distrib/lib.c\<close>, the memory functions written in inline assembly. Memory is a function
  from 32-bit addresses to bytes, so addresses wrap around as on the machine. The byte loop up
  to the first aligned destination, the \<open>rep stosl\<close> / \<open>rep movsl\<close> block and the byte loop for the
  rest are separate definitions; the counter register is a \<open>nat\<close> below \<open>2^32\<close>. Each optimised
  routine is proved equal to its one-line specification.
\<close>

type_synonym mem = "u32 \<Rightarrow> u8"

section \<open>The routines\<close>

definition byte_of :: "u32 \<Rightarrow> nat \<Rightarrow> u8" where
  "byte_of w i = ucast (drop_bit (8 * i) w)"

definition store32 :: "mem \<Rightarrow> u32 \<Rightarrow> u32 \<Rightarrow> mem" where
  "store32 m a w = m(a := byte_of w 0, a + 1 := byte_of w 1, a + 2 := byte_of w 2, a + 3 := byte_of w 3)"

fun rep_stosb :: "u8 \<Rightarrow> mem \<Rightarrow> u32 \<Rightarrow> nat \<Rightarrow> mem" where
  "rep_stosb al m edi 0 = m"
| "rep_stosb al m edi (Suc k) = rep_stosb al (m(edi := al)) (edi + 1) k"

fun rep_stosl :: "u32 \<Rightarrow> mem \<Rightarrow> u32 \<Rightarrow> nat \<Rightarrow> mem" where
  "rep_stosl eax m edi 0 = m"
| "rep_stosl eax m edi (Suc k) = rep_stosl eax (store32 m edi eax) (edi + 4) k"

fun memset_top :: "u32 \<Rightarrow> mem \<Rightarrow> u32 \<Rightarrow> nat \<Rightarrow> mem" where
  "memset_top eax m edi 0 = m"
| "memset_top eax m edi (Suc k) =
     (if edi AND 3 = 0 then
        rep_stosb (ucast eax) (rep_stosl eax m edi (Suc k div 4)) (edi + 4 * of_nat (Suc k div 4)) (Suc k mod 4)
      else memset_top eax (m(edi := ucast eax)) (edi + 1) k)"

definition memset :: "mem \<Rightarrow> u32 \<Rightarrow> u32 \<Rightarrow> u32 \<Rightarrow> mem" where
  "memset m s c n =
     (let c = c AND 0xFF
      in memset_top (push_bit 24 c OR push_bit 16 c OR push_bit 8 c OR c) m s (unat n))"

definition memset_dword :: "mem \<Rightarrow> u32 \<Rightarrow> u32 \<Rightarrow> u32 \<Rightarrow> mem" where
  "memset_dword m s c n = rep_stosl c m s (unat n)"

fun rep_stosw :: "u32 \<Rightarrow> mem \<Rightarrow> u32 \<Rightarrow> nat \<Rightarrow> mem" where
  "rep_stosw eax m edi 0 = m"
| "rep_stosw eax m edi (Suc k) =
     rep_stosw eax (m(edi := byte_of eax 0, edi + 1 := byte_of eax 1)) (edi + 2) k"

definition memset_word :: "mem \<Rightarrow> u32 \<Rightarrow> u32 \<Rightarrow> u32 \<Rightarrow> mem" where
  "memset_word m s c n = rep_stosw c m s (unat n)"

text \<open>\<open>movsl\<close> reads all four source bytes before it writes.\<close>

definition movsl :: "mem \<Rightarrow> u32 \<Rightarrow> u32 \<Rightarrow> mem" where
  "movsl m edi esi =
     m(edi := m esi, edi + 1 := m (esi + 1), edi + 2 := m (esi + 2), edi + 3 := m (esi + 3))"

fun rep_movsb :: "mem \<Rightarrow> u32 \<Rightarrow> u32 \<Rightarrow> nat \<Rightarrow> mem" where
  "rep_movsb m edi esi 0 = m"
| "rep_movsb m edi esi (Suc k) = rep_movsb (m(edi := m esi)) (edi + 1) (esi + 1) k"

fun rep_movsl :: "mem \<Rightarrow> u32 \<Rightarrow> u32 \<Rightarrow> nat \<Rightarrow> mem" where
  "rep_movsl m edi esi 0 = m"
| "rep_movsl m edi esi (Suc k) = rep_movsl (movsl m edi esi) (edi + 4) (esi + 4) k"

fun memcpy_top :: "mem \<Rightarrow> u32 \<Rightarrow> u32 \<Rightarrow> nat \<Rightarrow> mem" where
  "memcpy_top m edi esi 0 = m"
| "memcpy_top m edi esi (Suc k) =
     (if edi AND 3 = 0 then
        let q = Suc k div 4
        in rep_movsb (rep_movsl m edi esi q) (edi + 4 * of_nat q) (esi + 4 * of_nat q) (Suc k mod 4)
      else memcpy_top (m(edi := m esi)) (edi + 1) (esi + 1) k)"

definition memcpy :: "mem \<Rightarrow> u32 \<Rightarrow> u32 \<Rightarrow> u32 \<Rightarrow> mem" where
  "memcpy m dest src n = memcpy_top m dest src (unat n)"

text \<open>With the direction flag set, \<open>movsb\<close> moves both pointers down.\<close>

fun rep_movsb_down :: "mem \<Rightarrow> u32 \<Rightarrow> u32 \<Rightarrow> nat \<Rightarrow> mem" where
  "rep_movsb_down m edi esi 0 = m"
| "rep_movsb_down m edi esi (Suc k) = rep_movsb_down (m(edi := m esi)) (edi - 1) (esi - 1) k"

definition memmove :: "mem \<Rightarrow> u32 \<Rightarrow> u32 \<Rightarrow> u32 \<Rightarrow> mem" where
  "memmove m dest src n =
     (if src \<ge> dest then rep_movsb m dest src (unat n)
      else rep_movsb_down m (dest + n - 1) (src + n - 1) (unat n))"

section \<open>Specifications\<close>

definition fill :: "mem \<Rightarrow> u32 \<Rightarrow> u8 \<Rightarrow> nat \<Rightarrow> mem" where
  "fill m s v n = (\<lambda>a. if unat (a - s) < n then v else m a)"

definition copy :: "mem \<Rightarrow> u32 \<Rightarrow> u32 \<Rightarrow> nat \<Rightarrow> mem" where
  "copy m d s n = (\<lambda>a. if unat (a - d) < n then m (s + (a - d)) else m a)"

definition disjoint_ranges :: "u32 \<Rightarrow> u32 \<Rightarrow> nat \<Rightarrow> bool" where
  "disjoint_ranges d s n \<longleftrightarrow> n \<le> unat (d - s) \<and> n \<le> unat (s - d)"

section \<open>Address arithmetic\<close>

lemma unat_minus_cases:
  fixes x e :: u32
  shows "unat (x - e) = (if unat e \<le> unat x then unat x - unat e else unat x + 2 ^ 32 - unat e)"
  by (simp add: unat_sub_if')

lemma unat_diff_add:
  fixes a d :: u32
  assumes "j < 2 ^ 32"
  shows "unat (a - (d + of_nat j)) = (if j \<le> unat (a - d) then unat (a - d) - j else unat (a - d) + 2 ^ 32 - j)"
proof -
  have eq: "a - (d + of_nat j) = (a - d) - of_nat j" by simp
  show ?thesis unfolding eq unat_minus_cases [of "a - d" "of_nat j"] unat_of_nat_u32 [OF assms] ..
qed

lemma offset_cases: "unat ((a :: u32) - d) < n \<Longrightarrow> \<exists>i < n. a = d + of_nat i"
  by (rule exI [of _ "unat (a - d)"]) simp

lemma disjoint_ranges_neq:
  assumes "disjoint_ranges d s n" "i < n" "j < n"
  shows "s + of_nat i \<noteq> d + of_nat j"
proof
  assume eq: "s + of_nat i = d + of_nat j"
  have n: "n < 2 ^ 32" using assms(1) unat_u32_less [of "d - s"] by (simp add: disjoint_ranges_def)
  show False
  proof (cases "j \<le> i")
    case True
    have "d - s = of_nat i - of_nat j" using eq by (simp add: algebra_simps)
    also have "\<dots> = of_nat (i - j)" using True by simp
    finally have "unat (d - s) = i - j" using unat_of_nat_u32 [of "i - j"] assms n by simp
    then show False using assms by (auto simp: disjoint_ranges_def)
  next
    case False
    have "s - d = of_nat j - of_nat i" using eq by (simp add: algebra_simps)
    also have "\<dots> = of_nat (j - i)" using False by simp
    finally have "unat (s - d) = j - i" using unat_of_nat_u32 [of "j - i"] assms n by simp
    then show False using assms by (auto simp: disjoint_ranges_def)
  qed
qed

section \<open>Fills\<close>

text \<open>Two consecutive fills are one.\<close>

lemma fill_fill:
  assumes "j < 2 ^ 32" "j + k \<le> 2 ^ 32"
  shows "fill (fill m s v j) (s + of_nat j) v k = fill m s v (j + k)"
proof (rule ext)
  fix a
  have "unat (a - s) < 2 ^ 32" by (rule unat_u32_less)
  then show "fill (fill m s v j) (s + of_nat j) v k a = fill m s v (j + k) a"
    using assms unat_diff_add [OF assms(1), of a s] by (auto simp: fill_def)
qed

lemma fill_0 [simp]: "fill m s v 0 = m"
  by (simp add: fill_def)

lemma fill_1: "fill m s v 1 = m(s := v)"
  by (rule ext) (auto simp: fill_def unat_eq_0)

lemma fill_Suc: "Suc k \<le> 2 ^ 32 \<Longrightarrow> fill (m(s := v)) (s + 1) v k = fill m s v (Suc k)"
  using fill_fill [of 1 k m s v] by (simp add: fill_1 [simplified])

lemma rep_stosb_fill: "k \<le> 2 ^ 32 \<Longrightarrow> rep_stosb al m d k = fill m d al k"
  by (induction k arbitrary: m d) (simp_all add: fill_Suc)

lemma store32_fill:
  assumes "\<forall>i < 4. byte_of w i = v"
  shows "store32 m d w = fill m d v 4"
proof -
  have "4 = Suc (Suc (Suc (Suc 0)))" by simp
  then have "fill m d v 4 = rep_stosb v m d (Suc (Suc (Suc (Suc 0))))"
    using rep_stosb_fill [of 4 v m d] by (simp only:) simp
  also have "\<dots> = m(d := v, d + 1 := v, d + 2 := v, d + 3 := v)"
    by (simp add: add.assoc del: fun_upd_apply)
  finally show ?thesis using assms by (simp add: store32_def del: fun_upd_apply)
qed

lemma rep_stosl_fill:
  assumes "\<forall>i < 4. byte_of w i = v" "4 * k \<le> 2 ^ 32"
  shows "rep_stosl w m d k = fill m d v (4 * k)"
  using assms(2)
proof (induction k arbitrary: m d)
  case (Suc k)
  then have "rep_stosl w m d (Suc k) = fill (fill m d v 4) (d + of_nat 4) v (4 * k)"
    by (simp add: store32_fill [OF assms(1)])
  also have "\<dots> = fill m d v (4 + 4 * k)" using Suc.prems by (intro fill_fill) simp_all
  finally show ?case by simp
qed simp

lemma memset_top_fill:
  assumes "\<forall>i < 4. byte_of w i = ucast w" "k < 2 ^ 32"
  shows "memset_top w m d k = fill m d (ucast w) k"
  using assms
proof (induction w m d k rule: memset_top.induct)
  case (2 w m d k)
  show ?case
  proof (cases "d AND 3 = 0")
    case True
    let ?q = "Suc k div 4" and ?r = "Suc k mod 4"
    have n: "4 * ?q + ?r = Suc k" by presburger
    have b: "4 * ?q < 2 ^ 32" "?r \<le> 2 ^ 32" using n 2(3) by linarith+
    have "memset_top w m d (Suc k) = rep_stosb (ucast w) (rep_stosl w m d ?q) (d + of_nat (4 * ?q)) ?r"
      using True by (simp del: of_nat_Suc)
    also have "\<dots> = fill (fill m d (ucast w) (4 * ?q)) (d + of_nat (4 * ?q)) (ucast w) ?r"
      by (simp only: rep_stosb_fill [OF b(2)] rep_stosl_fill [OF 2(2) less_imp_le [OF b(1)]])
    also have "\<dots> = fill m d (ucast w) (4 * ?q + ?r)"
      by (rule fill_fill [OF b(1)]) (use n 2(3) in linarith)
    finally show ?thesis unfolding n .
  next
    case False
    have "memset_top w m d (Suc k) = fill (m(d := ucast w)) (d + 1) (ucast w) k"
      using 2(1) [OF False 2(2)] 2(3) False by (simp del: fun_upd_apply)
    also have "\<dots> = fill m d (ucast w) (Suc k)" using 2(3) by (intro fill_Suc) simp
    finally show ?thesis .
  qed
qed simp

lemma byte_of_replicated:
  "c = (c0 :: u32) AND 0xFF \<Longrightarrow> i < 4 \<Longrightarrow>
   byte_of (push_bit 24 c OR push_bit 16 c OR push_bit 8 c OR c) i = ucast c"
proof (rule bit_word_eqI)
  fix k assume c: "c = c0 AND 0xFF" and i: "i < 4" and k: "k < LENGTH(8)"
  have hi: "\<not> bit c j" if "8 \<le> j" for j using that by (simp add: c byte_mask_eq bit_simps)
  consider "i = 0" | "i = 1" | "i = 2" | "i = 3" using i by linarith
  then show "bit (byte_of (push_bit 24 c OR push_bit 16 c OR push_bit 8 c OR c) i) k = bit (ucast c :: u8) k"
    by cases (use k in \<open>auto simp: byte_of_def bit_simps hi\<close>)
qed

text \<open>\<open>memset\<close> with its aligned dword loop is the plain byte fill, for every length and address.\<close>

lemma memset_fill: "memset m s c n = fill m s (ucast c) (unat n)"
proof -
  let ?c = "c AND 0xFF"
  let ?w = "push_bit 24 ?c OR push_bit 16 ?c OR push_bit 8 ?c OR ?c"
  have b: "\<forall>i < 4. byte_of ?w i = ucast ?c" using byte_of_replicated [OF refl] by blast
  have "byte_of ?w 0 = ucast ?w" by (simp add: byte_of_def)
  then have w: "ucast ?w = (ucast ?c :: u8)" using b [rule_format, of 0] by simp
  have "(ucast ?c :: u8) = ucast c" by simp
  then show ?thesis
    unfolding memset_def Let_def
    using memset_top_fill [of ?w "unat n" m s] b unat_u32_less [of n] by (simp only: w)
qed

section \<open>Copies\<close>

text \<open>No write of an ascending (descending) byte copy reaches a source byte that is read later.\<close>

definition forward_ok :: "u32 \<Rightarrow> u32 \<Rightarrow> nat \<Rightarrow> bool" where
  "forward_ok d s n \<longleftrightarrow> (\<forall>i < n. \<forall>j < i. s + of_nat i \<noteq> d + of_nat j)"

definition backward_ok :: "u32 \<Rightarrow> u32 \<Rightarrow> nat \<Rightarrow> bool" where
  "backward_ok d s n \<longleftrightarrow> (\<forall>j < n. \<forall>i < j. s + of_nat i \<noteq> d + of_nat j)"

lemma forward_ok_shift:
  assumes "forward_ok d s (j + k)"
  shows "forward_ok (d + of_nat j) (s + of_nat j) k"
  unfolding forward_ok_def
proof (intro allI impI)
  fix i i' assume "i < k" "i' < i"
  then have "s + of_nat (j + i) \<noteq> d + of_nat (j + i')"
    using assms unfolding forward_ok_def by (meson add_less_cancel_left)
  then show "s + of_nat j + of_nat i \<noteq> d + of_nat j + of_nat i'" by (simp add: add.assoc)
qed

lemma forward_ok_mono: "forward_ok d s n \<Longrightarrow> k \<le> n \<Longrightarrow> forward_ok d s k"
  by (auto simp: forward_ok_def)

lemma copy_copy:
  assumes "j < 2 ^ 32" "j + k \<le> 2 ^ 32" "forward_ok d s (j + k)"
  shows "copy (copy m d s j) (d + of_nat j) (s + of_nat j) k = copy m d s (j + k)"
proof (rule ext)
  fix a
  let ?x = "unat (a - d)"
  have x: "?x < 2 ^ 32" by (rule unat_u32_less)
  have src: "s + of_nat j + (a - (d + of_nat j)) = s + (a - d)" by simp
  note y = unat_diff_add [OF assms(1), of a d]
  show "copy (copy m d s j) (d + of_nat j) (s + of_nat j) k a = copy m d s (j + k) a"
  proof (cases "j \<le> ?x \<and> ?x < j + k")
    case True
    have "\<not> unat (s + (a - d) - d) < j"
    proof
      assume "unat (s + (a - d) - d) < j"
      then obtain i where "i < j" "s + (a - d) = d + of_nat i" using offset_cases by blast
      moreover have "a - d = of_nat ?x" by simp
      ultimately show False using True assms(3) unfolding forward_ok_def by (metis less_le_trans)
    qed
    moreover have "?x - j < k" using True by linarith
    ultimately show ?thesis using True y by (simp add: copy_def src)
  next
    case False
    with assms x y show ?thesis by (auto simp: copy_def)
  qed
qed

lemma copy_0 [simp]: "copy m d s 0 = m"
  by (simp add: copy_def)

lemma copy_1: "copy m d s (Suc 0) = m(d := m s)"
  by (rule ext) (auto simp: copy_def unat_eq_0)

lemma copy_Suc:
  assumes "Suc k \<le> 2 ^ 32" "forward_ok d s (Suc k)"
  shows "copy (m(d := m s)) (d + 1) (s + 1) k = copy m d s (Suc k)"
  using copy_copy [of "Suc 0" k d s m] assms by (simp add: copy_1 del: fun_upd_apply)

lemma rep_movsb_copy:
  "k \<le> 2 ^ 32 \<Longrightarrow> forward_ok d s k \<Longrightarrow> rep_movsb m d s k = copy m d s k"
proof (induction k arbitrary: m d s)
  case (Suc k)
  have "forward_ok (d + 1) (s + 1) k" using forward_ok_shift [of d s 1 k] Suc.prems by simp
  with Suc show ?case using copy_Suc [OF Suc.prems] by (simp del: fun_upd_apply)
qed simp

lemma movsl_copy: "movsl m d s = copy m d s 4"
proof (rule ext)
  fix a
  show "movsl m d s a = copy m d s 4 a"
  proof (cases "unat (a - d) < 4")
    case True
    then obtain i where i: "i < 4" "a = d + of_nat i" using offset_cases by blast
    then have "i = 0 \<or> i = 1 \<or> i = 2 \<or> i = 3" by linarith
    with i(2) consider "a = d" | "a = d + 1" | "a = d + 2" | "a = d + 3" by auto
    then show ?thesis by cases (simp_all add: movsl_def copy_def)
  next
    case False
    then have "a \<noteq> d" "a \<noteq> d + 1" "a \<noteq> d + 2" "a \<noteq> d + 3" by auto
    with False show ?thesis by (simp add: movsl_def copy_def)
  qed
qed

lemma rep_movsl_copy:
  "4 * k \<le> 2 ^ 32 \<Longrightarrow> forward_ok d s (4 * k) \<Longrightarrow> rep_movsl m d s k = copy m d s (4 * k)"
proof (induction k arbitrary: m d s)
  case (Suc k)
  have s: "4 * Suc k = 4 + 4 * k" by simp
  have "forward_ok (d + of_nat 4) (s + of_nat 4) (4 * k)"
    using forward_ok_shift [of d s 4 "4 * k"] Suc.prems by simp
  then have "rep_movsl m d s (Suc k) = copy (copy m d s 4) (d + of_nat 4) (s + of_nat 4) (4 * k)"
    using Suc by (simp add: movsl_copy)
  also have "\<dots> = copy m d s (4 * Suc k)" unfolding s
    by (rule copy_copy) (use Suc.prems in simp_all)
  finally show ?case .
qed simp

lemma memcpy_top_copy:
  "k < 2 ^ 32 \<Longrightarrow> forward_ok d s k \<Longrightarrow> memcpy_top m d s k = copy m d s k"
proof (induction m d s k rule: memcpy_top.induct)
  case (2 m d s k)
  show ?case
  proof (cases "d AND 3 = 0")
    case True
    let ?q = "Suc k div 4" and ?r = "Suc k mod 4"
    have n: "Suc k = 4 * ?q + ?r" by presburger
    have b: "4 * ?q < 2 ^ 32" "?r \<le> 2 ^ 32" "4 * ?q + ?r \<le> 2 ^ 32" using n 2(2) by linarith+
    have f: "forward_ok d s (4 * ?q + ?r)" using 2(3) n by simp
    have f1: "forward_ok d s (4 * ?q)" by (rule forward_ok_mono [OF f]) simp
    have "memcpy_top m d s (Suc k) =
        rep_movsb (rep_movsl m d s ?q) (d + of_nat (4 * ?q)) (s + of_nat (4 * ?q)) ?r"
      using True by (simp add: Let_def del: of_nat_Suc)
    also have "\<dots> = copy (copy m d s (4 * ?q)) (d + of_nat (4 * ?q)) (s + of_nat (4 * ?q)) ?r"
      by (simp only: rep_movsl_copy [OF less_imp_le [OF b(1)] f1] rep_movsb_copy [OF b(2) forward_ok_shift [OF f]])
    also have "\<dots> = copy m d s (4 * ?q + ?r)" by (rule copy_copy [OF b(1,3) f])
    finally show ?thesis by (simp only: n [symmetric])
  next
    case False
    have f: "forward_ok (d + 1) (s + 1) k" using forward_ok_shift [of d s 1 k] 2(3) by simp
    have "memcpy_top m d s (Suc k) = copy (m(d := m s)) (d + 1) (s + 1) k"
      using 2(1) [OF False _ f] 2(2) False by (simp del: fun_upd_apply)
    also have "\<dots> = copy m d s (Suc k)" using 2(2,3) by (intro copy_Suc) simp_all
    finally show ?thesis .
  qed
qed simp

lemma copy_below:
  assumes "Suc k < 2 ^ 32" "backward_ok d s (Suc k)"
  shows "copy (m(d + of_nat k := m (s + of_nat k))) d s k = copy m d s (Suc k)"
proof (rule ext)
  fix a
  have k: "unat (of_nat k :: u32) = k" using assms by (intro unat_of_nat_u32) simp
  show "copy (m(d + of_nat k := m (s + of_nat k))) d s k a = copy m d s (Suc k) a"
  proof (cases "unat (a - d) < k")
    case True
    then obtain i where i: "i < k" "a = d + of_nat i" using offset_cases by blast
    then have "s + (a - d) \<noteq> d + of_nat k" using assms(2) by (auto simp: backward_ok_def)
    with True show ?thesis by (simp add: copy_def)
  next
    case False
    show ?thesis
    proof (cases "a = d + of_nat k")
      case True
      then show ?thesis by (simp add: copy_def k)
    next
      case ne: False
      have "unat (a - d) \<noteq> k" using ne by auto
      with ne False show ?thesis by (simp add: copy_def)
    qed
  qed
qed

lemma rep_movsb_down_copy:
  "k < 2 ^ 32 \<Longrightarrow> backward_ok d s k \<Longrightarrow>
   rep_movsb_down m (d + of_nat k - 1) (s + of_nat k - 1) k = copy m d s k"
proof (induction k arbitrary: m)
  case (Suc k)
  have "backward_ok d s k" using Suc.prems(2) by (auto simp: backward_ok_def)
  then have "rep_movsb_down m (d + of_nat (Suc k) - 1) (s + of_nat (Suc k) - 1) (Suc k) =
      copy (m(d + of_nat k := m (s + of_nat k))) d s k"
    using Suc by (simp add: add.commute [of 1] add.assoc [symmetric] del: fun_upd_apply)
  also have "\<dots> = copy m d s (Suc k)" by (rule copy_below [OF Suc.prems])
  finally show ?case .
qed simp

lemma disjoint_forward_ok: "disjoint_ranges d s n \<Longrightarrow> forward_ok d s n"
  using disjoint_ranges_neq unfolding forward_ok_def by (meson less_trans)

lemma u32_add_no_wrap: "unat (a :: u32) + i < 2 ^ 32 \<Longrightarrow> unat (a + of_nat i) = unat a + i"
  by (simp add: unat_word_ariths unat_of_nat)

lemma above_forward_ok:
  assumes "d \<le> s" "unat s + n \<le> 2 ^ 32"
  shows "forward_ok d s n"
  unfolding forward_ok_def
proof (intro allI impI)
  fix i j assume "i < n" "j < i"
  moreover have "unat d \<le> unat s" using assms(1) by (simp add: word_le_nat_alt)
  ultimately have "unat (s + of_nat i) = unat s + i" "unat (d + of_nat j) = unat d + j" "unat d + j < unat s + i"
    using assms(2) by (intro u32_add_no_wrap; linarith | linarith)+
  then show "s + of_nat i \<noteq> d + of_nat j" by force
qed

lemma below_backward_ok:
  assumes "s < d" "unat d + n \<le> 2 ^ 32"
  shows "backward_ok d s n"
  unfolding backward_ok_def
proof (intro allI impI)
  fix i j assume "j < n" "i < j"
  moreover have "unat s < unat d" using assms(1) by (simp add: word_less_nat_alt)
  ultimately have "unat (s + of_nat i) = unat s + i" "unat (d + of_nat j) = unat d + j" "unat s + i < unat d + j"
    using assms(2) by (intro u32_add_no_wrap; linarith | linarith)+
  then show "s + of_nat i \<noteq> d + of_nat j" by force
qed

section \<open>Properties\<close>

text \<open>
  The kernel's \<open>memset\<close> (byte loop to alignment, dword fill, byte tail) equals the plain
  byte fill of \<open>n\<close> bytes, for every address, value and length.\<close>

theorem memset_correct:
  "memset m s c n = (\<lambda>a. if a - s < n then ucast c else m a)"
  by (simp add: memset_fill fill_def word_less_nat_alt)

text \<open>
  The kernel's \<open>memcpy\<close> copies \<open>n\<close> bytes when the two ranges are disjoint (modulo
  the 32-bit address space), whatever the alignment, and writes nothing else.\<close>

theorem memcpy_correct:
  assumes "disjoint_ranges dest src (unat n)"
  shows "memcpy m dest src n = (\<lambda>a. if a - dest < n then m (src + (a - dest)) else m a)"
  using memcpy_top_copy [of "unat n" dest src m] disjoint_forward_ok [OF assms] unat_u32_less [of n]
  by (simp add: memcpy_def copy_def word_less_nat_alt)

theorem memcpy_correct_witness:
  "disjoint_ranges 0x1001 0x2003 (unat (7 :: u32)) \<and>
   memcpy ucast 0x1001 0x2003 7 = (\<lambda>a. if a - 0x1001 < 7 then ucast (0x2003 + (a - 0x1001)) else ucast a)"
proof -
  have d: "disjoint_ranges 0x1001 0x2003 (unat (7 :: u32))" by (simp add: disjoint_ranges_def)
  show ?thesis using d memcpy_correct [OF d, of ucast] by simp
qed

text \<open>
  C35: \<open>memmove\<close> copies \<open>n\<close> bytes also when the ranges overlap, in either direction, as long as
  neither range wraps around the end of the address space.\<close>

theorem memmove_correct:
  assumes "unat src + unat n \<le> 2 ^ 32" "unat dest + unat n \<le> 2 ^ 32"
  shows "memmove m dest src n = (\<lambda>a. if a - dest < n then m (src + (a - dest)) else m a)"
proof (cases "src \<ge> dest")
  case True
  then show ?thesis
    using rep_movsb_copy [OF _ above_forward_ok [OF True assms(1)], of m] unat_u32_less [of n]
    by (simp add: memmove_def copy_def word_less_nat_alt)
next
  case False
  then have "src < dest" by simp
  from rep_movsb_down_copy [OF unat_u32_less below_backward_ok [OF this assms(2)], of m] False
  show ?thesis by (simp add: memmove_def copy_def word_less_nat_alt)
qed

theorem memmove_correct_witness:
  "memmove ucast 0x1002 0x1000 8 = (\<lambda>a. if a - 0x1002 < 8 then ucast (0x1000 + (a - 0x1002)) else ucast a)"
  by (rule memmove_correct) simp_all

end
