(* ===== verification/Port_IO.thy ===== *)
theory Port_IO
  imports Prelude
begin

text \<open>
  Port input and output (the \<open>inb\<close>/\<open>outb\<close> macros of \<^verbatim>\<open>student-distrib/lib.h\<close>). What a driver
  writes is a list of events; a driver that reads a port takes the byte read as an argument, so
  the device is a parameter. Small models of the registers behind an index/data port pair turn a
  list of events into the register file the device ends up with.
\<close>

datatype io_event =
    Outb u8 u16
  | Inb u8 u16

definition outb :: "u8 \<Rightarrow> u16 \<Rightarrow> io_event list" where
  "outb data port = [Outb data port]"

text \<open>
  A device with an index port and a data port (the VGA CRTC, the CMOS/RTC): an output to the
  index port selects the register that the next output to the data port sets.
\<close>

record indexed_dev =
  dev_index :: u8
  dev_regs :: "u8 \<Rightarrow> u8"

fun dev_step :: "u16 \<Rightarrow> u16 \<Rightarrow> indexed_dev \<Rightarrow> io_event \<Rightarrow> indexed_dev" where
  "dev_step ip dp d (Outb v p) =
     (if p = ip then d\<lparr>dev_index := v\<rparr>
      else if p = dp then d\<lparr>dev_regs := (dev_regs d)(dev_index d := v)\<rparr>
      else d)"
| "dev_step ip dp d (Inb v p) = d"

definition dev_run :: "u16 \<Rightarrow> u16 \<Rightarrow> indexed_dev \<Rightarrow> io_event list \<Rightarrow> indexed_dev" where
  "dev_run ip dp d es = fold (\<lambda>e d. dev_step ip dp d e) es d"

lemma dev_run_simps [simp]:
  "dev_run ip dp d [] = d"
  "dev_run ip dp d (e # es) = dev_run ip dp (dev_step ip dp d e) es"
  by (simp_all add: dev_run_def)

lemma dev_run_append [simp]: "dev_run ip dp d (es @ fs) = dev_run ip dp (dev_run ip dp d es) fs"
  by (simp add: dev_run_def)

end
