(* ===== verification/Vga.thy ===== *)
theory Vga
  imports Port_IO "HOL-Library.Signed_Division"
begin

text \<open>
  \<^verbatim>\<open>student-distrib/vga.c\<close>, and the console output of \<^verbatim>\<open>student-distrib/lib.c\<close> (\<open>clear\<close>, \<open>putc\<close>,
  \<open>puts\<close>, \<open>test_interrupts\<close>). Text memory is addressed by the integer offset from the start of
  a region, so a write outside the 80x25 page is visible as a change at a negative or large
  offset. A region is either the real text memory or the fake one of a terminal.

  The console is specified as a grid of 25 rows of 80 cells with a cursor; \<open>putc\<close> is proved to
  refine the grid operation, to keep the cursor on the grid and to write inside the page only.
\<close>

abbreviation NUM_COLS :: int where "NUM_COLS \<equiv> 80"
abbreviation NUM_ROWS :: int where "NUM_ROWS \<equiv> 25"
abbreviation ATTRIB :: u8 where "ATTRIB \<equiv> 7"
abbreviation SPACE :: u8 where "SPACE \<equiv> 32"
abbreviation SIZE_64K :: int where "SIZE_64K \<equiv> 0x10000"

datatype vid_ptr = VIDEO | FAKE nat

type_synonym vdata = "int \<Rightarrow> u8"
type_synonym vid_mem = "vid_ptr \<Rightarrow> vdata"

record screen_t =
  scr_video :: vid_ptr
  scr_x :: int
  scr_y :: int

record console =
  vmem :: vid_mem
  screen_x :: int
  screen_y :: int

section \<open>The VGA cursor\<close>

abbreviation VGA_CRTC_ADDRESS :: u16 where "VGA_CRTC_ADDRESS \<equiv> 0x3D4"
abbreviation VGA_CRTC_DATA :: u16 where "VGA_CRTC_DATA \<equiv> 0x3D5"
abbreviation VGA_CURSOR_LOC_LOW :: u8 where "VGA_CURSOR_LOC_LOW \<equiv> 0x0F"
abbreviation VGA_CURSOR_LOC_HIGH :: u8 where "VGA_CURSOR_LOC_HIGH \<equiv> 0x0E"

definition vga_cursor_set_location :: "u8 \<Rightarrow> u8 \<Rightarrow> io_event list" where
  "vga_cursor_set_location row col =
     (let address = (word_of_int (uint row * NUM_COLS + uint col) :: u16)
      in outb VGA_CURSOR_LOC_LOW VGA_CRTC_ADDRESS
       @ outb (ucast (address AND 0xFF)) VGA_CRTC_DATA
       @ outb VGA_CURSOR_LOC_HIGH VGA_CRTC_ADDRESS
       @ outb (ucast (drop_bit 8 address AND 0xFF)) VGA_CRTC_DATA)"

definition update_cursor :: "console \<Rightarrow> io_event list" where
  "update_cursor s = vga_cursor_set_location (word_of_int (screen_y s)) (word_of_int (screen_x s))"

definition screen_update_cursor :: "screen_t \<Rightarrow> io_event list" where
  "screen_update_cursor sc = vga_cursor_set_location (word_of_int (scr_y sc)) (word_of_int (scr_x sc))"

section \<open>Whole screens\<close>

definition clear_cells :: "vdata \<Rightarrow> vdata" where
  "clear_cells d = fold (\<lambda>i d. d(int i * 2 := SPACE, int i * 2 + 1 := ATTRIB)) [0..<25 * 80] d"

definition clear :: "console \<Rightarrow> console" where
  "clear s = s\<lparr>vmem := (vmem s)(VIDEO := clear_cells (vmem s VIDEO)), screen_x := 0, screen_y := 0\<rparr>"

definition screen_clear :: "vid_mem \<Rightarrow> screen_t \<Rightarrow> vid_mem \<times> screen_t" where
  "screen_clear vm sc =
     (vm(scr_video sc := clear_cells (vm (scr_video sc))), sc\<lparr>scr_y := 0, scr_x := 0\<rparr>)"

text \<open>\<open>memcpy\<close> of the 64 KiB of one region to another (the regions are equal or disjoint).\<close>

definition copy_video :: "vid_mem \<Rightarrow> vid_ptr \<Rightarrow> vid_ptr \<Rightarrow> vid_mem" where
  "copy_video vm dst src = vm(dst := (\<lambda>a. if 0 \<le> a \<and> a < SIZE_64K then vm src a else vm dst a))"

definition screen_save :: "vid_mem \<Rightarrow> screen_t \<Rightarrow> vid_mem" where
  "screen_save vm sc = copy_video vm (scr_video sc) VIDEO"

definition screen_restore :: "vid_mem \<Rightarrow> screen_t \<Rightarrow> vid_mem \<times> io_event list" where
  "screen_restore vm sc = (copy_video vm VIDEO (scr_video sc), screen_update_cursor sc)"

definition test_interrupts :: "console \<Rightarrow> console" where
  "test_interrupts s =
     s\<lparr>vmem := (vmem s)(VIDEO := fold (\<lambda>i d. d(int i * 2 := d (int i * 2) + 1)) [0..<25 * 80] (vmem s VIDEO))\<rparr>"

section \<open>Character output\<close>

definition put_cell :: "vdata \<Rightarrow> int \<Rightarrow> int \<Rightarrow> u8 \<Rightarrow> vdata" where
  "put_cell d x y c = d((NUM_COLS * y + x) * 2 := c, (NUM_COLS * y + x) * 2 + 1 := ATTRIB)"

text \<open>The two loops that shift the page up by one row and blank the last row.\<close>

definition shift_cell :: "nat \<Rightarrow> vdata \<Rightarrow> vdata" where
  "shift_cell i d =
     (let q = int i div NUM_COLS; r = int i mod NUM_COLS;
          d = d((NUM_COLS * q + r) * 2 := d ((NUM_COLS * (q + 1) + r) * 2))
      in d((NUM_COLS * q + r) * 2 + 1 := d ((NUM_COLS * (q + 1) + r) * 2 + 1)))"

definition blank_cell :: "nat \<Rightarrow> vdata \<Rightarrow> vdata" where
  "blank_cell i d = put_cell d (int i mod NUM_COLS) (int i div NUM_COLS) SPACE"

definition shift_up :: "vdata \<Rightarrow> vdata" where
  "shift_up d = fold blank_cell [24 * 80..<25 * 80] (fold shift_cell [0..<24 * 80] d)"

definition putc_scroll :: "console \<Rightarrow> console" where
  "putc_scroll s =
     (if screen_y s \<ge> NUM_ROWS
      then s\<lparr>vmem := (vmem s)(VIDEO := shift_up (vmem s VIDEO)), screen_y := NUM_ROWS - 1\<rparr>
      else s)"

definition console_put :: "console \<Rightarrow> u8 \<Rightarrow> console" where
  "console_put s c = s\<lparr>vmem := (vmem s)(VIDEO := put_cell (vmem s VIDEO) (screen_x s) (screen_y s) c)\<rparr>"

definition putc :: "console \<Rightarrow> u8 \<Rightarrow> console" where
  "putc s c =
     (if c = 10 \<or> c = 13 then
        putc_scroll (s\<lparr>screen_y := screen_y s + 1, screen_x := 0\<rparr>)
      else if c = 8 then
        let s = s\<lparr>screen_x := screen_x s - 1\<rparr>;
            s = (if screen_x s < 0 then s\<lparr>screen_x := NUM_COLS - 1, screen_y := screen_y s - 1\<rparr> else s)
        in putc_scroll (console_put s SPACE)
      else if c = 0 then s
      else
        let s = console_put s c;
            s = s\<lparr>screen_x := screen_x s + 1\<rparr>;
            s = s\<lparr>screen_y := screen_y s + screen_x s sdiv NUM_COLS\<rparr>;
            s = s\<lparr>screen_x := screen_x s smod NUM_COLS\<rparr>
        in putc_scroll s)"

definition puts :: "console \<Rightarrow> u8 list \<Rightarrow> console \<times> int" where
  "puts s str = (fold (\<lambda>c s. putc s c) (takeWhile (\<lambda>c. c \<noteq> 0) str) s, int (length (takeWhile (\<lambda>c. c \<noteq> 0) str)))"

text \<open>\<open>term_putc\<close> of \<^verbatim>\<open>term.c\<close>, the same code on a \<open>screen_t\<close> and its region.\<close>

definition term_putc_scroll :: "vid_mem \<Rightarrow> screen_t \<Rightarrow> vid_mem \<times> screen_t" where
  "term_putc_scroll vm sc =
     (if scr_y sc \<ge> NUM_ROWS
      then (vm(scr_video sc := shift_up (vm (scr_video sc))), sc\<lparr>scr_y := NUM_ROWS - 1\<rparr>)
      else (vm, sc))"

definition screen_put :: "vid_mem \<Rightarrow> screen_t \<Rightarrow> u8 \<Rightarrow> vid_mem" where
  "screen_put vm sc c = vm(scr_video sc := put_cell (vm (scr_video sc)) (scr_x sc) (scr_y sc) c)"

definition term_putc :: "vid_mem \<times> screen_t \<Rightarrow> u8 \<Rightarrow> vid_mem \<times> screen_t" where
  "term_putc vs c =
     (let vm = fst vs; sc = snd vs in
      if c = 10 \<or> c = 13 then
        term_putc_scroll vm (sc\<lparr>scr_y := scr_y sc + 1, scr_x := 0\<rparr>)
      else if c = 8 then
        let sc = sc\<lparr>scr_x := scr_x sc - 1\<rparr>;
            sc = (if scr_x sc < 0 then sc\<lparr>scr_x := NUM_COLS - 1, scr_y := scr_y sc - 1\<rparr> else sc)
        in term_putc_scroll (screen_put vm sc SPACE) sc
      else if c = 0 then (vm, sc)
      else
        let vm = screen_put vm sc c;
            sc = sc\<lparr>scr_x := scr_x sc + 1\<rparr>;
            sc = sc\<lparr>scr_y := scr_y sc + scr_x sc sdiv NUM_COLS\<rparr>;
            sc = sc\<lparr>scr_x := scr_x sc smod NUM_COLS\<rparr>
        in term_putc_scroll vm sc)"

section \<open>The console as a grid\<close>

record grid =
  g_rows :: "(u8 \<times> u8) list list"
  g_x :: nat
  g_y :: nat

definition row_of :: "vdata \<Rightarrow> nat \<Rightarrow> (u8 \<times> u8) list" where
  "row_of d r = map (\<lambda>k. (d ((80 * int r + int k) * 2), d ((80 * int r + int k) * 2 + 1))) [0..<80]"

definition rows_of :: "vdata \<Rightarrow> (u8 \<times> u8) list list" where
  "rows_of d = map (row_of d) [0..<25]"

definition grid_of :: "console \<Rightarrow> grid" where
  "grid_of s = \<lparr>g_rows = rows_of (vmem s VIDEO), g_x = nat (screen_x s), g_y = nat (screen_y s)\<rparr>"

definition blank_row :: "(u8 \<times> u8) list" where
  "blank_row = replicate 80 (SPACE, ATTRIB)"

definition grid_write :: "(u8 \<times> u8) list list \<Rightarrow> nat \<Rightarrow> nat \<Rightarrow> u8 \<Rightarrow> (u8 \<times> u8) list list" where
  "grid_write rs x y c = rs[y := (rs ! y)[x := (c, ATTRIB)]]"

definition grid_newline :: "grid \<Rightarrow> grid" where
  "grid_newline g =
     (if g_y g = 24 then g\<lparr>g_rows := tl (g_rows g) @ [blank_row], g_x := 0\<rparr>
      else g\<lparr>g_y := g_y g + 1, g_x := 0\<rparr>)"

definition grid_putc :: "grid \<Rightarrow> u8 \<Rightarrow> grid" where
  "grid_putc g c =
     (if c = 10 \<or> c = 13 then grid_newline g
      else if c = 8 then
        let x = (if g_x g = 0 then 79 else g_x g - 1); y = (if g_x g = 0 then g_y g - 1 else g_y g)
        in g\<lparr>g_rows := grid_write (g_rows g) x y SPACE, g_x := x, g_y := y\<rparr>
      else if c = 0 then g
      else
        let g = g\<lparr>g_rows := grid_write (g_rows g) (g_x g) (g_y g) c\<rparr>
        in if g_x g = 79 then grid_newline g else g\<lparr>g_x := g_x g + 1\<rparr>)"

definition console_inv :: "console \<Rightarrow> bool" where
  "console_inv s \<longleftrightarrow> 0 \<le> screen_x s \<and> screen_x s < NUM_COLS \<and> 0 \<le> screen_y s \<and> screen_y s < NUM_ROWS"

text \<open>The one output that leaves the page: a backspace with the cursor in the top left corner.\<close>

definition bs_at_origin :: "console \<Rightarrow> u8 \<Rightarrow> bool" where
  "bs_at_origin s c \<longleftrightarrow> c = 8 \<and> screen_x s = 0 \<and> screen_y s = 0"

definition in_page :: "int \<Rightarrow> bool" where
  "in_page a \<longleftrightarrow> 0 \<le> a \<and> a < 2 * NUM_ROWS * NUM_COLS"

section \<open>The loops\<close>

lemma cell_linear: "NUM_COLS * (int i div NUM_COLS) + int i mod NUM_COLS = int i"
  by simp

lemma shift_cell_eq:
  "shift_cell i d = d(2 * int i := d (2 * int i + 160), 2 * int i + 1 := d (2 * int i + 161))"
proof -
  have a: "(NUM_COLS * (int i div NUM_COLS) + int i mod NUM_COLS) * 2 = 2 * int i" by (simp add: mult.commute)
  have b: "(NUM_COLS * (int i div NUM_COLS + 1) + int i mod NUM_COLS) * 2 = 2 * int i + 160"
    using cell_linear [of i] by (simp add: algebra_simps)
  show ?thesis unfolding shift_cell_def Let_def a b by (simp add: add.assoc)
qed

lemma blank_cell_eq: "blank_cell i d = d(2 * int i := SPACE, 2 * int i + 1 := ATTRIB)"
  unfolding blank_cell_def put_cell_def cell_linear by (simp add: mult.commute)

lemma fold_shift_cell:
  "fold shift_cell [0..<n] d = (\<lambda>a. if 0 \<le> a \<and> a < 2 * int n then d (a + 160) else d a)"
proof (induction n)
  case (Suc n)
  have "fold shift_cell [0..<Suc n] d = shift_cell n (fold shift_cell [0..<n] d)" by simp
  also have "\<dots> = (\<lambda>a. if 0 \<le> a \<and> a < 2 * int (Suc n) then d (a + 160) else d a)"
    unfolding Suc shift_cell_eq by (rule ext) (auto simp: add.commute)
  finally show ?case .
qed (auto simp: fun_eq_iff)

lemma fold_blank_cell:
  "m \<le> n \<Longrightarrow> fold blank_cell [m..<n] d =
   (\<lambda>a. if 2 * int m \<le> a \<and> a < 2 * int n then (if even a then SPACE else ATTRIB) else d a)"
proof (induction n rule: dec_induct)
  case (step n)
  have "fold blank_cell [m..<Suc n] d = blank_cell n (fold blank_cell [m..<n] d)" using step.hyps by simp
  also have "\<dots> = (\<lambda>a. if 2 * int m \<le> a \<and> a < 2 * int (Suc n) then (if even a then SPACE else ATTRIB) else d a)"
  proof (rule ext)
    fix a :: int
    have "a = 2 * int n \<or> a = 2 * int n + 1 \<or> a < 2 * int n \<or> a \<ge> 2 * int n + 2" by arith
    then show "blank_cell n (fold blank_cell [m..<n] d) a =
       (if 2 * int m \<le> a \<and> a < 2 * int (Suc n) then (if even a then SPACE else ATTRIB) else d a)"
      unfolding step.IH blank_cell_eq using step.hyps by auto
  qed
  finally show ?case .
qed (auto simp: fun_eq_iff)

lemma shift_up_eq:
  "shift_up d = (\<lambda>a. if 0 \<le> a \<and> a < 3840 then d (a + 160)
                     else if 3840 \<le> a \<and> a < 4000 then (if even a then SPACE else ATTRIB) else d a)"
proof (rule ext)
  fix a :: int
  have "shift_up d a = fold blank_cell [1920..<2000] (fold shift_cell [0..<1920] d) a"
    unfolding shift_up_def by simp
  also have "\<dots> = (if 0 \<le> a \<and> a < 3840 then d (a + 160)
     else if 3840 \<le> a \<and> a < 4000 then (if even a then SPACE else ATTRIB) else d a)"
    using fold_blank_cell [of 1920 2000] by (simp add: fold_shift_cell del: upt_rec_numeral)
  finally show "shift_up d a = (if 0 \<le> a \<and> a < 3840 then d (a + 160)
     else if 3840 \<le> a \<and> a < 4000 then (if even a then SPACE else ATTRIB) else d a)" .
qed

lemma clear_cells_eq:
  "clear_cells d = (\<lambda>a. if in_page a then (if even a then SPACE else ATTRIB) else d a)"
proof -
  have "(\<lambda>i d. d(int i * 2 := SPACE, int i * 2 + 1 := ATTRIB)) = blank_cell"
    by (intro ext) (simp add: blank_cell_eq mult.commute)
  then have "clear_cells d = fold blank_cell [0..<2000] d" unfolding clear_cells_def by simp
  also have "\<dots> = (\<lambda>a. if in_page a then (if even a then SPACE else ATTRIB) else d a)"
    using fold_blank_cell [of 0 2000 d] by (simp add: in_page_def del: upt_rec_numeral)
  finally show ?thesis .
qed

section \<open>Rows\<close>

lemma row_of_nth: "k < 80 \<Longrightarrow> row_of d r ! k = (d ((80 * int r + int k) * 2), d ((80 * int r + int k) * 2 + 1))"
  by (simp add: row_of_def del: upt_rec_numeral)

lemma length_row_of [simp]: "length (row_of d r) = 80"
  by (simp add: row_of_def)

lemma length_rows_of [simp]: "length (rows_of d) = 25"
  by (simp add: rows_of_def)

lemma rows_of_nth: "r < 25 \<Longrightarrow> rows_of d ! r = row_of d r"
  by (simp add: rows_of_def del: upt_rec_numeral)

lemma row_eqI:
  assumes "length xs = 80" "\<And>k. k < 80 \<Longrightarrow> xs ! k = (d ((80 * int r + int k) * 2), d ((80 * int r + int k) * 2 + 1))"
  shows "row_of d r = xs"
  using assms by (intro nth_equalityI) (simp_all add: row_of_nth)

lemma cell_inj:
  assumes "(0::int) \<le> x" "x < 80" "0 \<le> k" "k < 80"
  shows "(80 * r + k = 80 * y + x) \<longleftrightarrow> (r = y \<and> k = x)"
  using assms by (cases r y rule: linorder_cases) auto

lemma even_neq_odd: "a * 2 \<noteq> b * 2 + (1::int)"
  by presburger

lemma rows_of_put_cell:
  assumes "x < 80" "y < 25"
  shows "rows_of (put_cell d (int x) (int y) c) = grid_write (rows_of d) x y c"
proof (rule nth_equalityI)
  fix r assume "r < length (rows_of (put_cell d (int x) (int y) c))"
  then have r: "r < 25" by simp
  have "row_of (put_cell d (int x) (int y) c) r = (if r = y then (row_of d y)[x := (c, ATTRIB)] else row_of d r)"
  proof (rule row_eqI)
    fix k :: nat assume k: "k < 80"
    have "(80 * int r + int k = 80 * int y + int x) = (r = y \<and> k = x)"
      using cell_inj [of "int x" "int k" "int r" "int y"] k assms by simp
    then have "(80 * int r + int k) * 2 = (80 * int y + int x) * 2 \<longleftrightarrow> r = y \<and> k = x"
      by (simp only: mult_cancel_right) simp
    then show "(if r = y then (row_of d y)[x := (c, ATTRIB)] else row_of d r) ! k =
      (put_cell d (int x) (int y) c ((80 * int r + int k) * 2), put_cell d (int x) (int y) c ((80 * int r + int k) * 2 + 1))"
      using k assms even_neq_odd [of "80 * int r + int k"] even_neq_odd [of "80 * int y + int x" "80 * int r + int k"]
      by (simp add: put_cell_def row_of_nth nth_list_update del: mult_cancel_right distrib_right_numeral)
  qed simp
  then show "rows_of (put_cell d (int x) (int y) c) ! r = grid_write (rows_of d) x y c ! r"
    using r assms by (auto simp: rows_of_nth grid_write_def nth_list_update)
qed (simp add: grid_write_def)

lemma rows_of_shift_up: "rows_of (shift_up d) = tl (rows_of d) @ [blank_row]"
proof (rule nth_equalityI)
  fix r assume "r < length (rows_of (shift_up d))"
  then have r: "r < 25" by simp
  show "rows_of (shift_up d) ! r = (tl (rows_of d) @ [blank_row]) ! r"
  proof (cases "r < 24")
    case True
    have "row_of (shift_up d) r = row_of d (Suc r)"
      using True by (intro row_eqI) (auto simp: row_of_nth shift_up_eq algebra_simps)
    with True show ?thesis by (simp add: rows_of_nth nth_append nth_tl)
  next
    case False
    with r have r24: "r = 24" by simp
    have "row_of (shift_up d) r = blank_row"
      by (rule row_eqI) (auto simp: blank_row_def shift_up_eq r24)
    with r24 show ?thesis by (simp add: rows_of_nth nth_append)
  qed
qed simp

section \<open>Output of one character\<close>

lemma sdiv_80 [simp]: "0 \<le> x \<Longrightarrow> x sdiv NUM_COLS = x div NUM_COLS"
  by (cases "x = 0") (simp_all add: signed_divide_int_def)

lemma smod_80 [simp]: "0 \<le> x \<Longrightarrow> x smod NUM_COLS = x mod NUM_COLS"
  by (cases "x = 0") (simp_all add: signed_modulo_int_def minus_div_mult_eq_mod)

lemma put_cell_frame:
  "0 \<le> x \<Longrightarrow> x < NUM_COLS \<Longrightarrow> 0 \<le> y \<Longrightarrow> y < NUM_ROWS \<Longrightarrow> \<not> in_page a \<Longrightarrow> put_cell d x y c a = d a"
  by (auto simp: put_cell_def in_page_def)

lemma shift_up_frame: "\<not> in_page a \<Longrightarrow> shift_up d a = d a"
  by (auto simp: shift_up_eq in_page_def)

lemma grid_of_put:
  assumes "console_inv s"
  shows "rows_of (put_cell (vmem s VIDEO) (screen_x s) (screen_y s) c) =
         grid_write (rows_of (vmem s VIDEO)) (nat (screen_x s)) (nat (screen_y s)) c"
  using assms rows_of_put_cell [of "nat (screen_x s)" "nat (screen_y s)"] by (simp add: console_inv_def nat_less_iff)

text \<open>A cursor that moved to the start of the next row, with or without a scroll.\<close>

lemma putc_scroll_newline:
  assumes "console_inv s"
  shows "grid_of (putc_scroll (s\<lparr>screen_y := screen_y s + 1, screen_x := 0\<rparr>)) = grid_newline (grid_of s)"
    and "console_inv (putc_scroll (s\<lparr>screen_y := screen_y s + 1, screen_x := 0\<rparr>))"
  using assms
  by (auto simp: console_inv_def putc_scroll_def grid_of_def grid_newline_def rows_of_shift_up nat_add_distrib)

lemma putc_scroll_id: "screen_y s < NUM_ROWS \<Longrightarrow> putc_scroll s = s"
  by (simp add: putc_scroll_def)

lemma grid_of_console_put:
  "console_inv s \<Longrightarrow> grid_of (console_put s c) =
   (grid_of s)\<lparr>g_rows := grid_write (g_rows (grid_of s)) (g_x (grid_of s)) (g_y (grid_of s)) c\<rparr>"
  by (simp add: grid_of_def console_put_def grid_of_put)

lemma console_inv_put [simp]: "console_inv (console_put s c) = console_inv s"
  by (simp add: console_inv_def console_put_def)

lemma putc_printable:
  assumes inv: "console_inv s" and c: "c \<noteq> 10" "c \<noteq> 13" "c \<noteq> 8" "c \<noteq> 0"
  shows "putc s c = (let t = console_put s c in
     if screen_x s = 79 then putc_scroll (t\<lparr>screen_y := screen_y t + 1, screen_x := 0\<rparr>)
     else t\<lparr>screen_x := screen_x t + 1\<rparr>)"
proof (cases "screen_x s = 79")
  case True
  with c show ?thesis by (simp add: putc_def Let_def console_put_def)
next
  case False
  with inv have "(screen_x s + 1) div NUM_COLS = 0" "(screen_x s + 1) mod NUM_COLS = screen_x s + 1"
    by (simp_all add: console_inv_def)
  with False inv c show ?thesis
    by (simp add: putc_def Let_def console_put_def putc_scroll_def console_inv_def)
qed

lemma putc_backspace:
  assumes inv: "console_inv s" and o: "\<not> bs_at_origin s 8"
  shows "putc s 8 = console_put (if screen_x s = 0 then s\<lparr>screen_x := 79, screen_y := screen_y s - 1\<rparr>
                                 else s\<lparr>screen_x := screen_x s - 1\<rparr>) SPACE"
  using assms
  by (auto simp: putc_def Let_def console_put_def putc_scroll_def console_inv_def bs_at_origin_def)

lemma putc_grid:
  assumes inv: "console_inv s" and o: "\<not> bs_at_origin s c"
  shows "console_inv (putc s c) \<and> grid_of (putc s c) = grid_putc (grid_of s) c"
proof -
  consider "c = 10 \<or> c = 13" | "c = 8" | "c = 0" | "c \<noteq> 10" "c \<noteq> 13" "c \<noteq> 8" "c \<noteq> 0" by blast
  then show ?thesis
  proof cases
    case 1
    then show ?thesis using putc_scroll_newline [OF inv] by (auto simp: putc_def grid_putc_def)
  next
    case 2
    let ?s = "if screen_x s = 0 then s\<lparr>screen_x := 79, screen_y := screen_y s - 1\<rparr>
              else s\<lparr>screen_x := screen_x s - 1\<rparr>"
    have i: "console_inv ?s" using inv o 2 by (auto simp: console_inv_def bs_at_origin_def)
    have "putc s c = console_put ?s SPACE" using putc_backspace [OF inv] o 2 by simp
    moreover have "grid_of (console_put ?s SPACE) = grid_putc (grid_of s) c"
      unfolding grid_of_console_put [OF i]
      using inv o 2 by (auto simp: grid_putc_def grid_of_def console_inv_def bs_at_origin_def Let_def nat_diff_distrib)
    ultimately show ?thesis using i by simp
  next
    case 3
    then show ?thesis using inv by (simp add: putc_def grid_putc_def)
  next
    case 4
    let ?t = "console_put s c"
    have t: "console_inv ?t" using inv by simp
    show ?thesis
    proof (cases "screen_x s = 79")
      case True
      then have "putc s c = putc_scroll (?t\<lparr>screen_y := screen_y ?t + 1, screen_x := 0\<rparr>)"
        by (simp add: putc_printable [OF inv 4] Let_def)
      then show ?thesis using putc_scroll_newline [OF t] True 4 inv
        by (simp add: grid_of_console_put grid_putc_def) (simp add: grid_of_def)
    next
      case False
      then have "putc s c = ?t\<lparr>screen_x := screen_x ?t + 1\<rparr>"
        by (simp add: putc_printable [OF inv 4] Let_def)
      then show ?thesis using False 4 inv grid_of_console_put [OF inv, of c]
        by (auto simp: grid_putc_def grid_of_def console_inv_def console_put_def nat_add_distrib Let_def)
    qed
  qed
qed

lemma putc_frame:
  assumes "console_inv s" "\<not> bs_at_origin s c" "p \<noteq> VIDEO \<or> \<not> in_page a"
  shows "vmem (putc s c) p a = vmem s p a"
  using assms
  by (cases "p = VIDEO")
    (auto simp: putc_def putc_scroll_def console_put_def Let_def console_inv_def bs_at_origin_def
      shift_up_frame put_cell_frame)

text \<open>A screen and its region seen as a console.\<close>

definition screen_console :: "vid_mem \<Rightarrow> screen_t \<Rightarrow> console" where
  "screen_console vm sc = \<lparr>vmem = vm(VIDEO := vm (scr_video sc)), screen_x = scr_x sc, screen_y = scr_y sc\<rparr>"

lemma term_putc_view:
  "term_putc (vm, sc) c =
     (let t = putc (screen_console vm sc) c
      in (vm(scr_video sc := vmem t VIDEO), \<lparr>scr_video = scr_video sc, scr_x = screen_x t, scr_y = screen_y t\<rparr>))"
  by (simp add: term_putc_def putc_def term_putc_scroll_def putc_scroll_def screen_put_def screen_console_def
      console_put_def Let_def)

lemma console_inv_cursor: "screen_x s = screen_x t \<Longrightarrow> screen_y s = screen_y t \<Longrightarrow> console_inv s = console_inv t"
  by (simp add: console_inv_def)

lemma grid_of_cong:
  "screen_x s = screen_x t \<Longrightarrow> screen_y s = screen_y t \<Longrightarrow> vmem s VIDEO = vmem t VIDEO \<Longrightarrow> grid_of s = grid_of t"
  by (simp add: grid_of_def)

lemma term_putc_grid:
  assumes "console_inv (screen_console vm sc)" "\<not> bs_at_origin (screen_console vm sc) c" "term_putc (vm, sc) c = (vm', sc')"
  shows "console_inv (screen_console vm' sc') \<and>
    grid_of (screen_console vm' sc') = grid_putc (grid_of (screen_console vm sc)) c \<and>
    scr_video sc' = scr_video sc \<and> (\<forall>r. r \<noteq> scr_video sc \<longrightarrow> vm' r = vm r)"
proof -
  let ?t = "putc (screen_console vm sc) c"
  have r: "vm' = vm(scr_video sc := vmem ?t VIDEO)" "sc' = \<lparr>scr_video = scr_video sc, scr_x = screen_x ?t, scr_y = screen_y ?t\<rparr>"
    using assms(3) by (simp_all add: term_putc_view Let_def)
  have eq: "screen_x (screen_console vm' sc') = screen_x ?t" "screen_y (screen_console vm' sc') = screen_y ?t"
    "vmem (screen_console vm' sc') VIDEO = vmem ?t VIDEO"
    by (simp_all add: r screen_console_def)
  have "\<forall>q. q \<noteq> scr_video sc \<longrightarrow> vm' q = vm q" "scr_video sc' = scr_video sc" by (simp_all add: r)
  with putc_grid [OF assms(1,2)] show ?thesis
    unfolding console_inv_cursor [OF eq(1,2)] grid_of_cong [OF eq] by blast
qed

section \<open>Properties\<close>



text \<open>
  \<open>term_putc\<close> does to a \<open>screen_t\<close> and the region its \<open>video\<close> pointer names what \<open>putc\<close>
  does to the global cursor and the real text memory; it changes no other region and never the
  pointer.\<close>

theorem term_putc_equals_putc:
  "let r = term_putc (vm, sc) c;
       t = putc \<lparr>vmem = vm(VIDEO := vm (scr_video sc)), screen_x = scr_x sc, screen_y = scr_y sc\<rparr> c
   in fst r = vm(scr_video sc := vmem t VIDEO) \<and>
      snd r = \<lparr>scr_video = scr_video sc, scr_x = screen_x t, scr_y = screen_y t\<rparr>"
  by (simp add: term_putc_def putc_def term_putc_scroll_def putc_scroll_def screen_put_def
      console_put_def Let_def)

text \<open>
  A backspace with the cursor in the top left corner leaves the page: \<open>putc\<close> blanks the cell
  at offsets -2 and -1, before the start of video memory, and the cursor row becomes -1.\<close>

theorem putc_backspace_underflow:
  assumes "bs_at_origin s c"
  shows "screen_y (putc s c) = -1 \<and> screen_x (putc s c) = 79 \<and>
         vmem (putc s c) VIDEO (-2) = SPACE \<and> vmem (putc s c) VIDEO (-1) = ATTRIB"
  using assms by (simp add: bs_at_origin_def putc_def Let_def console_put_def putc_scroll_def put_cell_def)

theorem putc_backspace_underflow_witness:
  "let s = clear \<lparr>vmem = (\<lambda>p a. 0), screen_x = 3, screen_y = 7\<rparr>
   in bs_at_origin s 8 \<and> screen_y (putc s 8) = -1 \<and> vmem s VIDEO (-2) = 0 \<and> vmem (putc s 8) VIDEO (-2) = SPACE"
proof -
  let ?s = "clear \<lparr>vmem = (\<lambda>p a. 0), screen_x = 3, screen_y = 7\<rparr> :: console"
  have "bs_at_origin ?s 8" by (simp add: bs_at_origin_def clear_def)
  moreover have "vmem ?s VIDEO (-2) = 0" by (simp add: clear_def clear_cells_eq in_page_def)
  ultimately show ?thesis using putc_backspace_underflow [of ?s 8] by (simp add: Let_def)
qed

text \<open>
  After \<open>clear\<close> every row is blank and the cursor is in the top left corner, and nothing
  outside the page has changed.\<close>

theorem clear_blank:
  "grid_of (clear s) = \<lparr>g_rows = replicate 25 blank_row, g_x = 0, g_y = 0\<rparr> \<and>
   vmem (clear s) = (vmem s)(VIDEO := (\<lambda>a. if in_page a then if even a then SPACE else ATTRIB else vmem s VIDEO a))"
proof -
  have "row_of (clear_cells (vmem s VIDEO)) r = blank_row" if "r < 25" for r
    using that by (intro row_eqI) (auto simp: clear_cells_eq in_page_def blank_row_def)
  then have "rows_of (clear_cells (vmem s VIDEO)) = replicate 25 blank_row"
    by (intro nth_equalityI) (simp_all add: rows_of_nth)
  then show ?thesis by (simp add: clear_def grid_of_def clear_cells_eq)
qed

text \<open>
  The four port writes of \<open>vga_cursor_set_location\<close> leave row * 80 + col in the CRTC's
  16-bit cursor register.\<close>

theorem vga_cursor_correct:
  "let d = dev_run VGA_CRTC_ADDRESS VGA_CRTC_DATA d0 (vga_cursor_set_location row col)
   in uint (dev_regs d VGA_CURSOR_LOC_HIGH) * 256 + uint (dev_regs d VGA_CURSOR_LOC_LOW) =
      uint row * NUM_COLS + uint col"
proof -
  define a :: u16 where "a = word_of_int (uint row * 80 + uint col)"
  have "uint row < 256" "uint col < 256" using unsigned_less [of row, where 'a = int] unsigned_less [of col, where 'a = int] by simp_all
  moreover have "0 \<le> uint row" "0 \<le> uint col" by simp_all
  ultimately have a: "uint a = uint row * 80 + uint col"
    unfolding a_def uint_word_of_int by (intro mod_pos_pos_trivial) (simp_all del: of_int_add)
  have lo: "uint (ucast (a AND 0xFF) :: u8) = uint a mod 256"
    by (simp add: uint_ucast_byte)
  have hi: "uint (ucast (drop_bit 8 a AND 0xFF) :: u8) = uint a div 256 mod 256"
    by (simp add: uint_ucast_byte uint_drop_byte)
  have "uint a < 65536" using unsigned_less [of a, where 'a = int] by simp
  then have "uint a div 256 mod 256 = uint a div 256" by (intro mod_pos_pos_trivial) (auto simp: pos_imp_zdiv_nonneg_iff)
  then have "uint a div 256 mod 256 * 256 + uint a mod 256 = uint a" by simp
  then show ?thesis
    unfolding Let_def vga_cursor_set_location_def a_def [symmetric] lo [symmetric] hi [symmetric]
    using a by (simp add: outb_def)
qed

end
