(* ===== verification/Paging.thy ===== *)
theory Paging
  imports Prelude
begin

text \<open>
  \<^verbatim>\<open>student-distrib/paging.h\<close> and \<^verbatim>\<open>paging.c\<close>: page directory and page table entries as 32-bit
  words with the bit fields written out, the routines that install kernel, user and video pages,
  and the processor's two-level translation, against which they are proved correct. The
  addresses at which the linker places the page tables are the parameter \<open>addr\<close>, which is
  assumed to be 4 KiB aligned and injective (\<open>aligned(PAGE_SIZE)\<close> on distinct objects). The two
  routines that remap a process group's video memory are in \<open>Video_Switch\<close>.
\<close>

section \<open>Entries\<close>

abbreviation PAGE_SIZE :: nat where "PAGE_SIZE \<equiv> 4096"
abbreviation NUM_ENTRIES :: nat where "NUM_ENTRIES \<equiv> 1024"
abbreviation KERNEL_MEM :: u32 where "KERNEL_MEM \<equiv> 0x400000"
abbreviation USER_MEM :: u32 where "USER_MEM \<equiv> 0x08000000"
abbreviation USER_VID :: u32 where "USER_VID \<equiv> 0x088B8000"
abbreviation (input) OFFSET_4MB :: u32 where "OFFSET_4MB \<equiv> 0x400000"
abbreviation VIDEO_ADDR :: u32 where "VIDEO_ADDR \<equiv> 0xB8000"
abbreviation (input) PG_WRITE :: u32 where "PG_WRITE \<equiv> 2"
abbreviation (input) PG_USER :: u32 where "PG_USER \<equiv> 4"
abbreviation (input) MAX_PROCESSES :: nat where "MAX_PROCESSES \<equiv> 10"
abbreviation (input) NUM_TERMS :: nat where "NUM_TERMS \<equiv> 4"

definition PAGE_TABLE_IDX :: "u32 \<Rightarrow> u32" where
  "PAGE_TABLE_IDX addr = drop_bit 12 (addr AND 0x003FF000)"

definition PAGE_DIR_IDX :: "u32 \<Rightarrow> u32" where
  "PAGE_DIR_IDX addr = drop_bit 22 (addr AND 0xFFC00000)"

definition PAGE_BASE_ADDR :: "u32 \<Rightarrow> u32" where
  "PAGE_BASE_ADDR addr = drop_bit 12 (addr AND 0xFFFFF000)"

definition PAGE_BASE_ADDR_4MB :: "u32 \<Rightarrow> u32" where
  "PAGE_BASE_ADDR_4MB addr = drop_bit 22 (addr AND 0xFFFFF000)"

text \<open>Assignments to the bit fields of \<open>pde_t\<close> and \<open>pte_t\<close>.\<close>

definition set_flag :: "nat \<Rightarrow> bool \<Rightarrow> u32 \<Rightarrow> u32" where
  "set_flag n b w = (if b then set_bit n w else unset_bit n w)"

definition set_base_addr :: "u32 \<Rightarrow> u32 \<Rightarrow> u32" where
  "set_base_addr v w = (w AND 0xFFF) OR push_bit 12 (v AND 0xFFFFF)"

definition set_base_addr_4mb :: "u32 \<Rightarrow> u32 \<Rightarrow> u32" where
  "set_base_addr_4mb v w = (w AND 0x3FFFFF) OR push_bit 22 (v AND 0x3FF)"

abbreviation empty_entry :: u32 where "empty_entry \<equiv> 0"

section \<open>Directories, tables and control registers\<close>

datatype pt_ref = First_Table | Video_Memories nat | User_Video_Mems nat

record paging =
  page_directories :: "nat \<Rightarrow> nat \<Rightarrow> u32"
  page_tables :: "pt_ref \<Rightarrow> nat \<Rightarrow> u32"
  pdbr :: nat
  fake_video_mem :: u32
  cr0 :: u32
  cr4 :: u32

definition clear_page_dir :: "nat \<Rightarrow> paging \<Rightarrow> paging" where
  "clear_page_dir d pg =
     pg\<lparr>page_directories := (page_directories pg)
         (d := fold (\<lambda>i e. e(i := empty_entry)) [0..<NUM_ENTRIES] (page_directories pg d))\<rparr>"

definition clear_page_table :: "pt_ref \<Rightarrow> paging \<Rightarrow> paging" where
  "clear_page_table t pg =
     pg\<lparr>page_tables := (page_tables pg)
         (t := fold (\<lambda>i e. e(i := empty_entry)) [0..<NUM_ENTRIES] (page_tables pg t))\<rparr>"

definition set_pde :: "nat \<Rightarrow> u32 \<Rightarrow> u32 \<Rightarrow> paging \<Rightarrow> paging" where
  "set_pde d i e pg =
     pg\<lparr>page_directories := (page_directories pg)(d := (page_directories pg d)(unat i := e))\<rparr>"

definition set_pte :: "pt_ref \<Rightarrow> u32 \<Rightarrow> u32 \<Rightarrow> paging \<Rightarrow> paging" where
  "set_pte t i e pg =
     pg\<lparr>page_tables := (page_tables pg)(t := (page_tables pg t)(unat i := e))\<rparr>"

definition install_kernel_page :: "nat \<Rightarrow> paging \<Rightarrow> paging" where
  "install_kernel_page d pg =
     (let e = empty_entry;
          e = set_flag 0 True e;
          e = set_flag 1 True e;
          e = set_flag 2 False e;
          e = set_flag 7 True e;
          e = set_base_addr_4mb (PAGE_BASE_ADDR_4MB KERNEL_MEM) e
      in set_pde d (PAGE_DIR_IDX KERNEL_MEM) e pg)"

definition install_user_page :: "nat \<Rightarrow> nat \<Rightarrow> paging \<Rightarrow> paging" where
  "install_user_page index d pg =
     (let e = empty_entry;
          e = set_flag 0 True e;
          e = set_flag 1 True e;
          e = set_flag 2 True e;
          e = set_flag 7 True e;
          e = set_base_addr_4mb (PAGE_BASE_ADDR_4MB (KERNEL_MEM + of_nat index * OFFSET_4MB)) e
      in set_pde d (PAGE_DIR_IDX USER_MEM) e pg)"

definition vid_pte :: "u32 \<Rightarrow> u32 \<Rightarrow> nat \<Rightarrow> u32" where
  "vid_pte vidmem flags i =
     (let e = empty_entry;
          e = set_flag 0 True e;
          e = e OR flags
      in set_base_addr (PAGE_BASE_ADDR (vidmem + of_nat i * 4096)) e)"

definition map_video_mem :: "(pt_ref \<Rightarrow> u32) \<Rightarrow> u32 \<Rightarrow> u32 \<Rightarrow> nat \<Rightarrow> pt_ref \<Rightarrow> u32 \<Rightarrow> paging \<Rightarrow> paging" where
  "map_video_mem addr vidmem virt_addr d t flags pg =
     (let pg = clear_page_table t pg;
          pg = fold (\<lambda>i. set_pte t (PAGE_TABLE_IDX (virt_addr + of_nat i * 4096)) (vid_pte vidmem flags i))
                 [0..<0x10000 div PAGE_SIZE] pg;
          e = empty_entry;
          e = set_flag 0 True e;
          e = e OR flags;
          e = set_base_addr (PAGE_BASE_ADDR (addr t)) e
      in set_pde d (PAGE_DIR_IDX virt_addr) e pg)"

definition install_user_vid_mem :: "(pt_ref \<Rightarrow> u32) \<Rightarrow> nat \<Rightarrow> pt_ref \<Rightarrow> paging \<Rightarrow> paging" where
  "install_user_vid_mem addr d t pg = map_video_mem addr VIDEO_ADDR USER_VID d t (PG_WRITE OR PG_USER) pg"

definition install_proc_dir :: "(pt_ref \<Rightarrow> u32) \<Rightarrow> nat \<Rightarrow> paging \<Rightarrow> paging" where
  "install_proc_dir addr i pg =
     (let pg = clear_page_dir i pg;
          pg = install_kernel_page i pg;
          pg = map_video_mem addr VIDEO_ADDR VIDEO_ADDR i First_Table PG_WRITE pg
      in if i > 0 then install_user_page i i pg else pg)"

definition install_pages :: "(pt_ref \<Rightarrow> u32) \<Rightarrow> paging \<Rightarrow> paging" where
  "install_pages addr pg =
     (let pg = fold (install_proc_dir addr) [0..<MAX_PROCESSES + 1] pg;
          pg = fold (\<lambda>i. clear_page_table (Video_Memories i)) [0..<NUM_TERMS] pg;
          pg = pg\<lparr>fake_video_mem := KERNEL_MEM + OFFSET_4MB * of_nat (MAX_PROCESSES + 1)\<rparr>;
          pg = pg\<lparr>cr4 := cr4 pg AND 0xFFFFFFDF\<rparr>;
          pg = pg\<lparr>cr4 := cr4 pg OR 0x10\<rparr>;
          pg = pg\<lparr>pdbr := 0\<rparr>
      in pg\<lparr>cr0 := cr0 pg OR 0x80000000\<rparr>)"

definition paging_init :: "(pt_ref \<Rightarrow> u32) \<Rightarrow> paging \<Rightarrow> paging" where
  "paging_init addr pg = install_pages addr pg"

section \<open>Translation\<close>

text \<open>
  The 32-bit two-level page walk with 4 MiB pages; \<open>user\<close> says that the access comes from
  privilege level 3. Page tables are found by their address.
\<close>

definition all_tables :: "pt_ref list" where
  "all_tables = First_Table # map Video_Memories [0..<NUM_TERMS] @ map User_Video_Mems [0..<NUM_TERMS]"

definition permitted :: "bool \<Rightarrow> u32 \<Rightarrow> bool" where
  "permitted user e \<longleftrightarrow> bit e 0 \<and> (user \<longrightarrow> bit e 2)"

definition walk :: "(pt_ref \<Rightarrow> u32) \<Rightarrow> paging \<Rightarrow> nat \<Rightarrow> bool \<Rightarrow> u32 \<Rightarrow> u32 option" where
  "walk addr pg d user va =
     (let e = page_directories pg d (unat (PAGE_DIR_IDX va)) in
      if \<not> permitted user e then None
      else if bit e 7 then Some ((e AND 0xFFC00000) OR (va AND 0x3FFFFF))
      else case List.find (\<lambda>t. addr t = e AND 0xFFFFF000) all_tables of
          None \<Rightarrow> None
        | Some t \<Rightarrow>
            let p = page_tables pg t (unat (PAGE_TABLE_IDX va)) in
            if \<not> permitted user p then None
            else Some ((p AND 0xFFFFF000) OR (va AND 0xFFF)))"

text \<open>What the linker guarantees of the page tables.\<close>

definition linked :: "(pt_ref \<Rightarrow> u32) \<Rightarrow> bool" where
  "linked addr \<longleftrightarrow> inj_on addr (set all_tables) \<and> (\<forall>t \<in> set all_tables. addr t AND 0xFFF = 0)"

section \<open>Address arithmetic\<close>

lemma unat_and_mask: "unat (w AND mask n :: u32) = unat w mod 2 ^ n"
  unfolding take_bit_eq_mask [symmetric] unsigned_take_bit_eq by (simp add: take_bit_eq_mod)

lemma unat_drop_bit: "unat (drop_bit n w :: u32) = unat w div 2 ^ n"
  unfolding unsigned_drop_bit_eq using unat_u32_less [of w] by (simp add: drop_bit_eq_div take_bit_eq_mod)

lemma page_masks:
  "(0xFFC00000 :: u32) = NOT (mask 22)" "(0xFFFFF000 :: u32) = NOT (mask 12)"
  "(0x003FF000 :: u32) = push_bit 12 (mask 10)" "(0xFFFFF :: u32) = mask 20"
  "(0x3FFFFF :: u32) = mask 22" "(0xFFF :: u32) = mask 12" "(0x3FF :: u32) = mask 10"
  by (simp_all add: mask_eq_exp_minus_1)

lemma PAGE_DIR_IDX_eq: "PAGE_DIR_IDX a = drop_bit 22 a"
  unfolding PAGE_DIR_IDX_def page_masks by (rule bit_word_eqI) (auto simp: bit_simps dest: bit_imp_le_length)

lemma PAGE_TABLE_IDX_eq: "PAGE_TABLE_IDX a = drop_bit 12 a AND mask 10"
  unfolding PAGE_TABLE_IDX_def page_masks by (rule bit_word_eqI) (auto simp: bit_simps dest: bit_imp_le_length)

lemma PAGE_BASE_ADDR_eq: "PAGE_BASE_ADDR a = drop_bit 12 a"
  unfolding PAGE_BASE_ADDR_def page_masks by (rule bit_word_eqI) (auto simp: bit_simps dest: bit_imp_le_length)

lemma PAGE_BASE_ADDR_4MB_eq: "PAGE_BASE_ADDR_4MB a = drop_bit 22 a"
  unfolding PAGE_BASE_ADDR_4MB_def page_masks by (rule bit_word_eqI) (auto simp: bit_simps dest: bit_imp_le_length)

lemma unat_PAGE_DIR_IDX: "unat (PAGE_DIR_IDX a) = unat a div 4194304"
  by (simp add: PAGE_DIR_IDX_eq unat_drop_bit)

lemma unat_PAGE_TABLE_IDX: "unat (PAGE_TABLE_IDX a) = unat a div 4096 mod 1024"
  by (simp add: PAGE_TABLE_IDX_eq unat_drop_bit unat_and_mask)

lemma set_base_addr_base: "set_base_addr v w AND 0xFFFFF000 = push_bit 12 v"
  unfolding set_base_addr_def page_masks by (rule bit_word_eqI) (auto simp: bit_simps)

lemma bit_set_base_addr: "n < 12 \<Longrightarrow> bit (set_base_addr v w) n = bit w n"
  unfolding set_base_addr_def page_masks by (auto simp: bit_simps)

lemma set_base_addr_4mb_base: "set_base_addr_4mb v w AND 0xFFC00000 = push_bit 22 v"
  unfolding set_base_addr_4mb_def page_masks by (rule bit_word_eqI) (auto simp: bit_simps)

lemma bit_set_base_addr_4mb: "n < 22 \<Longrightarrow> bit (set_base_addr_4mb v w) n = bit w n"
  unfolding set_base_addr_4mb_def page_masks by (auto simp: bit_simps)

lemma bit_set_flag: "n < 32 \<Longrightarrow> bit (set_flag k b w) n = (if n = k then b else bit w n)"
  by (auto simp: set_flag_def bit_simps)

lemma push_drop_aligned: "(a :: u32) AND mask n = 0 \<Longrightarrow> push_bit n (drop_bit n a) = a"
  by (metis bits_ident add.right_neutral take_bit_eq_mask)

lemma aligned_or_offset:
  assumes "(a :: u32) AND mask n = 0"
  shows "a OR (b AND mask n) = a + (b AND mask n)"
proof (rule disjunctive_add_eq_or [symmetric])
  have "a AND (b AND mask n) = (a AND mask n) AND b" by (simp add: ac_simps)
  then show "a AND (b AND mask n) = 0" using assms by simp
qed

section \<open>Video windows\<close>

text \<open>A page aligned virtual address from which 64 KiB lie under one directory entry.\<close>

definition vid_window :: "u32 \<Rightarrow> bool" where
  "vid_window virt \<longleftrightarrow> unat virt mod 4096 = 0 \<and> unat virt div 4096 mod 1024 \<le> 1008"

lemma vid_window_obtain:
  assumes "vid_window virt"
  obtains a r where "unat virt = 4096 * (1024 * a + r)" "r \<le> 1008" "a < 1024"
    "unat virt div 4096 mod 1024 = r"
proof (rule that)
  let ?q = "unat virt div 4096"
  have 1: "unat virt = 4096 * ?q" using assms
    by (metis add.right_neutral mult_div_mod_eq vid_window_def)
  have 2: "?q = 1024 * (?q div 1024) + ?q mod 1024" by simp
  from 1 2 show "unat virt = 4096 * (1024 * (?q div 1024) + ?q mod 1024)" by simp
  show "?q mod 1024 \<le> 1008" using assms by (simp add: vid_window_def)
  show "?q div 1024 < 1024" using 1 2 unat_u32_less [of virt] by simp
qed simp

lemma vid_window_unat:
  assumes "vid_window virt" "k < 65536"
  shows "unat (virt + of_nat k) = unat virt + k"
proof -
  obtain a r where "unat virt = 4096 * (1024 * a + r)" "r \<le> 1008" "a < 1024"
    using vid_window_obtain [OF assms(1)] .
  then have "unat virt + 65536 \<le> 2 ^ 32" by simp
  with assms(2) show ?thesis by (simp add: unat_word_ariths unat_of_nat)
qed

lemma vid_window_index:
  assumes "vid_window virt" "k < 65536"
  shows "unat (PAGE_TABLE_IDX (virt + of_nat k)) = unat virt div 4096 mod 1024 + k div 4096"
    and "PAGE_DIR_IDX (virt + of_nat k) = PAGE_DIR_IDX virt"
proof -
  obtain a r where v: "unat virt = 4096 * (1024 * a + r)" "r \<le> 1008" "a < 1024"
    "unat virt div 4096 mod 1024 = r"
    using vid_window_obtain [OF assms(1)] .
  have i: "k div 4096 < 16" using assms(2) by (simp add: less_mult_imp_div_less)
  have eq: "unat virt + k = 4096 * (1024 * a + (r + k div 4096)) + k mod 4096"
    unfolding v(1) distrib_left by simp
  have d: "(unat virt + k) div 4096 = 1024 * a + (r + k div 4096)" unfolding eq by simp
  have ri: "r + k div 4096 < 1024" using v(2) i by linarith
  show "unat (PAGE_TABLE_IDX (virt + of_nat k)) = unat virt div 4096 mod 1024 + k div 4096"
    using ri by (simp add: unat_PAGE_TABLE_IDX vid_window_unat [OF assms] d v(4))
  have b: "n div 4194304 = n div 4096 div 1024" for n :: nat by (simp add: div_mult2_eq [symmetric])
  have "(unat virt + k) div 4194304 = a" "unat virt div 4194304 = a"
    unfolding b d using ri v by simp_all
  then show "PAGE_DIR_IDX (virt + of_nat k) = PAGE_DIR_IDX virt"
    by (simp add: word_unat_eq_iff unat_PAGE_DIR_IDX vid_window_unat [OF assms])
qed

lemma fold_clear_entries: "fold (\<lambda>i e. e(i := c)) [0..<n] f = (\<lambda>j. if j < n then c else f j)"
proof (induction n)
  case (Suc n)
  have "fold (\<lambda>i e. e(i := c)) [0..<Suc n] f = (fold (\<lambda>i e. e(i := c)) [0..<n] f)(n := c)" by simp
  also have "\<dots> = (\<lambda>j. if j < Suc n then c else f j)" unfolding Suc by (auto simp: less_Suc_eq)
  finally show ?case .
qed auto

lemma set_pte_fold:
  assumes "vid_window virt"
  shows "n \<le> 16 \<Longrightarrow> fold (\<lambda>i. set_pte t (PAGE_TABLE_IDX (virt + of_nat i * 4096)) (f i)) [0..<n] pg =
      pg\<lparr>page_tables := (page_tables pg)(t := (\<lambda>j. let b = unat virt div 4096 mod 1024 in
          if b \<le> j \<and> j < b + n then f (j - b) else page_tables pg t j))\<rparr>"
proof (induction n)
  case (Suc n)
  let ?b = "unat virt div 4096 mod 1024"
  have n: "n \<le> 16" "4096 * n < 65536" using Suc.prems by simp_all
  have "unat (PAGE_TABLE_IDX (virt + of_nat (4096 * n))) = ?b + n"
    using vid_window_index(1) [OF assms(1) n(2)] by simp
  then have idx: "unat (PAGE_TABLE_IDX (virt + of_nat n * 4096)) = ?b + n" by (simp add: mult.commute)
  let ?F = "\<lambda>i. set_pte t (PAGE_TABLE_IDX (virt + of_nat i * 4096)) (f i)"
  let ?T = "\<lambda>n j. let b = ?b in if b \<le> j \<and> j < b + n then f (j - b) else page_tables pg t j"
  have T: "(?T n)(?b + n := f n) = ?T (Suc n)" by (auto simp: Let_def fun_eq_iff)
  have "fold ?F [0..<Suc n] pg = ?F n (fold ?F [0..<n] pg)" by simp
  also have "\<dots> = pg\<lparr>page_tables := (page_tables pg)(t := (?T n)(?b + n := f n))\<rparr>"
    unfolding Suc.IH [OF n(1)] set_pte_def idx by simp
  finally show ?case unfolding T .
next
  case 0
  let ?b = "unat virt div 4096 mod 1024"
  have "(\<lambda>j. let b = ?b in if b \<le> j \<and> j < b + 0 then f (j - b) else page_tables pg t j) = page_tables pg t"
    by (auto simp: Let_def fun_eq_iff)
  then show ?case by (simp only: fun_upd_triv) simp
qed

lemma map_video_mem_eq:
  assumes "vid_window virt"
  shows "map_video_mem addr vid virt d t flags pg =
    pg\<lparr>page_tables := (page_tables pg)(t := (\<lambda>j. let b = unat virt div 4096 mod 1024 in
          if b \<le> j \<and> j < b + 16 then vid_pte vid flags (j - b)
          else if j < 1024 then 0 else page_tables pg t j)),
       page_directories := (page_directories pg)(d := (page_directories pg d)
          (unat (PAGE_DIR_IDX virt) := set_base_addr (PAGE_BASE_ADDR (addr t)) (set_flag 0 True 0 OR flags)))\<rparr>"
proof -
  have 16: "0x10000 div PAGE_SIZE = 16" by simp
  show ?thesis
    unfolding map_video_mem_def Let_def clear_page_table_def fold_clear_entries 16
      set_pte_fold [OF assms order.refl]
    by (simp add: set_pde_def Let_def cong: if_cong)
qed

lemma find_table:
  assumes "linked addr" "t \<in> set all_tables"
  shows "List.find (\<lambda>t'. addr t' = addr t) all_tables = Some t"
proof -
  obtain t' where t': "List.find (\<lambda>t'. addr t' = addr t) all_tables = Some t'"
    using find_SomeI [OF assms(2), of "\<lambda>t'. addr t' = addr t"] by blast
  have "t' \<in> set all_tables" "addr t' = addr t" using find_SomeD [OF t'] by simp_all
  then have "t' = t" using assms unfolding linked_def by (meson inj_onD)
  with t' show ?thesis by simp
qed

lemma linked_aligned: "linked addr \<Longrightarrow> t \<in> set all_tables \<Longrightarrow> push_bit 12 (PAGE_BASE_ADDR (addr t)) = addr t"
  unfolding PAGE_BASE_ADDR_eq by (rule push_drop_aligned) (simp add: linked_def page_masks)

lemma aligned_iff: "(a :: u32) AND mask 12 = 0 \<longleftrightarrow> unat a mod 4096 = 0"
  using unat_and_mask [of a 12] by (simp add: unat_eq_0 [symmetric])

lemma vid_pte_base:
  assumes "unat vid mod 4096 = 0" "unat vid + 65536 \<le> 2 ^ 32" "i < 16"
  shows "vid_pte vid flags i AND 0xFFFFF000 = vid + of_nat (4096 * i)"
proof -
  have "unat (vid + of_nat (4096 * i)) = unat vid + 4096 * i"
    using assms(2,3) by (simp add: unat_word_ariths unat_of_nat)
  then have "unat (vid + of_nat (4096 * i)) mod 4096 = 0" using assms(1) by simp
  then have "push_bit 12 (drop_bit 12 (vid + of_nat (4096 * i))) = vid + of_nat (4096 * i)"
    by (intro push_drop_aligned) (simp add: aligned_iff)
  then show ?thesis
    unfolding vid_pte_def Let_def set_base_addr_base PAGE_BASE_ADDR_eq by (simp add: mult.commute)
qed

lemma permitted_entry:
  "permitted user (set_base_addr v (set_flag 0 True 0 OR flags)) \<longleftrightarrow> (user \<longrightarrow> bit flags 2)"
  by (simp add: permitted_def bit_set_base_addr bit_or_iff bit_set_flag)

text \<open>A 64 KiB window at \<open>virt\<close> of directory \<open>d\<close> that goes through table \<open>t\<close> to \<open>vid\<close>.\<close>

definition vid_mapped :: "(pt_ref \<Rightarrow> u32) \<Rightarrow> u32 \<Rightarrow> u32 \<Rightarrow> nat \<Rightarrow> pt_ref \<Rightarrow> u32 \<Rightarrow> paging \<Rightarrow> bool" where
  "vid_mapped addr vid virt d t flags pg \<longleftrightarrow>
     page_directories pg d (unat (PAGE_DIR_IDX virt)) = set_base_addr (PAGE_BASE_ADDR (addr t)) (set_flag 0 True 0 OR flags) \<and>
     (\<forall>i < 16. page_tables pg t (unat virt div 4096 mod 1024 + i) = vid_pte vid flags i)"

lemma vid_mapped_map: "vid_window virt \<Longrightarrow> vid_mapped addr vid virt d t flags (map_video_mem addr vid virt d t flags pg)"
  unfolding vid_mapped_def map_video_mem_eq by (simp add: Let_def)

lemma walk_vid_mapped:
  assumes "linked addr" "t \<in> set all_tables" "vid_window virt"
    and vid: "unat vid mod 4096 = 0" "unat vid + 65536 \<le> 2 ^ 32" and "\<not> bit flags 7" and k: "k < 65536"
    and mapped: "vid_mapped addr vid virt d t flags pg"
  shows "walk addr pg d user (virt + of_nat k) = (if user \<and> \<not> bit flags 2 then None else Some (vid + of_nat k))"
proof -
  let ?i = "k div 4096" and ?b = "unat virt div 4096 mod 1024"
  have i: "?i < 16" using k by (simp add: less_mult_imp_div_less)
  have p: "vid_pte vid flags ?i = set_base_addr (PAGE_BASE_ADDR (vid + of_nat ?i * 4096)) (set_flag 0 True 0 OR flags)"
    by (simp add: vid_pte_def)
  have "unat ((virt + of_nat k) AND mask 12) = k mod 4096"
    using assms(3) unfolding unat_and_mask vid_window_unat [OF assms(3) k]
    by (simp add: vid_window_def mod_add_eq [symmetric, of "unat virt"])
  moreover have "unat (of_nat (k mod 4096) :: u32) = k mod 4096"
    by (rule unat_of_nat_u32, rule less_trans [of _ 4096]) simp_all
  ultimately have off: "(virt + of_nat k) AND mask 12 = of_nat (k mod 4096)"
    by (simp only: word_unat_eq_iff)
  have al: "(vid + of_nat (4096 * ?i)) AND mask 12 = 0"
  proof -
    have "unat (vid + of_nat (4096 * ?i)) = unat vid + 4096 * ?i"
      using vid(2) i by (simp add: unat_word_ariths unat_of_nat)
    then show ?thesis using vid(1) unfolding aligned_iff by simp
  qed
  have "k = 4096 * ?i + k mod 4096" by simp
  then have "of_nat k = (of_nat (4096 * ?i) + of_nat (k mod 4096) :: u32)" by (metis of_nat_add)
  then have res: "(vid + of_nat (4096 * ?i)) OR ((virt + of_nat k) AND mask 12) = vid + of_nat k"
    unfolding aligned_or_offset [OF al] unfolding off by (simp add: add.assoc)
  have e: "page_directories pg d (unat (PAGE_DIR_IDX (virt + of_nat k))) =
      set_base_addr (PAGE_BASE_ADDR (addr t)) (set_flag 0 True 0 OR flags)" (is "_ = ?e")
    unfolding vid_window_index(2) [OF assms(3) k] using mapped by (simp add: vid_mapped_def)
  have pt: "page_tables pg t (unat (PAGE_TABLE_IDX (virt + of_nat k))) = vid_pte vid flags ?i"
    unfolding vid_window_index(1) [OF assms(3) k] using i mapped by (simp add: vid_mapped_def)
  have 7: "\<not> bit ?e 7" using assms(6) by (simp add: bit_set_base_addr bit_or_iff bit_set_flag)
  have base: "?e AND 0xFFFFF000 = addr t"
    unfolding set_base_addr_base by (rule linked_aligned [OF assms(1,2)])
  have pm: "permitted user (vid_pte vid flags ?i) \<longleftrightarrow> (user \<longrightarrow> bit flags 2)"
    unfolding p by (rule permitted_entry)
  have pb: "vid_pte vid flags ?i AND 0xFFFFF000 = vid + of_nat (4096 * ?i)" by (rule vid_pte_base [OF vid i])
  show ?thesis
    unfolding walk_def Let_def e permitted_entry base find_table [OF assms(1,2)]
    using 7 res by (simp add: pt pm pb page_masks(6))
qed

lemma walk_map_video_mem:
  assumes "linked addr" "t \<in> set all_tables" "vid_window virt"
    and "unat vid mod 4096 = 0" "unat vid + 65536 \<le> 2 ^ 32" and "\<not> bit flags 7" and "k < 65536"
  shows "walk addr (map_video_mem addr vid virt d t flags pg) d user (virt + of_nat k) =
    (if user \<and> \<not> bit flags 2 then None else Some (vid + of_nat k))"
  by (rule walk_vid_mapped [OF assms vid_mapped_map [OF assms(3)]])

section \<open>The directories after initialisation\<close>

lemma vid_window_VIDEO: "vid_window VIDEO_ADDR"
  by (simp add: vid_window_def)

lemma vid_window_USER_VID: "vid_window USER_VID"
  by (simp add: vid_window_def)

definition kernel_pde :: u32 where
  "kernel_pde = set_base_addr_4mb 1 (set_flag 7 True (set_flag 2 False (set_flag 1 True (set_flag 0 True 0))))"

definition user_pde :: "nat \<Rightarrow> u32" where
  "user_pde i = set_base_addr_4mb (of_nat (i + 1)) (set_flag 7 True (set_flag 2 True (set_flag 1 True (set_flag 0 True 0))))"

definition video_pde :: "(pt_ref \<Rightarrow> u32) \<Rightarrow> u32" where
  "video_pde addr = set_base_addr (PAGE_BASE_ADDR (addr First_Table)) (set_flag 0 True 0 OR PG_WRITE)"

definition proc_dir :: "(pt_ref \<Rightarrow> u32) \<Rightarrow> nat \<Rightarrow> nat \<Rightarrow> u32" where
  "proc_dir addr i j =
     (if j = 0 then video_pde addr else if j = 1 then kernel_pde
      else if j = 32 \<and> i > 0 then user_pde i else 0)"

lemma page_base_user: "i \<le> 10 \<Longrightarrow> PAGE_BASE_ADDR_4MB (KERNEL_MEM + of_nat i * OFFSET_4MB) = of_nat (i + 1)"
proof -
  assume "i \<le> 10"
  then have "i = 0 \<or> i = 1 \<or> i = 2 \<or> i = 3 \<or> i = 4 \<or> i = 5 \<or> i = 6 \<or> i = 7 \<or> i = 8 \<or> i = 9 \<or> i = 10"
    by presburger
  then show ?thesis by (auto simp: PAGE_BASE_ADDR_4MB_def)
qed

lemma install_proc_dir_eq:
  assumes "i \<le> 10" "j < 1024"
  shows "page_directories (install_proc_dir addr i pg) i j = proc_dir addr i j"
proof -
  have "PAGE_DIR_IDX VIDEO_ADDR = 0" "PAGE_DIR_IDX KERNEL_MEM = 1" "PAGE_DIR_IDX USER_MEM = 32"
    "PAGE_BASE_ADDR_4MB KERNEL_MEM = 1"
    by (simp_all add: PAGE_DIR_IDX_def PAGE_BASE_ADDR_4MB_def)
  then show ?thesis
    using assms
    by (simp add: install_proc_dir_def Let_def map_video_mem_eq [OF vid_window_VIDEO] install_kernel_page_def
        install_user_page_def set_pde_def clear_page_dir_def fold_clear_entries page_base_user
        proc_dir_def kernel_pde_def user_pde_def video_pde_def del: upt_rec_numeral)
qed

lemma install_proc_dir_other: "d \<noteq> i \<Longrightarrow> page_directories (install_proc_dir addr i pg) d = page_directories pg d"
  by (simp add: install_proc_dir_def Let_def map_video_mem_eq [OF vid_window_VIDEO] install_kernel_page_def
        install_user_page_def set_pde_def clear_page_dir_def)

lemma fold_install_proc_dir:
  "n \<le> 11 \<Longrightarrow> i < n \<Longrightarrow> j < 1024 \<Longrightarrow>
   page_directories (fold (install_proc_dir addr) [0..<n] pg) i j = proc_dir addr i j"
proof (induction n)
  case (Suc n)
  show ?case
  proof (cases "i = n")
    case True
    with Suc.prems show ?thesis by (simp add: install_proc_dir_eq)
  next
    case False
    with Suc.prems Suc.IH show ?thesis by (simp add: install_proc_dir_other)
  qed
qed simp

lemma fold_clear_tables_dirs:
  "page_directories (fold (\<lambda>i. clear_page_table (Video_Memories i)) xs pg) = page_directories pg"
  by (induction xs arbitrary: pg) (simp_all add: clear_page_table_def)

lemma install_pages_dir:
  "i \<le> 10 \<Longrightarrow> j < 1024 \<Longrightarrow> page_directories (install_pages addr pg) i j = proc_dir addr i j"
  unfolding install_pages_def Let_def
  by (simp add: fold_clear_tables_dirs fold_install_proc_dir del: upt_rec_numeral upt_Suc)

lemma user_window: "unat (PAGE_DIR_IDX va) = 32 \<longleftrightarrow> USER_MEM \<le> va \<and> va < USER_MEM + OFFSET_4MB"
  by (auto simp: unat_PAGE_DIR_IDX word_le_nat_alt word_less_nat_alt)

lemma user_offset:
  assumes "unat (PAGE_DIR_IDX va) = 32"
  shows "va AND mask 22 = va - USER_MEM"
proof -
  have "drop_bit 22 va = 32" using assms unfolding PAGE_DIR_IDX_eq by (simp add: word_unat_eq_iff)
  then have "push_bit 22 32 + take_bit 22 va = va" using bits_ident [of 22 va] by simp
  then have "USER_MEM + (va AND mask 22) = va" by (simp add: take_bit_eq_mask)
  then show ?thesis by (metis add_diff_cancel_left')
qed

lemma user_pde_bits: "bit (user_pde i) 0" "bit (user_pde i) 2" "bit (user_pde i) 7"
  by (simp_all add: user_pde_def bit_set_base_addr_4mb bit_set_flag)

lemma user_frame:
  assumes "i \<le> 10"
  shows "(user_pde i AND 0xFFC00000) OR (va AND mask 22) = KERNEL_MEM + of_nat i * OFFSET_4MB + (va AND mask 22)"
proof -
  have "user_pde i AND 0xFFC00000 = push_bit 22 (of_nat (i + 1))"
    unfolding user_pde_def by (rule set_base_addr_4mb_base)
  moreover have "push_bit 22 (of_nat (i + 1) :: u32) = KERNEL_MEM + of_nat i * OFFSET_4MB"
    by (simp add: push_bit_eq_mult algebra_simps)
  moreover have "push_bit 22 (of_nat (i + 1) :: u32) AND mask 22 = 0"
    by (rule bit_word_eqI) (simp add: bit_simps)
  ultimately show ?thesis using aligned_or_offset [of "push_bit 22 (of_nat (i + 1))" 22 va] by simp
qed

lemma dir_idx_less: "unat (PAGE_DIR_IDX va) < 1024"
  using unat_u32_less [of va] by (simp add: unat_PAGE_DIR_IDX less_mult_imp_div_less)

lemma user_walk:
  assumes "1 \<le> i" "i \<le> MAX_PROCESSES"
  shows "walk addr (paging_init addr pg) i True va =
    (if USER_MEM \<le> va \<and> va < USER_MEM + OFFSET_4MB
     then Some (KERNEL_MEM + of_nat i * OFFSET_4MB + (va - USER_MEM)) else None)"
proof -
  have e: "page_directories (paging_init addr pg) i (unat (PAGE_DIR_IDX va)) = proc_dir addr i (unat (PAGE_DIR_IDX va))"
    unfolding paging_init_def using assms dir_idx_less by (intro install_pages_dir) simp_all
  show ?thesis
  proof (cases "unat (PAGE_DIR_IDX va) = 32")
    case True
    then have p: "proc_dir addr i (unat (PAGE_DIR_IDX va)) = user_pde i" using assms by (simp add: proc_dir_def)
    have "(user_pde i AND 0xFFC00000) OR (va AND 0x3FFFFF) = KERNEL_MEM + of_nat i * OFFSET_4MB + (va - USER_MEM)"
      using user_frame [of i va] assms user_offset [OF True] unfolding page_masks(5) by simp
    then show ?thesis
      unfolding walk_def Let_def e p using True user_window [of va] by (simp add: permitted_def user_pde_bits)
  next
    case False
    then have "\<not> permitted True (proc_dir addr i (unat (PAGE_DIR_IDX va)))"
      by (simp add: proc_dir_def permitted_def kernel_pde_def video_pde_def bit_set_base_addr
          bit_set_base_addr_4mb bit_set_flag bit_or_iff)
    then show ?thesis unfolding walk_def Let_def e using False user_window [of va] by simp
  qed
qed

lemma user_walk_frame:
  assumes "1 \<le> i" "i \<le> MAX_PROCESSES" "walk addr (paging_init addr pg) i True va = Some pa"
  shows "unat pa div 4194304 = i + 1"
proof -
  have va: "USER_MEM \<le> va" "va < USER_MEM + OFFSET_4MB"
    and pa: "pa = KERNEL_MEM + of_nat i * OFFSET_4MB + (va - USER_MEM)"
    using assms(3) unfolding user_walk [OF assms(1,2)] by (auto split: if_splits)
  have x: "unat (va - USER_MEM) < 4194304"
    using va by (simp add: unat_sub_if' word_le_nat_alt word_less_nat_alt)
  have "KERNEL_MEM + of_nat i * OFFSET_4MB = of_nat (4194304 * (i + 1))" by (simp add: algebra_simps)
  then have "pa = of_nat (4194304 * (i + 1) + unat (va - USER_MEM))"
    unfolding pa by (simp add: algebra_simps)
  then have "unat pa = 4194304 * (i + 1) + unat (va - USER_MEM)"
    using x assms by (simp only:) (rule unat_of_nat_u32, simp)
  then show ?thesis using x by (simp only:) simp
qed

section \<open>Properties\<close>

text \<open>
  C10: after \<open>paging_init\<close> a user-mode access under the page directory of process \<open>i\<close> succeeds
  exactly inside the 4 MiB user window, and reaches the 4 MiB frame that belongs to \<open>i\<close>: the
  kernel page and the video page are closed to user mode.\<close>

theorem user_space_mapping:
  assumes "1 \<le> i" "i \<le> MAX_PROCESSES"
  shows "walk addr (paging_init addr pg) i True va =
    (if USER_MEM \<le> va \<and> va < USER_MEM + OFFSET_4MB
     then Some (KERNEL_MEM + of_nat i * OFFSET_4MB + (va - USER_MEM)) else None)"
  by (rule user_walk [OF assms])

theorem user_space_mapping_witness:
  "\<forall>pg0. walk (\<lambda>t. 0) (paging_init (\<lambda>t. 0) pg0) 3 True 0x08048000 = Some 0x1048000 \<and>
   walk (\<lambda>t. 0) (paging_init (\<lambda>t. 0) pg0) 3 True 0x00400000 = None"
proof
  fix pg0
  show "walk (\<lambda>t. 0) (paging_init (\<lambda>t. 0) pg0) 3 True 0x08048000 = Some 0x1048000 \<and>
   walk (\<lambda>t. 0) (paging_init (\<lambda>t. 0) pg0) 3 True 0x00400000 = None"
    by (simp add: user_space_mapping [of 3])
qed



text \<open>
  \<open>map_video_mem\<close> makes the 64 KiB window at \<open>virt\<close> show the 64 KiB at \<open>vidmem\<close>, byte for
  byte, with the access rights of \<open>flags\<close>, when the window lies under one directory entry.\<close>

theorem map_video_mem_correct:
  assumes "linked addr" "t \<in> set all_tables" "vid_window virt"
    and "unat vidmem mod 4096 = 0" "unat vidmem + 65536 \<le> 2 ^ 32" and "\<not> bit flags 7"
  shows "\<forall>k < 65536. walk addr (map_video_mem addr vidmem virt d t flags pg) d user (virt + of_nat k) =
    (if user \<and> \<not> bit flags 2 then None else Some (vidmem + of_nat k))"
  using walk_map_video_mem [OF assms] by blast

text \<open>Page tables laid out one after the other, as a linker may place them.\<close>

definition sample_layout :: "pt_ref \<Rightarrow> u32" where
  "sample_layout t = (case t of First_Table \<Rightarrow> 0x410000
     | Video_Memories i \<Rightarrow> 0x411000 + of_nat i * 4096 | User_Video_Mems i \<Rightarrow> 0x415000 + of_nat i * 4096)"

lemma all_tables_eq:
  "set all_tables = {First_Table, Video_Memories 0, Video_Memories 1, Video_Memories 2, Video_Memories 3,
     User_Video_Mems 0, User_Video_Mems 1, User_Video_Mems 2, User_Video_Mems 3}"
  by (auto simp: all_tables_def upt_rec numeral_eq_Suc)

lemma linked_sample: "linked sample_layout"
  unfolding linked_def all_tables_eq by (simp add: sample_layout_def inj_on_def)

theorem map_video_mem_correct_witness:
  "\<forall>pg. walk sample_layout (map_video_mem sample_layout VIDEO_ADDR USER_VID 5 (User_Video_Mems 2) 6 pg) 5 True
     (USER_VID + of_nat 4001) = Some (VIDEO_ADDR + of_nat 4001)"
proof
  fix pg
  have 6: "(6 :: u32) = set_bit 2 (set_bit 1 0)" by (simp add: set_bit_eq_or)
  have f: "\<not> bit (6 :: u32) 7" "bit (6 :: u32) 2" unfolding 6 by (simp_all add: bit_simps)
  have t: "User_Video_Mems 2 \<in> set all_tables" by (simp add: all_tables_eq)
  have "\<forall>k < 65536. walk sample_layout (map_video_mem sample_layout VIDEO_ADDR USER_VID 5 (User_Video_Mems 2) 6 pg) 5 True
     (USER_VID + of_nat k) = (if True \<and> \<not> bit (6 :: u32) 2 then None else Some (VIDEO_ADDR + of_nat k))"
    by (rule map_video_mem_correct [OF linked_sample t vid_window_USER_VID _ _ f(1)]) simp_all
  then show "walk sample_layout (map_video_mem sample_layout VIDEO_ADDR USER_VID 5 (User_Video_Mems 2) 6 pg) 5 True
     (USER_VID + of_nat 4001) = Some (VIDEO_ADDR + of_nat 4001)"
    using f(2) by (elim allE [of _ 4001]) (simp del: of_nat_numeral)
qed

end
