(* ===== verification/Proc.thy ===== *)
theory Proc
  imports Circ_Buf Vga Paging
begin

text \<open>
  \<^verbatim>\<open>student-distrib/proc.h\<close> and the data structures the kernel components share: files, process
  control blocks, terminals (\<^verbatim>\<open>term.h\<close>), saved registers (\<^verbatim>\<open>isr.h\<close>) and the state of the whole
  kernel.

  A \<open>pcb_t *\<close> is the index \<open>k\<close> for which \<open>get_pcb_from_pid k\<close> returns that address (the kernel
  never makes another one), a \<open>file_t *\<close> the pair of such an index and a descriptor, a
  \<open>term_t *\<close> an index into \<open>term_terms\<close>, a \<open>registers_t *\<close> the address of the frame. NULL is \<open>None\<close>.
\<close>

section \<open>Data\<close>

text \<open>\<open>fops_t\<close>: the four file operation tables of the kernel.\<close>

datatype fops = term_fops | file_fops | dir_fops | rtc_fops

type_synonym pcb_ptr = nat
type_synonym file_ptr = "pcb_ptr \<times> nat"

record file_t =
  file_op :: "fops option"
  inode_ptr :: u32
  file_pos :: u32
  file_flags :: u32
  reserved :: "file_ptr option"

record pcb =
  state :: u32
  pid :: u32
  file_array :: "file_t list"
  kern_stack :: u32
  user_stack :: u32
  sched_ctx :: "u32 option"
  cmd_args :: "u8 list"
  page_directory :: nat
  parent :: "pcb_ptr option"
  parent_ctx :: "u32 option"
  has_video_mapped :: bool
  term_ctx :: "nat option"

record registers =
  r_ebx :: u32
  r_ecx :: u32
  r_edx :: u32
  r_esi :: u32
  r_edi :: u32
  r_ebp :: u32
  r_eax :: u32
  r_ds :: u32
  r_es :: u32
  r_fs :: u32
  r_isrno :: u32
  r_errno :: u32
  r_eip :: u32
  r_cs :: u32
  r_eflags :: u32
  r_user_esp :: u32
  r_ss :: u32

record term_t =
  key_buf :: "u8 circ_buf"
  lctrl_held :: bool
  rctrl_held :: bool
  lshift_held :: bool
  rshift_held :: bool
  lalt_held :: bool
  ralt_held :: bool
  caps_lock :: bool
  term_screen :: screen_t

record kstate =
  con :: console
  kern_screen :: screen_t
  term_global_ctx :: term_t
  term_terms :: "term_t list"
  term_pids :: "int list"
  terminal_num :: nat
  pcbs :: "pcb_ptr \<Rightarrow> pcb"
  cur_pcb :: pcb_ptr
  nprocs :: u8
  proc_bitmap :: u32
  sched_queue_1 :: "u32 circ_buf"
  sched_queue_2 :: "u32 circ_buf"
  active_is_1 :: bool
  open_rtcs :: "file_ptr option"
  pg :: paging
  frames :: "u32 \<Rightarrow> registers"
  tss_esp0 :: u32
  tss_ss0 :: u32
  isZombie :: u8
  relaunch :: u8
  user_mem :: "nat \<Rightarrow> u8 list"
  iflag :: bool
  io :: "io_event list"

abbreviation (input) FILE_PRESENT :: u32 where "FILE_PRESENT \<equiv> 1"
abbreviation (input) FILE_OPEN :: u32 where "FILE_OPEN \<equiv> 2"
abbreviation (input) FILE_CLOSED :: u32 where "FILE_CLOSED \<equiv> 4"
abbreviation (input) FILE_RTC :: u32 where "FILE_RTC \<equiv> 8"
abbreviation (input) MAX_FILES :: nat where "MAX_FILES \<equiv> 8"
abbreviation (input) MAX_ARGS_LEN :: nat where "MAX_ARGS_LEN \<equiv> 63"
abbreviation (input) EXIT_DEAD :: u32 where "EXIT_DEAD \<equiv> 6"
abbreviation (input) USER_STACK_SIZE :: u32 where "USER_STACK_SIZE \<equiv> 0x2000"
abbreviation (input) ALIGN_8KB :: u32 where "ALIGN_8KB \<equiv> 0xFFFFE000"
abbreviation (input) ALIGN_4B :: u32 where "ALIGN_4B \<equiv> 0xFFFFFFFC"

section \<open>Process control blocks by address\<close>

text \<open>The two address computations, on machine words.\<close>

definition pcb_addr_from_pid :: "int \<Rightarrow> u32 option" where
  "pcb_addr_from_pid p =
     (if p < 0 \<or> p > int MAX_PROCESSES then None
      else Some ((KERNEL_MEM + OFFSET_4MB - USER_STACK_SIZE * word_of_int p - 1) AND ALIGN_8KB))"

definition proc_pcb_addr :: "u32 \<Rightarrow> u32 option" where
  "proc_pcb_addr esp =
     (let pcb = ALIGN_8KB AND esp in
      if pcb = KERNEL_MEM + OFFSET_4MB - USER_STACK_SIZE then None else Some pcb)"

text \<open>On the index of the control block instead of its address.\<close>

definition get_pcb_from_pid :: "int \<Rightarrow> pcb_ptr option" where
  "get_pcb_from_pid p = (if p < 0 \<or> p > int MAX_PROCESSES then None else Some (nat p))"

text \<open>
  \<open>cur_pcb\<close> is the control block whose 8 KiB stack holds \<open>esp\<close>; block 0 is the boot stack, for
  which \<open>get_proc_pcb\<close> returns NULL.
\<close>

definition get_proc_pcb :: "kstate \<Rightarrow> pcb_ptr option" where
  "get_proc_pcb s = (if cur_pcb s = 0 then None else Some (cur_pcb s))"

definition upd_pcb :: "pcb_ptr \<Rightarrow> (pcb \<Rightarrow> pcb) \<Rightarrow> kstate \<Rightarrow> kstate" where
  "upd_pcb p f s = s\<lparr>pcbs := (pcbs s)(p := f (pcbs s p))\<rparr>"

definition get_file :: "kstate \<Rightarrow> file_ptr \<Rightarrow> file_t" where
  "get_file s r = file_array (pcbs s (fst r)) ! snd r"

definition upd_file :: "file_ptr \<Rightarrow> (file_t \<Rightarrow> file_t) \<Rightarrow> kstate \<Rightarrow> kstate" where
  "upd_file r f s =
     upd_pcb (fst r) (\<lambda>p. p\<lparr>file_array := (file_array p)[snd r := f (file_array p ! snd r)]\<rparr>) s"

definition do_io :: "io_event list \<Rightarrow> kstate \<Rightarrow> kstate" where
  "do_io es s = s\<lparr>io := io s @ es\<rparr>"

section \<open>File descriptors\<close>

definition get_file_from_fd :: "pcb_ptr option \<Rightarrow> int \<Rightarrow> file_ptr option" where
  "get_file_from_fd p fd =
     (case p of None \<Rightarrow> None
      | Some p \<Rightarrow> if 0 \<le> fd \<and> fd < int MAX_FILES then Some (p, nat fd) else None)"

text \<open>
  The scan of \<open>get_unused_fd\<close> has no upper bound, so it can go on past \<open>file_array\<close>: the word it
  tests as \<open>file_array[fd].flags\<close> is then in \<open>cmd_args\<close> for \<open>fd\<close> 8 to 11 (offsets 180, 200, 220
  and 240 of the block), and the \<open>term_ctx\<close> pointer for \<open>fd\<close> 12 (offset 260), whose lowest bit
  is clear because it is aligned or NULL.
\<close>

definition present_at :: "pcb \<Rightarrow> nat \<Rightarrow> bool" where
  "present_at p fd =
     (if fd < MAX_FILES then bit (file_flags (file_array p ! fd)) 0
      else if fd < 12 then bit (cmd_args p ! (20 * (fd - 8))) 0
      else False)"

function unused_fd_scan :: "pcb \<Rightarrow> nat \<Rightarrow> nat" where
  "unused_fd_scan p fd = (if present_at p fd then unused_fd_scan p (fd + 1) else fd)"
  by pat_completeness auto
termination
  by (relation "measure (\<lambda>(p, fd). 12 - fd)") (auto simp: present_at_def split: if_splits)

definition get_unused_fd :: "pcb_ptr option \<Rightarrow> kstate \<Rightarrow> kstate \<times> int" where
  "get_unused_fd p s =
     (case p of None \<Rightarrow> (s, -1)
      | Some p \<Rightarrow>
          let fd = unused_fd_scan (pcbs s p) 0 in
          if fd < MAX_FILES
          then (upd_file (p, fd) (\<lambda>f. f\<lparr>file_flags := file_flags f OR FILE_PRESENT\<rparr>) s, int fd)
          else (s, -1))"

text \<open>
  \<open>release_fd\<close> accepts \<open>fd = 8\<close>, one past the array: \<open>file_array[8].flags\<close> is the first word of
  \<open>cmd_args\<close>.
\<close>

definition release_fd :: "pcb_ptr option \<Rightarrow> int \<Rightarrow> kstate \<Rightarrow> kstate" where
  "release_fd p fd s =
     (if fd < 0 \<or> fd > int MAX_FILES then s
      else case p of None \<Rightarrow> s
        | Some p \<Rightarrow>
            if nat fd < MAX_FILES then upd_file (p, nat fd) (\<lambda>f. f\<lparr>file_flags := 0\<rparr>) s
            else upd_pcb p (\<lambda>b. b\<lparr>cmd_args := [0, 0, 0, 0] @ drop 4 (cmd_args b)\<rparr>) s)"

section \<open>Process identifiers\<close>

function free_pid_scan :: "u32 \<Rightarrow> nat \<Rightarrow> nat" where
  "free_pid_scan bitmap index =
     (if push_bit index 1 AND bitmap \<noteq> 0 \<and> index \<le> MAX_PROCESSES
      then free_pid_scan bitmap (index + 1) else index)"
  by pat_completeness auto
termination by (relation "measure (\<lambda>(b, i). 11 - i)") auto

definition get_first_free_pid :: "kstate \<Rightarrow> kstate \<times> int" where
  "get_first_free_pid s =
     (let index = free_pid_scan (proc_bitmap s) 1 in
      if index > MAX_PROCESSES then (s, -1)
      else (s\<lparr>proc_bitmap := proc_bitmap s OR push_bit index 1\<rparr>, int index))"

definition free_pid :: "u32 \<Rightarrow> kstate \<Rightarrow> kstate" where
  "free_pid p s = s\<lparr>proc_bitmap := proc_bitmap s AND NOT (push_bit (unat p mod 32) 1)\<rparr>"

section \<open>Terminals of processes\<close>

definition get_term_fake_vid_mem :: "nat \<Rightarrow> vid_ptr" where
  "get_term_fake_vid_mem term_id = FAKE term_id"

text \<open>The walk to the topmost ancestor: \<open>None\<close> when it does not end (a cycle of parents).\<close>

partial_function (option) root_pcb :: "(pcb_ptr \<Rightarrow> pcb) \<Rightarrow> pcb_ptr \<Rightarrow> pcb_ptr option" where
  "root_pcb bs p = (case parent (bs p) of None \<Rightarrow> Some p | Some q \<Rightarrow> root_pcb bs q)"

text \<open>The outer option is termination, the inner one the pointer.\<close>

definition get_term_ctx :: "kstate \<Rightarrow> pcb_ptr option \<Rightarrow> nat option option" where
  "get_term_ctx s p =
     (case p of None \<Rightarrow> Some None
      | Some p \<Rightarrow> (case root_pcb (pcbs s) p of None \<Rightarrow> None | Some r \<Rightarrow> Some (term_ctx (pcbs s r))))"

definition get_current_term :: "kstate \<Rightarrow> nat option" where
  "get_current_term s =
     (if term_pids s ! terminal_num s < 0 then None else Some (terminal_num s))"

text \<open>The \<open>screen\<close> member of a terminal is named by the terminal's index.\<close>

definition get_screen_ctx :: "kstate \<Rightarrow> pcb_ptr option \<Rightarrow> nat option option" where
  "get_screen_ctx s p =
     (case get_term_ctx s p of None \<Rightarrow> None | Some None \<Rightarrow> Some None | Some (Some t) \<Rightarrow> Some (Some t))"

declare unused_fd_scan.simps [simp del] free_pid_scan.simps [simp del]

section \<open>Descriptor allocation\<close>

definition fd_used :: "pcb \<Rightarrow> nat \<Rightarrow> bool" where
  "fd_used b fd \<longleftrightarrow> bit (file_flags (file_array b ! fd)) 0"

lemma unused_fd_scan_spec:
  "(\<forall>k. fd \<le> k \<and> k < unused_fd_scan b fd \<longrightarrow> present_at b k) \<and> \<not> present_at b (unused_fd_scan b fd) \<and>
   fd \<le> unused_fd_scan b fd"
proof (induction b fd rule: unused_fd_scan.induct)
  case (1 b fd)
  show ?case
  proof (cases "present_at b fd")
    case True
    have step: "unused_fd_scan b fd = unused_fd_scan b (fd + 1)"
      using True by (subst unused_fd_scan.simps) simp
    show ?thesis unfolding step
    proof (intro conjI allI impI)
      fix k assume "fd \<le> k \<and> k < unused_fd_scan b (fd + 1)"
      then show "present_at b k" using 1 [OF True] True by (cases "k = fd") auto
    qed (use 1 [OF True] in auto)
  next
    case False
    then have "unused_fd_scan b fd = fd" by (subst unused_fd_scan.simps) simp
    with False show ?thesis by auto
  qed
qed

lemma unused_fd_scan_lowest:
  assumes "\<exists>k < MAX_FILES. \<not> fd_used b k"
  shows "unused_fd_scan b 0 = (LEAST k. \<not> fd_used b k)" and "unused_fd_scan b 0 < MAX_FILES"
proof -
  let ?n = "unused_fd_scan b 0"
  obtain k where k: "k < MAX_FILES" "\<not> fd_used b k" using assms by blast
  have sp: "\<And>j. j < ?n \<Longrightarrow> present_at b j" "\<not> present_at b ?n" using unused_fd_scan_spec [of 0 b] by auto
  have "\<not> k < ?n" using sp(1) [of k] k by (auto simp: present_at_def fd_used_def)
  then show n: "?n < MAX_FILES" using k by simp
  show "?n = (LEAST k. \<not> fd_used b k)"
  proof (rule Least_equality [symmetric])
    show "\<not> fd_used b ?n" using sp(2) n by (simp add: present_at_def fd_used_def)
    fix j assume "\<not> fd_used b j"
    then show "?n \<le> j" using sp(1) [of j] n by (force simp: present_at_def fd_used_def)
  qed
qed

lemma unused_fd_scan_full:
  assumes "\<forall>k < MAX_FILES. fd_used b k"
  shows "\<not> unused_fd_scan b 0 < MAX_FILES"
  using assms unused_fd_scan_spec [of 0 b] by (auto simp: present_at_def fd_used_def)

lemma get_unused_fd_cases:
  "get_unused_fd (Some p) s =
     (if \<exists>k < MAX_FILES. \<not> fd_used (pcbs s p) k
      then let fd = LEAST k. \<not> fd_used (pcbs s p) k
           in (upd_file (p, fd) (\<lambda>f. f\<lparr>file_flags := file_flags f OR FILE_PRESENT\<rparr>) s, int fd)
      else (s, -1))"
  using unused_fd_scan_lowest [of "pcbs s p"] unused_fd_scan_full [of "pcbs s p"]
  by (auto simp: get_unused_fd_def Let_def)

section \<open>Identifier allocation\<close>

definition pid_used :: "kstate \<Rightarrow> nat \<Rightarrow> bool" where
  "pid_used s p \<longleftrightarrow> bit (proc_bitmap s) p"

lemma bitmap_test [simp]: "2 ^ n AND w = 0 \<longleftrightarrow> \<not> bit (w :: u32) n"
  by (simp add: and.commute [of "2 ^ n"] and_exp_eq_0_iff_not_bit)

lemma free_pid_scan_spec:
  "index \<le> 11 \<Longrightarrow> index \<le> free_pid_scan w index \<and> free_pid_scan w index \<le> 11 \<and>
   (\<forall>k. index \<le> k \<and> k < free_pid_scan w index \<longrightarrow> bit w k) \<and>
   (free_pid_scan w index \<le> MAX_PROCESSES \<longrightarrow> \<not> bit w (free_pid_scan w index))"
proof (induction w index rule: free_pid_scan.induct)
  case (1 w index)
  show ?case
  proof (cases "bit w index \<and> index \<le> MAX_PROCESSES")
    case True
    have step: "free_pid_scan w index = free_pid_scan w (index + 1)"
      using True by (subst free_pid_scan.simps) simp
    have ih: "index + 1 \<le> free_pid_scan w (index + 1) \<and> free_pid_scan w (index + 1) \<le> 11 \<and>
      (\<forall>k. index + 1 \<le> k \<and> k < free_pid_scan w (index + 1) \<longrightarrow> bit w k) \<and>
      (free_pid_scan w (index + 1) \<le> MAX_PROCESSES \<longrightarrow> \<not> bit w (free_pid_scan w (index + 1)))"
      using 1(1) True by simp
    show ?thesis unfolding step
    proof (intro conjI allI impI)
      fix k assume "index \<le> k \<and> k < free_pid_scan w (index + 1)"
      then show "bit w k" using ih True by (cases "k = index") auto
    qed (use ih in auto)
  next
    case False
    then have "free_pid_scan w index = index" by (subst free_pid_scan.simps) auto
    with False 1(2) show ?thesis by auto
  qed
qed

lemma get_first_free_pid_cases:
  obtains (free) k where "1 \<le> k" "k \<le> MAX_PROCESSES" "\<not> pid_used s k" "\<forall>j. 1 \<le> j \<and> j < k \<longrightarrow> pid_used s j"
      "get_first_free_pid s = (s\<lparr>proc_bitmap := proc_bitmap s OR push_bit k 1\<rparr>, int k)"
  | (none) "\<forall>j. 1 \<le> j \<and> j \<le> MAX_PROCESSES \<longrightarrow> pid_used s j" "get_first_free_pid s = (s, -1)"
proof -
  let ?n = "free_pid_scan (proc_bitmap s) 1"
  have sp: "1 \<le> ?n" "\<And>k. 1 \<le> k \<Longrightarrow> k < ?n \<Longrightarrow> bit (proc_bitmap s) k"
    "?n \<le> MAX_PROCESSES \<Longrightarrow> \<not> bit (proc_bitmap s) ?n"
    using free_pid_scan_spec [of 1 "proc_bitmap s"] by auto
  show ?thesis
  proof (cases "?n \<le> MAX_PROCESSES")
    case True
    show ?thesis
      by (rule free [of ?n]) (use True sp in \<open>simp_all add: get_first_free_pid_def Let_def pid_used_def\<close>)
  next
    case False
    show ?thesis
      by (rule none) (use False sp in \<open>simp_all add: get_first_free_pid_def Let_def pid_used_def\<close>)
  qed
qed

section \<open>The allocator interface\<close>

text \<open>
  What the callers of \<open>get_unused_fd\<close> and \<open>get_first_free_pid\<close> rely on: a free identifier is
  handed out and marked, until none is left. Both routines are instances.
\<close>

fun alloc_n :: "('s \<Rightarrow> 's \<times> int) \<Rightarrow> nat \<Rightarrow> 's \<Rightarrow> 's \<times> int list" where
  "alloc_n alloc 0 s = (s, [])"
| "alloc_n alloc (Suc n) s =
     (case alloc s of (s', k) \<Rightarrow> case alloc_n alloc n s' of (s'', ks) \<Rightarrow> (s'', k # ks))"

locale allocator =
  fixes alloc :: "'s \<Rightarrow> 's \<times> int" and used :: "'s \<Rightarrow> nat \<Rightarrow> bool" and ids :: "nat set" and invar :: "'s \<Rightarrow> bool"
  assumes finite_ids: "finite ids"
    and alloc_free: "invar s \<Longrightarrow> \<exists>k \<in> ids. \<not> used s k \<Longrightarrow>
      \<exists>s' k. alloc s = (s', int k) \<and> k \<in> ids \<and> \<not> used s k \<and> invar s' \<and> (\<forall>j \<in> ids. used s' j = (used s j \<or> j = k))"
    and alloc_none: "invar s \<Longrightarrow> \<forall>k \<in> ids. used s k \<Longrightarrow> alloc s = (s, -1)"
begin

lemma alloc_n_none: "invar s \<Longrightarrow> \<forall>k \<in> ids. used s k \<Longrightarrow> alloc_n alloc n s = (s, replicate n (-1))"
  by (induction n) (simp_all add: alloc_none)

lemma alloc_n_free:
  "invar s \<Longrightarrow> alloc_n alloc n s = (s', ks) \<Longrightarrow>
   \<exists>ok. ks = map int ok @ replicate (n - length ok) (-1) \<and> distinct ok \<and> set ok \<subseteq> {k \<in> ids. \<not> used s k} \<and>
     length ok = min n (card {k \<in> ids. \<not> used s k})"
proof (induction n arbitrary: s ks)
  case (Suc n)
  show ?case
  proof (cases "\<forall>k \<in> ids. used s k")
    case True
    then have e: "{k \<in> ids. \<not> used s k} = {}" by blast
    have "ks = replicate (Suc n) (-1)" using alloc_n_none [OF Suc.prems(1) True, of "Suc n"] Suc.prems(2) by simp
    then show ?thesis unfolding e by (intro exI [of _ "[]"]) simp
  next
    case False
    then obtain s1 k where k: "alloc s = (s1, int k)" "k \<in> ids" "\<not> used s k" "invar s1"
      "\<forall>j \<in> ids. used s1 j = (used s j \<or> j = k)" using alloc_free [OF Suc.prems(1)] by blast
    obtain ks' where ks': "alloc_n alloc n s1 = (s', ks')" "ks = int k # ks'"
      using Suc.prems(2) k(1) by (auto split: prod.splits)
    obtain ok where ok: "ks' = map int ok @ replicate (n - length ok) (-1)" "distinct ok"
      "set ok \<subseteq> {k \<in> ids. \<not> used s1 k}" "length ok = min n (card {k \<in> ids. \<not> used s1 k})"
      using Suc.IH [OF k(4) ks'(1)] by blast
    have free: "{k \<in> ids. \<not> used s k} = insert k {k \<in> ids. \<not> used s1 k}" "k \<notin> {k \<in> ids. \<not> used s1 k}"
      using k(2,3,5) by auto
    have "card {k \<in> ids. \<not> used s k} = Suc (card {k \<in> ids. \<not> used s1 k})"
      unfolding free(1) by (rule card_insert_disjoint) (use free(2) finite_ids in auto)
    then show ?thesis using ok ks'(2) free by (intro exI [of _ "k # ok"]) auto
  qed
qed simp

end

interpretation pids: allocator get_first_free_pid pid_used "{1..MAX_PROCESSES}" "\<lambda>s. True"
proof unfold_locales
  fix s :: kstate
  assume free: "\<exists>k \<in> {1..MAX_PROCESSES}. \<not> pid_used s k"
  show "\<exists>s' k. get_first_free_pid s = (s', int k) \<and> k \<in> {1..MAX_PROCESSES} \<and> \<not> pid_used s k \<and> True \<and>
      (\<forall>j \<in> {1..MAX_PROCESSES}. pid_used s' j = (pid_used s j \<or> j = k))"
  proof (cases rule: get_first_free_pid_cases [of s])
    case (free k)
    then show ?thesis by (auto simp: pid_used_def bit_simps)
  next
    case none
    with free show ?thesis by auto
  qed
next
  fix s :: kstate
  assume "\<forall>k \<in> {1..MAX_PROCESSES}. pid_used s k"
  then show "get_first_free_pid s = (s, -1)"
    by (cases rule: get_first_free_pid_cases [of s]) auto
qed simp

interpretation fds: allocator "get_unused_fd (Some p)" "\<lambda>s. fd_used (pcbs s p)" "{0..<MAX_FILES}"
  "\<lambda>s. length (file_array (pcbs s p)) = MAX_FILES" for p
proof unfold_locales
  fix s :: kstate
  assume len: "length (file_array (pcbs s p)) = MAX_FILES" and "\<exists>k \<in> {0..<MAX_FILES}. \<not> fd_used (pcbs s p) k"
  then have free: "\<exists>k < MAX_FILES. \<not> fd_used (pcbs s p) k" by auto
  let ?n = "LEAST k. \<not> fd_used (pcbs s p) k"
  have n: "?n < MAX_FILES" "\<not> fd_used (pcbs s p) ?n" using unused_fd_scan_lowest [OF free] LeastI_ex free by metis+
  then show "\<exists>s' k. get_unused_fd (Some p) s = (s', int k) \<and> k \<in> {0..<MAX_FILES} \<and> \<not> fd_used (pcbs s p) k \<and>
      length (file_array (pcbs s' p)) = MAX_FILES \<and> (\<forall>j \<in> {0..<MAX_FILES}. fd_used (pcbs s' p) j = (fd_used (pcbs s p) j \<or> j = k))"
    using free len unfolding get_unused_fd_cases
    by (auto simp: Let_def upd_file_def upd_pcb_def fd_used_def nth_list_update bit_or_iff)
qed (auto simp: get_unused_fd_cases)

section \<open>Addresses of control blocks\<close>

lemma pcb_addr_eq: "p \<le> 10 \<Longrightarrow> pcb_addr_from_pid (int p) = Some (0x7FE000 - 0x2000 * of_nat p)"
proof -
  assume "p \<le> 10"
  then have "p = 0 \<or> p = 1 \<or> p = 2 \<or> p = 3 \<or> p = 4 \<or> p = 5 \<or> p = 6 \<or> p = 7 \<or> p = 8 \<or> p = 9 \<or> p = 10"
    by presburger
  then show ?thesis by (auto simp: pcb_addr_from_pid_def)
qed

lemma stack_mask: "(0xFFFFE000 :: u32) = NOT (mask 13)"
  by (simp add: mask_eq_exp_minus_1)

lemma stack_base:
  assumes "a AND mask 13 = 0" "a \<le> esp" "esp - a < 0x2000"
  shows "0xFFFFE000 AND (esp :: u32) = a"
proof -
  have "unat (esp - a) < 2 ^ 13" using assms(3) by (simp add: word_less_nat_alt)
  then have off: "(esp - a) AND mask 13 = esp - a"
    using unat_and_mask [of "esp - a" 13] by (simp add: word_unat_eq_iff)
  have "esp = a + (esp - a)" by simp
  also have "\<dots> = a OR (esp - a)" using aligned_or_offset [OF assms(1), of "esp - a"] off by simp
  finally have "NOT (mask 13) AND esp = NOT (mask 13) AND (a OR ((esp - a) AND mask 13))" using off by simp
  also have "\<dots> = NOT (mask 13) AND a" by (rule bit_word_eqI) (auto simp: bit_simps)
  also have "\<dots> = a"
  proof (rule bit_word_eqI)
    fix n assume "n < LENGTH(32)"
    have "\<not> bit (a AND mask 13) n" by (simp add: assms(1))
    then show "bit (NOT (mask 13) AND a) n = bit a n" using \<open>n < LENGTH(32)\<close> by (auto simp: bit_simps)
  qed
  finally show ?thesis unfolding stack_mask .
qed

section \<open>Properties\<close>

text \<open>
  \<open>get_unused_fd\<close> returns the lowest free descriptor and marks it present, leaving every other
  descriptor and process alone; it returns -1 with the state unchanged exactly when all eight
  are present, although its scan runs on past the array into \<open>cmd_args\<close>.\<close>

theorem get_unused_fd_lowest:
  assumes "length (file_array (pcbs s p)) = MAX_FILES" "get_unused_fd (Some p) s = (s', fd)"
  shows "if \<exists>k < MAX_FILES. \<not> fd_used (pcbs s p) k
    then fd = int (LEAST k. \<not> fd_used (pcbs s p) k) \<and> fd < int MAX_FILES \<and> fd_used (pcbs s' p) (nat fd) \<and>
      (\<forall>k < MAX_FILES. k \<noteq> nat fd \<longrightarrow> file_array (pcbs s' p) ! k = file_array (pcbs s p) ! k) \<and>
      (\<forall>q. q \<noteq> p \<longrightarrow> pcbs s' q = pcbs s q)
    else fd = -1 \<and> s' = s"
proof (cases "\<exists>k < MAX_FILES. \<not> fd_used (pcbs s p) k")
  case True
  let ?n = "LEAST k. \<not> fd_used (pcbs s p) k"
  have n: "?n < MAX_FILES" using unused_fd_scan_lowest [OF True] by simp
  have "fd = int ?n" "s' = upd_file (p, ?n) (\<lambda>f. f\<lparr>file_flags := file_flags f OR FILE_PRESENT\<rparr>) s"
    using assms(2) True unfolding get_unused_fd_cases by (simp_all add: Let_def)
  with True n assms(1) show ?thesis
    by (simp add: upd_file_def upd_pcb_def fd_used_def bit_or_iff)
next
  case False
  with assms(2) show ?thesis unfolding get_unused_fd_cases by simp
qed

text \<open>
  \<open>get_first_free_pid\<close> returns the lowest free identifier in 1..10 and marks it, or -1 when
  all ten are taken; freeing the identifier it returned restores the state.\<close>

theorem first_free_pid_lowest:
  assumes "get_first_free_pid s = (s', k)"
  shows "if \<exists>j. 1 \<le> j \<and> j \<le> MAX_PROCESSES \<and> \<not> pid_used s j
    then 1 \<le> k \<and> k \<le> int MAX_PROCESSES \<and> \<not> pid_used s (nat k) \<and> (\<forall>j. 1 \<le> j \<and> j < nat k \<longrightarrow> pid_used s j) \<and>
      (\<forall>j. pid_used s' j = (pid_used s j \<or> j = nat k)) \<and> free_pid (word_of_int k) s' = s
    else k = -1 \<and> s' = s"
proof (cases rule: get_first_free_pid_cases [of s])
  case (free n)
  then have k: "k = int n" and s': "s' = s\<lparr>proc_bitmap := proc_bitmap s OR push_bit n 1\<rparr>"
    using assms by simp_all
  have n32: "n < 32" using free(2) by simp
  have u: "pid_used s' j = (pid_used s j \<or> j = n)" for j
    using n32 by (auto simp: s' pid_used_def bit_simps)
  have un: "unat (word_of_int k :: u32) mod 32 = n"
    using free(2) by (simp add: k unat_of_nat)
  have "(proc_bitmap s OR push_bit n 1) AND NOT (push_bit n 1) = proc_bitmap s"
    using free(3) by (intro bit_word_eqI) (auto simp: bit_simps pid_used_def)
  then have "free_pid (word_of_int k) s' = s" unfolding free_pid_def un s' by simp
  with free u k show ?thesis by auto
next
  case none
  with assms show ?thesis by auto
qed

text \<open>
  C34: \<open>n\<close> calls of \<open>get_first_free_pid\<close> hand out distinct free identifiers, as many as are free,
  and -1 from then on.\<close>

theorem pids_handed_out:
  "\<exists>ok. snd (alloc_n get_first_free_pid n s) = map int ok @ replicate (n - length ok) (-1) \<and> distinct ok \<and>
     set ok \<subseteq> {k \<in> {1..MAX_PROCESSES}. \<not> pid_used s k} \<and>
     length ok = min n (card {k \<in> {1..MAX_PROCESSES}. \<not> pid_used s k})"
  using pids.alloc_n_free [where s = s and n = n and s' = "fst (alloc_n get_first_free_pid n s)"]
  by simp

text \<open>
  The control block addresses of the identifiers 0..10 are distinct 8 KiB aligned blocks, and
  a stack pointer anywhere in the block of an identifier above 0 leads \<open>get_proc_pcb\<close> back to that
  block, while the boot stack (block 0) gives NULL.\<close>

theorem proc_pcb_round_trip:
  assumes "p \<le> MAX_PROCESSES" "pcb_addr_from_pid (int p) = Some a" "a \<le> esp" "esp - a < 0x2000"
  shows "proc_pcb_addr esp = (if p = 0 then None else pcb_addr_from_pid (int p)) \<and>
    (\<forall>q \<le> MAX_PROCESSES. pcb_addr_from_pid (int q) = Some a \<longrightarrow> q = p)"
proof -
  have a: "a = 0x7FE000 - 0x2000 * of_nat p" using assms(1,2) pcb_addr_eq [of p] by simp
  have cases: "q = 0 \<or> q = 1 \<or> q = 2 \<or> q = 3 \<or> q = 4 \<or> q = 5 \<or> q = 6 \<or> q = 7 \<or> q = 8 \<or> q = 9 \<or> q = 10"
    if "q \<le> 10" for q :: nat using that by presburger
  have "a AND mask 13 = 0" using cases [of p] assms(1) unfolding a by (auto simp: mask_eq_exp_minus_1)
  then have b: "0xFFFFE000 AND esp = a" by (rule stack_base [OF _ assms(3,4)])
  have "unat (a :: u32) = 0x7FE000 - 0x2000 * p" using cases [of p] assms(1) unfolding a by auto
  then have "q = p" if "q \<le> 10" "pcb_addr_from_pid (int q) = Some a" for q
    using that cases [of q] assms(1) pcb_addr_eq [of q] by auto
  moreover have "proc_pcb_addr esp = (if p = 0 then None else pcb_addr_from_pid (int p))"
    unfolding proc_pcb_addr_def Let_def b assms(2) using cases [of p] assms(1) by (auto simp: a)
  ultimately show ?thesis by simp
qed

text \<open>Zero-initialised values, as in a fresh control block and in the kernel's zeroed data.\<close>

definition zero_file :: file_t where
  "zero_file = \<lparr>file_op = None, inode_ptr = 0, file_pos = 0, file_flags = 0, reserved = None\<rparr>"

definition zero_pcb :: pcb where
  "zero_pcb = \<lparr>state = 0, pid = 0, file_array = replicate MAX_FILES zero_file, kern_stack = 0, user_stack = 0,
     sched_ctx = None, cmd_args = replicate (MAX_ARGS_LEN + 1) 0, page_directory = 0, parent = None,
     parent_ctx = None, has_video_mapped = False, term_ctx = None\<rparr>"

definition zero_registers :: registers where
  "zero_registers = \<lparr>r_ebx = 0, r_ecx = 0, r_edx = 0, r_esi = 0, r_edi = 0, r_ebp = 0, r_eax = 0, r_ds = 0,
     r_es = 0, r_fs = 0, r_isrno = 0, r_errno = 0, r_eip = 0, r_cs = 0, r_eflags = 0, r_user_esp = 0, r_ss = 0\<rparr>"

definition zero_term :: term_t where
  "zero_term = \<lparr>key_buf = CIRC_BUF_TYPE 0 128, lctrl_held = False, rctrl_held = False, lshift_held = False,
     rshift_held = False, lalt_held = False, ralt_held = False, caps_lock = False,
     term_screen = \<lparr>scr_video = VIDEO, scr_x = 0, scr_y = 0\<rparr>\<rparr>"

definition zero_paging :: paging where
  "zero_paging = \<lparr>page_directories = (\<lambda>d i. 0), page_tables = (\<lambda>t i. 0), pdbr = 0, fake_video_mem = 0, cr0 = 0, cr4 = 0\<rparr>"

definition zero_kstate :: kstate where
  "zero_kstate = \<lparr>con = \<lparr>vmem = (\<lambda>p a. 0), screen_x = 0, screen_y = 0\<rparr>,
     kern_screen = \<lparr>scr_video = VIDEO, scr_x = 0, scr_y = 0\<rparr>, term_global_ctx = zero_term,
     term_terms = replicate NUM_TERMS zero_term, term_pids = replicate NUM_TERMS 0, terminal_num = 0,
     pcbs = (\<lambda>p. zero_pcb), cur_pcb = 0, nprocs = 0, proc_bitmap = 0,
     sched_queue_1 = CIRC_BUF_TYPE 0 MAX_PROCESSES, sched_queue_2 = CIRC_BUF_TYPE 0 MAX_PROCESSES,
     active_is_1 = True, open_rtcs = None, pg = zero_paging, frames = (\<lambda>a. zero_registers),
     tss_esp0 = 0, tss_ss0 = 0,
     isZombie = 0, relaunch = 0, user_mem = (\<lambda>d. []), iflag = True, io = []\<rparr>"

text \<open>A state in which process 3 has its descriptors 0 and 1 open.\<close>

definition sample_kstate :: kstate where
  "sample_kstate =
     (let f = zero_file\<lparr>file_flags := 3, file_op := Some term_fops\<rparr>
      in upd_file (3, 1) (\<lambda>_. f) (upd_file (3, 0) (\<lambda>_. f) zero_kstate))\<lparr>cur_pcb := 3, proc_bitmap := mask 4\<rparr>"

lemma sample_file_array:
  "file_array (pcbs sample_kstate 3) =
     [zero_file\<lparr>file_flags := 3, file_op := Some term_fops\<rparr>, zero_file\<lparr>file_flags := 3, file_op := Some term_fops\<rparr>,
      zero_file, zero_file, zero_file, zero_file, zero_file, zero_file]"
  by (simp add: sample_kstate_def upd_file_def upd_pcb_def zero_kstate_def zero_pcb_def Let_def numeral_eq_Suc)

lemma sample_least: "(LEAST k. \<not> fd_used (pcbs sample_kstate 3) k) = 2" "\<exists>k < MAX_FILES. \<not> fd_used (pcbs sample_kstate 3) k"
proof -
  have 3: "(3 :: u32) = set_bit 0 (set_bit 1 0)" by (simp add: set_bit_eq_or)
  have b: "bit (3 :: u32) 0" unfolding 3 by (simp add: bit_simps)
  have used: "fd_used (pcbs sample_kstate 3) 0" "fd_used (pcbs sample_kstate 3) 1" "\<not> fd_used (pcbs sample_kstate 3) 2"
    by (simp_all add: fd_used_def sample_file_array b zero_file_def numeral_2_eq_2)
  show "(LEAST k. \<not> fd_used (pcbs sample_kstate 3) k) = 2"
  proof (rule Least_equality)
    fix y assume "\<not> fd_used (pcbs sample_kstate 3) y"
    then have "y \<noteq> 0" "y \<noteq> 1" using used by metis+
    then show "2 \<le> y" by simp
  qed (rule used(3))
  show "\<exists>k < MAX_FILES. \<not> fd_used (pcbs sample_kstate 3) k" using used(3) by (intro exI [of _ 2]) simp
qed

theorem get_unused_fd_lowest_witness:
  "length (file_array (pcbs sample_kstate 3)) = MAX_FILES \<and> snd (get_unused_fd (Some 3) sample_kstate) = 2"
proof -
  obtain s' fd where g: "get_unused_fd (Some 3) sample_kstate = (s', fd)" by fastforce
  have len: "length (file_array (pcbs sample_kstate 3)) = MAX_FILES" by (simp add: sample_file_array)
  show ?thesis using get_unused_fd_lowest [OF len g] g sample_least len by simp
qed

theorem first_free_pid_lowest_witness:
  "snd (get_first_free_pid sample_kstate) = 4"
proof -
  obtain s' k where g: "get_first_free_pid sample_kstate = (s', k)" by fastforce
  have b: "proc_bitmap sample_kstate = mask 4" by (simp add: sample_kstate_def Let_def)
  have u: "pid_used sample_kstate j = (j < 4)" for j
    unfolding pid_used_def b by (simp only: bit_mask_iff) auto
  have "\<exists>j. 1 \<le> j \<and> j \<le> MAX_PROCESSES \<and> \<not> pid_used sample_kstate j" by (rule exI [of _ 4]) (simp add: u)
  then have k: "1 \<le> k" "\<not> nat k < 4" "\<forall>j. 1 \<le> j \<and> j < nat k \<longrightarrow> j < 4"
    using first_free_pid_lowest [OF g] u by simp_all
  have "\<not> 4 < nat k" using k(3) [rule_format, of 4] by auto
  then have "k = 4" using k(1,2) by linarith
  with g show ?thesis by simp
qed

theorem proc_pcb_round_trip_witness:
  "pcb_addr_from_pid 3 = Some 0x7F8000 \<and> proc_pcb_addr 0x7F9ABC = Some 0x7F8000"
proof -
  have a: "pcb_addr_from_pid (int 3) = Some 0x7F8000" using pcb_addr_eq [of 3] by simp
  then show ?thesis using proc_pcb_round_trip [of 3 "0x7F8000" "0x7F9ABC"] by simp
qed

end
