(* ===== verification/File_Sys.thy ===== *)
theory File_Sys
  imports Proc Lib_String
begin

text \<open>
  \<^verbatim>\<open>student-distrib/file_sys.c\<close>: the read-only file system. The image is the list of its bytes
  from the boot block on; a pointer into it is a byte offset, so the pointer arithmetic of the
  code (boot block, then the index nodes, then the data blocks, 4096 bytes each) is kept, and an
  access outside the image or outside a buffer makes the whole operation \<open>None\<close>. A \<open>dentry_t\<close> is
  its 64 bytes. Loops whose end depends on the image are \<open>partial_function\<close>s: not returning is
  \<open>None\<close> too.

  \<open>read_data\<close> is proved equal to reading a slice of the file's content, \<open>read_dentry_by_name\<close> to
  finding the first matching entry, and the file operations to follow from them.
\<close>

section \<open>Bytes\<close>

definition le32 :: "u8 list \<Rightarrow> u32" where
  "le32 bs = ucast (bs ! 0) OR push_bit 8 (ucast (bs ! 1)) OR push_bit 16 (ucast (bs ! 2)) OR push_bit 24 (ucast (bs ! 3))"

definition bytes32 :: "u32 \<Rightarrow> u8 list" where
  "bytes32 w = [ucast w, ucast (drop_bit 8 w), ucast (drop_bit 16 w), ucast (drop_bit 24 w)]"

definition load :: "u8 list \<Rightarrow> nat \<Rightarrow> nat \<Rightarrow> u8 list option" where
  "load m a n = (if a + n \<le> length m then Some (take n (drop a m)) else None)"

definition rd32 :: "u8 list \<Rightarrow> nat \<Rightarrow> u32 option" where
  "rd32 m a = map_option le32 (load m a 4)"

definition store_bytes :: "u8 list \<Rightarrow> nat \<Rightarrow> u8 list \<Rightarrow> u8 list option" where
  "store_bytes m a bs =
     (if a + length bs \<le> length m then Some (take a m @ bs @ drop (a + length bs) m) else None)"

section \<open>The image\<close>

abbreviation (input) BLOCK_SIZE :: nat where "BLOCK_SIZE \<equiv> 4096"
abbreviation (input) FILE_NAME_SIZE :: nat where "FILE_NAME_SIZE \<equiv> 32"
abbreviation (input) FILE_TYPE_RTC :: u32 where "FILE_TYPE_RTC \<equiv> 0"
abbreviation (input) FILE_TYPE_DIR :: u32 where "FILE_TYPE_DIR \<equiv> 1"
abbreviation (input) FILE_TYPE_REG :: u32 where "FILE_TYPE_REG \<equiv> 2"
abbreviation (input) ELF_EIP_OFFSET :: nat where "ELF_EIP_OFFSET \<equiv> 24"
abbreviation (input) EXEC_OFFSET :: u32 where "EXEC_OFFSET \<equiv> 0x48000"

record fs =
  img :: "u8 list"
  node_head :: nat
  data_head :: nat

text \<open>Offsets of the members of \<open>boot_block_t\<close>, \<open>index_node_t\<close> and \<open>dentry_t\<close>.\<close>

definition num_dentries :: "u8 list \<Rightarrow> u32 option" where
  "num_dentries m = rd32 m 0"

definition num_inodes :: "u8 list \<Rightarrow> u32 option" where
  "num_inodes m = rd32 m 4"

definition entries_at :: "nat \<Rightarrow> nat" where
  "entries_at i = 64 + 64 * i"

definition byte_length :: "fs \<Rightarrow> nat \<Rightarrow> u32 option" where
  "byte_length f p_inode = rd32 (img f) p_inode"

definition data_block_idx :: "fs \<Rightarrow> nat \<Rightarrow> nat \<Rightarrow> u32 option" where
  "data_block_idx f p_inode k = rd32 (img f) (p_inode + 4 + 4 * k)"

definition fs_init :: "u8 list \<Rightarrow> fs option" where
  "fs_init m = do {
     n \<leftarrow> num_inodes m;
     Some \<lparr>img = m, node_head = BLOCK_SIZE, data_head = BLOCK_SIZE + BLOCK_SIZE * unat n\<rparr> }"

definition d_type :: "u8 list \<Rightarrow> u32" where
  "d_type d = le32 (take 4 (drop 32 d))"

definition d_inode :: "u8 list \<Rightarrow> u32" where
  "d_inode d = le32 (take 4 (drop 36 d))"

section \<open>Directory entries\<close>

text \<open>Filling the caller's \<open>dentry\<close> from the entry at offset \<open>temp\<close>.\<close>

definition set_type_inode :: "fs \<Rightarrow> nat \<Rightarrow> u8 list \<Rightarrow> u8 list option" where
  "set_type_inode f temp d = do {
     t \<leftarrow> rd32 (img f) (temp + 32);
     d \<leftarrow> store_bytes d 32 (bytes32 t);
     n \<leftarrow> rd32 (img f) (temp + 36);
     store_bytes d 36 (bytes32 n) }"

partial_function (option) by_name_loop ::
  "fs \<Rightarrow> u8 list \<Rightarrow> u8 list \<Rightarrow> u32 \<Rightarrow> u8 \<Rightarrow> (u8 list \<times> int) option" where
  "by_name_loop f fname d entries i =
     (if unat i \<le> unat entries then
        case strlen (drop (entries_at (unat i)) (img f)) of
          None \<Rightarrow> None
        | Some len_filename \<Rightarrow>
            if len_filename = 0 then by_name_loop f fname d entries (i + 1)
            else case strncmp fname (drop (entries_at (unat i)) (img f)) FILE_NAME_SIZE of
                None \<Rightarrow> None
              | Some c \<Rightarrow>
                  if c = 0 then do {
                    d \<leftarrow> strncpy d (drop (entries_at (unat i)) (img f)) len_filename;
                    d \<leftarrow> store d len_filename 0;
                    d \<leftarrow> set_type_inode f (entries_at (unat i)) d;
                    Some (d, 0) }
                  else by_name_loop f fname d entries (i + 1)
      else Some (d, -1))"

definition read_dentry_by_name :: "fs \<Rightarrow> u8 list \<Rightarrow> u8 list \<Rightarrow> (u8 list \<times> int) option" where
  "read_dentry_by_name f fname d = do {
     entries \<leftarrow> num_dentries (img f);
     by_name_loop f fname d entries 0 }"

definition read_dentry_by_index :: "fs \<Rightarrow> u32 \<Rightarrow> u8 list \<Rightarrow> (u8 list \<times> int) option" where
  "read_dentry_by_index f index d = do {
     n \<leftarrow> num_dentries (img f);
     if index \<le> n then do {
       d \<leftarrow> strncpy d (drop (entries_at (unat index)) (img f)) FILE_NAME_SIZE;
       d \<leftarrow> set_type_inode f (entries_at (unat index)) d;
       Some (d, 0) }
     else Some (d, -1) }"

section \<open>File data\<close>

definition c_min :: "'a::linorder \<Rightarrow> 'a \<Rightarrow> 'a" where
  "c_min a b = (if a > b then b else a)"

text \<open>\<open>data\<close> points at offset \<open>off\<close> of the block \<open>p_db\<close>; it never leaves the block.\<close>

function read_data_loop ::
  "fs \<Rightarrow> nat \<Rightarrow> nat \<Rightarrow> nat \<Rightarrow> nat \<Rightarrow> int \<Rightarrow> nat \<Rightarrow> u8 list \<Rightarrow> (u8 list \<times> int) option" where
  "read_data_loop f p_inode db_idx p_db off b_rem b_read buf =
     (if b_rem > 0 then
        if off \<ge> BLOCK_SIZE then None
        else
          let round_read = nat (c_min b_rem (int (BLOCK_SIZE - off))) in
          case load (img f) (p_db + off) round_read of
            None \<Rightarrow> None
          | Some bytes \<Rightarrow>
              (case store_bytes buf b_read bytes of
                 None \<Rightarrow> None
               | Some buf' \<Rightarrow>
                   (case data_block_idx f p_inode (db_idx + 1) of
                      None \<Rightarrow> None
                    | Some blk \<Rightarrow>
                        read_data_loop f p_inode (db_idx + 1) (data_head f + BLOCK_SIZE * unat blk) 0
                          (b_rem - int round_read) (b_read + round_read) buf'))
      else Some (buf, int b_read))"
  by pat_completeness auto
termination
  by (relation "measure (\<lambda>(f, p, k, b, off, b_rem, b_read, buf). nat b_rem)") (auto simp: c_min_def)

definition read_data :: "fs \<Rightarrow> u32 \<Rightarrow> u32 \<Rightarrow> u8 list \<Rightarrow> u32 \<Rightarrow> (u8 list \<times> int) option" where
  "read_data f inode offset buf len = do {
     n \<leftarrow> num_inodes (img f);
     if inode > n then Some (buf, -1)
     else do {
       let p_inode = node_head f + BLOCK_SIZE * unat inode;
       bl \<leftarrow> byte_length f p_inode;
       if bl < offset then Some (buf, -1)
       else do {
         let b_rem = sint (c_min (bl - offset) len);
         let db_idx = unat offset div BLOCK_SIZE;
         blk \<leftarrow> data_block_idx f p_inode db_idx;
         read_data_loop f p_inode db_idx (data_head f + BLOCK_SIZE * unat blk) (unat offset mod BLOCK_SIZE) b_rem 0 buf } } }"

declare read_data_loop.simps [simp del]

section \<open>Operations on open files\<close>

definition file_read :: "fs \<Rightarrow> kstate \<Rightarrow> pcb_ptr option \<Rightarrow> int \<Rightarrow> u8 list \<Rightarrow> int \<Rightarrow> (kstate \<times> u8 list \<times> int) option" where
  "file_read f s p fd buf nbytes =
     (case get_file_from_fd p fd of
        None \<Rightarrow> Some (s, buf, -1)
      | Some r \<Rightarrow>
          if \<not> bit (file_flags (get_file s r)) 1 then Some (s, buf, -1)
          else do {
            (buf', ret) \<leftarrow> read_data f (inode_ptr (get_file s r)) (file_pos (get_file s r)) buf (word_of_int nbytes);
            Some (upd_file r (\<lambda>fl. fl\<lparr>file_pos := file_pos fl + word_of_int ret\<rparr>) s, buf', ret) })"

definition file_write :: "kstate \<Rightarrow> pcb_ptr option \<Rightarrow> int \<Rightarrow> u8 list \<Rightarrow> int \<Rightarrow> kstate \<times> int" where
  "file_write s p fd buf nbytes = (s, -1)"

text \<open>The common body of \<open>file_open\<close> and \<open>dir_open\<close>; they differ in the operation table only.\<close>

definition open_with :: "fops \<Rightarrow> fs \<Rightarrow> kstate \<Rightarrow> pcb_ptr option \<Rightarrow> u8 list \<Rightarrow> (kstate \<times> int) option" where
  "open_with ops f s p filename = do {
     (dentry, status) \<leftarrow> read_dentry_by_name f filename (replicate 64 0);
     if status \<noteq> 0 then Some (s, -1)
     else
       (case get_unused_fd p s of (s, fd) \<Rightarrow>
          if fd < 0 then Some (s, -1)
          else (case get_file_from_fd p fd of
              None \<Rightarrow> None
            | Some r \<Rightarrow>
                Some (upd_file r (\<lambda>fl. fl\<lparr>file_flags := file_flags fl OR FILE_OPEN, inode_ptr := d_inode dentry,
                        file_pos := 0, file_op := Some ops\<rparr>) s, fd))) }"

definition file_open :: "fs \<Rightarrow> kstate \<Rightarrow> pcb_ptr option \<Rightarrow> u8 list \<Rightarrow> (kstate \<times> int) option" where
  "file_open = open_with file_fops"

definition file_close :: "kstate \<Rightarrow> pcb_ptr option \<Rightarrow> int \<Rightarrow> kstate \<times> int" where
  "file_close s p fd = (release_fd p fd s, 0)"

text \<open>\<open>buf[nbytes - 1] = 0\<close> is before the buffer when \<open>nbytes\<close> is not positive: \<open>None\<close>.\<close>

definition dir_read :: "fs \<Rightarrow> kstate \<Rightarrow> pcb_ptr option \<Rightarrow> int \<Rightarrow> u8 list \<Rightarrow> int \<Rightarrow> (kstate \<times> u8 list \<times> int) option" where
  "dir_read f s p fd buf nbytes =
     (case get_file_from_fd p fd of
        None \<Rightarrow> Some (s, buf, -1)
      | Some r \<Rightarrow>
          if \<not> bit (file_flags (get_file s r)) 1 then Some (s, buf, -1)
          else do {
            (dentry, ret) \<leftarrow> read_dentry_by_index f (file_pos (get_file s r)) (replicate 64 0);
            if ret \<noteq> 0 then Some (s, buf, 0)
            else do {
              buf \<leftarrow> strncpy buf dentry (unat (word_of_int nbytes :: u32));
              buf \<leftarrow> (if nbytes \<ge> 1 then store buf (nat (nbytes - 1)) 0 else None);
              n \<leftarrow> strlen dentry;
              Some (upd_file r (\<lambda>fl. fl\<lparr>file_pos := file_pos fl + 1\<rparr>) s, buf, int n) } })"

definition dir_write :: "kstate \<Rightarrow> pcb_ptr option \<Rightarrow> int \<Rightarrow> u8 list \<Rightarrow> int \<Rightarrow> kstate \<times> int" where
  "dir_write s p fd buf nbytes = (s, -1)"

definition dir_open :: "fs \<Rightarrow> kstate \<Rightarrow> pcb_ptr option \<Rightarrow> u8 list \<Rightarrow> (kstate \<times> int) option" where
  "dir_open = open_with dir_fops"

definition dir_close :: "kstate \<Rightarrow> pcb_ptr option \<Rightarrow> int \<Rightarrow> kstate \<times> int" where
  "dir_close s p fd = (release_fd p fd s, 0)"

section \<open>The loader\<close>

text \<open>
  \<open>umem\<close> is user memory from \<open>USER_MEM + EXEC_OFFSET\<close> to the end of the user page. The byte count
  that \<open>read_data\<close> returns is unsigned here, so a -1 moves \<open>f_pos\<close> back by one.
\<close>

partial_function (option) loader_loop :: "fs \<Rightarrow> u32 \<Rightarrow> u8 list \<Rightarrow> u32 \<Rightarrow> u32 \<Rightarrow> u8 list option" where
  "loader_loop f inode umem f_pos b_rem =
     (if b_rem > 0 then
        case read_data f inode f_pos (drop (unat f_pos) umem) b_rem of
          None \<Rightarrow> None
        | Some (dest, ret) \<Rightarrow>
            loader_loop f inode (take (unat f_pos) umem @ dest) (f_pos + word_of_int ret) (b_rem - word_of_int ret)
      else Some umem)"

definition file_loader :: "fs \<Rightarrow> u8 list \<Rightarrow> u8 list \<Rightarrow> (u8 list \<times> u32 option) option" where
  "file_loader f dentry umem = do {
     b_rem \<leftarrow> byte_length f (node_head f + BLOCK_SIZE * unat (d_inode dentry));
     umem \<leftarrow> loader_loop f (d_inode dentry) umem 0 b_rem;
     file_eip \<leftarrow> rd32 umem ELF_EIP_OFFSET;
     if file_eip < USER_MEM + EXEC_OFFSET \<or> file_eip > USER_MEM + OFFSET_4MB then Some (umem, None)
     else Some (umem, Some file_eip) }"

section \<open>The content of a file\<close>

definition inode_at :: "fs \<Rightarrow> u32 \<Rightarrow> nat" where
  "inode_at f i = node_head f + BLOCK_SIZE * unat i"

definition nblocks :: "nat \<Rightarrow> nat" where
  "nblocks n = (n + 4095) div BLOCK_SIZE"

definition file_block :: "fs \<Rightarrow> nat \<Rightarrow> nat \<Rightarrow> u8 list" where
  "file_block f p k =
     (case data_block_idx f p k of None \<Rightarrow> []
      | Some blk \<Rightarrow> take BLOCK_SIZE (drop (data_head f + BLOCK_SIZE * unat blk) (img f)))"

definition file_content :: "fs \<Rightarrow> nat \<Rightarrow> u8 list" where
  "file_content f p =
     (case byte_length f p of None \<Rightarrow> []
      | Some bl \<Rightarrow> take (unat bl) (concat (map (file_block f p) [0..<nblocks (unat bl)])))"

text \<open>An index node inside the image whose data blocks are inside the image.\<close>

definition wf_file :: "fs \<Rightarrow> nat \<Rightarrow> bool" where
  "wf_file f p \<longleftrightarrow>
     (case byte_length f p of None \<Rightarrow> False
      | Some bl \<Rightarrow> unat bl \<le> 1023 * BLOCK_SIZE \<and> p + BLOCK_SIZE + 4 \<le> length (img f) \<and>
          (\<forall>k < nblocks (unat bl). case data_block_idx f p k of None \<Rightarrow> False
             | Some blk \<Rightarrow> data_head f + BLOCK_SIZE * unat blk + BLOCK_SIZE \<le> length (img f)))"

lemma load_Some: "a + n \<le> length m \<Longrightarrow> load m a n = Some (take n (drop a m))"
  by (simp add: load_def)

lemma store_bytes_Some:
  "a + length bs \<le> length m \<Longrightarrow> store_bytes m a bs = Some (take a m @ bs @ drop (a + length bs) m)"
  by (simp add: store_bytes_def)

lemma data_block_idx_Some:
  assumes "p + BLOCK_SIZE + 4 \<le> length (img f)" "k \<le> 1023"
  shows "\<exists>blk. data_block_idx f p k = Some blk"
  using assms by (simp add: data_block_idx_def rd32_def load_def)

lemma nblocks_bound: "n \<le> BLOCK_SIZE * nblocks n" "n \<le> 1023 * BLOCK_SIZE \<Longrightarrow> nblocks n \<le> 1023"
  by (simp_all add: nblocks_def)

text \<open>The blocks of a file from block \<open>k\<close> on.\<close>

definition blocks_from :: "fs \<Rightarrow> nat \<Rightarrow> nat \<Rightarrow> nat \<Rightarrow> u8 list" where
  "blocks_from f p N k = concat (map (file_block f p) [k..<N])"

lemma blocks_from_step: "k < N \<Longrightarrow> blocks_from f p N k = file_block f p k @ blocks_from f p N (Suc k)"
  by (simp add: blocks_from_def upt_conv_Cons)

lemma length_blocks_from:
  assumes "\<forall>j < N. length (file_block f p j) = BLOCK_SIZE" "k \<le> N"
  shows "length (blocks_from f p N k) = BLOCK_SIZE * (N - k)"
  using assms(2)
proof (induction rule: inc_induct)
  case (step k)
  then have "length (blocks_from f p N k) = BLOCK_SIZE + BLOCK_SIZE * (N - Suc k)"
    using assms(1) by (simp add: blocks_from_step)
  also have "\<dots> = BLOCK_SIZE * (N - k)" using step by (simp add: Suc_diff_Suc [symmetric])
  finally show ?case .
qed (simp add: blocks_from_def)

lemma drop_blocks_from:
  assumes "\<forall>j < N. length (file_block f p j) = BLOCK_SIZE"
  shows "k \<le> N \<Longrightarrow> drop (BLOCK_SIZE * k) (blocks_from f p N 0) = blocks_from f p N k"
proof (induction k)
  case (Suc k)
  then have k: "k < N" by simp
  have "drop (BLOCK_SIZE * Suc k) (blocks_from f p N 0) = drop BLOCK_SIZE (drop (BLOCK_SIZE * k) (blocks_from f p N 0))"
    by (simp add: add.commute)
  also have "\<dots> = blocks_from f p N (Suc k)"
    using Suc k assms by (simp add: blocks_from_step)
  finally show ?case .
qed simp

lemma read_data_loop_step:
  assumes "0 < n" "off < BLOCK_SIZE" "round = min n (BLOCK_SIZE - off)"
    and "p_db + off + round \<le> length (img f)" "r + round \<le> length buf" "data_block_idx f p (k + 1) = Some blk"
  shows "read_data_loop f p k p_db off (int n) r buf =
   read_data_loop f p (k + 1) (data_head f + BLOCK_SIZE * unat blk) 0 (int (n - round)) (r + round)
     (take r buf @ take round (drop (p_db + off) (img f)) @ drop (r + round) buf)"
proof -
  have c: "nat (c_min (int n) (int (BLOCK_SIZE - off))) = round" by (simp add: c_min_def assms(3))
  have l: "length (take round (drop (p_db + off) (img f))) = round" using assms(4) by simp
  have d: "int n - int round = int (n - round)" using assms(3) by simp
  show ?thesis
    by (subst read_data_loop.simps, unfold Let_def c d)
      (use assms(1,2,6) load_Some [OF assms(4)] store_bytes_Some [of r "take round (drop (p_db + off) (img f))" buf] l assms(5)
        in \<open>simp del: length_take\<close>)
qed

lemma read_data_loop_done: "read_data_loop f p k p_db off 0 r buf = Some (buf, int r)"
  by (subst read_data_loop.simps) simp

lemma read_data_loop_correct:
  assumes blocks: "\<And>j. j < N \<Longrightarrow> \<exists>blk. data_block_idx f p j = Some blk \<and> data_head f + BLOCK_SIZE * unat blk + BLOCK_SIZE \<le> length (img f)"
    and slots: "\<And>j. j \<le> N \<Longrightarrow> \<exists>blk. data_block_idx f p j = Some blk"
  shows "data_block_idx f p k = Some blk \<Longrightarrow> off < BLOCK_SIZE \<Longrightarrow> n + off \<le> BLOCK_SIZE * (N - k) \<or> n = 0 \<Longrightarrow>
    r + n \<le> length buf \<Longrightarrow>
    read_data_loop f p k (data_head f + BLOCK_SIZE * unat blk) off (int n) r buf =
      Some (take r buf @ take n (drop off (blocks_from f p N k)) @ drop (r + n) buf, int (r + n))"
proof (induction n arbitrary: k blk off r buf rule: less_induct)
  case (less n)
  show ?case
  proof (cases "n = 0")
    case True
    then show ?thesis by (simp add: read_data_loop_done)
  next
    case False
    then have n: "0 < n" "n + off \<le> BLOCK_SIZE * (N - k)" using less.prems by auto
    then have k: "k < N" by (cases "N - k") auto
    let ?b = "data_head f + BLOCK_SIZE * unat blk"
    define round where "round = min n (BLOCK_SIZE - off)"
    have rd: "0 < round" "round \<le> n" "off + round \<le> BLOCK_SIZE" using n less.prems(2) by (auto simp: round_def)
    have b: "?b + BLOCK_SIZE \<le> length (img f)" using blocks [OF k] less.prems(1) by auto
    obtain blk' where blk': "data_block_idx f p (k + 1) = Some blk'" using slots [of "k + 1"] k by auto
    have B: "file_block f p k = take BLOCK_SIZE (drop ?b (img f))" using less.prems(1) by (simp add: file_block_def)
    then have lB: "length (file_block f p k) = BLOCK_SIZE" using b by simp
    have bytes: "take round (drop (?b + off) (img f)) = take round (drop off (file_block f p k))"
      using rd b by (simp add: B min_def add.commute [of off] drop_take)
    let ?buf = "take r buf @ take round (drop off (file_block f p k)) @ drop (r + round) buf"
    have "read_data_loop f p k ?b off (int n) r buf =
        read_data_loop f p (k + 1) (data_head f + BLOCK_SIZE * unat blk') 0 (int (n - round)) (r + round) ?buf"
      using read_data_loop_step [OF n(1) less.prems(2) round_def, of ?b f r buf p k blk'] less.prems(4) rd b blk' bytes
      by simp
    also have "read_data_loop f p (k + 1) (data_head f + BLOCK_SIZE * unat blk') 0 (int (n - round)) (r + round) ?buf =
        Some (take (r + round) ?buf @ take (n - round) (drop 0 (blocks_from f p N (k + 1))) @ drop (r + round + (n - round)) ?buf,
          int (r + round + (n - round)))"
    proof (rule less.IH [OF _ blk'])
      show "n - round < n" using rd by simp
      show "n - round + 0 \<le> BLOCK_SIZE * (N - (k + 1)) \<or> n - round = 0"
        using n k by (auto simp: round_def min_def algebra_simps)
      show "r + round + (n - round) \<le> length ?buf" using rd less.prems(4) lB by simp
    qed simp
    also have "\<dots> = Some (take r buf @ take n (drop off (blocks_from f p N k)) @ drop (r + n) buf, int (r + n))"
      using rd less.prems(2,4) lB k by (cases "n \<le> BLOCK_SIZE - off") (simp_all add: blocks_from_step round_def add.commute)
    finally show ?thesis .
  qed
qed

lemma wf_file_blocks:
  assumes "wf_file f p" "byte_length f p = Some bl"
  shows "unat bl \<le> 1023 * BLOCK_SIZE"
    and "\<And>j. j < nblocks (unat bl) \<Longrightarrow>
      \<exists>blk. data_block_idx f p j = Some blk \<and> data_head f + BLOCK_SIZE * unat blk + BLOCK_SIZE \<le> length (img f)"
    and "\<And>j. j \<le> 1023 \<Longrightarrow> \<exists>blk. data_block_idx f p j = Some blk"
proof -
  show "unat bl \<le> 1023 * BLOCK_SIZE" using assms by (simp add: wf_file_def)
  show "\<exists>blk. data_block_idx f p j = Some blk \<and> data_head f + BLOCK_SIZE * unat blk + BLOCK_SIZE \<le> length (img f)"
    if "j < nblocks (unat bl)" for j
    using assms that unfolding wf_file_def by (fastforce split: option.splits)
  show "\<exists>blk. data_block_idx f p j = Some blk" if "j \<le> 1023" for j
    using assms that by (intro data_block_idx_Some) (simp_all add: wf_file_def)
qed

lemma wf_file_content:
  assumes "wf_file f p" "byte_length f p = Some bl"
  shows "file_content f p = take (unat bl) (blocks_from f p (nblocks (unat bl)) 0)"
    and "\<forall>j < nblocks (unat bl). length (file_block f p j) = BLOCK_SIZE"
    and "length (file_content f p) = unat bl"
proof -
  show c: "file_content f p = take (unat bl) (blocks_from f p (nblocks (unat bl)) 0)"
    using assms(2) by (simp add: file_content_def blocks_from_def)
  show l: "\<forall>j < nblocks (unat bl). length (file_block f p j) = BLOCK_SIZE"
  proof (intro allI impI)
    fix j assume "j < nblocks (unat bl)"
    from wf_file_blocks(2) [OF assms this]
    show "length (file_block f p j) = BLOCK_SIZE" by (auto simp: file_block_def)
  qed
  show "length (file_content f p) = unat bl"
    using nblocks_bound(1) [of "unat bl"] by (simp add: c length_blocks_from [OF l])
qed

text \<open>The 32-bit subtraction and minimum of \<open>read_data\<close>, for a file shorter than \<open>2^31\<close>.\<close>

lemma read_data_count:
  fixes bl offset len :: u32
  assumes "offset \<le> bl" "unat bl < 2 ^ 31"
  shows "sint (c_min (bl - offset) len) = int (min (unat bl - unat offset) (unat len))"
proof -
  have d: "unat (bl - offset) = unat bl - unat offset" using assms(1) by (simp add: unat_sub)
  have m: "unat (c_min (bl - offset) len) = min (unat bl - unat offset) (unat len)"
    by (simp add: c_min_def d word_less_nat_alt)
  then have "unat (c_min (bl - offset) len) < 2 ^ 31" using assms(2) by simp
  then show ?thesis using sint_small [of "c_min (bl - offset) len"] m by simp
qed

lemma read_data_wf:
  assumes n: "num_inodes (img f) = Some ni" "inode \<le> ni" and wf: "wf_file f (inode_at f inode)"
    and pos: "unat offset \<le> length (file_content f (inode_at f inode))"
    and cnt: "n = min (length (file_content f (inode_at f inode)) - unat offset) (unat len)" and buf: "n \<le> length buf"
  shows "read_data f inode offset buf len =
    Some (take n (drop (unat offset) (file_content f (inode_at f inode))) @ drop n buf, int n)"
proof -
  let ?p = "inode_at f inode" and ?k = "unat offset div BLOCK_SIZE" and ?o = "unat offset mod BLOCK_SIZE"
  obtain bl where bl: "byte_length f ?p = Some bl" using wf by (auto simp: wf_file_def split: option.splits)
  let ?N = "nblocks (unat bl)"
  note b = wf_file_blocks [OF wf bl] and c = wf_file_content [OF wf bl]
  have off: "offset \<le> bl" using pos c(3) by (simp add: word_le_nat_alt)
  have N: "?N \<le> 1023" "unat bl \<le> BLOCK_SIZE * ?N" using nblocks_bound b(1) by auto
  have k: "?k \<le> ?N" using off N(2) by (simp add: word_le_nat_alt)
  obtain blk where blk: "data_block_idx f ?p ?k = Some blk" using b(3) [of ?k] k N by auto
  have "sint (c_min (bl - offset) len) = int n"
    using read_data_count [OF off, of len] b(1) by (simp add: cnt c(3))
  moreover have "\<not> bl < offset" "\<not> ni < inode" using off n by simp_all
  ultimately have "read_data f inode offset buf len =
      read_data_loop f ?p ?k (data_head f + BLOCK_SIZE * unat blk) ?o (int n) 0 buf"
    using n bl off blk by (simp add: read_data_def inode_at_def Let_def)
  also have "\<dots> = Some (take 0 buf @ take n (drop ?o (blocks_from f ?p ?N ?k)) @ drop (0 + n) buf, int (0 + n))"
  proof (rule read_data_loop_correct [OF b(2)])
    show "\<exists>blk. data_block_idx f ?p j = Some blk" if "j \<le> ?N" for j using b(3) [of j] that N(1) by simp
    show "n + ?o \<le> BLOCK_SIZE * (?N - ?k) \<or> n = 0"
    proof -
      have "n + unat offset \<le> BLOCK_SIZE * ?N \<or> n = 0" using N(2) by (auto simp: cnt c(3))
      then have "n + ?o + BLOCK_SIZE * ?k \<le> BLOCK_SIZE * ?N \<or> n = 0"
        using mult_div_mod_eq [of BLOCK_SIZE "unat offset"] by linarith
      then show ?thesis unfolding diff_mult_distrib2 by linarith
    qed
  qed (use blk buf in simp_all)
  also have "drop ?o (blocks_from f ?p ?N ?k) = drop (unat offset) (blocks_from f ?p ?N 0)"
  proof -
    have "drop (unat offset) (blocks_from f ?p ?N 0) = drop ?o (drop (BLOCK_SIZE * ?k) (blocks_from f ?p ?N 0))" by simp
    also have "\<dots> = drop ?o (blocks_from f ?p ?N ?k)" by (simp only: drop_blocks_from [OF c(2) k])
    finally show ?thesis by simp
  qed
  also have "take n (drop (unat offset) (blocks_from f ?p ?N 0)) = take n (drop (unat offset) (file_content f ?p))"
    unfolding c(1) by (simp add: drop_take cnt c(3) min_def)
  finally show ?thesis by simp
qed

section \<open>Directory lookups\<close>

lemma le32_bytes32 [simp]: "le32 (bytes32 w) = w"
proof (rule bit_word_eqI)
  fix n assume n: "n < LENGTH(32)"
  have "n < 8 \<or> 8 \<le> n \<and> n < 16 \<or> 16 \<le> n \<and> n < 24 \<or> 24 \<le> n" by linarith
  then show "bit (le32 (bytes32 w)) n = bit w n"
    using n by (auto simp: le32_def bytes32_def bit_simps)
qed

lemma length_bytes32 [simp]: "length (bytes32 w) = 4"
  by (simp add: bytes32_def)

definition entry_name :: "fs \<Rightarrow> nat \<Rightarrow> u8 list" where
  "entry_name f i = cstr (drop (entries_at i) (img f))"

definition entry_type :: "fs \<Rightarrow> nat \<Rightarrow> u32 option" where
  "entry_type f i = rd32 (img f) (entries_at i + 32)"

definition entry_inode :: "fs \<Rightarrow> nat \<Rightarrow> u32 option" where
  "entry_inode f i = rd32 (img f) (entries_at i + 36)"

text \<open>
  A directory whose entries up to index \<open>n\<close> are inside the image, with file types below \<open>2^24\<close>, so
  that a name of 32 characters is followed by a NUL inside the type.
\<close>

definition wf_dir :: "fs \<Rightarrow> nat \<Rightarrow> bool" where
  "wf_dir f n \<longleftrightarrow> n < 255 \<and> entries_at n + 64 \<le> length (img f) \<and>
     (\<forall>i \<le> n. length (entry_name f i) < 36 \<and> 0 \<in> set (drop (entries_at i) (img f)))"

definition name_match :: "fs \<Rightarrow> u8 list \<Rightarrow> nat \<Rightarrow> bool" where
  "name_match f fname i \<longleftrightarrow> entry_name f i \<noteq> [] \<and> take FILE_NAME_SIZE (cstr fname) = take FILE_NAME_SIZE (entry_name f i)"

definition entry_dentry :: "fs \<Rightarrow> nat \<Rightarrow> u8 list \<Rightarrow> u8 list option" where
  "entry_dentry f i d =
     (case (entry_type f i, entry_inode f i) of
        (Some t, Some n) \<Rightarrow>
          Some (take 32 (entry_name f i @ 0 # drop (length (entry_name f i) + 1) d) @ bytes32 t @ bytes32 n @ drop 40 d)
      | _ \<Rightarrow> None)"

lemma set_type_inode_eq:
  assumes "entries_at i + 64 \<le> length (img f)" "length d = 64"
  shows "\<exists>t n. entry_type f i = Some t \<and> entry_inode f i = Some n \<and>
    set_type_inode f (entries_at i) d = Some (take 32 d @ bytes32 t @ bytes32 n @ drop 40 d)"
proof -
  obtain t n where t: "entry_type f i = Some t" "entry_inode f i = Some n"
    using assms(1) by (simp add: entry_type_def entry_inode_def rd32_def load_def)
  have "store_bytes (take 32 d @ bytes32 t @ drop 36 d) 36 (bytes32 n) = Some (take 32 d @ bytes32 t @ bytes32 n @ drop 40 d)"
    using assms(2) by (simp add: store_bytes_def)
  then have "set_type_inode f (entries_at i) d = Some (take 32 d @ bytes32 t @ bytes32 n @ drop 40 d)"
    using t assms(2) by (simp add: set_type_inode_def entry_type_def entry_inode_def store_bytes_def)
  with t show ?thesis by blast
qed

lemma wf_dir_entry:
  assumes "wf_dir f n" "i \<le> n"
  shows "entries_at i + 64 \<le> length (img f)" "length (entry_name f i) < 36"
    "0 \<in> set (drop (entries_at i) (img f))" "strlen (drop (entries_at i) (img f)) = Some (length (entry_name f i))"
    "readable (drop (entries_at i) (img f)) FILE_NAME_SIZE"
  using assms by (auto simp: wf_dir_def entries_at_def strlen_eq entry_name_def readable_def)

lemma copy_entry:
  assumes "wf_dir f n" "i \<le> n" "length d = 64"
  shows "\<exists>d'. entry_dentry f i d = Some d' \<and>
    do { d \<leftarrow> strncpy d (drop (entries_at i) (img f)) (length (entry_name f i));
         d \<leftarrow> store d (length (entry_name f i)) 0;
         d \<leftarrow> set_type_inode f (entries_at i) d;
         Some (d, 0) } = Some (d', 0 :: int)"
proof -
  let ?src = "drop (entries_at i) (img f)" and ?nm = "entry_name f i"
  note w = wf_dir_entry [OF assms(1,2)]
  have 1: "strncpy d ?src (length ?nm) = Some (?nm @ drop (length ?nm) d)"
    using strncpy_eq [of "length ?nm" d ?src] w assms(3) by (simp add: entry_name_def)
  have "drop (length ?nm) d = d ! length ?nm # drop (Suc (length ?nm)) d"
    using w(2) assms(3) by (simp add: Cons_nth_drop_Suc)
  then have 2: "store (?nm @ drop (length ?nm) d) (length ?nm) 0 = Some (?nm @ 0 # drop (length ?nm + 1) d)"
    using w(2) assms(3) by (simp add: list_update_append)
  let ?d = "?nm @ 0 # drop (length ?nm + 1) d"
  have len: "length ?d = 64" "drop 40 ?d = drop 40 d" using w(2) assms(3) by (simp_all add: drop_Cons')
  obtain t m where tm: "entry_type f i = Some t" "entry_inode f i = Some m"
    "set_type_inode f (entries_at i) ?d = Some (take 32 ?d @ bytes32 t @ bytes32 m @ drop 40 ?d)"
    using set_type_inode_eq [OF w(1) len(1)] by blast
  show ?thesis using 1 2 tm len(2) by (simp add: entry_dentry_def)
qed

lemma by_name_loop_match:
  assumes wf: "wf_dir f (unat n)" and i: "unat i \<le> unat n" and d: "length d = 64" and nm: "readable fname FILE_NAME_SIZE"
  shows "by_name_loop f fname d n i =
    (if name_match f fname (unat i) then map_option (\<lambda>d'. (d', 0)) (entry_dentry f (unat i) d)
     else by_name_loop f fname d n (i + 1))"
proof -
  note w = wf_dir_entry [OF wf i]
  obtain c where c: "strncmp fname (drop (entries_at (unat i)) (img f)) FILE_NAME_SIZE = Some c"
    "c = 0 \<longleftrightarrow> take FILE_NAME_SIZE (cstr fname) = take FILE_NAME_SIZE (entry_name f (unat i))"
    using strncmp_zero_iff [OF nm w(5)] by (auto simp: entry_name_def)
  show ?thesis
    using copy_entry [OF wf i d] w(4) c i by (subst by_name_loop.simps) (auto simp: name_match_def)
qed

lemma by_name_loop_eq:
  assumes wf: "wf_dir f (unat n)" and d: "length d = 64" and nm: "readable fname FILE_NAME_SIZE"
  shows "unat i \<le> unat n + 1 \<Longrightarrow> by_name_loop f fname d n i =
    (case List.find (name_match f fname) [unat i..<unat n + 1] of
       None \<Rightarrow> Some (d, -1)
     | Some k \<Rightarrow> map_option (\<lambda>d'. (d', 0)) (entry_dentry f k d))"
proof (induction "unat n + 1 - unat i" arbitrary: i)
  case 0
  then show ?case by (subst by_name_loop.simps) auto
next
  case (Suc k)
  then have i: "unat i \<le> unat n" by linarith
  then have "unat i < 255" using wf by (simp add: wf_dir_def)
  then have s: "unat (i + 1) = unat i + 1" by (simp add: unat_word_ariths)
  have u: "[unat i..<unat n + 1] = unat i # [unat (i + 1)..<unat n + 1]" using i by (simp add: s upt_conv_Cons)
  have IH: "by_name_loop f fname d n (i + 1) =
    (case List.find (name_match f fname) [unat (i + 1)..<unat n + 1] of
       None \<Rightarrow> Some (d, -1) | Some k \<Rightarrow> map_option (\<lambda>d'. (d', 0)) (entry_dentry f k d))"
    using Suc i s by simp
  show ?case unfolding by_name_loop_match [OF wf i d nm] IH u by simp
qed

lemma entry_dentry_fields:
  assumes "entry_dentry f i d = Some d'" "length (entry_name f i) < 36" "length d = 64"
  shows "entry_type f i = Some (d_type d')" "entry_inode f i = Some (d_inode d')" "take 32 (cstr d') = take 32 (entry_name f i)"
    "length d' = 64"
proof -
  let ?nm = "entry_name f i"
  obtain t n where tn: "entry_type f i = Some t" "entry_inode f i = Some n"
    and d': "d' = take 32 (?nm @ 0 # drop (length ?nm + 1) d) @ bytes32 t @ bytes32 n @ drop 40 d"
    using assms(1) by (auto simp: entry_dentry_def split: option.splits)
  have l: "length (take 32 (?nm @ 0 # drop (length ?nm + 1) d)) = 32" using assms(2,3) by simp
  show "entry_type f i = Some (d_type d')" "entry_inode f i = Some (d_inode d')" "length d' = 64"
    using l assms(3) by (simp_all add: tn d' d_type_def d_inode_def)
  have "take 32 (cstr d') = cstr (take 32 d')" by (simp add: cstr_take)
  also have "take 32 d' = take 32 (?nm @ 0 # drop (length ?nm + 1) d)"
    unfolding d' by (subst take_append, subst l) (simp del: take_append)
  also have "cstr \<dots> = take 32 (cstr (?nm @ 0 # drop (length ?nm + 1) d))" by (rule cstr_take)
  also have "\<dots> = take 32 ?nm" by (simp only: cstr_append_nul entry_name_def cstr_no_nul not_False_eq_True)
  finally show "take 32 (cstr d') = take 32 ?nm" .
qed

section \<open>The loader\<close>

lemma loader_loop_wf:
  assumes n: "num_inodes (img f) = Some ni" "inode \<le> ni" and wf: "wf_file f (inode_at f inode)"
    and bl: "byte_length f (inode_at f inode) = Some bl" and room: "unat bl \<le> length umem"
  shows "loader_loop f inode umem 0 bl = Some (file_content f (inode_at f inode) @ drop (unat bl) umem)"
proof (cases "bl = 0")
  case True
  then have "file_content f (inode_at f inode) = []" using bl by (simp add: file_content_def)
  with True show ?thesis by (subst loader_loop.simps) simp
next
  case False
  note c = wf_file_content [OF wf bl]
  have "read_data f inode 0 umem bl =
      Some (take (unat bl) (file_content f (inode_at f inode)) @ drop (unat bl) umem, int (unat bl))"
    using read_data_wf [OF n wf, of 0 "unat bl" bl umem] room c(3) by simp
  moreover have "bl > 0" using False by (simp add: word_greater_zero_iff)
  moreover have "loader_loop f inode u p 0 = Some u" for u p by (subst loader_loop.simps) simp
  ultimately show ?thesis using c(3) by (subst loader_loop.simps) simp
qed

section \<open>A sample image\<close>

text \<open>
  Four blocks: a boot block with one entry \<open>shell\<close> (a regular file, index node 0) out of one,
  one index node (28 bytes in data block 0) and two data blocks. The file has the entry point \<open>e\<close>.
\<close>

definition sample_entry :: "u8 list" where
  "sample_entry = chars ''shell'' @ replicate 27 0 @ bytes32 2 @ bytes32 0 @ replicate 24 0"

definition sample_img :: "u32 \<Rightarrow> u8 list" where
  "sample_img e = (bytes32 1 @ bytes32 1 @ bytes32 2 @ replicate 52 0 @ sample_entry @ replicate 3968 0) @
     (bytes32 28 @ bytes32 0 @ replicate 4088 0) @
     (bytes32 3 @ bytes32 0 @ replicate 16 0 @ bytes32 e @ replicate 4068 0) @ replicate 4096 0"

definition sample_fs :: "u32 \<Rightarrow> fs" where
  "sample_fs e = \<lparr>img = sample_img e, node_head = 4096, data_head = 8192\<rparr>"

abbreviation sample_exe :: fs where "sample_exe \<equiv> sample_fs 0x08048094"

lemma sample_lengths [simp]: "length sample_entry = 64" "length (sample_img e) = 16384"
  by (simp_all add: sample_entry_def sample_img_def chars_def)

lemma sample_drops:
  "drop 4 (sample_img e) = bytes32 1 @ drop 8 (sample_img e)"
  "drop 64 (sample_img e) = sample_entry @ drop 128 (sample_img e)"
  "drop 128 (sample_img e) = replicate 3968 0 @ drop 4096 (sample_img e)"
  "drop 4096 (sample_img e) = bytes32 28 @ bytes32 0 @ replicate 4088 0 @ drop 8192 (sample_img e)"
  "drop 8192 (sample_img e) = bytes32 3 @ bytes32 0 @ replicate 16 0 @ bytes32 e @ replicate 4068 0 @ replicate 4096 0"
  "sample_img e = bytes32 1 @ drop 4 (sample_img e)"
  by (simp_all add: sample_img_def)

lemma rd32_append: "drop a m = bytes32 w @ rest \<Longrightarrow> a \<le> length m \<Longrightarrow> rd32 m a = Some w"
proof -
  assume d: "drop a m = bytes32 w @ rest" and a: "a \<le> length m"
  have "length (drop a m) = 4 + length rest" by (simp add: d)
  then have "a + 4 \<le> length m" using a by simp
  then show ?thesis by (simp add: rd32_def load_def d)
qed

lemma sample_words:
  "num_dentries (sample_img e) = Some 1" "num_inodes (sample_img e) = Some 1"
  "rd32 (sample_img e) 4096 = Some 28" "rd32 (sample_img e) 4100 = Some 0" "rd32 (sample_img e) 8192 = Some 3" "rd32 (sample_img e) 8196 = Some 0"
proof -
  show "num_dentries (sample_img e) = Some 1" unfolding num_dentries_def
    by (rule rd32_append [of 0 _ _ "drop 4 (sample_img e)"]) (simp_all add: sample_drops(6) [symmetric])
  show "num_inodes (sample_img e) = Some 1" unfolding num_inodes_def
    by (rule rd32_append [OF sample_drops(1)]) simp
  show "rd32 (sample_img e) 4096 = Some 28" by (rule rd32_append [OF sample_drops(4)]) simp
  show "rd32 (sample_img e) 8192 = Some 3" by (rule rd32_append [OF sample_drops(5)]) simp
  have "drop 4100 (sample_img e) = drop 4 (drop 4096 (sample_img e))" by simp
  also have "\<dots> = bytes32 0 @ replicate 4088 0 @ drop 8192 (sample_img e)" unfolding sample_drops(4) by simp
  finally show "rd32 (sample_img e) 4100 = Some 0" by (rule rd32_append) simp
  have "drop 8196 (sample_img e) = drop 4 (drop 8192 (sample_img e))" by simp
  also have "\<dots> = bytes32 0 @ replicate 16 0 @ bytes32 e @ replicate 4068 0 @ replicate 4096 0"
    unfolding sample_drops(5) by simp
  finally show "rd32 (sample_img e) 8196 = Some 0" by (rule rd32_append) simp
qed

lemma sample_init: "fs_init (sample_img e) = Some (sample_fs e)"
  by (simp add: fs_init_def sample_words sample_fs_def)

lemma sample_wf: "wf_file (sample_fs e) 4096" "wf_file (sample_fs e) 8192"
  by (simp_all add: wf_file_def byte_length_def data_block_idx_def sample_fs_def sample_words nblocks_def)

section \<open>Reading an open file\<close>

text \<open>An open regular file with a sound index node and a position inside the file.\<close>

definition open_reg :: "fs \<Rightarrow> kstate \<Rightarrow> file_ptr \<Rightarrow> bool" where
  "open_reg f s r \<longleftrightarrow> snd r < length (file_array (pcbs s (fst r))) \<and> bit (file_flags (get_file s r)) 1 \<and>
     (case num_inodes (img f) of None \<Rightarrow> False | Some ni \<Rightarrow> inode_ptr (get_file s r) \<le> ni) \<and>
     wf_file f (inode_at f (inode_ptr (get_file s r))) \<and>
     unat (file_pos (get_file s r)) \<le> length (file_content f (inode_at f (inode_ptr (get_file s r))))"

definition rest_of_file :: "fs \<Rightarrow> kstate \<Rightarrow> file_ptr \<Rightarrow> u8 list" where
  "rest_of_file f s r =
     drop (unat (file_pos (get_file s r))) (file_content f (inode_at f (inode_ptr (get_file s r))))"

lemma get_upd_file [simp]:
  "snd r < length (file_array (pcbs s (fst r))) \<Longrightarrow> get_file (upd_file r g s) r = g (get_file s r)"
  by (simp add: get_file_def upd_file_def upd_pcb_def)

lemma upd_file_length [simp]:
  "length (file_array (pcbs (upd_file r g s) p)) = length (file_array (pcbs s p))"
  by (simp add: upd_file_def upd_pcb_def)

lemma wf_content_length:
  assumes "wf_file f p"
  shows "length (file_content f p) < 2 ^ 31"
proof -
  obtain bl where bl: "byte_length f p = Some bl" using assms by (auto simp: wf_file_def split: option.splits)
  then show ?thesis using wf_file_content(3) [OF assms bl] wf_file_blocks(1) [OF assms bl] by simp
qed

lemma file_read_open:
  assumes r: "get_file_from_fd p fd = Some r" and ok: "open_reg f s r"
    and n: "n = min (length (rest_of_file f s r)) (unat (word_of_int nbytes :: u32))" and buf: "n \<le> length buf"
  shows "\<exists>s'. file_read f s p fd buf nbytes = Some (s', take n (rest_of_file f s r) @ drop n buf, int n) \<and>
    open_reg f s' r \<and> rest_of_file f s' r = drop n (rest_of_file f s r)"
proof -
  let ?fl = "get_file s r"
  let ?c = "file_content f (inode_at f (inode_ptr ?fl))"
  obtain ni where ni: "num_inodes (img f) = Some ni" "inode_ptr ?fl \<le> ni" and wf: "wf_file f (inode_at f (inode_ptr ?fl))"
    and pos: "unat (file_pos ?fl) \<le> length ?c" and o: "snd r < length (file_array (pcbs s (fst r)))" "bit (file_flags ?fl) 1"
    using ok by (auto simp: open_reg_def split: option.splits)
  have n': "n = min (length ?c - unat (file_pos ?fl)) (unat (word_of_int nbytes :: u32))"
    using n by (simp add: rest_of_file_def)
  have rd: "read_data f (inode_ptr ?fl) (file_pos ?fl) buf (word_of_int nbytes) =
      Some (take n (drop (unat (file_pos ?fl)) ?c) @ drop n buf, int n)"
    by (rule read_data_wf [OF ni wf pos n' buf])
  let ?s = "upd_file r (\<lambda>fl. fl\<lparr>file_pos := file_pos fl + word_of_int (int n)\<rparr>) s"
  have np: "unat (file_pos ?fl) + n \<le> length ?c" using n' pos by simp
  then have u: "unat (file_pos ?fl + of_nat n) = unat (file_pos ?fl) + n"
    using wf_content_length [OF wf] by (simp add: unat_word_ariths unat_of_nat)
  have "open_reg f ?s r" using ok o np u ni by (simp add: open_reg_def)
  moreover have "rest_of_file f ?s r = drop n (rest_of_file f s r)"
    using o(1) u by (simp add: rest_of_file_def add.commute)
  moreover have "file_read f s p fd buf nbytes = Some (?s, take n (rest_of_file f s r) @ drop n buf, int n)"
    using r o rd by (simp add: file_read_def rest_of_file_def)
  ultimately show ?thesis by blast
qed

text \<open>A sequence of reads with buffers of the sizes given, and the bytes they return.\<close>

fun read_seq :: "fs \<Rightarrow> kstate \<Rightarrow> pcb_ptr option \<Rightarrow> int \<Rightarrow> nat list \<Rightarrow> (kstate \<times> u8 list) option" where
  "read_seq f s p fd [] = Some (s, [])"
| "read_seq f s p fd (n # ns) = do {
     (s, buf, ret) \<leftarrow> file_read f s p fd (replicate n 0) (int n);
     (s, out) \<leftarrow> read_seq f s p fd ns;
     Some (s, take (nat ret) buf @ out) }"

lemma read_seq_open:
  "get_file_from_fd p fd = Some r \<Longrightarrow> open_reg f s r \<Longrightarrow> \<forall>n \<in> set ns. n < 2 ^ 32 \<Longrightarrow>
   \<exists>s'. read_seq f s p fd ns = Some (s', take (sum_list ns) (rest_of_file f s r)) \<and> open_reg f s' r \<and>
     rest_of_file f s' r = drop (sum_list ns) (rest_of_file f s r)"
proof (induction ns arbitrary: s)
  case (Cons n ns)
  let ?n = "min (length (rest_of_file f s r)) n"
  have n: "unat (word_of_int (int n) :: u32) = n" using Cons.prems(3) by (simp add: unat_of_nat)
  obtain s1 where s1: "file_read f s p fd (replicate n 0) (int n) =
      Some (s1, take ?n (rest_of_file f s r) @ drop ?n (replicate n 0), int ?n)"
    "open_reg f s1 r" "rest_of_file f s1 r = drop ?n (rest_of_file f s r)"
    using file_read_open [OF Cons.prems(1,2), of ?n "int n" "replicate n 0"] n by auto
  obtain s2 where s2: "read_seq f s1 p fd ns = Some (s2, take (sum_list ns) (rest_of_file f s1 r))"
    "open_reg f s2 r" "rest_of_file f s2 r = drop (sum_list ns) (rest_of_file f s1 r)"
    using Cons.IH [OF Cons.prems(1) s1(2)] Cons.prems(3) by auto
  have "read_seq f s p fd (n # ns) = Some (s2, take ?n (rest_of_file f s r) @ take (sum_list ns) (drop ?n (rest_of_file f s r)))"
    using s1 s2 by simp
  also have "take ?n (rest_of_file f s r) @ take (sum_list ns) (drop ?n (rest_of_file f s r)) =
      take (sum_list (n # ns)) (rest_of_file f s r)"
    by (cases "n \<le> length (rest_of_file f s r)") (simp_all add: take_add min_def)
  finally show ?case using s1(3) s2(2,3) by (auto simp: min_def add.commute)
qed simp

section \<open>Properties\<close>

text \<open>
  C22: for a sound index node, \<open>read_data\<close> returns exactly the requested slice of the file: the
  bytes from \<open>offset\<close> on, as many as \<open>length\<close> and the end of the file allow, across block
  boundaries, and leaves the rest of the buffer alone; it is total on such inputs.\<close>

theorem read_data_slice:
  assumes "num_inodes (img f) = Some ni" "inode \<le> ni" "wf_file f (inode_at f inode)"
    and "unat offset \<le> length (file_content f (inode_at f inode))"
    and "min (length (file_content f (inode_at f inode)) - unat offset) (unat len) \<le> length buf"
  shows "read_data f inode offset buf len =
    (let bs = take (unat len) (drop (unat offset) (file_content f (inode_at f inode)))
     in Some (bs @ drop (length bs) buf, int (length bs)))"
  using read_data_wf [OF assms(1-4) refl assms(5)] by (simp add: Let_def min_def)

lemma sample_content: "file_content (sample_fs e) 4096 = bytes32 3 @ bytes32 0 @ replicate 16 0 @ bytes32 e" "file_content (sample_fs e) 8192 = take 3 (bytes32 3)"
proof -
  have b: "file_block (sample_fs e) 4096 0 = take 4096 (drop 8192 (sample_img e))" "file_block (sample_fs e) 8192 0 = take 4096 (drop 8192 (sample_img e))"
    by (simp_all add: file_block_def data_block_idx_def sample_fs_def sample_words)
  have bl: "byte_length (sample_fs e) 4096 = Some 28" "byte_length (sample_fs e) 8192 = Some 3"
    by (simp_all add: byte_length_def sample_fs_def sample_words)
  have nb: "nblocks 28 = 1" "nblocks 3 = 1" by (simp_all add: nblocks_def)
  have d: "take 28 (drop 8192 (sample_img e)) = bytes32 3 @ bytes32 0 @ replicate 16 0 @ bytes32 e" "take 3 (drop 8192 (sample_img e)) = take 3 (bytes32 3)"
    unfolding sample_drops(5) by simp_all
  show "file_content (sample_fs e) 4096 = bytes32 3 @ bytes32 0 @ replicate 16 0 @ bytes32 e" "file_content (sample_fs e) 8192 = take 3 (bytes32 3)"
    using b d by (simp_all add: file_content_def bl nb)
qed

lemma sample_inode_at: "inode_at (sample_fs e) 0 = 4096" "inode_at (sample_fs e) 1 = 8192"
  by (simp_all add: inode_at_def sample_fs_def)

lemma sample_num_inodes: "num_inodes (img (sample_fs e)) = Some 1"
  by (simp add: sample_fs_def sample_words)

theorem read_data_slice_witness:
  "read_data sample_exe 0 24 [9, 9, 9, 9, 9] 100 = Some (bytes32 0x08048094 @ [9], 4)"
  using read_data_slice [OF sample_num_inodes [of "0x08048094"], of 0 24 100 "[9, 9, 9, 9, 9]"]
  by (simp add: sample_inode_at sample_wf sample_content Let_def)

text \<open>
  The bounds check of \<open>read_data\<close> lets the index \<open>num_inodes\<close> pass, one past the last index
  node: the first data block is then read as if it were an index node, and whatever it describes
  is returned as file data.\<close>

theorem read_data_inode_bound:
  assumes "fs_init m = Some f" "num_inodes m = Some ni" "wf_file f (data_head f)"
  shows "inode_at f ni = data_head f \<and>
    read_data f ni 0 (replicate (length (file_content f (data_head f))) 0) (of_nat (length (file_content f (data_head f)))) =
      Some (file_content f (data_head f), int (length (file_content f (data_head f))))"
proof -
  let ?c = "file_content f (data_head f)"
  have f: "img f = m" "node_head f = 4096" "data_head f = 4096 + 4096 * unat ni"
    using assms(1,2) by (auto simp: fs_init_def)
  then have i: "inode_at f ni = data_head f" by (simp add: inode_at_def)
  have l: "length ?c < 2 ^ 31" by (rule wf_content_length [OF assms(3)])
  then have u: "unat (of_nat (length ?c) :: u32) = length ?c" by (intro unat_of_nat_u32) simp
  have "read_data f ni 0 (replicate (length ?c) 0) (of_nat (length ?c)) =
      Some (take (length ?c) (drop (unat (0 :: u32)) (file_content f (inode_at f ni))) @ drop (length ?c) (replicate (length ?c) 0), int (length ?c))"
    using read_data_wf [of f ni ni 0 "length ?c" "of_nat (length ?c)" "replicate (length ?c) 0"] f assms i u by simp
  with i show ?thesis by simp
qed

theorem read_data_inode_bound_witness:
  "read_data sample_exe 1 0 (replicate 3 0) 3 = Some (take 3 (bytes32 3), 3)"
proof -
  have d: "data_head sample_exe = 8192" by (simp add: sample_fs_def)
  show ?thesis
    using read_data_inode_bound [OF sample_init [of "0x08048094"], of 1] sample_words(2) sample_wf(2)
    by (simp add: d sample_content)
qed

lemma read_dentry_by_name_find:
  assumes "num_dentries (img f) = Some n" "wf_dir f (unat n)" "length d = 64" "readable fname FILE_NAME_SIZE"
  shows "case List.find (name_match f fname) [0..<unat n + 1] of
      None \<Rightarrow> read_dentry_by_name f fname d = Some (d, -1)
    | Some k \<Rightarrow> (\<exists>d'. read_dentry_by_name f fname d = Some (d', 0) \<and> entry_type f k = Some (d_type d') \<and>
        entry_inode f k = Some (d_inode d') \<and> take 32 (cstr d') = take 32 (entry_name f k))"
proof (cases "List.find (name_match f fname) [0..<unat n + 1]")
  case None
  then show ?thesis using by_name_loop_eq [OF assms(2-4), of 0] assms(1) by (simp add: read_dentry_by_name_def)
next
  case (Some k)
  then have k: "k \<le> unat n" using find_SomeD [OF Some] by auto
  obtain d' where d': "entry_dentry f k d = Some d'" using copy_entry [OF assms(2) k assms(3)] by auto
  have "read_dentry_by_name f fname d = Some (d', 0)"
    using by_name_loop_eq [OF assms(2-4), of 0] assms(1) Some d' by (simp add: read_dentry_by_name_def)
  with entry_dentry_fields [OF d' wf_dir_entry(2) [OF assms(2) k] assms(3)] Some show ?thesis by auto
qed

text \<open>
  C29: \<open>read_dentry_by_name\<close> finds the first entry, of the indices 0 to \<open>num_dentries\<close> inclusive,
  that has a name and agrees with the argument on 32 characters, and copies its name, type and
  index node; it fails with the caller's \<open>dentry\<close> unchanged when there is none. The search always ends.\<close>

theorem read_dentry_by_name_first:
  assumes "num_dentries (img f) = Some n" "wf_dir f (unat n)" "length d = 64" "readable fname FILE_NAME_SIZE"
  shows "case List.find (name_match f fname) [0..<unat n + 1] of
      None \<Rightarrow> read_dentry_by_name f fname d = Some (d, -1)
    | Some k \<Rightarrow> (\<exists>d'. read_dentry_by_name f fname d = Some (d', 0) \<and> entry_type f k = Some (d_type d') \<and>
        entry_inode f k = Some (d_inode d') \<and> take 32 (cstr d') = take 32 (entry_name f k))"
  using assms by (rule read_dentry_by_name_find)

lemma sample_entry_names: "entry_name (sample_fs e) 0 = chars ''shell''" "entry_name (sample_fs e) 1 = []"
proof -
  have "sample_entry = chars ''shell'' @ 0 # replicate 26 0 @ bytes32 2 @ bytes32 0 @ replicate 24 0"
    by (simp add: sample_entry_def numeral_eq_Suc)
  then have "drop 64 (sample_img e) = chars ''shell'' @ 0 # replicate 26 0 @ bytes32 2 @ bytes32 0 @ replicate 24 0 @ drop 128 (sample_img e)"
    using sample_drops(2) by simp
  moreover have "0 \<notin> set (chars ''shell'')" by (simp add: chars_def)
  ultimately show "entry_name (sample_fs e) 0 = chars ''shell''"
    by (simp add: entry_name_def entries_at_def sample_fs_def)
  have "replicate 3968 (0 :: u8) = 0 # replicate 3967 0" by (simp add: replicate_Suc [symmetric] del: replicate_Suc)
  then show "entry_name (sample_fs e) 1 = []"
    using sample_drops(3) by (simp add: entry_name_def entries_at_def sample_fs_def cstr_def)
qed

lemma sample_wf_dir: "wf_dir (sample_fs e) 1"
proof -
  have z: "0 \<in> set (drop 64 (sample_img e))" "0 \<in> set (drop 128 (sample_img e))"
    unfolding sample_drops(2,3) by simp_all
  have "length (entry_name (sample_fs e) i) < 36 \<and> 0 \<in> set (drop (entries_at i) (img (sample_fs e)))" if le: "i \<le> 1" for i
  proof -
    consider "i = 0" | "i = 1" using le by linarith
    then show ?thesis
      using z by cases (simp_all only: sample_entry_names, simp_all add: entries_at_def sample_fs_def chars_def)
  qed
  then show ?thesis by (simp add: wf_dir_def entries_at_def sample_fs_def)
qed

lemma sample_entry_fields: "entry_type (sample_fs e) 0 = Some 2" "entry_inode (sample_fs e) 0 = Some 0"
proof -
  have "drop 96 (sample_img e) = drop 32 (drop 64 (sample_img e))" "drop 100 (sample_img e) = drop 36 (drop 64 (sample_img e))" by simp_all
  then have "drop 96 (sample_img e) = bytes32 2 @ bytes32 0 @ replicate 24 0 @ drop 128 (sample_img e)"
    "drop 100 (sample_img e) = bytes32 0 @ replicate 24 0 @ drop 128 (sample_img e)"
    unfolding sample_drops(2) by (simp_all add: sample_entry_def chars_def)
  then show "entry_type (sample_fs e) 0 = Some 2" "entry_inode (sample_fs e) 0 = Some 0"
    using rd32_append [of 96 "sample_img e"] rd32_append [of 100 "sample_img e"]
    by (simp_all add: entry_type_def entry_inode_def entries_at_def sample_fs_def)
qed

theorem read_dentry_by_name_first_witness:
  "\<exists>d'. read_dentry_by_name sample_exe (chars ''shell'' @ [0]) (replicate 64 0) = Some (d', 0) \<and>
     d_type d' = FILE_TYPE_REG \<and> d_inode d' = 0"
proof -
  have n: "num_dentries (img sample_exe) = Some 1" by (simp add: sample_fs_def sample_words)
  have w: "wf_dir sample_exe (unat (1 :: u32))" using sample_wf_dir by simp
  have r: "readable (chars ''shell'' @ [0]) FILE_NAME_SIZE" by (simp add: readable_def)
  have "cstr (chars ''shell'' @ [0]) = chars ''shell''" by (rule cstr_append_nul) (simp add: chars_def)
  then have "name_match sample_exe (chars ''shell'' @ [0]) 0" by (simp add: name_match_def sample_entry_names chars_def)
  then have "List.find (name_match sample_exe (chars ''shell'' @ [0])) [0..<unat (1 :: u32) + 1] = Some 0"
    by (simp add: upt_rec)
  then show ?thesis
    using read_dentry_by_name_first [OF n w _ r, of "replicate 64 0"] sample_entry_fields by auto
qed

text \<open>
  Any sequence of reads on an open regular file returns consecutive pieces: together they are
  the prefix of the rest of the file as long as the sizes allow, and the file position moves by
  what was returned.\<close>

theorem file_reads_consecutive:
  assumes "get_file_from_fd p fd = Some r" "open_reg f s r" "\<forall>n \<in> set ns. n < 2 ^ 32"
  shows "\<exists>s'. read_seq f s p fd ns = Some (s', take (sum_list ns) (rest_of_file f s r)) \<and>
    rest_of_file f s' r = drop (sum_list ns) (rest_of_file f s r)"
  using read_seq_open [OF assms] by blast

text \<open>Process 3 with the file \<open>hello\<close> open as descriptor 2.\<close>

definition sample_open :: kstate where
  "sample_open = upd_file (3, 2) (\<lambda>_. zero_file\<lparr>file_flags := 3, file_op := Some file_fops\<rparr>) sample_kstate"

theorem file_reads_consecutive_witness:
  "\<exists>s'. read_seq sample_exe sample_open (Some 3) 2 [24, 100] = Some (s', bytes32 3 @ bytes32 0 @ replicate 16 0 @ bytes32 0x08048094)"
proof -
  have g: "get_file sample_open (3, 2) = zero_file\<lparr>file_flags := 3, file_op := Some file_fops\<rparr>"
    unfolding sample_open_def by (subst get_upd_file) (simp_all add: sample_file_array)
  have 3: "(3 :: u32) = set_bit 0 (set_bit 1 0)" by (simp add: set_bit_eq_or)
  have b: "bit (3 :: u32) (Suc 0)" unfolding 3 by (simp add: bit_simps)
  have l: "length (file_array (pcbs sample_open 3)) = 8" by (simp add: sample_open_def sample_file_array)
  have o: "open_reg sample_exe sample_open (3, 2)"
    by (simp add: open_reg_def l g b zero_file_def sample_num_inodes sample_inode_at sample_wf sample_content)
  have r: "rest_of_file sample_exe sample_open (3, 2) = bytes32 3 @ bytes32 0 @ replicate 16 0 @ bytes32 0x08048094"
    by (simp add: rest_of_file_def g zero_file_def sample_inode_at sample_content)
  have fd: "get_file_from_fd (Some 3) 2 = Some (3, 2)" by (simp add: get_file_from_fd_def)
  show ?thesis using file_reads_consecutive [OF fd o, of "[24, 100]"] r by auto
qed

lemma file_loader_content:
  assumes "num_inodes (img f) = Some ni" "d_inode dentry \<le> ni" "wf_file f (inode_at f (d_inode dentry))"
    and "length (file_content f (inode_at f (d_inode dentry))) \<le> length umem"
    and "28 \<le> length (file_content f (inode_at f (d_inode dentry)))"
  shows "file_loader f dentry umem =
    (let c = file_content f (inode_at f (d_inode dentry)); eip = le32 (take 4 (drop 24 c))
     in Some (c @ drop (length c) umem,
          if USER_MEM + EXEC_OFFSET \<le> eip \<and> eip \<le> USER_MEM + OFFSET_4MB then Some eip else None))"
proof -
  let ?p = "inode_at f (d_inode dentry)"
  obtain bl where bl: "byte_length f ?p = Some bl" using assms(3) by (auto simp: wf_file_def split: option.splits)
  have len: "length (file_content f ?p) = unat bl" by (rule wf_file_content(3) [OF assms(3) bl])
  have "loader_loop f (d_inode dentry) umem 0 bl = Some (file_content f ?p @ drop (unat bl) umem)"
    by (rule loader_loop_wf [OF assms(1-3) bl]) (use assms(4) len in simp)
  moreover have "rd32 (file_content f ?p @ drop (unat bl) umem) 24 = Some (le32 (take 4 (drop 24 (file_content f ?p))))"
    using assms(5) by (simp add: rd32_def load_def)
  ultimately show ?thesis
    using bl len by (auto simp: file_loader_def Let_def not_less [symmetric] inode_at_def)
qed

text \<open>
  C23: \<open>file_loader\<close> copies the whole executable to the load address and returns its entry point,
  bytes 24 to 27 of the file, exactly when that lies between the load address and the end of the
  user page (end included).\<close>

theorem file_loader_loads:
  assumes "num_inodes (img f) = Some ni" "d_inode dentry \<le> ni" "wf_file f (inode_at f (d_inode dentry))"
    and "length (file_content f (inode_at f (d_inode dentry))) \<le> length umem"
    and "28 \<le> length (file_content f (inode_at f (d_inode dentry)))"
  shows "file_loader f dentry umem =
    (let c = file_content f (inode_at f (d_inode dentry)); eip = le32 (take 4 (drop 24 c))
     in Some (c @ drop (length c) umem,
          if USER_MEM + EXEC_OFFSET \<le> eip \<and> eip \<le> USER_MEM + OFFSET_4MB then Some eip else None))"
  using assms by (rule file_loader_content)

theorem file_loader_loads_witness:
  "file_loader sample_exe (replicate 64 0) (replicate 40 0) =
     Some (bytes32 3 @ bytes32 0 @ replicate 16 0 @ bytes32 0x08048094 @ replicate 12 0, Some 0x08048094)"
proof -
  have d: "d_inode (replicate 64 0) = 0" by (simp add: d_inode_def le32_def)
  show ?thesis
    using file_loader_loads [OF sample_num_inodes [of "0x08048094"], of "replicate 64 0" "replicate 40 0"]
    by (simp add: d sample_inode_at sample_wf sample_content Let_def)
qed

end
