(* ===== verification/Rtc.thy ===== *)
theory Rtc
  imports File_Sys
begin

text \<open>
  \<^verbatim>\<open>student-distrib/rtc.c\<close>: the virtual real-time clocks. Each open descriptor keeps its frequency
  exponent and a tick flag in \<open>flags\<close>, the pending ticks and the interrupt countdown in the two
  halves of \<open>file_pos\<close>, and a link in \<open>reserved\<close>; \<open>open_rtcs\<close> heads the list. Interrupts are
  disabled while the fields change, so each update is one step.

  The bit fields are proved independent, the list operations to implement insertion and removal
  of a list without repetition, the interrupt handler to tick every clock once, and the countdown
  to divide the hardware rate exactly.
\<close>

section \<open>The bit fields\<close>

abbreviation (input) MAX_FREQ_HZ :: u32 where "MAX_FREQ_HZ \<equiv> 1024"
abbreviation (input) HZ_2 :: u32 where "HZ_2 \<equiv> 1"

definition rtc_virt_get_freq :: "file_t \<Rightarrow> u32" where
  "rtc_virt_get_freq f = drop_bit 24 (file_flags f AND 0x0F000000)"

definition rtc_virt_set_freq :: "u32 \<Rightarrow> file_t \<Rightarrow> file_t" where
  "rtc_virt_set_freq freq f =
     f\<lparr>file_flags := (file_flags f AND 0xF0FFFFFF) OR push_bit 24 (freq AND 0x0F)\<rparr>"

definition rtc_virt_has_ticked :: "file_t \<Rightarrow> bool" where
  "rtc_virt_has_ticked f \<longleftrightarrow> file_flags f AND push_bit 31 1 \<noteq> 0"

definition rtc_virt_clr_ticked :: "file_t \<Rightarrow> file_t" where
  "rtc_virt_clr_ticked f = f\<lparr>file_flags := file_flags f AND NOT (push_bit 31 1)\<rparr>"

definition rtc_virt_set_ticked :: "file_t \<Rightarrow> file_t" where
  "rtc_virt_set_ticked f = f\<lparr>file_flags := file_flags f OR push_bit 31 1\<rparr>"

definition rtc_virt_ticks :: "file_t \<Rightarrow> u32" where
  "rtc_virt_ticks f = drop_bit 16 (file_pos f AND 0xFFFF0000)"

definition rtc_virt_set_ticks :: "u32 \<Rightarrow> file_t \<Rightarrow> file_t" where
  "rtc_virt_set_ticks ticks f =
     f\<lparr>file_pos := (file_pos f AND 0x0000FFFF) OR push_bit 16 (ticks AND 0xFFFF)\<rparr>"

definition rtc_virt_clr_ticks :: "file_t \<Rightarrow> file_t" where
  "rtc_virt_clr_ticks f = rtc_virt_set_ticks 0 f"

definition rtc_virt_incr_ticks :: "file_t \<Rightarrow> file_t \<times> u16" where
  "rtc_virt_incr_ticks f =
     (let ticks = ucast (rtc_virt_ticks f) + 1 :: u16 in (rtc_virt_set_ticks (ucast ticks) f, ticks))"

definition rtc_virt_decr_ticks :: "file_t \<Rightarrow> file_t \<times> u16" where
  "rtc_virt_decr_ticks f =
     (let ticks = ucast (rtc_virt_ticks f) :: u16 in
      if ticks > 0 then (rtc_virt_set_ticks (ucast (ticks - 1)) f, ticks - 1) else (f, ticks))"

definition rtc_virt_get_ctr :: "file_t \<Rightarrow> u32" where
  "rtc_virt_get_ctr f = file_pos f AND 0xFFFF"

definition rtc_virt_set_ctr :: "u32 \<Rightarrow> file_t \<Rightarrow> file_t" where
  "rtc_virt_set_ctr ctr f = f\<lparr>file_pos := (file_pos f AND 0xFFFF0000) OR (ctr AND 0xFFFF)\<rparr>"

definition rtc_virt_rst_ctr :: "file_t \<Rightarrow> file_t" where
  "rtc_virt_rst_ctr f = rtc_virt_set_ctr (drop_bit (unat (rtc_virt_get_freq f)) MAX_FREQ_HZ) f"

definition rtc_virt_incr_ctr :: "file_t \<Rightarrow> file_t \<times> u16" where
  "rtc_virt_incr_ctr f =
     (let ctr = ucast (rtc_virt_get_ctr f) + 1 :: u16 in (rtc_virt_set_ctr (ucast ctr) f, ctr))"

definition rtc_virt_decr_ctr :: "file_t \<Rightarrow> file_t \<times> u16" where
  "rtc_virt_decr_ctr f =
     (let ctr = ucast (rtc_virt_get_ctr f) :: u16 in
      if ctr > 0 then (rtc_virt_set_ctr (ucast (ctr - 1)) f, ctr - 1) else (f, ctr))"

section \<open>The hardware\<close>

abbreviation (input) NMI_RTC_PORT :: u16 where "NMI_RTC_PORT \<equiv> 0x70"
abbreviation (input) RTC_RAM_PORT :: u16 where "RTC_RAM_PORT \<equiv> 0x71"

text \<open>\<open>regA\<close>, \<open>regB\<close> and \<open>nmi\<close> are what the ports return.\<close>

definition rtc_modify_freq :: "u32 \<Rightarrow> u8 \<Rightarrow> kstate \<Rightarrow> kstate" where
  "rtc_modify_freq freq regA s =
     do_io ([Outb 0x0A NMI_RTC_PORT, Inb regA RTC_RAM_PORT, Outb 0x0A NMI_RTC_PORT,
       Outb ((regA AND 0xF0) OR ucast (0x10 - freq)) RTC_RAM_PORT]) s"

definition rtc_init :: "u8 \<Rightarrow> u8 \<Rightarrow> u8 \<Rightarrow> kstate \<Rightarrow> kstate" where
  "rtc_init regB nmi regA s =
     (let s = do_io [Outb (0x80 OR 0x0B) NMI_RTC_PORT, Inb regB RTC_RAM_PORT, Outb (0x80 OR 0x0B) NMI_RTC_PORT,
                Outb (regB OR 0x40) RTC_RAM_PORT, Inb nmi NMI_RTC_PORT, Outb (nmi AND 0x7F) NMI_RTC_PORT] s;
          s = s\<lparr>open_rtcs := None\<rparr>
      in rtc_modify_freq 10 regA s)"

section \<open>The interrupt\<close>

definition rtc_tick :: "file_t \<Rightarrow> file_t" where
  "rtc_tick f =
     (case rtc_virt_decr_ctr f of (f, ctr) \<Rightarrow>
        if ctr = 0 then rtc_virt_set_ticked (fst (rtc_virt_incr_ticks (rtc_virt_rst_ctr f))) else f)"

text \<open>The walk along the list: \<open>None\<close> when it does not end.\<close>

partial_function (option) tick_loop :: "file_ptr option \<Rightarrow> kstate \<Rightarrow> kstate option" where
  "tick_loop rtc s =
     (case rtc of None \<Rightarrow> Some s
      | Some r \<Rightarrow> (let s = upd_file r rtc_tick s in tick_loop (reserved (get_file s r)) s))"

definition rtc_handle_interrupt :: "u8 \<Rightarrow> kstate \<Rightarrow> kstate option" where
  "rtc_handle_interrupt regC s =
     (let s = do_io [Outb 0x0C NMI_RTC_PORT, Inb regC RTC_RAM_PORT] s
      in if open_rtcs s \<noteq> None then tick_loop (open_rtcs s) s else Some s)"

section \<open>File operations\<close>

text \<open>
  \<open>rtc_read\<close> yields the processor until the clock has ticked; what the other processes and the
  interrupts do meanwhile is the parameter \<open>sched\<close>, the kernel state after the i-th yield.
\<close>

partial_function (option) rtc_wait :: "(nat \<Rightarrow> kstate \<Rightarrow> kstate) \<Rightarrow> nat \<Rightarrow> file_ptr \<Rightarrow> kstate \<Rightarrow> kstate option" where
  "rtc_wait sched i r s =
     (if rtc_virt_has_ticked (get_file s r) then Some s else rtc_wait sched (Suc i) r (sched i s))"

definition not_rtc_open :: "file_t \<Rightarrow> bool" where
  "not_rtc_open f \<longleftrightarrow> file_flags f AND (FILE_OPEN OR FILE_RTC) = 0"

definition rtc_read ::
  "(nat \<Rightarrow> kstate \<Rightarrow> kstate) \<Rightarrow> kstate \<Rightarrow> pcb_ptr option \<Rightarrow> int \<Rightarrow> u8 list \<Rightarrow> int \<Rightarrow> (kstate \<times> u8 list \<times> int) option" where
  "rtc_read sched s p fd buf nbytes =
     (case get_file_from_fd p fd of
        None \<Rightarrow> Some (s, buf, -1)
      | Some r \<Rightarrow>
          if not_rtc_open (get_file s r) then Some (s, buf, -1)
          else do {
            s \<leftarrow> rtc_wait sched 0 r s;
            let s = upd_file r rtc_virt_clr_ticked s;
            let ticks = rtc_virt_ticks (get_file s r);
            buf \<leftarrow> store_bytes buf 0 (take (unat (c_min 4 (word_of_int nbytes :: u32))) (bytes32 ticks));
            Some (upd_file r rtc_virt_clr_ticks s, buf, 0) })"

function shift_count :: "u32 \<Rightarrow> u32 \<Rightarrow> u32" where
  "shift_count freq sc = (if freq \<noteq> 0 then shift_count (drop_bit 1 freq) (sc + 1) else sc)"
  by pat_completeness auto
termination
proof (relation "measure (\<lambda>(freq, sc). unat freq)")
  fix freq sc :: u32
  assume "freq \<noteq> 0"
  then have "0 < unat freq" by (simp add: unat_gt_0)
  moreover have "unat (drop_bit 1 freq) = unat freq div 2" using unat_drop_bit [of 1 freq] by simp
  ultimately show "((drop_bit 1 freq, sc + 1), (freq, sc)) \<in> measure (\<lambda>(freq, sc). unat freq)" by simp
qed simp

text \<open>\<open>1 << sc\<close> takes the shift count modulo 32, as the processor does.\<close>

definition rtc_write :: "kstate \<Rightarrow> pcb_ptr option \<Rightarrow> int \<Rightarrow> u8 list option \<Rightarrow> int \<Rightarrow> (kstate \<times> int) option" where
  "rtc_write s p fd buf nbytes =
     (case buf of None \<Rightarrow> Some (s, -1)
      | Some buf \<Rightarrow>
          if nbytes \<noteq> 4 then Some (s, -1)
          else (case get_file_from_fd p fd of
              None \<Rightarrow> Some (s, -1)
            | Some r \<Rightarrow>
                if not_rtc_open (get_file s r) then Some (s, -1)
                else do {
                  req_freq \<leftarrow> rd32 buf 0;
                  let sc = shift_count req_freq 0 - 1;
                  if req_freq = push_bit (unat sc mod 32) 1 then
                    Some (upd_file r (\<lambda>f. rtc_virt_rst_ctr (rtc_virt_clr_ticks (rtc_virt_clr_ticked (rtc_virt_set_freq sc f)))) s, 4)
                  else Some (s, -1) }))"

definition rtc_open :: "kstate \<Rightarrow> pcb_ptr option \<Rightarrow> kstate \<times> int" where
  "rtc_open s p =
     (case get_unused_fd p s of (s, fd) \<Rightarrow>
        if fd < 0 then (s, -1)
        else case get_file_from_fd p fd of None \<Rightarrow> (s, -1)
          | Some r \<Rightarrow>
              let s = upd_file r (\<lambda>f. f\<lparr>file_flags := file_flags f OR (FILE_OPEN OR FILE_RTC), file_op := Some rtc_fops,
                        file_pos := 0, inode_ptr := - 1\<rparr>) s;
                  s = upd_file r (\<lambda>f. rtc_virt_rst_ctr (rtc_virt_clr_ticks (rtc_virt_clr_ticked (rtc_virt_set_freq HZ_2 f)))) s;
                  s = upd_file r (\<lambda>f. f\<lparr>reserved := open_rtcs s\<rparr>) s
              in (s\<lparr>open_rtcs := Some r\<rparr>, fd))"

text \<open>
  \<open>last_rtc\<close> points at the link to \<open>el\<close>: the head (\<open>None\<close>) or the \<open>reserved\<close> member of a file. The
  search gives that link and \<open>el\<close>.
\<close>

partial_function (option) close_find ::
  "kstate \<Rightarrow> file_ptr option \<Rightarrow> file_ptr option \<Rightarrow> file_ptr option \<Rightarrow> (file_ptr option \<times> file_ptr option) option" where
  "close_find s rtc last_rtc el =
     (if el \<noteq> None \<and> el \<noteq> rtc then close_find s rtc el (reserved (get_file s (the el)))
      else Some (last_rtc, el))"

definition set_link :: "file_ptr option \<Rightarrow> file_ptr option \<Rightarrow> kstate \<Rightarrow> kstate" where
  "set_link l v s =
     (case l of None \<Rightarrow> s\<lparr>open_rtcs := v\<rparr> | Some e \<Rightarrow> upd_file e (\<lambda>f. f\<lparr>reserved := v\<rparr>) s)"

definition rtc_close :: "kstate \<Rightarrow> pcb_ptr option \<Rightarrow> int \<Rightarrow> (kstate \<times> int) option" where
  "rtc_close s p fd = do {
     (last_rtc, el) \<leftarrow> close_find s (get_file_from_fd p fd) None (open_rtcs s);
     let s = (case el of None \<Rightarrow> s | Some e \<Rightarrow> set_link last_rtc (reserved (get_file s e)) s);
     Some (release_fd p fd s, 0) }"

declare shift_count.simps [simp del]

section \<open>Independence of the fields\<close>

lemma rtc_masks:
  "(0x0F000000 :: u32) = push_bit 24 (mask 4)" "(0xF0FFFFFF :: u32) = NOT (push_bit 24 (mask 4))"
  "(0xFFFF0000 :: u32) = push_bit 16 (mask 16)" "(0xFFFF :: u32) = mask 16" "(0x0F :: u32) = mask 4"
  by (simp_all add: mask_eq_exp_minus_1)

lemmas rtc_field_defs = rtc_virt_get_freq_def rtc_virt_set_freq_def rtc_virt_has_ticked_def
  rtc_virt_clr_ticked_def rtc_virt_set_ticked_def rtc_virt_ticks_def rtc_virt_set_ticks_def
  rtc_virt_get_ctr_def rtc_virt_set_ctr_def rtc_virt_clr_ticks_def

lemma bit_31 [simp]: "bit (0x80000000 :: int) n \<longleftrightarrow> n = 31"
proof -
  have e: "(0x80000000 :: int) = 2 ^ 31" by simp
  show ?thesis unfolding e bit_exp_iff by auto
qed

lemma has_ticked_bit: "rtc_virt_has_ticked f \<longleftrightarrow> bit (file_flags f) 31"
  unfolding rtc_virt_has_ticked_def using and_exp_eq_0_iff_not_bit [of "file_flags f" 31] by simp

lemma freq_bits: "bit (rtc_virt_get_freq f) n = (n < 4 \<and> bit (file_flags f) (24 + n))"
  unfolding rtc_virt_get_freq_def rtc_masks by (auto simp: bit_simps dest: bit_imp_le_length)

lemma ticks_bits: "bit (rtc_virt_ticks f) n = (n < 16 \<and> bit (file_pos f) (16 + n))"
  unfolding rtc_virt_ticks_def rtc_masks by (auto simp: bit_simps dest: bit_imp_le_length)

lemma ctr_bits: "bit (rtc_virt_get_ctr f) n = (n < 16 \<and> bit (file_pos f) n)"
  unfolding rtc_virt_get_ctr_def rtc_masks by (auto simp: bit_simps dest: bit_imp_le_length)

lemma get_set_ctr [simp]:
  "rtc_virt_get_ctr (rtc_virt_set_ctr c f) = c AND mask 16" "rtc_virt_ticks (rtc_virt_set_ctr c f) = rtc_virt_ticks f"
  by (rule bit_word_eqI, unfold ctr_bits ticks_bits rtc_virt_set_ctr_def rtc_masks, auto simp: bit_simps)+

lemma get_set_ticks [simp]:
  "rtc_virt_ticks (rtc_virt_set_ticks t f) = t AND mask 16" "rtc_virt_get_ctr (rtc_virt_set_ticks t f) = rtc_virt_get_ctr f"
  by (rule bit_word_eqI, unfold ctr_bits ticks_bits rtc_virt_set_ticks_def rtc_masks, auto simp: bit_simps)+

lemma get_set_freq [simp]: "rtc_virt_get_freq (rtc_virt_set_freq v f) = v AND mask 4"
  by (rule bit_word_eqI, unfold freq_bits rtc_virt_set_freq_def rtc_masks, auto simp: bit_simps)

lemma pos_ops_flags [simp]:
  "file_flags (rtc_virt_set_ctr c f) = file_flags f" "file_flags (rtc_virt_set_ticks t f) = file_flags f"
  by (simp_all add: rtc_virt_set_ctr_def rtc_virt_set_ticks_def)

lemma flag_ops_pos [simp]:
  "file_pos (rtc_virt_set_freq v f) = file_pos f" "file_pos (rtc_virt_clr_ticked f) = file_pos f"
  "file_pos (rtc_virt_set_ticked f) = file_pos f"
  by (simp_all add: rtc_virt_set_freq_def rtc_virt_clr_ticked_def rtc_virt_set_ticked_def)

lemma cross_fields [simp]:
  "rtc_virt_get_ctr (rtc_virt_set_freq v f) = rtc_virt_get_ctr f" "rtc_virt_ticks (rtc_virt_set_freq v f) = rtc_virt_ticks f"
  "rtc_virt_get_ctr (rtc_virt_clr_ticked f) = rtc_virt_get_ctr f" "rtc_virt_ticks (rtc_virt_clr_ticked f) = rtc_virt_ticks f"
  "rtc_virt_get_ctr (rtc_virt_set_ticked f) = rtc_virt_get_ctr f" "rtc_virt_ticks (rtc_virt_set_ticked f) = rtc_virt_ticks f"
  "rtc_virt_get_freq (rtc_virt_set_ctr c f) = rtc_virt_get_freq f" "rtc_virt_get_freq (rtc_virt_set_ticks t f) = rtc_virt_get_freq f"
  "rtc_virt_has_ticked (rtc_virt_set_ctr c f) = rtc_virt_has_ticked f"
  "rtc_virt_has_ticked (rtc_virt_set_ticks t f) = rtc_virt_has_ticked f"
  by (simp_all add: rtc_virt_get_ctr_def rtc_virt_ticks_def rtc_virt_get_freq_def rtc_virt_has_ticked_def)

lemma freq_ticked [simp]:
  "rtc_virt_get_freq (rtc_virt_clr_ticked f) = rtc_virt_get_freq f" "rtc_virt_get_freq (rtc_virt_set_ticked f) = rtc_virt_get_freq f"
  by (rule bit_word_eqI, unfold freq_bits rtc_virt_clr_ticked_def rtc_virt_set_ticked_def, auto simp: bit_simps)+

lemma ticked_ops [simp]:
  "rtc_virt_has_ticked (rtc_virt_set_ticked f)" "\<not> rtc_virt_has_ticked (rtc_virt_clr_ticked f)"
  "rtc_virt_has_ticked (rtc_virt_set_freq v f) = rtc_virt_has_ticked f"
  unfolding has_ticked_bit rtc_virt_set_ticked_def rtc_virt_clr_ticked_def rtc_virt_set_freq_def rtc_masks
  by (simp_all add: bit_simps)

text \<open>The status bits of \<open>flags\<close>, below bit 24, and the other members are never touched.\<close>

definition same_file :: "file_t \<Rightarrow> file_t \<Rightarrow> bool" where
  "same_file f g \<longleftrightarrow> file_op f = file_op g \<and> inode_ptr f = inode_ptr g \<and> reserved f = reserved g \<and>
     (\<forall>n < 24. bit (file_flags f) n = bit (file_flags g) n)"

lemma same_file_trans: "same_file f g \<Longrightarrow> same_file g h \<Longrightarrow> same_file f h"
  by (simp add: same_file_def)

lemma same_file_refl [simp]: "same_file f f"
  by (simp add: same_file_def)

lemma same_file_ops [simp]:
  "same_file (rtc_virt_set_ctr c f) f" "same_file (rtc_virt_set_ticks t f) f" "same_file (rtc_virt_set_ticked f) f"
  "same_file (rtc_virt_clr_ticked f) f" "same_file (rtc_virt_set_freq v f) f"
  unfolding same_file_def rtc_virt_set_ctr_def rtc_virt_set_ticks_def rtc_virt_set_ticked_def rtc_virt_clr_ticked_def
    rtc_virt_set_freq_def rtc_masks
  by (auto simp: bit_simps)

section \<open>One interrupt\<close>

definition period :: "file_t \<Rightarrow> nat" where
  "period f = 1024 div 2 ^ unat (rtc_virt_get_freq f)"

lemma unat_low16: "unat (w AND mask 16 :: u32) = unat w mod 65536"
  using unat_and_mask [of w 16] by simp

lemma ctr_less: "unat (rtc_virt_get_ctr f) < 65536" "unat (rtc_virt_ticks f) < 65536"
proof -
  have "rtc_virt_get_ctr f = rtc_virt_get_ctr f AND mask 16" "rtc_virt_ticks f = rtc_virt_ticks f AND mask 16"
    by (rule bit_word_eqI, auto simp: ctr_bits ticks_bits bit_simps)+
  then show "unat (rtc_virt_get_ctr f) < 65536" "unat (rtc_virt_ticks f) < 65536"
    by (metis unat_low16 mod_less_divisor zero_less_numeral)+
qed

lemma rst_ctr_value: "unat (rtc_virt_get_ctr (rtc_virt_rst_ctr f)) = period f"
proof -
  have "period f \<le> 1024" by (simp add: period_def)
  moreover have "unat (drop_bit (unat (rtc_virt_get_freq f)) 1024 :: u32) = period f"
    using unat_drop_bit [of "unat (rtc_virt_get_freq f)" 1024] by (simp add: period_def)
  ultimately show ?thesis unfolding rtc_virt_rst_ctr_def get_set_ctr unat_low16 by simp
qed

lemma unat_u16_down: "unat (ucast (w :: u32) :: u16) = unat w mod 65536"
  by (simp add: unsigned_ucast_eq take_bit_eq_mod)

lemma unat_u16_up: "unat (ucast (w :: u16) :: u32) = unat w"
  by (simp add: unsigned_ucast_eq take_bit_eq_mod order_less_trans [OF unsigned_less])

lemma unat_u16_pred: "(w :: u16) > 0 \<Longrightarrow> unat (w - 1) = unat w - 1"
  by (simp add: unat_minus_one word_greater_zero_iff)

lemma decr_ctr_view:
  assumes "rtc_virt_decr_ctr f = (g, c)"
  shows "unat c = unat (rtc_virt_get_ctr f) - 1" "unat (rtc_virt_get_ctr g) = unat (rtc_virt_get_ctr f) - 1"
    "rtc_virt_ticks g = rtc_virt_ticks f" "rtc_virt_has_ticked g = rtc_virt_has_ticked f"
    "rtc_virt_get_freq g = rtc_virt_get_freq f" "same_file g f"
proof -
  let ?c = "ucast (rtc_virt_get_ctr f) :: u16"
  have u: "unat ?c = unat (rtc_virt_get_ctr f)" using ctr_less(1) [of f] by (simp add: unat_u16_down)
  show "unat c = unat (rtc_virt_get_ctr f) - 1" "unat (rtc_virt_get_ctr g) = unat (rtc_virt_get_ctr f) - 1"
    "rtc_virt_ticks g = rtc_virt_ticks f" "rtc_virt_has_ticked g = rtc_virt_has_ticked f"
    "rtc_virt_get_freq g = rtc_virt_get_freq f" "same_file g f"
    using assms u ctr_less(1) [of f]
    by (auto simp: rtc_virt_decr_ctr_def Let_def unat_low16 unat_u16_up unat_u16_pred word_greater_zero_iff split: if_splits)
qed

lemma incr_ticks_view:
  "unat (rtc_virt_ticks (fst (rtc_virt_incr_ticks f))) = (unat (rtc_virt_ticks f) + 1) mod 65536"
  "rtc_virt_get_ctr (fst (rtc_virt_incr_ticks f)) = rtc_virt_get_ctr f"
  "rtc_virt_get_freq (fst (rtc_virt_incr_ticks f)) = rtc_virt_get_freq f" "same_file (fst (rtc_virt_incr_ticks f)) f"
  by (simp_all add: rtc_virt_incr_ticks_def Let_def unat_low16 unat_u16_up unat_word_ariths unat_u16_down mod_simps)

lemma rst_ctr_view:
  "rtc_virt_ticks (rtc_virt_rst_ctr f) = rtc_virt_ticks f" "rtc_virt_get_freq (rtc_virt_rst_ctr f) = rtc_virt_get_freq f"
  "rtc_virt_has_ticked (rtc_virt_rst_ctr f) = rtc_virt_has_ticked f" "same_file (rtc_virt_rst_ctr f) f"
  by (simp_all add: rtc_virt_rst_ctr_def)

lemma rtc_tick_view:
  fixes f
  defines "c \<equiv> unat (rtc_virt_get_ctr f)"
  shows "unat (rtc_virt_get_ctr (rtc_tick f)) = (if c \<le> 1 then period f else c - 1)"
    and "unat (rtc_virt_ticks (rtc_tick f)) = (if c \<le> 1 then (unat (rtc_virt_ticks f) + 1) mod 65536 else unat (rtc_virt_ticks f))"
    and "rtc_virt_has_ticked (rtc_tick f) = (c \<le> 1 \<or> rtc_virt_has_ticked f)"
    and "rtc_virt_get_freq (rtc_tick f) = rtc_virt_get_freq f"
    and "same_file (rtc_tick f) f"
proof -
  obtain g d where g: "rtc_virt_decr_ctr f = (g, d)" by fastforce
  note v = decr_ctr_view [OF g]
  have d: "d = 0 \<longleftrightarrow> c \<le> 1" using v(1) by (auto simp: c_def word_unat_eq_iff)
  let ?h = "rtc_virt_set_ticked (fst (rtc_virt_incr_ticks (rtc_virt_rst_ctr g)))"
  have t: "rtc_tick f = (if c \<le> 1 then ?h else g)" using d by (simp add: rtc_tick_def g)
  have p: "period g = period f" using v(5) by (simp add: period_def)
  show "unat (rtc_virt_get_ctr (rtc_tick f)) = (if c \<le> 1 then period f else c - 1)"
    using v(2) by (simp add: t incr_ticks_view rst_ctr_value p c_def)
  show "unat (rtc_virt_ticks (rtc_tick f)) = (if c \<le> 1 then (unat (rtc_virt_ticks f) + 1) mod 65536 else unat (rtc_virt_ticks f))"
    using v(3) by (simp add: t incr_ticks_view rst_ctr_view)
  show "rtc_virt_has_ticked (rtc_tick f) = (c \<le> 1 \<or> rtc_virt_has_ticked f)" using v(4) by (simp add: t)
  show "rtc_virt_get_freq (rtc_tick f) = rtc_virt_get_freq f" using v(5) by (simp add: t incr_ticks_view rst_ctr_view)
  have "same_file ?h f"
    using v(6) incr_ticks_view(4) [of "rtc_virt_rst_ctr g"] rst_ctr_view(4) [of g] same_file_ops(3)
    by (meson same_file_trans)
  then show "same_file (rtc_tick f) f" using v(6) by (simp add: t)
qed

text \<open>\<open>n\<close> interrupts after the countdown was restarted.\<close>

lemma rtc_ticks_after:
  assumes P: "period f = P" "0 < P" and start: "unat (rtc_virt_get_ctr f) = P" "rtc_virt_ticks f = 0" "\<not> rtc_virt_has_ticked f"
  shows "unat (rtc_virt_get_ctr ((rtc_tick ^^ n) f)) = P - n mod P \<and>
    unat (rtc_virt_ticks ((rtc_tick ^^ n) f)) = (n div P) mod 65536 \<and>
    (rtc_virt_has_ticked ((rtc_tick ^^ n) f) \<longleftrightarrow> P \<le> n) \<and> period ((rtc_tick ^^ n) f) = P"
proof (induction n)
  case 0
  then show ?case using assms by simp
next
  case (Suc n)
  let ?g = "(rtc_tick ^^ n) f"
  note v = rtc_tick_view [of ?g]
  have p: "period (rtc_tick ?g) = P" using v(4) Suc by (simp add: period_def)
  have m: "n mod P < P" using P(2) by simp
  show ?case
  proof (cases "Suc (n mod P) = P")
    case True
    then have "Suc n mod P = 0" "Suc n div P = Suc (n div P)" by (simp_all add: mod_Suc div_Suc)
    moreover have "P \<le> Suc n" using True by (metis Suc_le_mono mod_less_eq_dividend)
    moreover have "unat (rtc_virt_get_ctr ?g) \<le> 1" using Suc True by simp
    ultimately show ?thesis using v p Suc by (simp add: mod_simps)
  next
    case False
    then have "Suc n mod P = Suc (n mod P)" "Suc n div P = n div P" by (simp_all add: mod_Suc div_Suc)
    moreover have "P \<le> Suc n \<longleftrightarrow> P \<le> n" using False by (auto simp: le_Suc_eq)
    moreover have "\<not> unat (rtc_virt_get_ctr ?g) \<le> 1" using Suc False m by simp
    ultimately show ?thesis using v p Suc by (simp add: diff_Suc)
  qed
qed

section \<open>The list of open clocks\<close>

fun rtc_chain :: "kstate \<Rightarrow> file_ptr option \<Rightarrow> file_ptr list \<Rightarrow> bool" where
  "rtc_chain s p [] = (p = None)"
| "rtc_chain s p (r # rs) = (p = Some r \<and> rtc_chain s (reserved (get_file s r)) rs)"

definition fref_ok :: "kstate \<Rightarrow> file_ptr \<Rightarrow> bool" where
  "fref_ok s r \<longleftrightarrow> snd r < length (file_array (pcbs s (fst r)))"

text \<open>\<open>open_rtcs\<close> is a finite list without repetition of descriptors that are in use.\<close>

definition rtc_list :: "kstate \<Rightarrow> file_ptr list \<Rightarrow> bool" where
  "rtc_list s rs \<longleftrightarrow> rtc_chain s (open_rtcs s) rs \<and> distinct rs \<and> (\<forall>r \<in> set rs. fref_ok s r \<and> bit (file_flags (get_file s r)) 0)"

lemma get_upd_other [simp]: "r \<noteq> q \<Longrightarrow> get_file (upd_file r g s) q = get_file s q"
  by (cases r; cases q) (auto simp: get_file_def upd_file_def upd_pcb_def)

lemma get_upd_ok [simp]: "fref_ok s r \<Longrightarrow> get_file (upd_file r g s) r = g (get_file s r)"
  by (simp add: fref_ok_def)

lemma fref_ok_upd [simp]: "fref_ok (upd_file r g s) q = fref_ok s q"
  by (simp add: fref_ok_def)

lemma open_rtcs_upd [simp]: "open_rtcs (upd_file r g s) = open_rtcs s"
  by (simp add: upd_file_def upd_pcb_def)

lemma rtc_chain_cong:
  "(\<And>r. r \<in> set rs \<Longrightarrow> reserved (get_file s r) = reserved (get_file t r)) \<Longrightarrow> rtc_chain s p rs = rtc_chain t p rs"
  by (induction rs arbitrary: p) auto

lemma rtc_chain_upd_other: "r \<notin> set rs \<Longrightarrow> rtc_chain (upd_file r g s) p rs = rtc_chain s p rs"
  by (rule rtc_chain_cong) (metis get_upd_other)

lemma rtc_chain_upd_keep:
  assumes "fref_ok s r" "reserved (g (get_file s r)) = reserved (get_file s r)"
  shows "rtc_chain (upd_file r g s) p rs = rtc_chain s p rs"
proof (rule rtc_chain_cong)
  fix q
  show "reserved (get_file (upd_file r g s) q) = reserved (get_file s q)" using assms by (cases "q = r") simp_all
qed

lemma rtc_list_upd_keep:
  assumes "fref_ok s r" "same_file (g (get_file s r)) (get_file s r)"
  shows "rtc_list (upd_file r g s) rs = rtc_list s rs"
proof -
  have "bit (file_flags (get_file (upd_file r g s) q)) 0 = bit (file_flags (get_file s q)) 0" for q
    using assms by (cases "q = r") (simp_all add: same_file_def)
  moreover have "rtc_chain (upd_file r g s) p rs = rtc_chain s p rs" for p
    using rtc_chain_upd_keep [OF assms(1)] assms(2) by (simp add: same_file_def)
  ultimately show ?thesis by (simp add: rtc_list_def)
qed

lemma tick_loop_chain:
  "rtc_chain s p rs \<Longrightarrow> distinct rs \<Longrightarrow> \<forall>r \<in> set rs. fref_ok s r \<Longrightarrow>
   \<exists>t. tick_loop p s = Some t \<and> open_rtcs t = open_rtcs s \<and> (\<forall>q. fref_ok t q = fref_ok s q) \<and>
     (\<forall>q. get_file t q = (if q \<in> set rs then rtc_tick (get_file s q) else get_file s q))"
proof (induction rs arbitrary: p s)
  case Nil
  then show ?case by (subst tick_loop.simps) simp
next
  case (Cons r rs)
  let ?s = "upd_file r rtc_tick s"
  have ok: "fref_ok s r" and p: "p = Some r" and c: "rtc_chain s (reserved (get_file s r)) rs" and r: "r \<notin> set rs" "distinct rs"
    using Cons.prems by auto
  have res: "reserved (get_file ?s r) = reserved (get_file s r)"
    using ok rtc_tick_view(5) [of "get_file s r"] by (simp add: same_file_def)
  have "rtc_chain ?s (reserved (get_file ?s r)) rs" using c r(1) res by (simp add: rtc_chain_upd_other)
  moreover have "\<forall>q \<in> set rs. fref_ok ?s q" using Cons.prems(3) by simp
  ultimately obtain t where t: "tick_loop (reserved (get_file ?s r)) ?s = Some t" "open_rtcs t = open_rtcs ?s"
    "\<forall>q. fref_ok t q = fref_ok ?s q" "\<forall>q. get_file t q = (if q \<in> set rs then rtc_tick (get_file ?s q) else get_file ?s q)"
    using Cons.IH [OF _ r(2)] by blast
  have "tick_loop p s = Some t" using t(1) by (subst tick_loop.simps) (simp add: p)
  moreover have "get_file t q = (if q \<in> set (r # rs) then rtc_tick (get_file s q) else get_file s q)" for q
    using t(4) [rule_format, of q] ok r(1) by (cases "q = r") simp_all
  ultimately show ?case using t(2,3) by auto
qed

text \<open>The interrupt changes nothing but files and the port log.\<close>

definition ticks_only :: "kstate \<Rightarrow> kstate \<Rightarrow> bool" where
  "ticks_only s t \<longleftrightarrow> cur_pcb t = cur_pcb s \<and> con t = con s \<and> term_terms t = term_terms s \<and> open_rtcs t = open_rtcs s \<and>
     (\<forall>q. (pcbs t q)\<lparr>file_array := []\<rparr> = (pcbs s q)\<lparr>file_array := []\<rparr>)"

lemma ticks_only_refl [simp]: "ticks_only s s"
  by (simp add: ticks_only_def)

lemma ticks_only_trans: "ticks_only s t \<Longrightarrow> ticks_only t u \<Longrightarrow> ticks_only s u"
  by (simp add: ticks_only_def)

lemma ticks_only_upd: "ticks_only s (upd_file r g s)"
  by (simp add: ticks_only_def upd_file_def upd_pcb_def split: prod.splits)

lemma tick_loop_files:
  assumes "tick_loop p s = Some t"
  shows "ticks_only s t"
  by (rule tick_loop.raw_induct [OF _ assms])
    (auto split: option.splits simp: Let_def intro: ticks_only_trans [OF ticks_only_upd])

lemma rtc_interrupt_files:
  assumes "rtc_handle_interrupt c s = Some t"
  shows "ticks_only s t"
proof -
  let ?s = "do_io [Outb 0x0C 0x70, Inb c 0x71] s"
  have "ticks_only s ?s" by (simp add: ticks_only_def do_io_def)
  moreover have "ticks_only ?s t" using assms tick_loop_files by (auto simp: rtc_handle_interrupt_def Let_def split: if_splits)
  ultimately show ?thesis by (rule ticks_only_trans)
qed

lemma rtc_interrupt_list:
  assumes "rtc_list s rs"
  shows "\<exists>t. rtc_handle_interrupt c s = Some t \<and> rtc_list t rs \<and> (\<forall>q. fref_ok t q = fref_ok s q) \<and>
    (\<forall>q. get_file t q = (if q \<in> set rs then rtc_tick (get_file s q) else get_file s q))"
proof -
  let ?s = "do_io [Outb 0x0C 0x70, Inb c 0x71] s"
  have g: "get_file ?s q = get_file s q" "fref_ok ?s q = fref_ok s q" for q
    by (simp_all add: do_io_def get_file_def fref_ok_def)
  have c: "rtc_chain ?s p rs = rtc_chain s p rs" for p by (rule rtc_chain_cong) (simp add: g)
  have o: "open_rtcs ?s = open_rtcs s" by (simp add: do_io_def)
  obtain t where t: "tick_loop (open_rtcs s) ?s = Some t" "open_rtcs t = open_rtcs s" "\<forall>q. fref_ok t q = fref_ok s q"
    "\<forall>q. get_file t q = (if q \<in> set rs then rtc_tick (get_file s q) else get_file s q)"
    using tick_loop_chain [of ?s "open_rtcs s" rs] assms by (auto simp: rtc_list_def c g o)
  have keep: "reserved (rtc_tick f) = reserved f" "bit (file_flags (rtc_tick f)) 0 = bit (file_flags f) 0" for f
    using rtc_tick_view(5) [of f] by (simp_all add: same_file_def)
  have "rtc_chain t p rs = rtc_chain s p rs" for p by (rule rtc_chain_cong) (simp add: t(4) keep)
  moreover have "bit (file_flags (get_file t q)) 0 = bit (file_flags (get_file s q)) 0" "fref_ok t q = fref_ok s q" for q
    using t(3) [rule_format, of q] t(4) [rule_format, of q] keep by simp_all
  ultimately have "rtc_list t rs" using assms t(2) by (simp add: rtc_list_def)
  moreover have "rtc_handle_interrupt c s = Some t"
  proof (cases "open_rtcs s")
    case None
    then have "tick_loop (open_rtcs s) ?s = Some ?s" by (subst tick_loop.simps) simp
    with t(1) None o show ?thesis by (simp add: rtc_handle_interrupt_def)
  next
    case Some
    with t(1) o show ?thesis by (simp add: rtc_handle_interrupt_def)
  qed
  ultimately show ?thesis using t(3,4) by blast
qed

lemma close_find_absent:
  "rtc_chain s p rs \<Longrightarrow> r \<notin> set rs \<Longrightarrow> \<exists>l'. close_find s (Some r) l p = Some (l', None)"
proof (induction rs arbitrary: l p)
  case Nil
  then show ?case by (subst close_find.simps) simp
next
  case (Cons q rs)
  then show ?case by (subst close_find.simps) auto
qed

lemma close_find_present:
  "rtc_chain s p (ys @ r # zs) \<Longrightarrow> r \<notin> set ys \<Longrightarrow>
   close_find s (Some r) l p = Some (if ys = [] then l else Some (last ys), Some r)"
proof (induction ys arbitrary: l p)
  case Nil
  then show ?case by (subst close_find.simps) simp
next
  case (Cons y ys)
  then have "close_find s (Some r) l p = close_find s (Some r) (Some y) (reserved (get_file s y))"
    by (subst close_find.simps) auto
  with Cons show ?case by simp
qed

lemma chain_relink:
  "rtc_chain s p (ys @ [y] @ r # zs) \<Longrightarrow> distinct (ys @ [y] @ r # zs) \<Longrightarrow> fref_ok s y \<Longrightarrow>
   rtc_chain (upd_file y (\<lambda>f. f\<lparr>reserved := reserved (get_file s r)\<rparr>) s) p (ys @ [y] @ zs)"
  by (induction ys arbitrary: p) (auto simp: rtc_chain_upd_other)

lemma set_link_list:
  assumes "rtc_list s (ys @ r # zs)"
  shows "rtc_list (set_link (if ys = [] then None else Some (last ys)) (reserved (get_file s r)) s) (ys @ zs)"
proof (cases "ys = []")
  case True
  have "rtc_chain (s\<lparr>open_rtcs := v\<rparr>) p xs = rtc_chain s p xs" for v p xs
    by (rule rtc_chain_cong) (simp add: get_file_def)
  then show ?thesis using assms True by (auto simp: rtc_list_def set_link_def fref_ok_def get_file_def)
next
  case False
  then obtain xs y where ys: "ys = xs @ [y]" by (metis rev_exhaust)
  let ?s = "upd_file y (\<lambda>f. f\<lparr>reserved := reserved (get_file s r)\<rparr>) s"
  have ok: "fref_ok s y" and d: "distinct (xs @ [y] @ r # zs)" and c: "rtc_chain s (open_rtcs s) (xs @ [y] @ r # zs)"
    using assms by (auto simp: rtc_list_def ys)
  have "rtc_chain ?s (open_rtcs ?s) (ys @ zs)" using chain_relink [OF c d ok] by (simp add: ys)
  moreover have "bit (file_flags (get_file ?s q)) 0 = bit (file_flags (get_file s q)) 0" for q
    using ok by (cases "q = y") simp_all
  ultimately show ?thesis using assms d False by (auto simp: rtc_list_def set_link_def ys)
qed

lemma rtc_list_upd_absent:
  assumes "rtc_list s rs" "r \<notin> set rs"
  shows "rtc_list (upd_file r g s) rs"
proof -
  have "get_file (upd_file r g s) q = get_file s q" if "q \<in> set rs" for q using assms(2) that by (metis get_upd_other)
  then show ?thesis using assms by (simp add: rtc_list_def rtc_chain_upd_other)
qed

lemma rtc_close_list:
  assumes "rtc_list s rs" "0 \<le> fd" "fd < int MAX_FILES"
  shows "\<exists>t. rtc_close s (Some p) fd = Some (t, 0) \<and> rtc_list t (remove1 (p, nat fd) rs)"
proof -
  let ?r = "(p, nat fd)"
  have g: "get_file_from_fd (Some p) fd = Some ?r" using assms by (simp add: get_file_from_fd_def)
  have rel: "release_fd (Some p) fd u = upd_file ?r (\<lambda>f. f\<lparr>file_flags := 0\<rparr>) u" for u
    using assms(2,3) by (simp add: release_fd_def nat_less_iff)
  have c: "rtc_chain s (open_rtcs s) rs" "distinct rs" using assms by (simp_all add: rtc_list_def)
  show ?thesis
  proof (cases "?r \<in> set rs")
    case False
    then obtain l where "close_find s (Some ?r) None (open_rtcs s) = Some (l, None)"
      using close_find_absent [OF c(1)] by blast
    then show ?thesis
      using False rtc_list_upd_absent [OF assms(1) False] by (simp add: rtc_close_def g rel remove1_idem)
  next
    case True
    then obtain ys zs where rs: "rs = ys @ ?r # zs" "?r \<notin> set ys" by (metis split_list_first)
    let ?l = "if ys = [] then None else Some (last ys)"
    have f: "close_find s (Some ?r) None (open_rtcs s) = Some (?l, Some ?r)"
      using close_find_present [of s "open_rtcs s" ys ?r zs None] c(1) rs by simp
    have l: "rtc_list (set_link ?l (reserved (get_file s ?r)) s) (ys @ zs)"
      using set_link_list assms(1) rs by blast
    have "?r \<notin> set (ys @ zs)" using c(2) rs by simp
    then have "rtc_list (upd_file ?r (\<lambda>f. f\<lparr>file_flags := 0\<rparr>) (set_link ?l (reserved (get_file s ?r)) s)) (ys @ zs)"
      by (rule rtc_list_upd_absent [OF l])
    moreover have "remove1 ?r rs = ys @ zs" using rs by (simp add: remove1_append)
    ultimately show ?thesis by (simp add: rtc_close_def g f rel)
  qed
qed

lemma reserved_fields [simp]:
  "rtc_virt_get_freq (f\<lparr>reserved := v\<rparr>) = rtc_virt_get_freq f" "rtc_virt_get_ctr (f\<lparr>reserved := v\<rparr>) = rtc_virt_get_ctr f"
  "rtc_virt_ticks (f\<lparr>reserved := v\<rparr>) = rtc_virt_ticks f" "rtc_virt_has_ticked (f\<lparr>reserved := v\<rparr>) = rtc_virt_has_ticked f"
  "period (f\<lparr>reserved := v\<rparr>) = period f"
  by (simp_all add: rtc_virt_get_freq_def rtc_virt_get_ctr_def rtc_virt_ticks_def rtc_virt_has_ticked_def period_def)

text \<open>The reset of \<open>rtc_open\<close> and \<open>rtc_write\<close>: frequency, flag, ticks and countdown.\<close>

lemma rtc_reset_view:
  fixes f v
  defines "g \<equiv> rtc_virt_rst_ctr (rtc_virt_clr_ticks (rtc_virt_clr_ticked (rtc_virt_set_freq v f)))"
  shows "rtc_virt_get_freq g = v AND mask 4" "unat (rtc_virt_get_ctr g) = period g" "rtc_virt_ticks g = 0"
    "\<not> rtc_virt_has_ticked g" "same_file g f"
proof -
  show f: "rtc_virt_get_freq g = v AND mask 4" "rtc_virt_ticks g = 0" "\<not> rtc_virt_has_ticked g"
    by (simp_all add: g_def rst_ctr_view rtc_virt_clr_ticks_def)
  show "unat (rtc_virt_get_ctr g) = period g"
    using f(1) unfolding g_def rst_ctr_value by (simp add: period_def rst_ctr_view)
  show "same_file g f"
    unfolding g_def rtc_virt_clr_ticks_def
    by (meson rst_ctr_view(4) same_file_ops(2,4,5) same_file_trans)
qed

lemma not_rtc_open_bit: "bit (file_flags f) 1 \<Longrightarrow> \<not> not_rtc_open f"
proof
  assume b: "bit (file_flags f) 1" and "not_rtc_open f"
  then have "\<not> bit (file_flags f AND (FILE_OPEN OR FILE_RTC)) 1" by (simp add: not_rtc_open_def)
  then show False using b by (simp add: bit_and_iff)
qed

text \<open>The descriptor that \<open>rtc_open\<close> sets up, in front of the clocks from \<open>link\<close> on.\<close>

definition fresh_clock :: "file_ptr option \<Rightarrow> file_t \<Rightarrow> file_t" where
  "fresh_clock link f = (rtc_virt_rst_ctr (rtc_virt_clr_ticks (rtc_virt_clr_ticked (rtc_virt_set_freq HZ_2
      (f\<lparr>file_flags := (file_flags f OR FILE_PRESENT) OR (FILE_OPEN OR FILE_RTC), file_op := Some rtc_fops,
         file_pos := 0, inode_ptr := - 1\<rparr>)))))\<lparr>reserved := link\<rparr>"

lemma fresh_clock_view:
  "period (fresh_clock link f) = 512" "unat (rtc_virt_get_ctr (fresh_clock link f)) = 512" "rtc_virt_ticks (fresh_clock link f) = 0"
  "\<not> rtc_virt_has_ticked (fresh_clock link f)" "bit (file_flags (fresh_clock link f)) 0" "bit (file_flags (fresh_clock link f)) 1"
  "file_op (fresh_clock link f) = Some rtc_fops" "reserved (fresh_clock link f) = link"
proof -
  let ?f = "f\<lparr>file_flags := (file_flags f OR FILE_PRESENT) OR (FILE_OPEN OR FILE_RTC), file_op := Some rtc_fops, file_pos := 0, inode_ptr := - 1\<rparr>"
  let ?g = "rtc_virt_rst_ctr (rtc_virt_clr_ticks (rtc_virt_clr_ticked (rtc_virt_set_freq HZ_2 ?f)))"
  note v = rtc_reset_view [of HZ_2 ?f]
  have m: "unat (1 AND mask 4 :: u32) = 1" using unat_and_mask [of 1 4] by simp
  have P: "period ?g = 512" unfolding period_def v(1) m by simp
  show "period (fresh_clock link f) = 512" "unat (rtc_virt_get_ctr (fresh_clock link f)) = 512" "rtc_virt_ticks (fresh_clock link f) = 0"
    "\<not> rtc_virt_has_ticked (fresh_clock link f)"
    using v(2-4) P by (simp_all add: fresh_clock_def)
  show "bit (file_flags (fresh_clock link f)) 0" "bit (file_flags (fresh_clock link f)) 1" "file_op (fresh_clock link f) = Some rtc_fops"
    "reserved (fresh_clock link f) = link"
    using v(5) by (simp_all add: fresh_clock_def same_file_def bit_or_iff)
qed

lemma rtc_open_free:
  assumes "length (file_array (pcbs s p)) = MAX_FILES" "\<exists>k < MAX_FILES. \<not> fd_used (pcbs s p) k" "n = (LEAST k. \<not> fd_used (pcbs s p) k)"
  shows "rtc_open s (Some p) = ((upd_file (p, n) (fresh_clock (open_rtcs s)) s)\<lparr>open_rtcs := Some (p, n)\<rparr>, int n)"
    "n < MAX_FILES" "\<not> fd_used (pcbs s p) n"
proof -
  show n: "n < MAX_FILES" "\<not> fd_used (pcbs s p) n" using unused_fd_scan_lowest [OF assms(2)] LeastI_ex assms(2,3) by metis+
  have ok: "fref_ok s (p, n)" using assms(1) n(1) by (simp add: fref_ok_def)
  have comp: "upd_file r h (upd_file r k u) = upd_file r (\<lambda>f. h (k f)) u" if "fref_ok u r" for h k u r
    using that by (auto simp: upd_file_def upd_pcb_def fref_ok_def)
  show "rtc_open s (Some p) = ((upd_file (p, n) (fresh_clock (open_rtcs s)) s)\<lparr>open_rtcs := Some (p, n)\<rparr>, int n)"
    using assms(2) n(1) ok
    by (simp add: rtc_open_def get_unused_fd_cases get_file_from_fd_def Let_def comp fresh_clock_def [abs_def] assms(3) [symmetric])
qed

lemma rtc_list_opened:
  assumes "rtc_list s rs" "fref_ok s r" "\<not> bit (file_flags (get_file s r)) 0" "t = (upd_file r (fresh_clock (open_rtcs s)) s)\<lparr>open_rtcs := Some r\<rparr>"
  shows "rtc_list t (r # rs)" "get_file t r = fresh_clock (open_rtcs s) (get_file s r)" "r \<notin> set rs" "q \<noteq> r \<Longrightarrow> get_file t q = get_file s q"
proof -
  show notin: "r \<notin> set rs" using assms(1,3) by (auto simp: rtc_list_def)
  show gf: "get_file t r = fresh_clock (open_rtcs s) (get_file s r)"
    using assms(2) by (simp add: assms(4) get_file_def [of "_\<lparr>open_rtcs := _\<rparr>"]) (simp add: get_file_def [symmetric])
  have keep: "get_file t q = get_file s q" if "q \<noteq> r" for q
    using get_upd_other [of r q "fresh_clock (open_rtcs s)" s] that by (auto simp: assms(4) get_file_def)
  then show "q \<noteq> r \<Longrightarrow> get_file t q = get_file s q" .
  have same: "get_file t q = get_file s q" if "q \<in> set rs" for q using keep notin that by metis
  have "rtc_chain t (open_rtcs s) rs = rtc_chain s (open_rtcs s) rs" by (rule rtc_chain_cong) (simp add: same)
  moreover have "fref_ok t q = fref_ok s q" for q using fref_ok_upd [of r "fresh_clock (open_rtcs s)" s q] by (simp add: assms(4) fref_ok_def)
  moreover have "open_rtcs t = Some r" by (simp add: assms(4))
  ultimately show "rtc_list t (r # rs)" using assms(1,2) notin same by (simp add: rtc_list_def gf fresh_clock_view)
qed

lemma rtc_open_list:
  assumes "rtc_list s rs" "length (file_array (pcbs s p)) = MAX_FILES" "rtc_open s (Some p) = (t, fd)" "0 \<le> fd"
  shows "rtc_list t ((p, nat fd) # rs) \<and> fd < int MAX_FILES \<and> (p, nat fd) \<notin> set rs \<and>
    period (get_file t (p, nat fd)) = 512 \<and> unat (rtc_virt_get_ctr (get_file t (p, nat fd))) = 512 \<and>
    rtc_virt_ticks (get_file t (p, nat fd)) = 0 \<and> \<not> rtc_virt_has_ticked (get_file t (p, nat fd)) \<and>
    \<not> not_rtc_open (get_file t (p, nat fd))"
proof -
  have "\<exists>k < MAX_FILES. \<not> fd_used (pcbs s p) k"
    using assms(3,4) by (auto simp: rtc_open_def get_unused_fd_cases split: if_splits)
  note o = rtc_open_free [OF assms(2) this refl]
  define n where "n = (LEAST k. \<not> fd_used (pcbs s p) k)"
  have t: "t = (upd_file (p, n) (fresh_clock (open_rtcs s)) s)\<lparr>open_rtcs := Some (p, n)\<rparr>" "fd = int n" using assms(3) o(1) by (simp_all add: n_def)
  have "fref_ok s (p, n)" "\<not> bit (file_flags (get_file s (p, n))) 0"
    using o(2,3) assms(2) by (simp_all add: fref_ok_def fd_used_def get_file_def n_def)
  note r = rtc_list_opened [OF assms(1) this t(1)]
  show ?thesis using r(1-3) o(2) not_rtc_open_bit fresh_clock_view by (simp add: t(2) n_def [symmetric])
qed

section \<open>Setting the frequency\<close>

lemma shift_count_eq:
  "freq \<noteq> 0 \<Longrightarrow> \<exists>k. 2 ^ k \<le> unat freq \<and> unat freq < 2 ^ Suc k \<and> shift_count freq sc = sc + of_nat (Suc k)"
proof (induction freq sc rule: shift_count.induct)
  case (1 freq sc)
  have d: "unat (drop_bit 1 freq) = unat freq div 2" using unat_drop_bit [of 1 freq] by simp
  have step: "shift_count freq sc = shift_count (drop_bit 1 freq) (sc + 1)" using 1 by (subst shift_count.simps) simp
  show ?case
  proof (cases "drop_bit 1 freq = 0")
    case True
    then have "unat freq div 2 = 0" using d by simp
    moreover have "unat freq \<noteq> 0" using 1(2) by (simp add: unat_eq_0)
    ultimately have "unat freq = 1" by linarith
    moreover have "shift_count freq sc = sc + 1" using True by (simp only: step) (subst shift_count.simps, simp)
    ultimately show ?thesis by (intro exI [of _ 0]) simp
  next
    case False
    then obtain k where k: "2 ^ k \<le> unat (drop_bit 1 freq)" "unat (drop_bit 1 freq) < 2 ^ Suc k"
      "shift_count (drop_bit 1 freq) (sc + 1) = sc + 1 + of_nat (Suc k)"
      using 1 by blast
    then show ?thesis unfolding d step by (intro exI [of _ "Suc k"]) auto
  qed
qed

lemma unat_exp_u32: "k < 32 \<Longrightarrow> unat (push_bit k 1 :: u32) = 2 ^ k"
proof -
  assume k: "k < 32"
  then have "(2 :: nat) ^ k < 2 ^ 32" by (rule power_strict_increasing) simp
  then show ?thesis using unat_of_nat_u32 [of "2 ^ k"] by simp
qed

lemma shift_count_pow2:
  assumes "k < 32"
  shows "shift_count (push_bit k 1) 0 = of_nat (Suc k)"
proof -
  note u = unat_exp_u32 [OF assms]
  then have "push_bit k (1 :: u32) \<noteq> 0" by (metis power_not_zero unat_eq_0 zero_neq_numeral)
  then obtain j where j: "2 ^ j \<le> unat (push_bit k 1 :: u32)" "unat (push_bit k 1 :: u32) < 2 ^ Suc j"
    "shift_count (push_bit k 1) 0 = of_nat (Suc j)"
    using shift_count_eq [of "push_bit k 1" 0] by auto
  have "j \<le> k" using j(1) unfolding u by simp
  moreover have "k < Suc j" by (rule power_less_imp_less_exp [of 2]) (use j(2) u in simp_all)
  ultimately have "j = k" by simp
  then show ?thesis using j(3) by simp
qed

lemma shift_count_power:
  "req = push_bit (unat (shift_count req 0 - 1) mod 32) 1 \<longleftrightarrow> (\<exists>k < 32. req = push_bit k (1 :: u32))"
proof
  assume e: "req = push_bit (unat (shift_count req 0 - 1) mod 32) 1"
  show "\<exists>k < 32. req = push_bit k 1"
    by (rule exI [of _ "unat (shift_count req 0 - 1) mod 32"], rule conjI, simp, rule e)
next
  assume "\<exists>k < 32. req = push_bit k 1"
  then obtain k where k: "k < 32" "req = push_bit k 1" by blast
  then have "unat (shift_count req 0 - 1) mod 32 = k"
    unfolding k(2) shift_count_pow2 [OF k(1)] using k(1) by (simp add: unat_of_nat)
  with k(2) show "req = push_bit (unat (shift_count req 0 - 1) mod 32) 1" by simp
qed

lemma rtc_write_cases:
  assumes g: "get_file_from_fd p fd = Some r" and o: "\<not> not_rtc_open (get_file s r)" and b: "rd32 buf 0 = Some req"
  shows "rtc_write s p fd (Some buf) 4 =
    (if \<exists>k < 32. req = push_bit k 1
     then Some (upd_file r (\<lambda>f. rtc_virt_rst_ctr (rtc_virt_clr_ticks (rtc_virt_clr_ticked
            (rtc_virt_set_freq (shift_count req 0 - 1) f)))) s, 4)
     else Some (s, -1))"
  unfolding shift_count_power [symmetric] rtc_write_def using g o b by (simp add: Let_def)

text \<open>\<open>n\<close> interrupts in a row.\<close>

fun interrupts :: "nat \<Rightarrow> kstate \<Rightarrow> kstate option" where
  "interrupts 0 s = Some s"
| "interrupts (Suc n) s = do { s \<leftarrow> interrupts n s; rtc_handle_interrupt 0 s }"

lemma interrupts_list:
  "rtc_list s rs \<Longrightarrow> \<exists>t. interrupts n s = Some t \<and> rtc_list t rs \<and>
   (\<forall>q. get_file t q = (if q \<in> set rs then (rtc_tick ^^ n) (get_file s q) else get_file s q))"
proof (induction n)
  case (Suc n)
  then obtain t where t: "interrupts n s = Some t" "rtc_list t rs"
    "\<forall>q. get_file t q = (if q \<in> set rs then (rtc_tick ^^ n) (get_file s q) else get_file s q)" by blast
  obtain u where u: "rtc_handle_interrupt 0 t = Some u" "rtc_list u rs"
    "\<forall>q. get_file u q = (if q \<in> set rs then rtc_tick (get_file t q) else get_file t q)"
    using rtc_interrupt_list [OF t(2), of 0] by blast
  have "get_file u q = (if q \<in> set rs then (rtc_tick ^^ Suc n) (get_file s q) else get_file s q)" for q
    using t(3) [rule_format, of q] u(3) [rule_format, of q] by simp
  with t(1) u(1,2) show ?case by auto
qed auto

lemma rtc_wait_returns:
  assumes "\<And>i u. rtc_list u rs \<Longrightarrow> rtc_handle_interrupt 0 u = Some (sched i u)" and "r \<in> set rs"
  shows "rtc_list u rs \<Longrightarrow> unat (rtc_virt_get_ctr (get_file u r)) \<le> Suc n \<Longrightarrow>
    \<exists>t. rtc_wait sched i r u = Some t \<and> rtc_list t rs \<and> rtc_virt_has_ticked (get_file t r)"
proof (induction n arbitrary: u i)
  have step: "rtc_list (sched i u) rs \<and> get_file (sched i u) r = rtc_tick (get_file u r)" if l: "rtc_list u rs" for i u
  proof -
    obtain t where t: "rtc_handle_interrupt 0 u = Some t" "rtc_list t rs"
      "\<forall>q. get_file t q = (if q \<in> set rs then rtc_tick (get_file u q) else get_file u q)"
      using rtc_interrupt_list [OF l, of 0] by blast
    then show ?thesis using assms(1) [OF l, of i] assms(2) t(3) [rule_format, of r] by simp
  qed
  {
    case 0
    let ?v = "sched i u"
    have "rtc_virt_has_ticked (get_file ?v r)" using step [OF 0(1), of i] 0(2) by (simp add: rtc_tick_view(3))
    then have "rtc_wait sched (Suc i) r ?v = Some ?v" by (subst rtc_wait.simps) simp
    then show ?case using 0(1) step [OF 0(1), of i] \<open>rtc_virt_has_ticked (get_file ?v r)\<close>
      by (cases "rtc_virt_has_ticked (get_file u r)") (subst rtc_wait.simps, auto)+
  next
    case (Suc n)
    let ?v = "sched i u"
    show ?case
    proof (cases "rtc_virt_has_ticked (get_file u r)")
      case True
      then show ?thesis using Suc.prems(1) by (subst rtc_wait.simps) auto
    next
      case False
      show ?thesis
      proof (cases "unat (rtc_virt_get_ctr (get_file u r)) \<le> 1")
        case True
        then have "rtc_virt_has_ticked (get_file ?v r)" using step [OF Suc.prems(1), of i] by (simp add: rtc_tick_view(3))
        then have "rtc_wait sched (Suc i) r ?v = Some ?v" by (subst rtc_wait.simps) simp
        then show ?thesis using False step [OF Suc.prems(1), of i] \<open>rtc_virt_has_ticked (get_file ?v r)\<close>
          by (subst rtc_wait.simps) auto
      next
        case c: False
        then have "unat (rtc_virt_get_ctr (get_file ?v r)) \<le> Suc n"
          using step [OF Suc.prems(1), of i] Suc.prems(2) by (simp add: rtc_tick_view(1))
        then show ?thesis using Suc.IH [of ?v "Suc i"] step [OF Suc.prems(1), of i] False by (subst rtc_wait.simps) auto
      qed
    qed
  }
qed

text \<open>What every yield keeps, the wait keeps.\<close>

lemma rtc_wait_keeps:
  assumes "rtc_wait sched i r s = Some t" "\<And>i u. P u \<Longrightarrow> P (sched i u)" "P s"
  shows "P t"
proof -
  have "(\<forall>i u. P u \<longrightarrow> P (sched i u)) \<longrightarrow> P s \<longrightarrow> P t"
    by (rule rtc_wait.raw_induct [OF _ assms(1)]) (auto split: if_splits)
  then show ?thesis using assms(2,3) by blast
qed

section \<open>Properties\<close>

text \<open>
  An interrupt ticks every open clock exactly once and changes no other file; the walk along
  the list ends, and the list stays the same.\<close>

theorem rtc_interrupt_ticks_all:
  assumes "rtc_list s rs"
  shows "\<exists>t. rtc_handle_interrupt regC s = Some t \<and> rtc_list t rs \<and>
    (\<forall>q. get_file t q = (if q \<in> set rs then rtc_tick (get_file s q) else get_file s q))"
  using rtc_interrupt_list [OF assms] by blast

text \<open>
  C30: a clock set to \<open>2^k\<close> Hz, for \<open>k\<close> up to 10, divides the 1024 Hz interrupt exactly: \<open>n\<close>
  interrupts after a successful \<open>rtc_write\<close> it has counted \<open>n div (1024 / 2^k)\<close> ticks (modulo
  \<open>2^16\<close>), and its tick flag is set as soon as that is positive.\<close>

theorem rtc_write_rate:
  assumes l: "rtc_list s rs" and r: "get_file_from_fd p fd = Some r" "r \<in> set rs" and o: "\<not> not_rtc_open (get_file s r)"
    and b: "rd32 buf 0 = Some (push_bit k 1)" and k: "k \<le> 10"
  shows "\<exists>t u. rtc_write s p fd (Some buf) 4 = Some (t, 4) \<and> interrupts n t = Some u \<and>
    unat (rtc_virt_ticks (get_file u r)) = (n div (1024 div 2 ^ k)) mod 65536 \<and>
    (rtc_virt_has_ticked (get_file u r) \<longleftrightarrow> 1024 div 2 ^ k \<le> n)"
proof -
  define sc where "sc = shift_count (push_bit k 1) 0 - 1"
  let ?g = "\<lambda>f. rtc_virt_rst_ctr (rtc_virt_clr_ticks (rtc_virt_clr_ticked (rtc_virt_set_freq sc f)))"
  let ?t = "upd_file r ?g s"
  have k32: "k < 32" using k by simp
  then have "\<exists>j < 32. push_bit k (1 :: u32) = push_bit j 1" by blast
  then have w: "rtc_write s p fd (Some buf) 4 = Some (?t, 4)"
    unfolding rtc_write_cases [OF r(1) o b] sc_def by (simp only: if_True)
  note v = rtc_reset_view [of sc "get_file s r"]
  have ok: "fref_ok s r" using l r(2) by (simp add: rtc_list_def)
  have gt: "get_file ?t r = ?g (get_file s r)" using ok by simp
  have "unat (sc AND mask 4 :: u32) = k"
    unfolding sc_def shift_count_pow2 [OF k32] unat_and_mask using k by (simp add: unat_of_nat)
  then have P: "period (?g (get_file s r)) = 1024 div 2 ^ k" unfolding period_def v(1) by simp
  have pos: "0 < 1024 div (2 :: nat) ^ k"
  proof -
    have "(2 :: nat) ^ k \<le> 2 ^ 10" using k by (intro power_increasing) simp_all
    then show ?thesis by (simp add: div_greater_zero_iff)
  qed
  have "rtc_list ?t rs" using l rtc_list_upd_keep [of s r ?g rs] ok v(5) by simp
  then obtain u where u: "interrupts n ?t = Some u"
    "\<forall>q. get_file u q = (if q \<in> set rs then (rtc_tick ^^ n) (get_file ?t q) else get_file ?t q)"
    using interrupts_list [of ?t rs n] by blast
  then have "get_file u r = (rtc_tick ^^ n) (?g (get_file s r))" using u(2) [rule_format, of r] r(2) gt by simp
  then show ?thesis
    using w u(1) rtc_ticks_after [OF P pos _ v(3,4), of n] v(2) P by auto
qed

text \<open>
  \<open>rtc_write\<close> accepts exactly the powers of two, all 32 of them: it does not check the 1024 Hz
  maximum, and stores only the low four bits of the exponent, so that \<open>2^16\<close> Hz is set up as the
  slowest clock, with 1024 interrupts per tick.\<close>

theorem rtc_write_accepts:
  assumes "get_file_from_fd p fd = Some r" "\<not> not_rtc_open (get_file s r)" "fref_ok s r" "rd32 buf 0 = Some req"
  shows "if \<exists>k < 32. req = push_bit k 1
    then \<exists>t. rtc_write s p fd (Some buf) 4 = Some (t, 4) \<and>
      (req = push_bit 16 1 \<longrightarrow> period (get_file t r) = 1024) \<and> (req = push_bit 11 1 \<longrightarrow> period (get_file t r) = 0)
    else rtc_write s p fd (Some buf) 4 = Some (s, -1)"
proof (cases "\<exists>k < 32. req = push_bit k 1")
  case True
  let ?g = "\<lambda>f. rtc_virt_rst_ctr (rtc_virt_clr_ticks (rtc_virt_clr_ticked (rtc_virt_set_freq (shift_count req 0 - 1) f)))"
  have w: "rtc_write s p fd (Some buf) 4 = Some (upd_file r ?g s, 4)"
    using True unfolding rtc_write_cases [OF assms(1,2,4)] by auto
  have g: "get_file (upd_file r ?g s) r = ?g (get_file s r)" using assms(3) by simp
  have f: "rtc_virt_get_freq (?g (get_file s r)) = (shift_count req 0 - 1) AND mask 4" by (rule rtc_reset_view(1))
  have p: "period (?g (get_file s r)) = 1024 div 2 ^ (j mod 16)" if "req = push_bit j 1" "j < 32" for j
  proof -
    have "shift_count req 0 - 1 = of_nat j" unfolding that(1) shift_count_pow2 [OF that(2)] by simp
    then show ?thesis unfolding period_def f unat_and_mask using that(2) by (simp add: unat_of_nat)
  qed
  show ?thesis using True w p [of 16] p [of 11] g by auto
next
  case False
  then show ?thesis unfolding rtc_write_cases [OF assms(1,2,4)] by auto
qed

text \<open>
  C31: \<open>rtc_open\<close> puts the new clock, running at 2 Hz, in front of the list and \<open>rtc_close\<close> takes
  exactly the closed one out; both keep the list finite and free of repetition.\<close>

theorem rtc_open_close_list:
  assumes "rtc_list s rs" "length (file_array (pcbs s p)) = MAX_FILES" "rtc_open s (Some p) = (t, fd)" "0 \<le> fd"
    and "0 \<le> fd'" "fd' < int MAX_FILES"
  shows "rtc_list t ((p, nat fd) # rs) \<and> period (get_file t (p, nat fd)) = 512 \<and>
    (\<exists>u. rtc_close t (Some q) fd' = Some (u, 0) \<and> rtc_list u (remove1 (q, nat fd') ((p, nat fd) # rs)))"
  using rtc_open_list [OF assms(1-4)] rtc_close_list [of t "(p, nat fd) # rs" fd' q] assms(5,6) by blast

text \<open>
  \<open>rtc_read\<close> returns once interrupts arrive: if every yield lets one interrupt through, the
  read of an open clock ends, stores the pending tick count and leaves the flag and the count
  clear.\<close>

theorem rtc_read_returns:
  assumes "\<And>i u. rtc_list u rs \<Longrightarrow> rtc_handle_interrupt 0 u = Some (sched i u)"
    and "rtc_list s rs" "get_file_from_fd p fd = Some r" "r \<in> set rs" "\<not> not_rtc_open (get_file s r)" "4 \<le> length buf"
  shows "\<exists>t ticks. rtc_read sched s p fd buf 4 = Some (t, bytes32 ticks @ drop 4 buf, 0) \<and>
    \<not> rtc_virt_has_ticked (get_file t r) \<and> rtc_virt_ticks (get_file t r) = 0"
proof -
  obtain u where u: "rtc_wait sched 0 r s = Some u" "rtc_list u rs"
    using rtc_wait_returns [where sched = sched and n = "unat (rtc_virt_get_ctr (get_file s r))" and i = 0, OF assms(1,4,2)] by auto
  have ok: "fref_ok u r" using u(2) assms(4) by (simp add: rtc_list_def)
  have c: "unat (c_min 4 (4 :: u32)) = 4" by (simp add: c_min_def)
  have "store_bytes buf 0 (bytes32 w) = Some (bytes32 w @ drop 4 buf)" for w
    using assms(6) by (simp add: store_bytes_def)
  then show ?thesis
    using assms(3,5) u(1) ok by (auto simp: rtc_read_def Let_def c rtc_virt_clr_ticks_def)
qed

text \<open>
  \<open>rtc_init\<close> leaves the periodic interrupt enabled in register B (addressed with the
  non-maskable interrupt off, as \<open>0x8B\<close>), the rate bits of register A at 6, which is 1024 Hz, the
  upper bits of both registers as they were, and no open clock.\<close>

theorem rtc_init_programs:
  "let es = drop (length (io s)) (io (rtc_init regB nmi regA s)); d = dev_run 0x70 0x71 d0 es
   in dev_regs d 0x8B = regB OR 0x40 \<and> dev_regs d 0x0A = (regA AND 0xF0) OR 6 \<and> open_rtcs (rtc_init regB nmi regA s) = None"
  by (simp add: rtc_init_def rtc_modify_freq_def do_io_def Let_def)

section \<open>Witnesses\<close>

text \<open>Process 3 opens a clock; it gets descriptor 2.\<close>

definition sample_rtc :: kstate where
  "sample_rtc = fst (rtc_open sample_kstate (Some 3))"

lemma sample_rtc_open: "rtc_open sample_kstate (Some 3) = (sample_rtc, 2)"
proof -
  have "snd (rtc_open sample_kstate (Some 3)) = 2"
    using sample_least by (simp add: rtc_open_def get_unused_fd_cases Let_def get_file_from_fd_def)
  then show ?thesis by (simp add: sample_rtc_def prod_eq_iff)
qed

lemma sample_no_rtcs: "rtc_list sample_kstate []"
  by (simp add: rtc_list_def sample_kstate_def Let_def upd_file_def upd_pcb_def zero_kstate_def)

lemma sample_rtc_list: "rtc_list sample_rtc [(3, 2)]"
  using rtc_open_list [OF sample_no_rtcs _ sample_rtc_open] by (simp add: sample_file_array)

lemma sample_rtc_clock:
  "\<not> not_rtc_open (get_file sample_rtc (3, 2))" "fref_ok sample_rtc (3, 2)" "get_file_from_fd (Some 3) 2 = Some (3, 2)"
  using rtc_open_list [OF sample_no_rtcs _ sample_rtc_open] sample_rtc_list
  by (simp_all add: sample_file_array rtc_list_def get_file_from_fd_def)

theorem rtc_interrupt_ticks_all_witness:
  "\<exists>t. rtc_handle_interrupt 0 sample_rtc = Some t \<and> get_file t (3, 2) = rtc_tick (get_file sample_rtc (3, 2)) \<and>
     get_file t (3, 1) = get_file sample_rtc (3, 1)"
  using rtc_interrupt_ticks_all [OF sample_rtc_list, of 0] by auto

theorem rtc_write_rate_witness:
  "\<exists>t u. rtc_write sample_rtc (Some 3) 2 (Some (bytes32 (push_bit 3 1))) 4 = Some (t, 4) \<and> interrupts 300 t = Some u \<and>
     unat (rtc_virt_ticks (get_file u (3, 2))) = 2"
proof -
  have b: "rd32 (bytes32 (push_bit 3 1)) 0 = Some (push_bit 3 1)"
    using rd32_append [of 0 "bytes32 (push_bit 3 1)" "push_bit 3 1" "[]"] by simp
  have k: "(3 :: nat) \<le> 10" by simp
  show ?thesis
    using rtc_write_rate [OF sample_rtc_list sample_rtc_clock(3) _ sample_rtc_clock(1) b k, of 300] by auto
qed

theorem rtc_write_accepts_witness:
  "\<exists>t. rtc_write sample_rtc (Some 3) 2 (Some (bytes32 (push_bit 16 1))) 4 = Some (t, 4) \<and> period (get_file t (3, 2)) = 1024"
proof -
  have b: "rd32 (bytes32 (push_bit 16 1)) 0 = Some (push_bit 16 1)"
    using rd32_append [of 0 "bytes32 (push_bit 16 1)" "push_bit 16 1" "[]"] by simp
  have e: "\<exists>k < 32. push_bit 16 (1 :: u32) = push_bit k 1" by (rule exI [of _ 16]) simp
  show ?thesis
    using rtc_write_accepts [OF sample_rtc_clock(3,1,2) b] e by (auto simp only: if_True)
qed

theorem rtc_open_close_list_witness:
  "rtc_list sample_rtc [(3, 2)] \<and> (\<exists>u. rtc_close sample_rtc (Some 3) 2 = Some (u, 0) \<and> rtc_list u [])"
  using rtc_open_close_list [OF sample_no_rtcs _ sample_rtc_open, of 2 3] by (simp add: sample_file_array)

theorem rtc_read_returns_witness:
  "\<exists>t ticks. rtc_read (\<lambda>i u. the (rtc_handle_interrupt 0 u)) sample_rtc (Some 3) 2 [0, 0, 0, 0] 4 = Some (t, bytes32 ticks, 0)"
proof -
  have h: "rtc_handle_interrupt 0 u = Some (the (rtc_handle_interrupt 0 u))" if "rtc_list u [(3, 2)]" for u
    using rtc_interrupt_list [OF that, of 0] by auto
  show ?thesis
    using rtc_read_returns [where sched = "\<lambda>i u. the (rtc_handle_interrupt 0 u)" and rs = "[(3, 2)]" and buf = "[0, 0, 0, 0]",
        OF h sample_rtc_list sample_rtc_clock(3) _ sample_rtc_clock(1)] by auto
qed

end
