(* ===== verification/Kbd.thy ===== *)
theory Kbd
  imports Circ_Buf Port_IO
begin

text \<open>
  \<^verbatim>\<open>student-distrib/kbd.c\<close> with the scancode table of \<^verbatim>\<open>scancodes.h\<close>: the PS/2 keyboard driver.
  The bytes the ports return are a list that the driver consumes, so a polling loop that never
  sees the status bit it waits for gives \<open>None\<close>. The interrupt handler is a state machine over
  the received bytes; what it calls (\<open>puts\<close>, \<open>term_handle_keypress\<close>) is its list of actions.
\<close>

section \<open>The controller\<close>

record ps2 =
  ps2_in :: "u8 list"
  ps2_log :: "io_event list"

definition ps2_inb :: "u16 \<Rightarrow> ps2 \<Rightarrow> (u8 \<times> ps2) option" where
  "ps2_inb port d =
     (case ps2_in d of [] \<Rightarrow> None
      | v # vs \<Rightarrow> Some (v, d\<lparr>ps2_in := vs, ps2_log := ps2_log d @ [Inb v port]\<rparr>))"

definition ps2_outb :: "u8 \<Rightarrow> u16 \<Rightarrow> ps2 \<Rightarrow> ps2" where
  "ps2_outb v port d = d\<lparr>ps2_log := ps2_log d @ outb v port\<rparr>"

abbreviation (input) PS2_PORT_DATA :: u16 where "PS2_PORT_DATA \<equiv> 0x60"
abbreviation (input) PS2_PORT_STATUS :: u16 where "PS2_PORT_STATUS \<equiv> 0x64"
abbreviation (input) PS2_PORT_COMMAND :: u16 where "PS2_PORT_COMMAND \<equiv> 0x64"
abbreviation (input) PS2_CMD_RESET :: u8 where "PS2_CMD_RESET \<equiv> 0xFF"

text \<open>\<open>do { status = inb(PS2_PORT_STATUS); } while (busy status)\<close>\<close>

function ps2_poll :: "(u8 \<Rightarrow> bool) \<Rightarrow> ps2 \<Rightarrow> ps2 option" where
  "ps2_poll busy d =
     (case ps2_inb PS2_PORT_STATUS d of None \<Rightarrow> None
      | Some (status, d') \<Rightarrow> if busy status then ps2_poll busy d' else Some d')"
  by pat_completeness auto
termination
  by (relation "measure (\<lambda>(b, d). length (ps2_in d))") (auto simp: ps2_inb_def split: list.splits)

definition ibuffer_full :: "u8 \<Rightarrow> bool" where
  "ibuffer_full status \<longleftrightarrow> bit status 1"

definition obuffer_empty :: "u8 \<Rightarrow> bool" where
  "obuffer_empty status \<longleftrightarrow> \<not> bit status 0"

definition ps2_write_command :: "u8 \<Rightarrow> ps2 \<Rightarrow> ps2 option" where
  "ps2_write_command cmd d = do { d \<leftarrow> ps2_poll ibuffer_full d; Some (ps2_outb cmd PS2_PORT_COMMAND d) }"

definition ps2_write_data :: "u8 \<Rightarrow> ps2 \<Rightarrow> ps2 option" where
  "ps2_write_data data d = do { d \<leftarrow> ps2_poll ibuffer_full d; Some (ps2_outb data PS2_PORT_DATA d) }"

definition ps2_read_data :: "ps2 \<Rightarrow> (u8 \<times> ps2) option" where
  "ps2_read_data d = do { d \<leftarrow> ps2_poll obuffer_empty d; ps2_inb PS2_PORT_DATA d }"

section \<open>The driver\<close>

record kbd =
  kbd_cmd_queue :: "u8 circ_buf"
  emul :: u8
  released :: u8
  kbd_initialized :: bool

datatype kbd_action =
    Puts string
  | Keypress u16 u8

definition kbd_reset :: "kbd \<Rightarrow> ps2 \<Rightarrow> (kbd \<times> ps2) option" where
  "kbd_reset k d =
     (let k = k\<lparr>emul := 0, released := 0\<rparr>;
          k = k\<lparr>kbd_cmd_queue := fst (CIRC_BUF_PUSH (kbd_cmd_queue k) PS2_CMD_RESET)\<rparr>
      in do { d \<leftarrow> ps2_write_data PS2_CMD_RESET d; Some (k, d) })"

text \<open>\<open>~(PS2_CFG_INT_PORT1 | PS2_CFG_INT_PORT2 | PS2_CFG_TRANS_PORT1)\<close> keeps the other five bits.\<close>

definition kbd_init :: "kbd \<Rightarrow> ps2 \<Rightarrow> (kbd \<times> ps2 \<times> bool) option" where
  "kbd_init k d =
     (let k = k\<lparr>kbd_initialized := False, kbd_cmd_queue := CIRC_BUF_INIT (kbd_cmd_queue k)\<rparr>;
          k = k\<lparr>kbd_cmd_queue := fst (CIRC_BUF_PUSH (kbd_cmd_queue k) PS2_CMD_RESET)\<rparr>
      in do {
        d \<leftarrow> ps2_write_command 0xAD d;
        d \<leftarrow> ps2_write_command 0xA7 d;
        (_, d) \<leftarrow> ps2_inb PS2_PORT_DATA d;
        d \<leftarrow> ps2_write_command 0x20 d;
        (read, d) \<leftarrow> ps2_read_data d;
        let read = read AND NOT (1 OR 2 OR 0x40);
        d \<leftarrow> ps2_write_command 0x60 d;
        d \<leftarrow> ps2_write_data read d;
        d \<leftarrow> ps2_write_command 0xAB d;
        (read, d) \<leftarrow> ps2_read_data d;
        if read \<noteq> 0 then Some (k, d, False)
        else do {
          d \<leftarrow> ps2_write_command 0xAE d;
          d \<leftarrow> ps2_write_command 0x20 d;
          (read, d) \<leftarrow> ps2_read_data d;
          let read = read OR 1;
          d \<leftarrow> ps2_write_command 0x60 d;
          d \<leftarrow> ps2_write_data read d;
          (k, d) \<leftarrow> kbd_reset k d;
          Some (k, d, True) } })"

definition scancodes :: "u16 list" where
  "scancodes = [
     0, 0, 0, 0, 0x132, 0x130, 0x131, 0,
     0, 0, 0, 0, 0x133, 0, 0x2, 0,
     0, 0x105, 0x101, 0, 0x103, 0xD, 0x3, 0,
     0, 0, 0x20, 0x18, 0x17, 0xE, 0x4, 0,
     0, 0x22, 0x21, 0x19, 0xF, 0x6, 0x5, 0,
     0, 0x31, 0x23, 0x1A, 0x11, 0x10, 0x7, 0,
     0, 0x25, 0x24, 0x1C, 0x1B, 0x12, 0x8, 0,
     0, 0, 0x26, 0x1D, 0x13, 0x9, 0xA, 0,
     0, 0x2E, 0x1E, 0x14, 0x15, 0xC, 0xB, 0,
     0, 0x2F, 0x30, 0x1F, 0x2C, 0x16, 0x27, 0,
     0, 0, 0x2D, 0, 0x29, 0x28, 0, 0,
     0x100, 0x102, 0x70, 0x2A, 0, 0x2B, 0, 0,
     0, 0, 0, 0, 0, 0, 0x72, 0,
     0, 0, 0, 0, 0, 0, 0, 0,
     0, 0, 0, 0, 0, 0, 0, 0,
     0, 0, 0, 0, 0, 0, 0, 0,
     0, 0, 0, 0, 0, 0, 0, 0,
     0, 0, 0, 0, 0, 0, 0, 0,
     0, 0x106, 0, 0, 0x104, 0, 0, 0,
     0, 0, 0, 0, 0, 0, 0, 0x107,
     0, 0, 0, 0, 0, 0, 0, 0x108,
     0, 0, 0, 0, 0, 0, 0, 0,
     0, 0, 0, 0, 0, 0, 0, 0,
     0, 0, 0, 0, 0, 0, 0, 0,
     0, 0, 0, 0, 0, 0, 0, 0,
     0, 0, 0, 0, 0, 0, 0, 0,
     0, 0, 0, 0, 0, 0, 0, 0,
     0, 0, 0, 0, 0, 0, 0, 0,
     0, 0, 0, 0, 0, 0, 0, 0,
     0, 0, 0, 0x121, 0, 0, 0, 0,
     0, 0x140, 0x122, 0, 0x123, 0x120, 0, 0,
     0, 0, 0, 0, 0, 0, 0, 0] @ replicate 256 0"

definition kbd_combine_key :: "kbd \<Rightarrow> u16 \<Rightarrow> u16" where
  "kbd_combine_key k val =
     (let val = (val AND 0x7F) OR push_bit 1 (val AND 0x80)
      in if emul k = 1 then val OR 0x80 else val)"

text \<open>
  The default case: a byte of a key. \<open>emul && --emul\<close> counts the prefix bytes down and stops while
  more are expected. \<open>None\<close> is an access outside the 512 entries of the table.
\<close>

definition kbd_key :: "kbd \<Rightarrow> u8 \<Rightarrow> (kbd \<times> kbd_action list) option" where
  "kbd_key k val =
     (let idx = kbd_combine_key k (ucast val);
          more = (emul k \<noteq> 0 \<and> emul k - 1 \<noteq> 0);
          k = (if emul k \<noteq> 0 then k\<lparr>emul := emul k - 1\<rparr> else k)
      in if more then Some (k, [])
         else if unat idx < length scancodes then
           let key = scancodes ! unat idx in
           if key = 0 then Some (k, [])
           else if released k \<noteq> 0 then Some (k\<lparr>released := 0\<rparr>, [Keypress key 0])
           else Some (k, [Keypress key 1])
         else None)"

definition kbd_handle_byte :: "kbd \<Rightarrow> ps2 \<Rightarrow> u8 \<Rightarrow> (kbd \<times> ps2 \<times> kbd_action list) option" where
  "kbd_handle_byte k d val =
     (if val = 0xAA then
        let k = k\<lparr>kbd_initialized := True\<rparr>;
            k = (if CIRC_BUF_PEEK (kbd_cmd_queue k) = Some PS2_CMD_RESET
                 then k\<lparr>kbd_cmd_queue := fst (CIRC_BUF_POP (kbd_cmd_queue k))\<rparr> else k)
        in Some (k, d, [Puts ''PS/2 Keyboard Attached...''])
      else if val = 0xE1 then Some (k\<lparr>emul := 2\<rparr>, d, [])
      else if val = 0xE0 then Some (k\<lparr>emul := 1\<rparr>, d, [])
      else if val = 0xFE then
        (case CIRC_BUF_PEEK (kbd_cmd_queue k) of
           Some cmd \<Rightarrow> do { d \<leftarrow> ps2_write_command cmd d; Some (k, d, []) }
         | None \<Rightarrow> Some (k, d, [Puts (''WARN: keyboard nak'd and we didn't send a command'' @ [CHR 0x0A])]))
      else if val = 0xF0 then Some (k\<lparr>released := 1\<rparr>, d, [])
      else map_option (\<lambda>(k, as). (k, d, as)) (kbd_key k val))"

definition kbd_handle_interrupt :: "kbd \<Rightarrow> ps2 \<Rightarrow> (kbd \<times> ps2 \<times> kbd_action list) option" where
  "kbd_handle_interrupt k d = do { (val, d) \<leftarrow> ps2_read_data d; kbd_handle_byte k d val }"

declare ps2_poll.simps [simp del]

section \<open>The index into the table\<close>

text \<open>Bits 0 to 6 of the byte, bit 7 for the E0 prefix, and bit 8 for the top bit of the byte.\<close>

definition scan_index :: "bool \<Rightarrow> u8 \<Rightarrow> nat" where
  "scan_index ext sc = unat sc mod 128 + (if ext then 128 else 0) + (if 128 \<le> unat sc then 256 else 0)"

lemma length_scancodes [simp]: "length scancodes = 512"
  by (simp add: scancodes_def)

lemma low7_or_unat:
  fixes x c :: u16
  assumes "take_bit 7 c = 0" "unat c < 512"
  shows "unat (take_bit 7 x OR c) = unat x mod 128 + unat c"
proof -
  have "take_bit 7 x AND c = 0"
    using assms(1) by (simp add: take_bit_eq_mask and.assoc and.commute [of "mask 7" c])
  then have "take_bit 7 x OR c = take_bit 7 x + c"
    by (simp add: disjunctive_add_eq_or)
  moreover have u: "unat (take_bit 7 x) = unat x mod 128"
    by (simp add: take_bit_eq_mod unat_mod)
  moreover have "unat x mod 128 < 128" by simp
  then have "unat (take_bit 7 x + c) = unat (take_bit 7 x) + unat c"
    using assms(2) u by (subst unat_word_ariths) (simp del: mod_less_divisor)
  ultimately show ?thesis by simp
qed

lemma unat_u8_less: "unat (w :: u8) < 256"
  using unsigned_less [where 'b = 8 and 'a = nat, of w] by simp

lemma bit7_u8: "bit (ucast sc :: u16) 7 \<longleftrightarrow> 128 \<le> unat sc" for sc :: u8
proof -
  have lt: "unat sc < 256" by (rule unat_u8_less)
  have "bit (ucast sc :: u16) 7 \<longleftrightarrow> odd (unat sc div 128)"
    using bit_unsigned_iff [where 'a = nat, of sc 7]
      bit_unsigned_iff [where 'a = "16 word", of sc 7] bit_iff_odd [of "unat sc" 7] by simp
  also have "\<dots> \<longleftrightarrow> 128 \<le> unat sc"
  proof (cases "128 \<le> unat sc")
    case True
    then have "unat sc div 128 = 1" using lt by simp
    with True show ?thesis by simp
  qed simp
  finally show ?thesis .
qed

lemma and_exp: "(x :: 'a :: len word) AND 2 ^ n = (if bit x n then 2 ^ n else 0)"
  by (intro bit_word_eqI) (auto simp: bit_and_iff bit_exp_iff)

lemma top_bit_part:
  "(ucast sc :: u16) AND 0x80 = (if 128 \<le> unat sc then 0x80 else 0)" for sc :: u8
  using and_exp [of "ucast sc :: u16" 7] by (simp add: bit7_u8)

lemma low_part: "(x :: u16) AND 0x7F = take_bit 7 x"
  by (simp add: take_bit_eq_mask mask_eq_exp_minus_1 and.commute)

lemma combine_key_index: "unat (kbd_combine_key k (ucast sc)) = scan_index (emul k = 1) sc"
  for sc :: u8
proof -
  define x where "x = (ucast sc :: u16)"
  have x: "unat x = unat sc"
    by (simp add: x_def unsigned_ucast_eq take_bit_nat_eq_self less_trans [OF unat_u8_less])
  have or: "unat (take_bit 7 x OR c) = unat x mod 128 + unat c" if "c \<in> {0, 0x80, 0x100, 0x180}" for c
    using that by (intro low7_or_unat) (auto simp: take_bit_eq_mod)
  have "kbd_combine_key k x =
      take_bit 7 x OR ((if 128 \<le> unat sc then 0x100 else 0) OR (if emul k = 1 then 0x80 else 0))"
    by (simp add: kbd_combine_key_def Let_def low_part top_bit_part x_def or.assoc)
  then have "unat (kbd_combine_key k x) = unat x mod 128 +
      unat ((if 128 \<le> unat sc then 0x100 else 0) OR (if emul k = 1 then 0x80 else 0) :: u16)"
    by (simp add: or)
  then show ?thesis by (simp add: scan_index_def x flip: x_def)
qed

lemma scan_index_bound [simp]: "scan_index ext sc < 512"
proof -
  have "unat sc mod 128 < 128" by simp
  then show ?thesis by (simp add: scan_index_def del: mod_less_divisor pos_mod_bound)
qed

lemma kbd_key_cases:
  "kbd_key k sc =
     (if emul k \<noteq> 0 \<and> emul k \<noteq> 1 then Some (k\<lparr>emul := emul k - 1\<rparr>, [])
      else let key = scancodes ! scan_index (emul k = 1) sc; k = k\<lparr>emul := 0\<rparr>
           in if key = 0 then Some (k, [])
              else Some (k\<lparr>released := 0\<rparr>, [Keypress key (if released k \<noteq> 0 then 0 else 1)]))"
  by (auto simp: kbd_key_def combine_key_index Let_def)

section \<open>Whole sequences of bytes\<close>

fun kbd_run :: "kbd \<Rightarrow> u8 list \<Rightarrow> (kbd \<times> kbd_action list) option" where
  "kbd_run k [] = Some (k, [])"
| "kbd_run k (b # bs) =
     (case kbd_handle_byte k \<lparr>ps2_in = [], ps2_log = []\<rparr> b of None \<Rightarrow> None
      | Some (k', _, as) \<Rightarrow> map_option (\<lambda>(k'', as'). (k'', as @ as')) (kbd_run k' bs))"

lemma kbd_run_append:
  "kbd_run k (bs @ cs) =
     (case kbd_run k bs of None \<Rightarrow> None
      | Some (k', as) \<Rightarrow> map_option (\<lambda>(k'', as'). (k'', as @ as')) (kbd_run k' cs))"
  by (induction bs arbitrary: k)
     (auto split: option.splits prod.splits simp: option.map_comp comp_def option.map_id0 intro!: option.map_cong)

definition kbd_idle :: "kbd \<Rightarrow> bool" where
  "kbd_idle k \<longleftrightarrow> emul k = 0 \<and> released k = 0"

datatype key_event = KeyEvent (ev_ext: bool) (ev_code: u8) (ev_down: bool)

definition key_bytes :: "key_event \<Rightarrow> u8 list" where
  "key_bytes e = (if ev_ext e then [0xE0] else []) @ (if ev_down e then [] else [0xF0]) @ [ev_code e]"

definition event_key :: "key_event \<Rightarrow> u16" where
  "event_key e = scancodes ! scan_index (ev_ext e) (ev_code e)"

definition control_byte :: "u8 \<Rightarrow> bool" where
  "control_byte b \<longleftrightarrow> b \<in> {0xAA, 0xE1, 0xE0, 0xFE, 0xF0}"

definition event_ok :: "key_event \<Rightarrow> bool" where
  "event_ok e \<longleftrightarrow> \<not> control_byte (ev_code e) \<and> event_key e \<noteq> 0"

definition event_action :: "key_event \<Rightarrow> kbd_action" where
  "event_action e = Keypress (event_key e) (if ev_down e then 1 else 0)"

lemma handle_key_byte:
  "\<not> control_byte b \<Longrightarrow>
     kbd_handle_byte k d b = map_option (\<lambda>(k, as). (k, d, as)) (kbd_key k b)"
  by (simp add: kbd_handle_byte_def control_byte_def)

lemma handle_E0: "kbd_handle_byte k d 0xE0 = Some (k\<lparr>emul := 1\<rparr>, d, [])"
  by (simp add: kbd_handle_byte_def)

lemma handle_F0: "kbd_handle_byte k d 0xF0 = Some (k\<lparr>released := 1\<rparr>, d, [])"
  by (simp add: kbd_handle_byte_def)

lemmas handle_byte_simps = handle_key_byte handle_E0 handle_F0 kbd_key_cases

lemma kbd_run_event:
  assumes "kbd_idle k" "event_ok e"
  shows "kbd_run k (key_bytes e) = Some (k, [event_action e])"
  using assms
  by (cases e; cases "ev_ext e")
     (auto simp: key_bytes_def event_ok_def kbd_idle_def event_action_def event_key_def
        handle_byte_simps Let_def)

lemma kbd_run_events:
  assumes "kbd_idle k" "\<forall>e \<in> set es. event_ok e"
  shows "kbd_run k (concat (map key_bytes es)) = Some (k, map event_action es)"
  using assms by (induction es) (auto simp: kbd_run_append kbd_run_event)

lemma kbd_run_unmapped_release:
  assumes "kbd_idle k" "\<not> control_byte b" "scancodes ! scan_index False b = 0"
    and "event_ok e" "ev_down e"
  shows "kbd_run k ([0xF0, b] @ key_bytes e) = Some (k, [Keypress (event_key e) 0])"
  using assms
  by (cases e; cases "ev_ext e")
     (auto simp: key_bytes_def event_ok_def kbd_idle_def event_action_def event_key_def
        handle_byte_simps Let_def)

lemma kbd_handle_byte_total:
  assumes "b \<noteq> 0xFE"
  shows "\<exists>k' as. kbd_handle_byte k d b = Some (k', d, as)"
  using assms by (simp add: kbd_handle_byte_def kbd_key_cases Let_def)

section \<open>The controller set-up\<close>

text \<open>What the driver writes, in order, and the status byte of a controller that is ready for both directions.\<close>

fun outputs :: "io_event list \<Rightarrow> (u8 \<times> u16) list" where
  "outputs [] = []"
| "outputs (Outb v p # es) = (v, p) # outputs es"
| "outputs (Inb v p # es) = outputs es"

lemma outputs_append [simp]: "outputs (xs @ ys) = outputs xs @ outputs ys"
  by (induction xs rule: outputs.induct) auto

text \<open>\<open>n\<close> polls of a busy controller before each byte it answers with.\<close>

definition busy_then :: "u8 \<Rightarrow> nat \<Rightarrow> u8 list" where
  "busy_then busy n = replicate n busy @ [1]"

definition poll_log :: "u8 \<Rightarrow> nat \<Rightarrow> io_event list" where
  "poll_log busy n = map (\<lambda>v. Inb v PS2_PORT_STATUS) (busy_then busy n)"

lemma outputs_poll_log [simp]: "outputs (poll_log b n) = []"
proof -
  have "outputs (map (\<lambda>v. Inb v p) vs) = []" for vs p by (induction vs) auto
  then show ?thesis by (simp add: poll_log_def)
qed

lemma ps2_poll_busy_then:
  assumes "busy b" "\<not> busy 1"
  shows "ps2_poll busy \<lparr>ps2_in = busy_then b n @ rest, ps2_log = l\<rparr> =
      Some \<lparr>ps2_in = rest, ps2_log = l @ poll_log b n\<rparr>"
proof (induction n arbitrary: l)
  case 0
  then show ?case using assms
    by (subst ps2_poll.simps) (simp add: busy_then_def poll_log_def ps2_inb_def)
next
  case (Suc n)
  have "ps2_poll busy \<lparr>ps2_in = busy_then b (Suc n) @ rest, ps2_log = l\<rparr> =
      ps2_poll busy \<lparr>ps2_in = busy_then b n @ rest, ps2_log = l @ [Inb b PS2_PORT_STATUS]\<rparr>"
    using assms(1) by (subst ps2_poll.simps) (simp add: busy_then_def ps2_inb_def)
  also have "\<dots> = Some \<lparr>ps2_in = rest, ps2_log = l @ [Inb b PS2_PORT_STATUS] @ poll_log b n\<rparr>"
    by (simp add: Suc.IH)
  finally show ?case by (simp add: poll_log_def busy_then_def)
qed

lemma ps2_inb_ready:
  "ps2_inb p \<lparr>ps2_in = v # rest, ps2_log = l\<rparr> = Some (v, \<lparr>ps2_in = rest, ps2_log = l @ [Inb v p]\<rparr>)"
  by (simp add: ps2_inb_def)

lemma ps2_write_command_ready:
  "ps2_write_command c \<lparr>ps2_in = busy_then 3 n @ rest, ps2_log = l\<rparr> =
     Some \<lparr>ps2_in = rest, ps2_log = l @ poll_log 3 n @ [Outb c PS2_PORT_COMMAND]\<rparr>"
  by (simp add: ps2_write_command_def ps2_poll_busy_then ps2_outb_def outb_def ibuffer_full_def)

lemma ps2_write_data_ready:
  "ps2_write_data c \<lparr>ps2_in = busy_then 3 n @ rest, ps2_log = l\<rparr> =
     Some \<lparr>ps2_in = rest, ps2_log = l @ poll_log 3 n @ [Outb c PS2_PORT_DATA]\<rparr>"
  by (simp add: ps2_write_data_def ps2_poll_busy_then ps2_outb_def outb_def ibuffer_full_def)

lemma ps2_read_data_ready:
  "ps2_read_data \<lparr>ps2_in = busy_then 0 n @ v # rest, ps2_log = l\<rparr> =
     Some (v, \<lparr>ps2_in = rest, ps2_log = l @ poll_log 0 n @ [Inb v PS2_PORT_DATA]\<rparr>)"
  by (simp add: ps2_read_data_def ps2_poll_busy_then obuffer_empty_def ps2_inb_ready)

lemmas ps2_ready = ps2_inb_ready ps2_write_command_ready ps2_write_data_ready ps2_read_data_ready

definition init_script :: "nat \<Rightarrow> u8 \<Rightarrow> u8 \<Rightarrow> u8 \<Rightarrow> u8 \<Rightarrow> u8 list" where
  "init_script n junk cfg test cfg' =
     busy_then 3 n @ busy_then 3 n @ junk #
     busy_then 3 n @ busy_then 0 n @ cfg # busy_then 3 n @ busy_then 3 n @
     busy_then 3 n @ busy_then 0 n @ test # busy_then 3 n @
     busy_then 3 n @ busy_then 0 n @ cfg' # busy_then 3 n @ busy_then 3 n @ busy_then 3 n"

definition config_outputs :: "u8 \<Rightarrow> (u8 \<times> u16) list" where
  "config_outputs cfg =
     [(0xAD, 0x64), (0xA7, 0x64), (0x20, 0x64), (0x60, 0x64), (cfg AND NOT (1 OR 2 OR 0x40), 0x60), (0xAB, 0x64)]"

definition enable_outputs :: "u8 \<Rightarrow> (u8 \<times> u16) list" where
  "enable_outputs cfg = [(0xAE, 0x64), (0x20, 0x64), (0x60, 0x64), (cfg OR 1, 0x60), (0xFF, 0x60)]"

section \<open>Properties\<close>

text \<open>
  \<open>kbd_init\<close> against a controller that is busy for n polls before every byte: it disables both
  ports, writes back the configuration byte with interrupts and translation off, tests the port,
  and if the test byte is 0 enables port 1 with its interrupt, resets the keyboard and leaves the
  decoder idle. If the test fails it stops there.\<close>

theorem kbd_init_configures:
  "\<exists>k' d'. kbd_init k \<lparr>ps2_in = init_script n junk cfg test cfg', ps2_log = []\<rparr> = Some (k', d', test = 0) \<and>
     outputs (ps2_log d') = config_outputs cfg @ (if test = 0 then enable_outputs cfg' else []) \<and>
     kbd_idle k' = (test = 0 \<or> kbd_idle k)"
  using ps2_write_data_ready [of _ n "[]"]
  by (cases "test = 0")
     (simp_all add: kbd_init_def kbd_reset_def kbd_idle_def config_outputs_def enable_outputs_def
        init_script_def ps2_ready Let_def del: or_numerals)

text \<open>
  C33: The interrupt handler decodes a stream of key events. For mapped keys, with or without the
  E0 prefix, pressed or released, the bytes of the events produce exactly one \<open>term_handle_keypress\<close>
  per event, in order, with the key of the scancode table, and the decoder is back where it was.\<close>

theorem kbd_decodes_events:
  assumes "kbd_idle k" "\<forall>e \<in> set es. event_ok e"
  shows "kbd_run k (concat (map key_bytes es)) = Some (k, map event_action es)"
  using assms by (rule kbd_run_events)

definition sample_kbd :: kbd where
  "sample_kbd = \<lparr>kbd_cmd_queue = CIRC_BUF_TYPE 0 64, emul = 0, released = 0, kbd_initialized = True\<rparr>"

theorem kbd_decodes_events_witness:
  "kbd_idle sample_kbd \<and>
   kbd_run sample_kbd (concat (map key_bytes [KeyEvent False 0x1C True, KeyEvent True 0x75 False])) =
     Some (sample_kbd, [Keypress 0x17 1, Keypress 0x120 0])"
  using kbd_decodes_events [of sample_kbd "[KeyEvent False 0x1C True, KeyEvent True 0x75 False]"]
  by (simp add: kbd_idle_def sample_kbd_def event_ok_def event_key_def event_action_def control_byte_def
      scan_index_def scancodes_def)

text \<open>
  The scancode table is never read outside its 512 entries, whatever byte arrives in whatever state.\<close>

theorem kbd_index_in_table: "unat (kbd_combine_key k (ucast (b :: u8))) < length scancodes"
  by (simp add: combine_key_index)

text \<open>
  The release of a key that the table does not map leaves the release flag set: the next key
  pressed is reported as released, and its press is lost.\<close>

theorem kbd_unmapped_release_swallows_press:
  assumes "kbd_idle k" "\<not> control_byte b" "scancodes ! scan_index False b = 0"
    and "event_ok e" "ev_down e"
  shows "kbd_run k ([0xF0, b] @ key_bytes e) = Some (k, [Keypress (event_key e) 0])"
  using assms by (rule kbd_run_unmapped_release)

theorem kbd_unmapped_release_swallows_press_witness:
  "kbd_run sample_kbd ([0xF0, 0x83] @ key_bytes (KeyEvent False 0x1C True)) =
     Some (sample_kbd, [Keypress 0x17 0])"
  using kbd_unmapped_release_swallows_press [of sample_kbd "0x83" "KeyEvent False 0x1C True"]
  by (simp add: kbd_idle_def sample_kbd_def event_ok_def event_key_def control_byte_def
      scan_index_def scancodes_def)

end
