(* ===== verification/I8259.thy ===== *)
theory I8259
  imports Port_IO
begin

text \<open>
  \<^verbatim>\<open>student-distrib/i8259.c\<close> and the port writes of \<^verbatim>\<open>student-distrib/pit.c\<close>. The driver keeps the
  two interrupt masks in variables; the interrupt controllers behind the ports are modelled as far
  as the driver programs them (initialisation words, mask register, specific end of interrupt), and
  the masks of the hardware are proved to follow the calls of the driver.
\<close>

section \<open>The driver\<close>

abbreviation (input) MASTER_8259_PORT :: u16 where "MASTER_8259_PORT \<equiv> 0x20"
abbreviation (input) SLAVE_8259_PORT :: u16 where "SLAVE_8259_PORT \<equiv> 0xA0"
abbreviation (input) PIT_IRQ_PORT :: u32 where "PIT_IRQ_PORT \<equiv> 0"
abbreviation (input) KBD_IRQ_PORT :: u32 where "KBD_IRQ_PORT \<equiv> 1"
abbreviation (input) RTC_IRQ_PORT :: u32 where "RTC_IRQ_PORT \<equiv> 8"
abbreviation (input) ICW1 :: u8 where "ICW1 \<equiv> 0x11"
abbreviation (input) ICW2_MASTER :: u8 where "ICW2_MASTER \<equiv> 0x20"
abbreviation (input) ICW2_SLAVE :: u8 where "ICW2_SLAVE \<equiv> 0x28"
abbreviation (input) ICW3_MASTER :: u8 where "ICW3_MASTER \<equiv> 0x04"
abbreviation (input) ICW3_SLAVE :: u8 where "ICW3_SLAVE \<equiv> 0x02"
abbreviation (input) ICW4 :: u8 where "ICW4 \<equiv> 0x01"
abbreviation (input) EOI :: u32 where "EOI \<equiv> 0x60"

record pic =
  master_mask :: u8
  slave_mask :: u8

definition i8259_init :: "pic \<Rightarrow> pic \<times> io_event list" where
  "i8259_init p =
     (let p = p\<lparr>master_mask := 0xFB, slave_mask := 0xFF\<rparr>
      in (p, outb ICW1 MASTER_8259_PORT @ outb ICW1 SLAVE_8259_PORT
           @ outb ICW2_MASTER (MASTER_8259_PORT + 1) @ outb ICW2_SLAVE (SLAVE_8259_PORT + 1)
           @ (if ICW1 AND 0x02 = 0
              then outb ICW3_MASTER (MASTER_8259_PORT + 1) @ outb ICW3_SLAVE (SLAVE_8259_PORT + 1) else [])
           @ (if ICW1 AND 0x01 \<noteq> 0
              then outb ICW4 (MASTER_8259_PORT + 1) @ outb ICW4 (SLAVE_8259_PORT + 1) else [])
           @ outb (master_mask p) (MASTER_8259_PORT + 1)
           @ outb (slave_mask p) (SLAVE_8259_PORT + 1)))"

definition enable_irq :: "u32 \<Rightarrow> pic \<Rightarrow> pic \<times> io_event list" where
  "enable_irq irq_num p =
     (if irq_num < 8 then
        let p = p\<lparr>master_mask := master_mask p AND ucast (NOT (push_bit (unat irq_num) (1 :: u32)))\<rparr>
        in (p, outb (master_mask p) (MASTER_8259_PORT + 1))
      else if irq_num < 16 then
        let p = p\<lparr>slave_mask := slave_mask p AND ucast (NOT (push_bit (unat (irq_num - 8)) (1 :: u32)))\<rparr>
        in (p, outb (slave_mask p) (SLAVE_8259_PORT + 1))
      else (p, []))"

definition disable_irq :: "u32 \<Rightarrow> pic \<Rightarrow> pic \<times> io_event list" where
  "disable_irq irq_num p =
     (if irq_num < 8 then
        let p = p\<lparr>master_mask := master_mask p OR ucast (push_bit (unat irq_num) (1 :: u32))\<rparr>
        in (p, outb (master_mask p) (MASTER_8259_PORT + 1))
      else if irq_num < 16 then
        let p = p\<lparr>slave_mask := slave_mask p OR ucast (push_bit (unat (irq_num - 8)) (1 :: u32))\<rparr>
        in (p, outb (slave_mask p) (SLAVE_8259_PORT + 1))
      else (p, []))"

definition send_eoi :: "u32 \<Rightarrow> io_event list" where
  "send_eoi irq_num =
     (if irq_num < 8 then outb (ucast (EOI OR irq_num)) MASTER_8259_PORT
      else outb (ucast (EOI OR (irq_num - 8))) SLAVE_8259_PORT @ outb (ucast (EOI OR 2)) MASTER_8259_PORT)"

section \<open>The interval timer\<close>

abbreviation (input) CHAN0_PORT :: u16 where "CHAN0_PORT \<equiv> 0x40"
abbreviation (input) MODE_CMD_PORT :: u16 where "MODE_CMD_PORT \<equiv> 0x43"
abbreviation (input) INIT_CMD :: u8 where "INIT_CMD \<equiv> 0x38"
abbreviation (input) SCHED_FREQ_LO :: u8 where "SCHED_FREQ_LO \<equiv> 0x38"
abbreviation (input) SCHED_FREQ_HI :: u8 where "SCHED_FREQ_HI \<equiv> 0x5D"

definition pit_set_count :: "io_event list" where
  "pit_set_count = outb SCHED_FREQ_LO CHAN0_PORT @ outb SCHED_FREQ_HI CHAN0_PORT"

definition pit_init :: "io_event list" where
  "pit_init = outb INIT_CMD MODE_CMD_PORT @ pit_set_count"

section \<open>One interrupt controller\<close>

text \<open>
  \<open>chip_left\<close> counts the initialisation words still expected on the data port. A write to the
  command port with bit 4 set is ICW1; with bits 7..5 equal to 011 it is a specific end of
  interrupt for the line in bits 2..0.
\<close>

record chip =
  chip_left :: nat
  chip_vector :: u8
  chip_imr :: u8
  chip_isr :: u8

fun chip_step :: "u16 \<Rightarrow> io_event \<Rightarrow> chip \<Rightarrow> chip" where
  "chip_step port (Outb v p) c =
     (if p = port then
        if bit v 4 then c\<lparr>chip_left := 3, chip_imr := 0\<rparr>
        else if v AND 0xE0 = 0x60 then c\<lparr>chip_isr := unset_bit (unat (v AND 7)) (chip_isr c)\<rparr>
        else c
      else if p = port + 1 then
        (case chip_left c of
           0 \<Rightarrow> c\<lparr>chip_imr := v\<rparr>
         | Suc n \<Rightarrow> (if n = 2 then c\<lparr>chip_left := n, chip_vector := v\<rparr> else c\<lparr>chip_left := n\<rparr>))
      else c)"
| "chip_step port (Inb v p) c = c"

definition chip_run :: "u16 \<Rightarrow> io_event list \<Rightarrow> chip \<Rightarrow> chip" where
  "chip_run port es c = fold (chip_step port) es c"

lemma chip_run_simps [simp]:
  "chip_run port [] c = c" "chip_run port (e # es) c = chip_run port es (chip_step port e c)"
  "chip_run port (es @ fs) c = chip_run port fs (chip_run port es c)"
  by (simp_all add: chip_run_def)

section \<open>The masks\<close>

datatype irq_op = Enable u32 | Disable u32

fun irq_step :: "irq_op \<Rightarrow> pic \<times> io_event list \<Rightarrow> pic \<times> io_event list" where
  "irq_step (Enable n) (p, es) = (case enable_irq n p of (p', fs) \<Rightarrow> (p', es @ fs))"
| "irq_step (Disable n) (p, es) = (case disable_irq n p of (p', fs) \<Rightarrow> (p', es @ fs))"

definition irq_run :: "irq_op list \<Rightarrow> pic \<times> io_event list \<Rightarrow> pic \<times> io_event list" where
  "irq_run ops pe = fold irq_step ops pe"

text \<open>The set of enabled lines the calls ask for.\<close>

fun enabled_step :: "irq_op \<Rightarrow> nat set \<Rightarrow> nat set" where
  "enabled_step (Enable n) E = (if n < 16 then insert (unat n) E else E)"
| "enabled_step (Disable n) E = E - {unat n}"

definition unmasked :: "chip \<Rightarrow> chip \<Rightarrow> nat \<Rightarrow> bool" where
  "unmasked m sl n \<longleftrightarrow> (if n < 8 then \<not> bit (chip_imr m) n else \<not> bit (chip_imr sl) (n - 8))"

text \<open>Driver and hardware agree, and every line is unmasked exactly when it is enabled.\<close>

definition pics_agree :: "pic \<Rightarrow> chip \<Rightarrow> chip \<Rightarrow> nat set \<Rightarrow> bool" where
  "pics_agree p m sl E \<longleftrightarrow> chip_left m = 0 \<and> chip_left sl = 0 \<and>
     chip_imr m = master_mask p \<and> chip_imr sl = slave_mask p \<and> (\<forall>n < 16. unmasked m sl n \<longleftrightarrow> n \<in> E)"

lemma bit_clear_line:
  "j < 8 \<Longrightarrow> bit (w AND ucast (NOT (2 ^ k :: u32)) :: u8) j \<longleftrightarrow> bit w j \<and> j \<noteq> k"
  by (auto simp: bit_simps bit_exp_iff)

lemma bit_set_line:
  "j < 8 \<Longrightarrow> bit (w OR ucast (2 ^ k :: u32) :: u8) j \<longleftrightarrow> bit w j \<or> j = k"
  by (auto simp: bit_simps bit_exp_iff)

lemma slave_line: "\<not> n < 8 \<Longrightarrow> n < 16 \<Longrightarrow> unat (n - 8 :: u32) = unat n - 8"
  by (simp add: unat_sub word_le_nat_alt word_less_nat_alt)

lemma chip_write_imr:
  "chip_left c = 0 \<Longrightarrow> chip_run port [Outb v (port + 1)] c = c\<lparr>chip_imr := v\<rparr>"
  "q \<noteq> port \<Longrightarrow> q \<noteq> port + 1 \<Longrightarrow> chip_run port [Outb v q] c = c"
  by simp_all

lemma pics_agree_lines:
  "pics_agree p m sl E \<longleftrightarrow> chip_left m = 0 \<and> chip_left sl = 0 \<and> chip_imr m = master_mask p \<and> chip_imr sl = slave_mask p \<and>
     (\<forall>n < 8. bit (master_mask p) n \<longleftrightarrow> n \<notin> E) \<and> (\<forall>n < 8. bit (slave_mask p) n \<longleftrightarrow> n + 8 \<notin> E)"
proof -
  have "(\<forall>n < 16. unmasked m sl n \<longleftrightarrow> n \<in> E) \<longleftrightarrow>
      (\<forall>n < 8. unmasked m sl n \<longleftrightarrow> n \<in> E) \<and> (\<forall>n < 8. unmasked m sl (n + 8) \<longleftrightarrow> n + 8 \<in> E)" (is "?L \<longleftrightarrow> ?R")
  proof
    assume r: ?R
    show ?L
    proof (intro allI impI)
      fix n :: nat assume "n < 16"
      then show "unmasked m sl n \<longleftrightarrow> n \<in> E"
        using r conjunct2 [OF r, rule_format, of "n - 8"] by (cases "n < 8") auto
    qed
  qed auto
  then show ?thesis by (auto simp: pics_agree_def unmasked_def)
qed

lemma enable_irq_agree:
  assumes "pics_agree p m sl E" "enable_irq n p = (p', fs)"
  shows "pics_agree p' (chip_run 0x20 fs m) (chip_run 0xA0 fs sl) (enabled_step (Enable n) E)"
proof -
  consider "n < 8" | "\<not> n < 8" "n < 16" | "\<not> n < 16" by blast
  then show ?thesis
  proof cases
    case 1
    then have "unat n < 8" by (simp add: word_less_nat_alt)
    with 1 assms show ?thesis
      by (auto simp: enable_irq_def outb_def pics_agree_lines bit_clear_line word_less_nat_alt Let_def)
  next
    case 2
    then have "8 \<le> unat n" "unat n < 16" by (simp_all add: word_less_nat_alt)
    with 2 assms show ?thesis
      by (auto simp: enable_irq_def outb_def pics_agree_lines bit_clear_line slave_line Let_def)
  next
    case 3
    with assms show ?thesis by (auto simp: enable_irq_def word_less_nat_alt)
  qed
qed

lemma disable_irq_agree:
  assumes "pics_agree p m sl E" "disable_irq n p = (p', fs)"
  shows "pics_agree p' (chip_run 0x20 fs m) (chip_run 0xA0 fs sl) (enabled_step (Disable n) E)"
proof -
  consider "n < 8" | "\<not> n < 8" "n < 16" | "\<not> n < 16" by blast
  then show ?thesis
  proof cases
    case 1
    then have "unat n < 8" by (simp add: word_less_nat_alt)
    with 1 assms show ?thesis
      by (auto simp: disable_irq_def outb_def pics_agree_lines bit_set_line word_less_nat_alt Let_def)
  next
    case 2
    then have "8 \<le> unat n" "unat n < 16" by (simp_all add: word_less_nat_alt)
    with 2 assms show ?thesis
      by (auto simp: disable_irq_def outb_def pics_agree_lines bit_set_line slave_line Let_def)
  next
    case 3
    with assms show ?thesis by (auto simp: disable_irq_def word_less_nat_alt pics_agree_lines)
  qed
qed

lemma irq_run_agree:
  assumes "pics_agree p (chip_run 0x20 es m) (chip_run 0xA0 es sl) E" "irq_run ops (p, es) = (p', es')"
  shows "pics_agree p' (chip_run 0x20 es' m) (chip_run 0xA0 es' sl) (fold enabled_step ops E)"
  using assms
proof (induction ops arbitrary: p es E)
  case (Cons op ops)
  obtain p1 fs where fs: "(case op of Enable n \<Rightarrow> enable_irq n p | Disable n \<Rightarrow> disable_irq n p) = (p1, fs)"
    by (metis surj_pair)
  then have step: "irq_step op (p, es) = (p1, es @ fs)"
    "pics_agree p1 (chip_run 0x20 (es @ fs) m) (chip_run 0xA0 (es @ fs) sl) (enabled_step op E)"
    using enable_irq_agree [OF Cons.prems(1)] disable_irq_agree [OF Cons.prems(1)] by (cases op; simp)+
  then show ?case using Cons.IH [OF step(2)] Cons.prems(2) by (simp add: irq_run_def)
qed (simp add: irq_run_def)

lemma bits_FB: "j < 8 \<Longrightarrow> bit (0xFB :: int) j \<longleftrightarrow> j \<noteq> 2" "j < 8 \<Longrightarrow> bit (0xFF :: int) j"
proof -
  assume "j < 8"
  then have "j = 0 \<or> j = 1 \<or> j = 2 \<or> j = 3 \<or> j = 4 \<or> j = 5 \<or> j = 6 \<or> j = 7" by presburger
  then show "bit (0xFB :: int) j \<longleftrightarrow> j \<noteq> 2" "bit (0xFF :: int) j" by auto
qed

lemma init_agree:
  assumes "i8259_init p = (p', es)"
  shows "pics_agree p' (chip_run 0x20 es m) (chip_run 0xA0 es sl) {2}"
  using assms by (auto simp: i8259_init_def outb_def pics_agree_lines bits_FB Let_def)

section \<open>Properties\<close>

text \<open>
  After \<open>i8259_init\<close> and any sequence of \<open>enable_irq\<close> and \<open>disable_irq\<close> calls, whatever state the
  two controllers were in before, the mask registers of the hardware hold the driver's masks and
  exactly the lines enabled last are unmasked (line 2, the cascade, from the start; numbers above
  15 have no effect).\<close>

theorem irq_masks_follow_calls:
  assumes "irq_run ops (i8259_init p) = (p', es)"
  shows "pics_agree p' (chip_run 0x20 es m) (chip_run 0xA0 es sl) (fold enabled_step ops {2})"
  using assms init_agree [of p] irq_run_agree by (metis surj_pair)

definition sample_pic :: pic where
  "sample_pic = \<lparr>master_mask = 0, slave_mask = 0\<rparr>"

definition sample_chip :: chip where
  "sample_chip = \<lparr>chip_left = 2, chip_vector = 0, chip_imr = 0, chip_isr = 0\<rparr>"

theorem irq_masks_follow_calls_witness:
  "pics_agree \<lparr>master_mask = 0xF9, slave_mask = 0xFE\<rparr>
     (chip_run 0x20 (snd (irq_run [Enable 1, Enable 8] (i8259_init sample_pic))) sample_chip)
     (chip_run 0xA0 (snd (irq_run [Enable 1, Enable 8] (i8259_init sample_pic))) sample_chip) {8, 1, 2}"
proof -
  have "fst (irq_run [Enable 1, Enable 8] (i8259_init sample_pic)) = \<lparr>master_mask = 0xF9, slave_mask = 0xFE\<rparr>"
    by (simp add: irq_run_def i8259_init_def sample_pic_def enable_irq_def outb_def Let_def)
  then show ?thesis
    using irq_masks_follow_calls [of "[Enable 1, Enable 8]" sample_pic _ _ sample_chip sample_chip, OF surjective_pairing]
    by simp
qed

text \<open>
  \<open>send_eoi\<close> ends the interrupt of its line: the in-service bit of the line is cleared in its
  controller, for a slave line also the cascade bit of the master, and nothing else changes.\<close>

theorem send_eoi_ends_line:
  assumes "n < 16"
  shows "chip_run 0x20 (send_eoi n) m = m\<lparr>chip_isr := unset_bit (if n < 8 then unat n else 2) (chip_isr m)\<rparr> \<and>
    chip_run 0xA0 (send_eoi n) sl = (if n < 8 then sl else sl\<lparr>chip_isr := unset_bit (unat n - 8) (chip_isr sl)\<rparr>)"
proof -
  have "unat n < 16" using assms by (simp add: word_less_nat_alt)
  then have "unat n = 0 \<or> unat n = 1 \<or> unat n = 2 \<or> unat n = 3 \<or> unat n = 4 \<or> unat n = 5 \<or> unat n = 6 \<or> unat n = 7 \<or>
      unat n = 8 \<or> unat n = 9 \<or> unat n = 10 \<or> unat n = 11 \<or> unat n = 12 \<or> unat n = 13 \<or> unat n = 14 \<or> unat n = 15"
    by presburger
  then have "n \<in> {0, 1, 2, 3, 4, 5, 6, 7, 8, 9, 10, 11, 12, 13, 14, 15}" by (auto simp: word_unat_eq_iff)
  then show ?thesis by (auto simp: send_eoi_def outb_def)
qed

theorem send_eoi_ends_line_witness:
  "chip_run 0x20 (send_eoi 8) sample_chip = sample_chip"
  using send_eoi_ends_line [of 8 sample_chip sample_chip] by (simp add: sample_chip_def)

end
