(* ===== verification/Sched_Queue.thy ===== *)
theory Sched_Queue
  imports Proc
begin

text \<open>
  The run queues of \<^verbatim>\<open>student-distrib/sched.c\<close>: two circular buffers and the pointers
  \<open>active_queue\<close> and \<open>expired_queue\<close> at them (the flag \<open>active_is_1\<close>). The abstract view is one
  rotation: the active queue followed by the expired queue, in the order the processes run.
\<close>

section \<open>Operations\<close>

definition active_queue :: "kstate \<Rightarrow> u32 circ_buf" where
  "active_queue s = (if active_is_1 s then sched_queue_1 s else sched_queue_2 s)"

definition expired_queue :: "kstate \<Rightarrow> u32 circ_buf" where
  "expired_queue s = (if active_is_1 s then sched_queue_2 s else sched_queue_1 s)"

definition set_active :: "u32 circ_buf \<Rightarrow> kstate \<Rightarrow> kstate" where
  "set_active q s = (if active_is_1 s then s\<lparr>sched_queue_1 := q\<rparr> else s\<lparr>sched_queue_2 := q\<rparr>)"

definition set_expired :: "u32 circ_buf \<Rightarrow> kstate \<Rightarrow> kstate" where
  "set_expired q s = (if active_is_1 s then s\<lparr>sched_queue_2 := q\<rparr> else s\<lparr>sched_queue_1 := q\<rparr>)"

definition init_sched :: "kstate \<Rightarrow> kstate" where
  "init_sched s =
     s\<lparr>sched_queue_1 := CIRC_BUF_INIT (sched_queue_1 s), sched_queue_2 := CIRC_BUF_INIT (sched_queue_2 s),
       active_is_1 := True, isZombie := 0, relaunch := 0\<rparr>"

definition push_to_active :: "u32 \<Rightarrow> kstate \<Rightarrow> kstate \<times> u8" where
  "push_to_active p s =
     (case CIRC_BUF_PUSH (active_queue s) p of (q, ok) \<Rightarrow> (set_active q s, if \<not> ok then -1 else 0))"

definition push_to_expired :: "u32 \<Rightarrow> kstate \<Rightarrow> kstate \<times> u8" where
  "push_to_expired p s =
     (case CIRC_BUF_PUSH (expired_queue s) p of (q, ok) \<Rightarrow> (set_expired q s, if \<not> ok then -1 else 0))"

text \<open>\<open>None\<close>: \<open>get_proc_pcb()\<close> is NULL and is dereferenced.\<close>

definition remove_active_from_sched :: "kstate \<Rightarrow> (kstate \<times> u8) option" where
  "remove_active_from_sched s =
     (case get_proc_pcb s of None \<Rightarrow> None
      | Some p \<Rightarrow> Some (upd_pcb p (\<lambda>b. b\<lparr>state := state b OR EXIT_DEAD\<rparr>) s, 0))"

definition active_to_expired :: "kstate \<Rightarrow> kstate \<times> u8" where
  "active_to_expired s =
     (case CIRC_BUF_POP (active_queue s) of
        (q, None) \<Rightarrow> (set_active q s, -1)
      | (q, Some temp) \<Rightarrow>
          let s = set_active q s in
          (case CIRC_BUF_PUSH (expired_queue s) temp of (q, ok) \<Rightarrow> (set_expired q s, if \<not> ok then -1 else 0)))"

definition active_empty :: "kstate \<Rightarrow> bool" where
  "active_empty s = CIRC_BUF_EMPTY (active_queue s)"

definition expired_empty :: "kstate \<Rightarrow> bool" where
  "expired_empty s = CIRC_BUF_EMPTY (expired_queue s)"

definition swap_queues :: "kstate \<Rightarrow> kstate" where
  "swap_queues s = s\<lparr>active_is_1 := \<not> active_is_1 s\<rparr>"

text \<open>\<open>CIRC_BUF_POP (*active_queue, pid, ok)\<close>, as \<open>context_switch\<close> does it.\<close>

definition pop_active :: "kstate \<Rightarrow> kstate \<times> u32 option" where
  "pop_active s = (case CIRC_BUF_POP (active_queue s) of (q, r) \<Rightarrow> (set_active q s, r))"

section \<open>The rotation\<close>

definition active_list :: "kstate \<Rightarrow> u32 list" where
  "active_list s = circ_list (active_queue s)"

definition expired_list :: "kstate \<Rightarrow> u32 list" where
  "expired_list s = circ_list (expired_queue s)"

definition rotation :: "kstate \<Rightarrow> u32 list" where
  "rotation s = active_list s @ expired_list s"

text \<open>A queue declared for \<open>MAX_PROCESSES\<close> elements holds one fewer.\<close>

definition sched_inv :: "kstate \<Rightarrow> bool" where
  "sched_inv s \<longleftrightarrow> circ_inv (active_queue s) \<and> circ_inv (expired_queue s) \<and>
     circ_cap (active_queue s) = MAX_PROCESSES - 1 \<and> circ_cap (expired_queue s) = MAX_PROCESSES - 1"

named_theorems sched_simps

lemma queue_set [simp]:
  "active_queue (set_active q s) = q" "expired_queue (set_active q s) = expired_queue s"
  "expired_queue (set_expired q s) = q" "active_queue (set_expired q s) = active_queue s"
  "active_queue (swap_queues s) = expired_queue s" "expired_queue (swap_queues s) = active_queue s"
  by (simp_all add: active_queue_def expired_queue_def set_active_def set_expired_def swap_queues_def)

text \<open>The queue operations change the two buffers only.\<close>

definition same_but_queues :: "kstate \<Rightarrow> kstate \<Rightarrow> bool" where
  "same_but_queues s t \<longleftrightarrow>
     t = s\<lparr>sched_queue_1 := sched_queue_1 t, sched_queue_2 := sched_queue_2 t, active_is_1 := active_is_1 t\<rparr>"

lemma same_but_queues_refl [simp]: "same_but_queues s s"
  by (simp add: same_but_queues_def)

lemma same_but_queues_trans: "same_but_queues s t \<Longrightarrow> same_but_queues t u \<Longrightarrow> same_but_queues s u"
  unfolding same_but_queues_def by (cases s; cases t; cases u; simp)

lemma same_but_queues_set [simp]:
  "same_but_queues s (set_active q s)" "same_but_queues s (set_expired q s)" "same_but_queues s (swap_queues s)"
  by (simp_all add: same_but_queues_def set_active_def set_expired_def swap_queues_def)

lemma same_but_queues_fields:
  assumes "same_but_queues s t"
  shows "pcbs t = pcbs s" "cur_pcb t = cur_pcb s" "nprocs t = nprocs s" "io t = io s" "pg t = pg s"
    "proc_bitmap t = proc_bitmap s" "term_pids t = term_pids s" "iflag t = iflag s"
  using assms unfolding same_but_queues_def by (cases s; cases t; simp)+

lemma queue_ops_fields [simp]:
  "pcbs (set_active q s) = pcbs s" "pcbs (set_expired q s) = pcbs s" "pcbs (swap_queues s) = pcbs s"
  "cur_pcb (set_active q s) = cur_pcb s" "cur_pcb (set_expired q s) = cur_pcb s" "cur_pcb (swap_queues s) = cur_pcb s"
  by (simp_all add: set_active_def set_expired_def swap_queues_def)

lemma sched_inv_swap [simp]: "sched_inv (swap_queues s) = sched_inv s"
  by (auto simp: sched_inv_def)

lemma lists_swap [simp]:
  "active_list (swap_queues s) = expired_list s" "expired_list (swap_queues s) = active_list s"
  by (simp_all add: active_list_def expired_list_def)

lemma active_empty_iff [simp]: "active_empty s \<longleftrightarrow> active_list s = []"
  by (simp add: active_empty_def active_list_def circ_simps)

lemma expired_empty_iff [simp]: "expired_empty s \<longleftrightarrow> expired_list s = []"
  by (simp add: expired_empty_def expired_list_def circ_simps)

lemma push_to_expired_cases:
  assumes "sched_inv s" "push_to_expired p s = (t, r)"
  shows "sched_inv t \<and> same_but_queues s t \<and> active_list t = active_list s \<and>
    (if length (expired_list s) < MAX_PROCESSES - 1 then r = 0 \<and> expired_list t = expired_list s @ [p]
     else r = -1 \<and> expired_list t = expired_list s)"
proof -
  obtain q ok where q: "CIRC_BUF_PUSH (expired_queue s) p = (q, ok)" by fastforce
  have inv: "circ_inv (expired_queue s)" using assms(1) by (simp add: sched_inv_def)
  have t: "t = set_expired q s" "r = (if ok then 0 else -1)" using assms(2) q by (auto simp: push_to_expired_def)
  show ?thesis using circ.enq_cases [OF inv q] circ.enq_ok_iff [OF inv q] assms(1)
    by (auto simp: t sched_inv_def active_list_def expired_list_def)
qed

lemma push_to_active_cases:
  assumes "sched_inv s" "push_to_active p s = (t, r)"
  shows "sched_inv t \<and> same_but_queues s t \<and> expired_list t = expired_list s \<and>
    (if length (active_list s) < MAX_PROCESSES - 1 then r = 0 \<and> active_list t = active_list s @ [p]
     else r = -1 \<and> active_list t = active_list s)"
proof -
  obtain q ok where q: "CIRC_BUF_PUSH (active_queue s) p = (q, ok)" by fastforce
  have inv: "circ_inv (active_queue s)" using assms(1) by (simp add: sched_inv_def)
  have t: "t = set_active q s" "r = (if ok then 0 else -1)" using assms(2) q by (auto simp: push_to_active_def)
  show ?thesis using circ.enq_cases [OF inv q] circ.enq_ok_iff [OF inv q] assms(1)
    by (auto simp: t sched_inv_def active_list_def expired_list_def)
qed

lemma pop_active_cases:
  assumes "sched_inv s" "pop_active s = (t, r)"
  shows "sched_inv t \<and> same_but_queues s t \<and> expired_list t = expired_list s \<and>
    (case active_list s of [] \<Rightarrow> r = None \<and> active_list t = [] | p # ps \<Rightarrow> r = Some p \<and> active_list t = ps)"
proof -
  obtain q where q: "CIRC_BUF_POP (active_queue s) = (q, r)" "t = set_active q s"
    using assms(2) by (auto simp: pop_active_def split: prod.splits)
  have inv: "circ_inv (active_queue s)" using assms(1) by (simp add: sched_inv_def)
  show ?thesis using circ.deq_cases [OF inv q(1)] assms(1)
    by (auto simp: q(2) sched_inv_def active_list_def expired_list_def split: list.splits)
qed

lemma active_to_expired_eq:
  "active_to_expired s =
     (case pop_active s of (t, None) \<Rightarrow> (t, -1) | (t, Some p) \<Rightarrow> push_to_expired p t)"
  by (simp add: active_to_expired_def pop_active_def push_to_expired_def split: prod.splits option.splits)

lemma active_to_expired_cases:
  assumes "sched_inv s" "active_to_expired s = (t, r)"
  shows "sched_inv t \<and> same_but_queues s t \<and>
    (case active_list s of [] \<Rightarrow> r = -1 \<and> active_list t = [] \<and> expired_list t = expired_list s
     | p # ps \<Rightarrow> active_list t = ps \<and>
         (if length (expired_list s) < MAX_PROCESSES - 1 then r = 0 \<and> expired_list t = expired_list s @ [p]
          else r = -1 \<and> expired_list t = expired_list s))"
proof -
  obtain t1 r1 where pop: "pop_active s = (t1, r1)" by fastforce
  note c = pop_active_cases [OF assms(1) pop]
  show ?thesis
  proof (cases "active_list s")
    case Nil
    then show ?thesis using c assms(2) pop by (simp add: active_to_expired_eq)
  next
    case (Cons p ps)
    then have "push_to_expired p t1 = (t, r)" using c assms(2) pop by (simp add: active_to_expired_eq)
    from push_to_expired_cases [OF _ this] c Cons show ?thesis
      by (auto intro: same_but_queues_trans)
  qed
qed

section \<open>Properties\<close>

text \<open>
  The run queues implement two bounded lists of nine processes each: \<open>active_to_expired\<close> moves
  the head of the active list to the end of the expired one, reports -1 when there is none, and
  when the expired list is full loses the process; nothing else of the kernel changes.\<close>

theorem active_to_expired_moves:
  assumes "sched_inv s" "active_to_expired s = (t, r)"
  shows "sched_inv t \<and> same_but_queues s t \<and>
    (case active_list s of [] \<Rightarrow> r = -1 \<and> active_list t = [] \<and> expired_list t = expired_list s
     | p # ps \<Rightarrow> active_list t = ps \<and>
         (if length (expired_list s) < MAX_PROCESSES - 1 then r = 0 \<and> expired_list t = expired_list s @ [p]
          else r = -1 \<and> expired_list t = expired_list s))"
  using assms by (rule active_to_expired_cases)

text \<open>A state in which the scheduler has just been initialised.\<close>

lemma sched_inv_init:
  "sched_inv (init_sched zero_kstate)" "active_list (init_sched zero_kstate) = []"
  "expired_list (init_sched zero_kstate) = []"
  using circ_inv_fresh [of MAX_PROCESSES "0 :: u32"] circ_init
  by (auto simp: sched_inv_def init_sched_def zero_kstate_def active_queue_def expired_queue_def
      active_list_def expired_list_def circ_simps)

theorem active_to_expired_moves_witness:
  "snd (active_to_expired (fst (push_to_active 3 (init_sched zero_kstate)))) = 0 \<and>
   expired_list (fst (active_to_expired (fst (push_to_active 3 (init_sched zero_kstate))))) = [3]"
proof -
  let ?s = "fst (push_to_active 3 (init_sched zero_kstate))"
  have p: "sched_inv ?s" "active_list ?s = [3]" "expired_list ?s = []"
    using push_to_active_cases [OF sched_inv_init(1) surjective_pairing, of 3] sched_inv_init by simp_all
  show ?thesis using active_to_expired_moves [OF p(1) surjective_pairing] p by simp
qed

end
