(* ===== verification/Term.thy ===== *)
theory Term
  imports Proc File_Sys
begin

text \<open>
  The file operations of \<^verbatim>\<open>student-distrib/term.c\<close>: the terminals as files. A \<open>term_t *\<close> is an index
  into \<open>term_terms\<close> or the kernel's own \<open>term_global_ctx\<close>, whose screen is \<open>kern_screen\<close>. Reading is
  specified by a line editor on the list of keys, writing by the grid of \<^verbatim>\<open>Vga\<close>. The keyboard side
  of the terminals is in theory \<^verbatim>\<open>Term_Keys\<close>.
\<close>

section \<open>Terminals and their screens\<close>

datatype term_ref = Global | Term nat

fun get_term :: "kstate \<Rightarrow> term_ref \<Rightarrow> term_t" where
  "get_term s Global = term_global_ctx s"
| "get_term s (Term t) = term_terms s ! t"

fun upd_term :: "term_ref \<Rightarrow> (term_t \<Rightarrow> term_t) \<Rightarrow> kstate \<Rightarrow> kstate" where
  "upd_term Global f s = s\<lparr>term_global_ctx := f (term_global_ctx s)\<rparr>"
| "upd_term (Term t) f s = s\<lparr>term_terms := (term_terms s)[t := f (term_terms s ! t)]\<rparr>"

fun get_screen :: "kstate \<Rightarrow> term_ref \<Rightarrow> screen_t" where
  "get_screen s Global = kern_screen s"
| "get_screen s (Term t) = term_screen (term_terms s ! t)"

fun set_screen :: "term_ref \<Rightarrow> screen_t \<Rightarrow> kstate \<Rightarrow> kstate" where
  "set_screen Global sc s = s\<lparr>kern_screen := sc\<rparr>"
| "set_screen (Term t) sc s = upd_term (Term t) (\<lambda>x. x\<lparr>term_screen := sc\<rparr>) s"

text \<open>The screen operations of theory \<open>Vga\<close> on the screen of a terminal.\<close>

definition on_screen :: "(vid_mem \<times> screen_t \<Rightarrow> vid_mem \<times> screen_t) \<Rightarrow> term_ref \<Rightarrow> kstate \<Rightarrow> kstate" where
  "on_screen f t s =
     (case f (vmem (con s), get_screen s t) of (vm, sc) \<Rightarrow>
        set_screen t sc (s\<lparr>con := (con s)\<lparr>vmem := vm\<rparr>\<rparr>))"

definition screen_putc :: "term_ref \<Rightarrow> u8 \<Rightarrow> kstate \<Rightarrow> kstate" where
  "screen_putc t c s = on_screen (\<lambda>vs. term_putc vs c) t s"

definition update_screen_cursor :: "term_ref \<Rightarrow> kstate \<Rightarrow> kstate" where
  "update_screen_cursor t s = do_io (screen_update_cursor (get_screen s t)) s"

section \<open>Keys\<close>

abbreviation (input) KBD_KEY_NULL :: u16 where "KBD_KEY_NULL \<equiv> 0"

definition lower_codes :: "u8 list" where
  "lower_codes =
     [0, 0] @ chars ''`1234567890qwertyuiopasdfghjklzxcvbnm-=[]'' @ [92] @ chars '';'' @ [39] @ chars '',./ '' @
     replicate 62 0 @ [10, 9, 8] @ replicate 13 0"

definition upper_codes :: "u8 list" where
  "upper_codes =
     [0, 0] @ chars ''~!@#$%^&*()QWERTYUIOPASDFGHJKLZXCVBNM_+{}|:'' @ [34] @ chars ''<>? '' @
     replicate 62 0 @ [10, 9, 8] @ replicate 13 0"

text \<open>\<open>key_values[shift][key]\<close>; the caller has checked that \<open>key\<close> is below 128.\<close>

definition key_values :: "bool \<Rightarrow> u16 \<Rightarrow> u8" where
  "key_values shift key = (if shift then upper_codes else lower_codes) ! unat key"

section \<open>Initialisation\<close>

definition init_ctx :: "term_t \<Rightarrow> term_t" where
  "init_ctx t =
     t\<lparr>key_buf := CIRC_BUF_INIT (key_buf t), lctrl_held := False, rctrl_held := False, lshift_held := False,
       rshift_held := False, lalt_held := False, ralt_held := False, caps_lock := False\<rparr>"

definition init_term :: "nat \<Rightarrow> kstate \<Rightarrow> kstate" where
  "init_term i s =
     (let s = upd_term (Term i) (\<lambda>t. t\<lparr>term_screen := \<lparr>scr_video = VIDEO, scr_x = screen_x (con s), scr_y = screen_y (con s)\<rparr>\<rparr>) s;
          s = s\<lparr>term_pids := (term_pids s)[i := -1]\<rparr>
      in upd_term (Term i) init_ctx s)"

definition term_init_global_ctx :: "kstate \<Rightarrow> kstate \<times> int" where
  "term_init_global_ctx s =
     (let s = upd_term Global init_ctx s;
          s = s\<lparr>terminal_num := 0\<rparr>
      in (fold init_term [0..<NUM_TERMS] s, 0))"

section \<open>File operations\<close>

abbreviation (input) STDIN :: int where "STDIN \<equiv> 0"
abbreviation (input) STDOUT :: int where "STDOUT \<equiv> 1"

text \<open>
  The \<open>reserved\<close> member of the descriptor is not set by the code; only the clocks use it. \<open>None\<close>:
  the process has no terminal, and the code dereferences NULL.
\<close>

definition term_file :: file_t where
  "term_file = \<lparr>file_op = Some term_fops, inode_ptr = 0, file_pos = 0, file_flags = FILE_PRESENT OR FILE_OPEN, reserved = None\<rparr>"

definition term_open :: "kstate \<Rightarrow> pcb_ptr option \<Rightarrow> (kstate \<times> int) option" where
  "term_open s pcb =
     (case pcb of None \<Rightarrow> Some (s, -1)
      | Some p \<Rightarrow>
          let n = terminal_num s;
              s = (if parent (pcbs s p) = None
                   then upd_term (Term n) init_ctx (upd_pcb p (\<lambda>b. b\<lparr>term_ctx := Some n\<rparr>) s) else s);
              s = s\<lparr>term_pids := (term_pids s)[n := sint (pid (pcbs s p))]\<rparr>;
              s = upd_pcb p (\<lambda>b. b\<lparr>file_array := (file_array b)[0 := term_file, 1 := term_file]\<rparr>) s
          in if parent (pcbs s p) = None then
               let s = set_screen (Term n) ((get_screen s (Term n))\<lparr>scr_x := screen_x (con s), scr_y := screen_y (con s)\<rparr>) s
               in Some (update_screen_cursor (Term n) s, STDIN)
             else
               (case get_screen_ctx s (Some p) of
                  Some (Some t) \<Rightarrow> Some (update_screen_cursor (Term t) s, STDIN)
                | _ \<Rightarrow> None))"

definition term_close :: "kstate \<Rightarrow> pcb_ptr option \<Rightarrow> int \<Rightarrow> kstate \<times> int" where
  "term_close s p fd = (s, -1)"

text \<open>
  The loop of \<open>term_read\<close>, one iteration per call; \<open>c\<close> keeps its value over a yield. What happens
  to the kernel during the i-th yield is the parameter \<open>sched\<close>. \<open>None\<close> is a loop that never ends, or a
  character stored outside the buffer.
\<close>

definition read_key :: "nat \<Rightarrow> u8 \<Rightarrow> nat \<Rightarrow> u8 list \<Rightarrow> kstate \<Rightarrow> (kstate \<times> u8 list \<times> nat) option" where
  "read_key t c idx buf s =
     (if c = 8 then
        if idx > 0 then Some (update_screen_cursor (Term t) (screen_putc (Term t) c s), buf, idx - 1) else Some (s, buf, idx)
      else if c = 0 then Some (s, buf, 0)
      else map_option (\<lambda>buf. (s, buf, idx + 1)) (store buf idx c))"

partial_function (option) term_read_loop ::
  "(nat \<Rightarrow> kstate \<Rightarrow> kstate) \<Rightarrow> nat \<Rightarrow> nat \<Rightarrow> int \<Rightarrow> u8 \<Rightarrow> nat \<Rightarrow> u8 list \<Rightarrow> kstate \<Rightarrow> (kstate \<times> u8 list \<times> int) option" where
  "term_read_loop sched i t nbytes c idx buf s =
     (case snd (CIRC_BUF_POP (key_buf (term_terms s ! t))) of
        None \<Rightarrow>
          (if c \<noteq> 10 \<and> int idx < nbytes then term_read_loop sched (Suc i) t nbytes c idx buf (sched i s)
           else Some (sched i s, buf, int idx))
      | Some c' \<Rightarrow>
          (case read_key t c' idx buf (upd_term (Term t) (\<lambda>x. x\<lparr>key_buf := fst (CIRC_BUF_POP (key_buf x))\<rparr>) s) of
             None \<Rightarrow> None
           | Some r \<Rightarrow>
               if c' \<noteq> 10 \<and> int (snd (snd r)) < nbytes
               then term_read_loop sched i t nbytes c' (snd (snd r)) (fst (snd r)) (fst r)
               else Some (fst r, fst (snd r), int (snd (snd r)))))"

definition term_read ::
  "(nat \<Rightarrow> kstate \<Rightarrow> kstate) \<Rightarrow> kstate \<Rightarrow> pcb_ptr option \<Rightarrow> int \<Rightarrow> u8 list \<Rightarrow> int \<Rightarrow> (kstate \<times> u8 list \<times> int) option" where
  "term_read sched s pcb fd buf nbytes =
     (if fd \<noteq> STDIN then Some (s, buf, -1)
      else case get_term_ctx s pcb of
          None \<Rightarrow> None
        | Some None \<Rightarrow> Some (s, buf, -1)
        | Some (Some t) \<Rightarrow> term_read_loop sched 0 t nbytes 0 0 buf s)"

definition term_write :: "kstate \<Rightarrow> pcb_ptr option \<Rightarrow> int \<Rightarrow> u8 list \<Rightarrow> int \<Rightarrow> (kstate \<times> int) option" where
  "term_write s pcb fd buf nbytes =
     (if fd \<noteq> STDOUT then Some (s, -1)
      else case get_screen_ctx s pcb of
          None \<Rightarrow> None
        | Some None \<Rightarrow> Some (s, -1)
        | Some (Some t) \<Rightarrow>
            if nat nbytes \<le> length buf then
              let s = fold (screen_putc (Term t)) (take (nat nbytes) buf) s;
                  s = (if scr_video (get_screen s (Term t)) = VIDEO then update_screen_cursor (Term t) s else s)
              in Some (s, int (nat nbytes))
            else None)"

section \<open>Writing\<close>

definition term_console :: "kstate \<Rightarrow> nat \<Rightarrow> console" where
  "term_console s t = screen_console (vmem (con s)) (term_screen (term_terms s ! t))"

definition term_region :: "kstate \<Rightarrow> nat \<Rightarrow> vid_ptr" where
  "term_region s t = scr_video (term_screen (term_terms s ! t))"

text \<open>What an operation on the screen of terminal \<open>t\<close> leaves alone.\<close>

definition only_screen :: "nat \<Rightarrow> kstate \<Rightarrow> kstate \<Rightarrow> bool" where
  "only_screen t s s' \<longleftrightarrow>
     (\<forall>r. r \<noteq> term_region s t \<longrightarrow> vmem (con s') r = vmem (con s) r) \<and> term_region s' t = term_region s t \<and>
     length (term_terms s') = length (term_terms s) \<and> (\<forall>u. u \<noteq> t \<longrightarrow> term_terms s' ! u = term_terms s ! u) \<and>
     key_buf (term_terms s' ! t) = key_buf (term_terms s ! t) \<and> pcbs s' = pcbs s \<and> cur_pcb s' = cur_pcb s \<and> open_rtcs s' = open_rtcs s"

lemma only_screen_refl [simp]: "only_screen t s s"
  by (simp add: only_screen_def)

lemma only_screen_trans: "only_screen t s s' \<Longrightarrow> only_screen t s' s'' \<Longrightarrow> only_screen t s s''"
  by (simp add: only_screen_def)

lemma update_screen_cursor_keeps [simp]:
  "only_screen t s (update_screen_cursor r s)" "term_console (update_screen_cursor r s) t = term_console s t"
  by (simp_all add: update_screen_cursor_def do_io_def only_screen_def term_region_def term_console_def)

lemma screen_putc_grid:
  assumes "t < length (term_terms s)" "console_inv (term_console s t)" "\<not> bs_at_origin (term_console s t) c"
  shows "console_inv (term_console (screen_putc (Term t) c s) t) \<and>
    grid_of (term_console (screen_putc (Term t) c s) t) = grid_putc (grid_of (term_console s t)) c \<and>
    only_screen t s (screen_putc (Term t) c s)"
proof -
  obtain vm sc where p: "term_putc (vmem (con s), term_screen (term_terms s ! t)) c = (vm, sc)" by fastforce
  show ?thesis using term_putc_grid [OF _ _ p] assms p
    by (simp add: screen_putc_def on_screen_def term_console_def only_screen_def term_region_def)
qed

lemma screen_puts_grid:
  assumes "t < length (term_terms s)" "console_inv (term_console s t)" "8 \<notin> set cs"
  shows "console_inv (term_console (fold (screen_putc (Term t)) cs s) t) \<and>
    grid_of (term_console (fold (screen_putc (Term t)) cs s) t) = fold (\<lambda>c g. grid_putc g c) cs (grid_of (term_console s t)) \<and>
    only_screen t s (fold (screen_putc (Term t)) cs s)"
  using assms
proof (induction cs arbitrary: s)
  case (Cons c cs)
  let ?s = "screen_putc (Term t) c s"
  have "\<not> bs_at_origin (term_console s t) c" using Cons.prems by (auto simp: bs_at_origin_def)
  note step = screen_putc_grid [OF Cons.prems(1,2) this]
  then have "t < length (term_terms ?s)" using Cons.prems(1) by (simp add: only_screen_def)
  from Cons.IH [OF this] step Cons.prems show ?case by (auto intro: only_screen_trans)
qed simp

lemma term_write_stdout:
  assumes "get_term_ctx s pcb = Some (Some t)" "t < length (term_terms s)" "console_inv (term_console s t)"
    and "8 \<notin> set (take n buf)" "n \<le> length buf"
  shows "\<exists>s'. term_write s pcb STDOUT buf (int n) = Some (s', int n) \<and> console_inv (term_console s' t) \<and>
    grid_of (term_console s' t) = fold (\<lambda>c g. grid_putc g c) (take n buf) (grid_of (term_console s t)) \<and>
    only_screen t s s'"
proof -
  let ?s = "fold (screen_putc (Term t)) (take n buf) s"
  let ?s' = "if scr_video (get_screen ?s (Term t)) = VIDEO then update_screen_cursor (Term t) ?s else ?s"
  have "term_write s pcb STDOUT buf (int n) = Some (?s', int n)"
    using assms by (simp add: term_write_def get_screen_ctx_def Let_def)
  moreover have "term_console ?s' t = term_console ?s t" "only_screen t ?s ?s'" by simp_all
  ultimately show ?thesis using screen_puts_grid [OF assms(2-4)] only_screen_trans [of t s ?s ?s'] by simp
qed

section \<open>Reading\<close>

text \<open>
  The line editor: backspace deletes the last character, a zero key (screen cleared) starts the line
  over, and the line is complete at a newline or when it is long enough. \<open>None\<close>: more keys needed.
\<close>

fun edit_line :: "int \<Rightarrow> u8 list \<Rightarrow> u8 list \<Rightarrow> (u8 list \<times> u8 list) option" where
  "edit_line n acc [] = None"
| "edit_line n acc (k # ks) =
     (let acc' = (if k = 8 then butlast acc else if k = 0 then [] else acc @ [k])
      in if k \<noteq> 10 \<and> int (length acc') < n then edit_line n acc' ks else Some (acc', ks))"

definition keys :: "kstate \<Rightarrow> nat \<Rightarrow> u8 list" where
  "keys s t = circ_list (key_buf (term_terms s ! t))"

definition term_ok :: "kstate \<Rightarrow> nat \<Rightarrow> bool" where
  "term_ok s t \<longleftrightarrow> t < length (term_terms s) \<and> circ_inv (key_buf (term_terms s ! t))"

lemma screen_putc_keeps:
  "key_buf (term_terms (screen_putc (Term t) c s) ! t) = key_buf (term_terms s ! t)"
  "length (term_terms (screen_putc (Term t) c s)) = length (term_terms s)"
  by (cases "t < length (term_terms s)";
      auto simp: screen_putc_def on_screen_def nth_list_update list_update_beyond split: prod.splits)+

lemma update_screen_cursor_terms [simp]: "term_terms (update_screen_cursor r s) = term_terms s"
  by (simp add: update_screen_cursor_def do_io_def)

lemma read_key_edits:
  assumes "take idx buf = acc" "idx \<le> length buf" "length acc < length buf"
  shows "\<exists>s' buf' idx'. read_key t k idx buf s = Some (s', buf', idx') \<and>
     take idx' buf' = (if k = 8 then butlast acc else if k = 0 then [] else acc @ [k]) \<and>
     idx' = length (if k = 8 then butlast acc else if k = 0 then [] else acc @ [k]) \<and> length buf' = length buf \<and>
     key_buf (term_terms s' ! t) = key_buf (term_terms s ! t) \<and> length (term_terms s') = length (term_terms s)"
proof -
  have acc: "length acc = idx" using assms by auto
  then have lt: "idx < length buf" using assms(3) by simp
  consider "k = 8" | "k \<noteq> 8" "k = 0" | "k \<noteq> 8" "k \<noteq> 0" by blast
  then show ?thesis
  proof cases
    case 1
    then show ?thesis using assms(1,2) acc lt
      by (cases "idx > 0") (auto simp: read_key_def screen_putc_keeps butlast_take)
  next
    case 2
    then show ?thesis by (simp add: read_key_def)
  next
    case 3
    then show ?thesis using assms(1) acc lt by (simp add: read_key_def store_def take_Suc_conv_app_nth)
  qed
qed

lemma term_read_loop_edits:
  assumes "edit_line nbytes acc (keys s t) = Some (line, rest)" "term_ok s t"
    and "take idx buf = acc" "length acc = idx" "nbytes \<le> int (length buf)" "int idx < nbytes"
  shows "\<exists>s' buf'. term_read_loop sched i t nbytes c idx buf s = Some (s', buf', int (length line)) \<and>
    take (length line) buf' = line \<and> length buf' = length buf \<and> keys s' t = rest \<and> term_ok s' t"
  using assms
proof (induction "keys s t" arbitrary: s acc idx buf c)
  case Nil
  then show ?case by simp
next
  case (Cons k ks)
  let ?q = "key_buf (term_terms s ! t)"
  let ?acc = "if k = 8 then butlast acc else if k = 0 then [] else acc @ [k]"
  obtain q r where pop: "CIRC_BUF_POP ?q = (q, r)" by fastforce
  have q: "circ_inv q" "r = Some k" "circ_list q = ks"
    using circ_pop_ok [OF _ _ pop, of k ks] Cons.prems(2) Cons.hyps(2) by (simp_all add: term_ok_def keys_def)
  let ?s = "upd_term (Term t) (\<lambda>x. x\<lparr>key_buf := fst (CIRC_BUF_POP (key_buf x))\<rparr>) s"
  have t: "t < length (term_terms s)" using Cons.prems(2) by (simp add: term_ok_def)
  have "idx \<le> length buf" "length acc < length buf" using Cons.prems(4-6) by simp_all
  then obtain s1 buf1 idx1 where rk: "read_key t k idx buf ?s = Some (s1, buf1, idx1)" "take idx1 buf1 = ?acc"
    "idx1 = length ?acc" "length buf1 = length buf" "key_buf (term_terms s1 ! t) = key_buf (term_terms ?s ! t)"
    "length (term_terms s1) = length (term_terms ?s)"
    using read_key_edits [of idx buf acc t k ?s] Cons.prems(3) by blast
  have s1: "keys s1 t = ks" "term_ok s1 t" using rk(5,6) q t pop by (simp_all add: keys_def term_ok_def)
  have step: "term_read_loop sched i t nbytes c idx buf s =
      (if k \<noteq> 10 \<and> int idx1 < nbytes then term_read_loop sched i t nbytes k idx1 buf1 s1 else Some (s1, buf1, int idx1))"
    using pop q(2) rk(1) by (subst term_read_loop.simps) simp
  have e: "(if k \<noteq> 10 \<and> int idx1 < nbytes then edit_line nbytes ?acc ks else Some (?acc, ks)) = Some (line, rest)"
    using Cons.prems(1) unfolding Cons.hyps(2) [symmetric] rk(3) by (simp only: edit_line.simps Let_def)
  show ?case
  proof (cases "k \<noteq> 10 \<and> int idx1 < nbytes")
    case True
    then have "edit_line nbytes ?acc (keys s1 t) = Some (line, rest)" using e s1(1) by simp
    from Cons.hyps(1) [OF s1(1) [symmetric] this s1(2) rk(2) rk(3) [symmetric]] Cons.prems(5) rk(4) True
    show ?thesis unfolding step by simp
  next
    case False
    then have "Some (?acc, ks) = Some (line, rest)" using e by (simp only: if_False)
    then have l: "line = ?acc" "rest = ks" by blast+
    have "term_read_loop sched i t nbytes c idx buf s = Some (s1, buf1, int (length line))"
      unfolding step l(1) rk(3) [symmetric] using False by (simp only: if_False)
    moreover have "take (length line) buf1 = line" unfolding l(1) using rk(2,3) by (simp only:)
    ultimately show ?thesis using rk(4) s1 l(2) by blast
  qed
qed

section \<open>Properties\<close>

text \<open>
  \<open>term_write\<close> to standard output prints: the bytes go, in order, onto the 25x80 grid of the
  terminal of the process (wherever its text memory currently is), the call returns their number,
  and no other terminal, region or process changes.\<close>

theorem term_write_prints:
  assumes "get_term_ctx s pcb = Some (Some t)" "t < length (term_terms s)" "console_inv (term_console s t)"
    and "8 \<notin> set (take n buf)" "n \<le> length buf"
  shows "\<exists>s'. term_write s pcb STDOUT buf (int n) = Some (s', int n) \<and> console_inv (term_console s' t) \<and>
    grid_of (term_console s' t) = fold (\<lambda>c g. grid_putc g c) (take n buf) (grid_of (term_console s t)) \<and>
    only_screen t s s'"
  using assms by (rule term_write_stdout)

lemma term_read_edited:
  assumes "get_term_ctx s pcb = Some (Some t)" "term_ok s t" "edit_line nbytes [] (keys s t) = Some (line, rest)"
    and "0 < nbytes" "nbytes \<le> int (length buf)"
  shows "\<exists>s' buf'. term_read sched s pcb STDIN buf nbytes = Some (s', buf', int (length line)) \<and>
    take (length line) buf' = line \<and> length buf' = length buf \<and> keys s' t = rest \<and> term_ok s' t"
  using term_read_loop_edits [OF assms(3,2), of 0 buf sched 0 0] assms by (simp add: term_read_def)

text \<open>
  \<open>term_read\<close> returns the line that the keys in the terminal's buffer spell under the line editor
  (backspace, restart on a cleared screen, end at a newline or at \<open>nbytes\<close> characters), without
  yielding, and leaves the keys after the line in the buffer.\<close>

theorem term_read_edits_line:
  assumes "get_term_ctx s pcb = Some (Some t)" "term_ok s t" "edit_line nbytes [] (keys s t) = Some (line, rest)"
    and "0 < nbytes" "nbytes \<le> int (length buf)"
  shows "\<exists>s' buf'. term_read sched s pcb STDIN buf nbytes = Some (s', buf', int (length line)) \<and>
    take (length line) buf' = line \<and> length buf' = length buf \<and> keys s' t = rest \<and> term_ok s' t"
  using assms by (rule term_read_edited)

text \<open>
  A read of zero bytes still takes a key and stores it at the start of the buffer, one byte
  past what the caller allowed, and returns 1.\<close>

theorem term_read_zero_overruns:
  assumes "get_term_ctx s pcb = Some (Some t)" "term_ok s t" "keys s t = k # ks" "k \<noteq> 8" "k \<noteq> 0" "buf \<noteq> []"
  shows "\<exists>s'. term_read sched s pcb STDIN buf 0 = Some (s', buf[0 := k], 1)"
proof -
  obtain q r where pop: "CIRC_BUF_POP (key_buf (term_terms s ! t)) = (q, r)" by fastforce
  then have "r = Some k" using circ_pop_ok(2) [OF _ _ pop, of k ks] assms(2,3) by (simp add: term_ok_def keys_def)
  then show ?thesis using assms pop
    by (simp add: term_read_def read_key_def store_def term_read_loop.simps)
qed

text \<open>Process 1 on terminal 0, with the cursor at the left margin and three keys typed.\<close>

definition sample_term :: kstate where
  "sample_term =
     upd_term (Term 0) (\<lambda>t. t\<lparr>key_buf := fold (\<lambda>c q. fst (CIRC_BUF_PUSH q c)) [104, 105, 10] (key_buf t)\<rparr>)
       (upd_pcb 1 (\<lambda>b. b\<lparr>term_ctx := Some 0\<rparr>) zero_kstate)"

lemma sample_term_keys: "term_ok sample_term 0" "keys sample_term 0 = [104, 105, 10]"
proof -
  have "circ_inv (CIRC_BUF_TYPE (0 :: u8) 128)" by (rule circ_inv_fresh) simp
  from circ.enq_many [OF this, of "[104, 105, 10]"]
  show "term_ok sample_term 0" "keys sample_term 0 = [104, 105, 10]"
    by (simp_all add: sample_term_def zero_kstate_def zero_term_def term_ok_def keys_def circ_simps upd_pcb_def)
qed

lemma sample_term_ctx: "get_term_ctx sample_term (Some 1) = Some (Some 0)"
proof -
  have p: "pcbs sample_term 1 = zero_pcb\<lparr>term_ctx := Some 0\<rparr>"
    by (simp add: sample_term_def upd_pcb_def zero_kstate_def)
  then have "root_pcb (pcbs sample_term) 1 = Some 1" by (subst root_pcb.simps) (simp add: zero_pcb_def)
  then show ?thesis using p by (simp add: get_term_ctx_def)
qed

theorem term_write_prints_witness:
  "\<exists>s'. term_write sample_term (Some 1) STDOUT [65, 66] 2 = Some (s', 2)"
proof -
  have "console_inv (term_console sample_term 0)" "0 < length (term_terms sample_term)"
    by (simp_all add: console_inv_def term_console_def screen_console_def sample_term_def zero_kstate_def zero_term_def upd_pcb_def)
  then show ?thesis using term_write_prints [OF sample_term_ctx, of 2 "[65, 66]"] by auto
qed

theorem term_read_edits_line_witness:
  "\<exists>s' buf'. term_read (\<lambda>i s. s) sample_term (Some 1) STDIN [0, 0, 0, 0] 4 = Some (s', buf', 3) \<and> take 3 buf' = [104, 105, 10]"
  using term_read_edits_line [OF sample_term_ctx sample_term_keys(1), of 4 "[104, 105, 10]" "[]" "[0, 0, 0, 0]" "\<lambda>i s. s"]
  by (auto simp: sample_term_keys numeral_3_eq_3)

theorem term_read_zero_overruns_witness:
  "\<exists>s'. term_read (\<lambda>i s. s) sample_term (Some 1) STDIN [0] 0 = Some (s', [104], 1)"
  using term_read_zero_overruns [OF sample_term_ctx sample_term_keys, of "[0]" "\<lambda>i s. s"] by simp

end
