(* ===== verification/Video_Switch.thy ===== *)
theory Video_Switch
  imports Term
begin

text \<open>
  \<open>switch_to_fake_video_memory\<close> and \<open>switch_from_fake_video_memory\<close> of \<^verbatim>\<open>student-distrib/paging.c\<close>: when
  a terminal leaves the screen, the text memory of its processes is replaced by the fake memory of
  the terminal, in their page directories and in the \<open>video\<close> pointer of its screen, and the page is
  copied; the way back is symmetric. The copy between the two 64 KiB regions is made under a page
  directory that maps both, so it is a copy of regions.
\<close>

section \<open>Operations\<close>

definition set_pdbr :: "nat \<Rightarrow> kstate \<Rightarrow> kstate" where
  "set_pdbr d s = s\<lparr>pg := (pg s)\<lparr>pdbr := d\<rparr>\<rparr>"

definition fake_addr :: "kstate \<Rightarrow> nat \<Rightarrow> u32" where
  "fake_addr s t = fake_video_mem (pg s) + of_nat t * 0x10000"

text \<open>The body of the loops over a process and its ancestors: \<open>vidmem\<close> is mapped in at \<open>fake\<close> and at \<open>USER_VID\<close>.\<close>

definition remap_proc :: "(pt_ref \<Rightarrow> u32) \<Rightarrow> u32 \<Rightarrow> u32 \<Rightarrow> nat \<Rightarrow> pcb \<Rightarrow> paging \<Rightarrow> paging" where
  "remap_proc addr vidmem fake t b g =
     (let g = map_video_mem addr vidmem fake (page_directory b) (Video_Memories t) (PG_WRITE OR PG_USER) g
      in if has_video_mapped b
         then map_video_mem addr vidmem USER_VID (page_directory b) (User_Video_Mems t) (PG_WRITE OR PG_USER) g
         else g)"

text \<open>\<open>for (; pcb; pcb = pcb->parent)\<close>, with the last directory touched; \<open>None\<close> when it does not end.\<close>

partial_function (option) remap_loop ::
  "(pt_ref \<Rightarrow> u32) \<Rightarrow> u32 \<Rightarrow> u32 \<Rightarrow> nat \<Rightarrow> (pcb_ptr \<Rightarrow> pcb) \<Rightarrow> pcb_ptr \<Rightarrow> paging \<Rightarrow> (paging \<times> nat) option" where
  "remap_loop addr vidmem fake t bs p g =
     (case parent (bs p) of
        None \<Rightarrow> Some (remap_proc addr vidmem fake t (bs p) g, page_directory (bs p))
      | Some q \<Rightarrow> remap_loop addr vidmem fake t bs q (remap_proc addr vidmem fake t (bs p) g))"

definition set_video :: "nat \<Rightarrow> vid_ptr \<Rightarrow> kstate \<Rightarrow> kstate" where
  "set_video t v s = set_screen (Term t) ((get_screen s (Term t))\<lparr>scr_video := v\<rparr>) s"

definition switch_to_fake_video_memory :: "(pt_ref \<Rightarrow> u32) \<Rightarrow> kstate \<Rightarrow> pcb_ptr option \<Rightarrow> (kstate \<times> int) option" where
  "switch_to_fake_video_memory addr s pcb =
     (case pcb of None \<Rightarrow> Some (s, -1)
      | Some p \<Rightarrow>
          let flags = iflag s; s = s\<lparr>iflag := False\<rparr> in
          (case get_term_ctx s (Some p) of
             Some (Some t) \<Rightarrow>
               let fake = fake_addr s t; old_pdbr = pdbr (pg s) in
               (case remap_loop addr fake fake t (pcbs s) p (pg s) of
                  None \<Rightarrow> None
                | Some (g, proc_pd) \<Rightarrow>
                    let s = set_pdbr proc_pd (s\<lparr>pg := g\<rparr>);
                        s = set_video t (get_term_fake_vid_mem t) s;
                        s = s\<lparr>con := (con s)\<lparr>vmem := screen_save (vmem (con s)) (get_screen s (Term t))\<rparr>\<rparr>;
                        s = set_pdbr old_pdbr s
                    in Some (s\<lparr>iflag := flags\<rparr>, 0))
           | _ \<Rightarrow> None))"

definition switch_from_fake_video_memory :: "(pt_ref \<Rightarrow> u32) \<Rightarrow> kstate \<Rightarrow> pcb_ptr option \<Rightarrow> (kstate \<times> int) option" where
  "switch_from_fake_video_memory addr s pcb =
     (case pcb of None \<Rightarrow> Some (s, -1)
      | Some p \<Rightarrow>
          let flags = iflag s; s = s\<lparr>iflag := False\<rparr> in
          (case get_term_ctx s (Some p) of
             Some (Some t) \<Rightarrow>
               let fake = fake_addr s t; old_pdbr = pdbr (pg s);
                   s = set_pdbr (page_directory (pcbs s p)) s in
               (case screen_restore (vmem (con s)) (get_screen s (Term t)) of (vm, es) \<Rightarrow>
                  let s = do_io es (s\<lparr>con := (con s)\<lparr>vmem := vm\<rparr>\<rparr>) in
                  (case remap_loop addr VIDEO_ADDR fake t (pcbs s) p (pg s) of
                     None \<Rightarrow> None
                   | Some (g, proc_pd) \<Rightarrow>
                       let s = set_video t VIDEO (s\<lparr>pg := g\<rparr>);
                           s = set_pdbr old_pdbr s
                       in Some (s\<lparr>iflag := flags\<rparr>, 0)))
           | _ \<Rightarrow> None))"

section \<open>A process and its ancestors\<close>

fun lineage :: "(pcb_ptr \<Rightarrow> pcb) \<Rightarrow> pcb_ptr list \<Rightarrow> bool" where
  "lineage bs [] = False"
| "lineage bs [p] = (parent (bs p) = None)"
| "lineage bs (p # q # ps) = (parent (bs p) = Some q \<and> lineage bs (q # ps))"

lemma root_pcb_lineage: "lineage bs (p # ps) \<Longrightarrow> root_pcb bs p = Some (last (p # ps))"
  by (induction ps arbitrary: p) (auto simp: root_pcb.simps)

lemma remap_loop_lineage:
  "lineage bs (p # ps) \<Longrightarrow>
     remap_loop addr vid fake t bs p g =
       Some (fold (\<lambda>q. remap_proc addr vid fake t (bs q)) (p # ps) g, page_directory (bs (last (p # ps))))"
  by (induction ps arbitrary: p g) (auto simp: remap_loop.simps)

lemma get_term_ctx_lineage:
  "lineage (pcbs s) (p # ps) \<Longrightarrow> get_term_ctx s (Some p) = Some (term_ctx (pcbs s (last (p # ps))))"
  by (simp add: get_term_ctx_def root_pcb_lineage)

section \<open>The mappings of a group\<close>

lemma vid_mapped_keep_same:
  "vid_window virt \<Longrightarrow> vid_mapped addr vid virt d t flags g \<Longrightarrow>
     vid_mapped addr vid virt d t flags (map_video_mem addr vid virt d' t flags g)"
  unfolding vid_mapped_def map_video_mem_eq by (simp add: Let_def)

lemma vid_mapped_keep_other:
  assumes "vid_window virt'" "t' \<noteq> t" "PAGE_DIR_IDX virt' \<noteq> PAGE_DIR_IDX virt" "vid_mapped addr vid virt d t flags g"
  shows "vid_mapped addr vid virt d t flags (map_video_mem addr vid' virt' d' t' flags' g)"
proof -
  have "unat (PAGE_DIR_IDX virt') \<noteq> unat (PAGE_DIR_IDX virt)" using assms(3) by (simp add: word_unat_eq_iff)
  then show ?thesis using assms(2,4) unfolding vid_mapped_def map_video_mem_eq [OF assms(1)] by auto
qed

lemma USER_VID_idx: "PAGE_DIR_IDX USER_VID = 34"
  by (simp add: PAGE_DIR_IDX_def)

lemma remap_proc_maps:
  assumes "vid_window fake" "PAGE_DIR_IDX fake \<noteq> 34"
  shows "has_video_mapped b \<Longrightarrow>
      vid_mapped addr vid USER_VID (page_directory b) (User_Video_Mems t) (PG_WRITE OR PG_USER) (remap_proc addr vid fake t b g)"
    and "vid_mapped addr vid USER_VID d (User_Video_Mems t) (PG_WRITE OR PG_USER) g \<Longrightarrow>
      vid_mapped addr vid USER_VID d (User_Video_Mems t) (PG_WRITE OR PG_USER) (remap_proc addr vid fake t b g)"
  using assms USER_VID_idx
  by (auto simp: remap_proc_def Let_def vid_window_USER_VID simp del: or_numerals
      intro!: vid_mapped_map vid_mapped_keep_same vid_mapped_keep_other)

lemma fold_remap_maps:
  assumes "vid_window fake" "PAGE_DIR_IDX fake \<noteq> 34"
    and "(\<exists>q \<in> set ps. page_directory (bs q) = d \<and> has_video_mapped (bs q)) \<or>
      vid_mapped addr vid USER_VID d (User_Video_Mems t) (PG_WRITE OR PG_USER) g"
  shows "vid_mapped addr vid USER_VID d (User_Video_Mems t) (PG_WRITE OR PG_USER)
    (fold (\<lambda>q. remap_proc addr vid fake t (bs q)) ps g)"
  using assms(3)
proof (induction ps arbitrary: g)
  case (Cons q ps)
  then show ?case using remap_proc_maps [OF assms(1,2)] by (fastforce simp del: or_numerals)
qed simp

lemma fake_windows:
  assumes "fake_video_mem (pg s) = 0x3000000" "t < NUM_TERMS"
  shows "vid_window (fake_addr s t)" "PAGE_DIR_IDX (fake_addr s t) \<noteq> 34"
    "unat (fake_addr s t) mod 4096 = 0" "unat (fake_addr s t) + 65536 \<le> 2 ^ 32"
proof -
  have "t = 0 \<or> t = 1 \<or> t = 2 \<or> t = 3" using assms(2) by presburger
  then show "vid_window (fake_addr s t)" "PAGE_DIR_IDX (fake_addr s t) \<noteq> 34"
    "unat (fake_addr s t) mod 4096 = 0" "unat (fake_addr s t) + 65536 \<le> 2 ^ 32"
    using assms(1) by (auto simp: fake_addr_def vid_window_def PAGE_DIR_IDX_def)
qed

lemma tables_of_terms: "t < NUM_TERMS \<Longrightarrow> User_Video_Mems t \<in> set all_tables"
  by (simp add: all_tables_def)

text \<open>User code of a process that has mapped the video memory reaches \<open>vid\<close>.\<close>

definition user_video_at :: "(pt_ref \<Rightarrow> u32) \<Rightarrow> paging \<Rightarrow> nat \<Rightarrow> u32 \<Rightarrow> bool" where
  "user_video_at addr g d vid \<longleftrightarrow>
     (\<forall>k < 65536. walk addr g d True (USER_VID + of_nat k) = Some (vid + of_nat k))"

lemma vid_flags: "\<not> bit (PG_WRITE OR PG_USER) 7" "bit (PG_WRITE OR PG_USER) 2"
  by (simp_all add: bit_simps)

lemma user_video_mapped:
  assumes "linked addr" "t < NUM_TERMS" "unat vid mod 4096 = 0" "unat vid + 65536 \<le> 2 ^ 32"
    and "vid_mapped addr vid USER_VID d (User_Video_Mems t) (PG_WRITE OR PG_USER) g"
  shows "user_video_at addr g d vid"
  unfolding user_video_at_def
  using walk_vid_mapped [OF assms(1) tables_of_terms [OF assms(2)] vid_window_USER_VID assms(3,4) vid_flags(1) _ assms(5), of _ True]
    vid_flags(2) by simp

lemma group_video:
  assumes "linked addr" "t < NUM_TERMS" "unat vid mod 4096 = 0" "unat vid + 65536 \<le> 2 ^ 32"
    and "fake_video_mem (pg s) = 0x3000000" "q \<in> set ps" "has_video_mapped (bs q)"
  shows "user_video_at addr (fold (\<lambda>q. remap_proc addr vid (fake_addr s t) t (bs q)) ps g) (page_directory (bs q)) vid"
  by (rule user_video_mapped [OF assms(1-4) fold_remap_maps [OF fake_windows(1,2) [OF assms(5,2)]]]) (use assms(6,7) in blast)

lemma walk_pdbr [simp]: "walk addr (g\<lparr>pdbr := d'\<rparr>) d user va = walk addr g d user va"
  by (simp add: walk_def Let_def cong: option.case_cong)

lemma user_video_pdbr [simp]: "user_video_at addr (g\<lparr>pdbr := d'\<rparr>) d vid = user_video_at addr g d vid"
  by (simp add: user_video_at_def)

section \<open>The two switches\<close>

text \<open>A group of processes on terminal \<open>t\<close>: \<open>p\<close>, its ancestors, and the paging data they rely on.\<close>

definition video_group :: "(pt_ref \<Rightarrow> u32) \<Rightarrow> kstate \<Rightarrow> nat \<Rightarrow> pcb_ptr list \<Rightarrow> bool" where
  "video_group addr s t ps \<longleftrightarrow> lineage (pcbs s) ps \<and> term_ctx (pcbs s (last ps)) = Some t \<and>
     t < NUM_TERMS \<and> t < length (term_terms s) \<and> fake_video_mem (pg s) = 0x3000000 \<and> linked addr"

text \<open>The mappings of another group, on another terminal and in other page directories, are not touched.\<close>

lemma vid_mapped_other_dir:
  "vid_window virt' \<Longrightarrow> t' \<noteq> t \<Longrightarrow> d' \<noteq> d \<Longrightarrow> vid_mapped addr vid virt d t flags g \<Longrightarrow>
     vid_mapped addr vid virt d t flags (map_video_mem addr vid' virt' d' t' flags' g)"
  unfolding vid_mapped_def map_video_mem_eq by simp

lemma fold_remap_keeps:
  assumes "vid_window fake" "u \<noteq> t" "\<forall>q \<in> set ps. page_directory (bs q) \<noteq> d"
    and "vid_mapped addr vid USER_VID d (User_Video_Mems u) flags g"
  shows "vid_mapped addr vid USER_VID d (User_Video_Mems u) flags (fold (\<lambda>q. remap_proc addr vid' fake t (bs q)) ps g)"
  using assms(3,4)
proof (induction ps arbitrary: g)
  case (Cons q ps)
  have "vid_mapped addr vid USER_VID d (User_Video_Mems u) flags (remap_proc addr vid' fake t (bs q) g)"
    using Cons.prems assms(1,2) by (auto simp: remap_proc_def Let_def intro!: vid_mapped_other_dir vid_window_USER_VID)
  with Cons show ?case by simp
qed simp

text \<open>What a switch of terminal \<open>t\<close> leaves alone: the keys of all terminals, and the screens of the others.\<close>

definition keys_part :: "term_t \<Rightarrow> term_t" where
  "keys_part x = x\<lparr>term_screen := \<lparr>scr_video = VIDEO, scr_x = 0, scr_y = 0\<rparr>\<rparr>"

definition other_terms_kept :: "nat \<Rightarrow> kstate \<Rightarrow> kstate \<Rightarrow> bool" where
  "other_terms_kept t s s' \<longleftrightarrow> term_pids s' = term_pids s \<and> terminal_num s' = terminal_num s \<and>
     length (term_terms s') = length (term_terms s) \<and> (\<forall>u. u \<noteq> t \<longrightarrow> term_terms s' ! u = term_terms s ! u) \<and>
     (\<forall>u. keys_part (term_terms s' ! u) = keys_part (term_terms s ! u)) \<and>
     fake_video_mem (pg s') = fake_video_mem (pg s) \<and> cur_pcb s' = cur_pcb s"

lemma remap_proc_fields [simp]:
  "fake_video_mem (remap_proc addr vid fake t b g) = fake_video_mem g" "pdbr (remap_proc addr vid fake t b g) = pdbr g"
proof -
  have f: "fake_video_mem (fold (\<lambda>i. set_pte u (f i) (e i)) is h) = fake_video_mem h"
    "pdbr (fold (\<lambda>i. set_pte u (f i) (e i)) is h) = pdbr h" for u f e "is" h
    by (induction "is" arbitrary: h) (simp_all add: set_pte_def)
  show "fake_video_mem (remap_proc addr vid fake t b g) = fake_video_mem g" "pdbr (remap_proc addr vid fake t b g) = pdbr g"
    by (simp_all add: remap_proc_def map_video_mem_def set_pde_def clear_page_table_def f Let_def)
qed

lemma fold_remap_fields [simp]:
  "fake_video_mem (fold (\<lambda>q. remap_proc addr vid fake t (bs q)) ps g) = fake_video_mem g"
  "pdbr (fold (\<lambda>q. remap_proc addr vid fake t (bs q)) ps g) = pdbr g"
  by (induction ps arbitrary: g) simp_all

lemma switch_to_fake_group:
  assumes "video_group addr s t (p # ps)"
  shows "\<exists>s'. switch_to_fake_video_memory addr s (Some p) = Some (s', 0) \<and>
    term_region s' t = FAKE t \<and>
    vmem (con s') = copy_video (vmem (con s)) (FAKE t) VIDEO \<and>
    scr_x (term_screen (term_terms s' ! t)) = scr_x (term_screen (term_terms s ! t)) \<and>
    scr_y (term_screen (term_terms s' ! t)) = scr_y (term_screen (term_terms s ! t)) \<and>
    (\<forall>q \<in> set (p # ps). has_video_mapped (pcbs s q) \<longrightarrow>
       user_video_at addr (pg s') (page_directory (pcbs s q)) (fake_addr s t)) \<and>
    pcbs s' = pcbs s \<and> pdbr (pg s') = pdbr (pg s) \<and> iflag s' = iflag s \<and> video_group addr s' t (p # ps) \<and>
    other_terms_kept t s s' \<and>
    pg s' = (fold (\<lambda>q. remap_proc addr (fake_addr s t) (fake_addr s t) t (pcbs s q)) (p # ps) (pg s))\<lparr>pdbr := pdbr (pg s)\<rparr>"
proof -
  note g = assms [unfolded video_group_def]
  have t: "get_term_ctx (s\<lparr>iflag := False\<rparr>) (Some p) = Some (Some t)"
    using g get_term_ctx_lineage [of "s\<lparr>iflag := False\<rparr>" p ps] by simp
  have fa: "fake_addr (s\<lparr>iflag := False\<rparr>) t = fake_addr s t" by (simp add: fake_addr_def)
  let ?f = "\<lambda>q. remap_proc addr (fake_addr s t) (fake_addr s t) t (pcbs s q)"
  have loop: "remap_loop addr (fake_addr s t) (fake_addr s t) t (pcbs s) p (pg s) =
      Some (fold ?f (p # ps) (pg s), page_directory (pcbs s (last (p # ps))))"
    using g by (intro remap_loop_lineage) simp
  have maps: "user_video_at addr (fold ?f (p # ps) (pg s)) (page_directory (pcbs s q)) (fake_addr s t)"
    if "q \<in> set (p # ps)" "has_video_mapped (pcbs s q)" for q
    using g fake_windows [of s t] by (intro group_video that) auto
  show ?thesis
    using g t loop maps
    by (simp add: switch_to_fake_video_memory_def fa set_pdbr_def set_video_def get_term_fake_vid_mem_def
        screen_save_def term_region_def video_group_def other_terms_kept_def keys_part_def nth_list_update Let_def del: fold.simps last.simps)
qed

lemma switch_from_fake_group:
  assumes "video_group addr s t (p # ps)"
  shows "\<exists>s'. switch_from_fake_video_memory addr s (Some p) = Some (s', 0) \<and>
    term_region s' t = VIDEO \<and>
    vmem (con s') = copy_video (vmem (con s)) VIDEO (term_region s t) \<and>
    scr_x (term_screen (term_terms s' ! t)) = scr_x (term_screen (term_terms s ! t)) \<and>
    scr_y (term_screen (term_terms s' ! t)) = scr_y (term_screen (term_terms s ! t)) \<and>
    (\<forall>q \<in> set (p # ps). has_video_mapped (pcbs s q) \<longrightarrow>
       user_video_at addr (pg s') (page_directory (pcbs s q)) VIDEO_ADDR) \<and>
    pcbs s' = pcbs s \<and> pdbr (pg s') = pdbr (pg s) \<and> iflag s' = iflag s \<and> other_terms_kept t s s' \<and>
    pg s' = (fold (\<lambda>q. remap_proc addr VIDEO_ADDR (fake_addr s t) t (pcbs s q)) (p # ps)
      ((pg s)\<lparr>pdbr := page_directory (pcbs s p)\<rparr>))\<lparr>pdbr := pdbr (pg s)\<rparr>"
proof -
  note g = assms [unfolded video_group_def]
  have t: "get_term_ctx (s\<lparr>iflag := False\<rparr>) (Some p) = Some (Some t)"
    using g get_term_ctx_lineage [of "s\<lparr>iflag := False\<rparr>" p ps] by simp
  have fa: "fake_addr (s\<lparr>iflag := False\<rparr>) t = fake_addr s t" by (simp add: fake_addr_def)
  let ?f = "\<lambda>q. remap_proc addr VIDEO_ADDR (fake_addr s t) t (pcbs s q)"
  let ?g = "(pg s)\<lparr>pdbr := page_directory (pcbs s p)\<rparr>"
  have loop: "remap_loop addr VIDEO_ADDR (fake_addr s t) t (pcbs s) p ?g =
      Some (fold ?f (p # ps) ?g, page_directory (pcbs s (last (p # ps))))"
    using g by (intro remap_loop_lineage) simp
  have maps: "user_video_at addr (fold ?f (p # ps) ?g) (page_directory (pcbs s q)) VIDEO_ADDR"
    if "q \<in> set (p # ps)" "has_video_mapped (pcbs s q)" for q
    using g by (intro group_video that) auto
  show ?thesis
    using g t loop maps
    by (simp add: switch_from_fake_video_memory_def fa set_pdbr_def set_video_def do_io_def
        screen_restore_def term_region_def other_terms_kept_def keys_part_def nth_list_update Let_def del: fold.simps last.simps)
qed

section \<open>Properties\<close>

text \<open>
  When a terminal leaves the screen, the visible page is saved in the terminal's own fake
  memory, its screen points there with the cursor unchanged, and every process of the group that
  had mapped the video memory now reaches the fake memory of its terminal through the same user
  addresses; the current page directory and the interrupt flag are restored.\<close>

theorem terminal_leaves_screen:
  assumes "video_group addr s t (p # ps)"
  shows "\<exists>s'. switch_to_fake_video_memory addr s (Some p) = Some (s', 0) \<and>
    term_region s' t = FAKE t \<and>
    vmem (con s') = copy_video (vmem (con s)) (FAKE t) VIDEO \<and>
    scr_x (term_screen (term_terms s' ! t)) = scr_x (term_screen (term_terms s ! t)) \<and>
    scr_y (term_screen (term_terms s' ! t)) = scr_y (term_screen (term_terms s ! t)) \<and>
    (\<forall>q \<in> set (p # ps). has_video_mapped (pcbs s q) \<longrightarrow>
       user_video_at addr (pg s') (page_directory (pcbs s q)) (fake_addr s t)) \<and>
    pdbr (pg s') = pdbr (pg s) \<and> iflag s' = iflag s"
  using switch_to_fake_group [OF assms] by blast

text \<open>
  A terminal that leaves the screen and comes back shows what it showed before, whatever was
  on the screen meanwhile, and the user mappings of its processes are back on the real memory.\<close>

theorem screen_round_trip:
  assumes "video_group addr s t (p # ps)" "switch_to_fake_video_memory addr s (Some p) = Some (s1, r1)"
  shows "\<exists>s2. switch_from_fake_video_memory addr (s1\<lparr>con := (con s1)\<lparr>vmem := (vmem (con s1))(VIDEO := junk)\<rparr>\<rparr>) (Some p) = Some (s2, 0) \<and>
    term_region s2 t = VIDEO \<and> (\<forall>a. 0 \<le> a \<and> a < SIZE_64K \<longrightarrow> vmem (con s2) VIDEO a = vmem (con s) VIDEO a) \<and>
    (\<forall>q \<in> set (p # ps). has_video_mapped (pcbs s q) \<longrightarrow>
       user_video_at addr (pg s2) (page_directory (pcbs s q)) VIDEO_ADDR)"
proof -
  let ?s1 = "s1\<lparr>con := (con s1)\<lparr>vmem := (vmem (con s1))(VIDEO := junk)\<rparr>\<rparr>"
  have s1: "term_region s1 t = FAKE t" "vmem (con s1) = copy_video (vmem (con s)) (FAKE t) VIDEO" "pcbs s1 = pcbs s"
    "video_group addr s1 t (p # ps)"
    using switch_to_fake_group [OF assms(1)] assms(2) by auto
  have "video_group addr ?s1 t (p # ps)" using s1(4) by (simp add: video_group_def)
  from switch_from_fake_group [OF this] obtain s2 where s2:
    "switch_from_fake_video_memory addr ?s1 (Some p) = Some (s2, 0)" "term_region s2 t = VIDEO"
    "vmem (con s2) = copy_video (vmem (con ?s1)) VIDEO (term_region ?s1 t)"
    "\<forall>q \<in> set (p # ps). has_video_mapped (pcbs ?s1 q) \<longrightarrow> user_video_at addr (pg s2) (page_directory (pcbs ?s1 q)) VIDEO_ADDR"
    by blast
  have "vmem (con s2) VIDEO a = vmem (con s) VIDEO a" if "0 \<le> a" "a < SIZE_64K" for a
    using that s1(1,2) unfolding s2(3) by (simp add: copy_video_def term_region_def)
  then show ?thesis using s2 s1(3) by (intro exI [of _ s2]) (simp del: set_simps)
qed

text \<open>Process 1 alone on terminal 0, with the video memory mapped.\<close>

definition sample_video :: kstate where
  "sample_video =
     (upd_pcb 1 (\<lambda>b. b\<lparr>term_ctx := Some 0, has_video_mapped := True, page_directory := 1\<rparr>) zero_kstate)
       \<lparr>pg := zero_paging\<lparr>fake_video_mem := 0x3000000\<rparr>\<rparr>"

lemma sample_video_group: "video_group sample_layout sample_video 0 [1]"
  using linked_sample by (simp add: video_group_def sample_video_def upd_pcb_def zero_kstate_def zero_pcb_def)

theorem terminal_leaves_screen_witness:
  "\<exists>s'. switch_to_fake_video_memory sample_layout sample_video (Some 1) = Some (s', 0) \<and> term_region s' 0 = FAKE 0"
  using terminal_leaves_screen [OF sample_video_group] by blast

theorem screen_round_trip_witness:
  "\<exists>s1 s2. switch_to_fake_video_memory sample_layout sample_video (Some 1) = Some (s1, 0) \<and>
     switch_from_fake_video_memory sample_layout (s1\<lparr>con := (con s1)\<lparr>vmem := (vmem (con s1))(VIDEO := \<lambda>a. 65)\<rparr>\<rparr>) (Some 1) = Some (s2, 0)"
proof -
  obtain s1 where "switch_to_fake_video_memory sample_layout sample_video (Some 1) = Some (s1, 0)"
    using switch_to_fake_group [OF sample_video_group] by blast
  then show ?thesis using screen_round_trip [OF sample_video_group] by blast
qed

end
