(* ===== verification/Syscalls.thy ===== *)
theory Syscalls
  imports Rtc Video_Switch Sched_Queue
begin

text \<open>
  \<^verbatim>\<open>student-distrib/syscall_impl.c\<close>, the file side: the system calls dispatch on the operation table of
  the descriptor, so \<open>file->file_op->read\<close> is a case distinction over the four tables. A pointer
  argument is the bytes it points at, \<open>None\<close> for NULL. The result \<open>None\<close> is behaviour that C leaves
  undefined (a NULL table or control block is used) or a call that never returns.
\<close>

section \<open>Dispatch\<close>

definition fops_read ::
  "(nat \<Rightarrow> kstate \<Rightarrow> kstate) \<Rightarrow> fs \<Rightarrow> fops \<Rightarrow> kstate \<Rightarrow> pcb_ptr option \<Rightarrow> int \<Rightarrow> u8 list \<Rightarrow> int \<Rightarrow> (kstate \<times> u8 list \<times> int) option" where
  "fops_read sched f ops s p fd buf nbytes =
     (case ops of
        term_fops \<Rightarrow> term_read sched s p fd buf nbytes
      | file_fops \<Rightarrow> file_read f s p fd buf nbytes
      | dir_fops \<Rightarrow> dir_read f s p fd buf nbytes
      | rtc_fops \<Rightarrow> rtc_read sched s p fd buf nbytes)"

definition fops_write :: "fops \<Rightarrow> kstate \<Rightarrow> pcb_ptr option \<Rightarrow> int \<Rightarrow> u8 list \<Rightarrow> int \<Rightarrow> (kstate \<times> int) option" where
  "fops_write ops s p fd buf nbytes =
     (case ops of
        term_fops \<Rightarrow> term_write s p fd buf nbytes
      | file_fops \<Rightarrow> Some (file_write s p fd buf nbytes)
      | dir_fops \<Rightarrow> Some (dir_write s p fd buf nbytes)
      | rtc_fops \<Rightarrow> rtc_write s p fd (Some buf) nbytes)"

definition fops_close :: "fops \<Rightarrow> kstate \<Rightarrow> pcb_ptr option \<Rightarrow> int \<Rightarrow> (kstate \<times> int) option" where
  "fops_close ops s p fd =
     (case ops of
        term_fops \<Rightarrow> Some (term_close s p fd)
      | file_fops \<Rightarrow> Some (file_close s p fd)
      | dir_fops \<Rightarrow> Some (dir_close s p fd)
      | rtc_fops \<Rightarrow> rtc_close s p fd)"

section \<open>Files\<close>

definition sys_open :: "fs \<Rightarrow> kstate \<Rightarrow> u8 list option \<Rightarrow> (kstate \<times> int) option" where
  "sys_open f s filename =
     (case filename of None \<Rightarrow> Some (s, -1)
      | Some filename \<Rightarrow> do {
          (dentry, status) \<leftarrow> read_dentry_by_name f filename (replicate 64 0);
          if status \<noteq> 0 then Some (s, -1)
          else if d_type dentry = FILE_TYPE_REG then file_open f s (get_proc_pcb s) filename
          else if d_type dentry = FILE_TYPE_DIR then dir_open f s (get_proc_pcb s) filename
          else if d_type dentry = FILE_TYPE_RTC then Some (rtc_open s (get_proc_pcb s))
          else Some (s, -1) })"

text \<open>\<open>file\<close> is the descriptor if it is in range and present.\<close>

definition present_file :: "kstate \<Rightarrow> pcb_ptr option \<Rightarrow> int \<Rightarrow> file_ptr option" where
  "present_file s p fd =
     (case get_file_from_fd p fd of None \<Rightarrow> None
      | Some r \<Rightarrow> if file_flags (get_file s r) AND FILE_PRESENT = 0 then None else Some r)"

definition sys_read ::
  "(nat \<Rightarrow> kstate \<Rightarrow> kstate) \<Rightarrow> fs \<Rightarrow> kstate \<Rightarrow> int \<Rightarrow> u8 list option \<Rightarrow> int \<Rightarrow> (kstate \<times> u8 list option \<times> int) option" where
  "sys_read sched f s fd buf nbytes =
     (case buf of None \<Rightarrow> Some (s, None, -1)
      | Some buf \<Rightarrow>
          (case present_file s (get_proc_pcb s) fd of None \<Rightarrow> Some (s, Some buf, -1)
           | Some r \<Rightarrow>
               (case file_op (get_file s r) of None \<Rightarrow> None
                | Some ops \<Rightarrow> map_option (\<lambda>(s, buf, ret). (s, Some buf, ret)) (fops_read sched f ops s (get_proc_pcb s) fd buf nbytes))))"

definition sys_write :: "kstate \<Rightarrow> int \<Rightarrow> u8 list option \<Rightarrow> int \<Rightarrow> (kstate \<times> int) option" where
  "sys_write s fd buf nbytes =
     (case buf of None \<Rightarrow> Some (s, -1)
      | Some buf \<Rightarrow>
          (case present_file s (get_proc_pcb s) fd of None \<Rightarrow> Some (s, -1)
           | Some r \<Rightarrow>
               (case file_op (get_file s r) of None \<Rightarrow> None
                | Some ops \<Rightarrow> fops_write ops s (get_proc_pcb s) fd buf nbytes)))"

definition sys_close :: "kstate \<Rightarrow> int \<Rightarrow> (kstate \<times> int) option" where
  "sys_close s fd =
     (case present_file s (get_proc_pcb s) fd of None \<Rightarrow> Some (s, -1)
      | Some r \<Rightarrow>
          (case file_op (get_file s r) of None \<Rightarrow> None
           | Some ops \<Rightarrow> fops_close ops s (get_proc_pcb s) fd))"

section \<open>Arguments and video memory\<close>

definition sys_getargs :: "kstate \<Rightarrow> u8 list option \<Rightarrow> int \<Rightarrow> (u8 list option \<times> int) option" where
  "sys_getargs s buf nbytes =
     (case buf of None \<Rightarrow> Some (None, -1)
      | Some buf \<Rightarrow>
          (case get_proc_pcb s of None \<Rightarrow> None
           | Some p \<Rightarrow> do {
               buf \<leftarrow> strncpy buf (cmd_args (pcbs s p)) (unat (word_of_int nbytes :: u32));
               buf \<leftarrow> (if nbytes \<ge> 1 then store buf (nat (nbytes - 1)) 0 else None);
               Some (Some buf, 0) }))"

text \<open>The second component is the word stored in user memory: its address and value.\<close>

definition sys_vidmap :: "(pt_ref \<Rightarrow> u32) \<Rightarrow> kstate \<Rightarrow> u32 \<Rightarrow> (kstate \<times> (u32 \<times> u32) option \<times> int) option" where
  "sys_vidmap addr s screen_start =
     (if screen_start < USER_MEM \<or> screen_start \<ge> USER_MEM + OFFSET_4MB then Some (s, None, -1)
      else case get_proc_pcb s of None \<Rightarrow> None
        | Some p \<Rightarrow>
            let d = page_directory (pcbs s p);
                s = s\<lparr>pg := install_user_vid_mem addr d (User_Video_Mems (terminal_num s)) (pg s)\<rparr>;
                s = upd_pcb p (\<lambda>b. b\<lparr>has_video_mapped := True\<rparr>) s;
                s = set_pdbr d s
            in Some (s, Some (screen_start, USER_VID), 0))"

section \<open>Descriptors\<close>

definition fd_present :: "kstate \<Rightarrow> int \<Rightarrow> bool" where
  "fd_present s fd \<longleftrightarrow> cur_pcb s \<noteq> 0 \<and> 0 \<le> fd \<and> fd < int MAX_FILES \<and> fd_used (pcbs s (cur_pcb s)) (nat fd)"

lemma and_one_bit: "(w :: u32) AND 1 = 0 \<longleftrightarrow> \<not> bit w 0"
  by (simp add: and_one_eq bit_0 flip: even_iff_mod_2_eq_zero)

lemma present_file_iff:
  "present_file s (get_proc_pcb s) fd = (if fd_present s fd then Some (cur_pcb s, nat fd) else None)"
  by (auto simp: present_file_def get_file_from_fd_def get_proc_pcb_def fd_present_def fd_used_def get_file_def and_one_bit)

lemma fd_presentD:
  assumes "fd_present s fd"
  shows "get_proc_pcb s = Some (cur_pcb s)" "present_file s (Some (cur_pcb s)) fd = Some (cur_pcb s, nat fd)"
    "cur_pcb s \<noteq> 0" "0 \<le> fd" "fd < int MAX_FILES"
  using assms present_file_iff [of s fd] by (simp_all add: fd_present_def get_proc_pcb_def)

lemma fd_rejected:
  assumes "\<not> fd_present s fd"
  shows "sys_read sched f s fd (Some buf) nbytes = Some (s, Some buf, -1) \<and>
    sys_write s fd (Some buf) nbytes = Some (s, -1) \<and> sys_close s fd = Some (s, -1)"
  using assms by (simp add: sys_read_def sys_write_def sys_close_def present_file_iff)

section \<open>A file from open to close\<close>

text \<open>The name resolves to a well-formed file of the type given.\<close>

definition resolves :: "fs \<Rightarrow> u8 list \<Rightarrow> u32 \<Rightarrow> u32 \<Rightarrow> bool" where
  "resolves f name ty inode \<longleftrightarrow> (\<exists>n k. num_dentries (img f) = Some n \<and> wf_dir f (unat n) \<and> readable name FILE_NAME_SIZE \<and>
     List.find (name_match f name) [0..<unat n + 1] = Some k \<and> entry_type f k = Some ty \<and> entry_inode f k = Some inode)"

lemma resolves_dentry:
  assumes "resolves f name ty inode"
  shows "\<exists>d. read_dentry_by_name f name (replicate 64 0) = Some (d, 0) \<and> d_type d = ty \<and> d_inode d = inode"
proof -
  obtain n k where r: "num_dentries (img f) = Some n" "wf_dir f (unat n)" "readable name FILE_NAME_SIZE"
    "List.find (name_match f name) [0..<unat n + 1] = Some k" "entry_type f k = Some ty" "entry_inode f k = Some inode"
    using assms by (auto simp: resolves_def)
  show ?thesis using read_dentry_by_name_find [OF r(1,2) _ r(3), of "replicate 64 0"] r(4-6) by auto
qed

definition wf_inode :: "fs \<Rightarrow> u32 \<Rightarrow> bool" where
  "wf_inode f inode \<longleftrightarrow> (\<exists>ni. num_inodes (img f) = Some ni \<and> inode \<le> ni) \<and> wf_file f (inode_at f inode)"

text \<open>A running process with a free descriptor.\<close>

definition can_open :: "kstate \<Rightarrow> bool" where
  "can_open s \<longleftrightarrow> cur_pcb s \<noteq> 0 \<and> length (file_array (pcbs s (cur_pcb s))) = MAX_FILES \<and>
     (\<exists>k < MAX_FILES. \<not> fd_used (pcbs s (cur_pcb s)) k)"

definition free_fd :: "kstate \<Rightarrow> nat" where
  "free_fd s = (LEAST k. \<not> fd_used (pcbs s (cur_pcb s)) k)"

lemma free_fd_less: "can_open s \<Longrightarrow> free_fd s < MAX_FILES" "can_open s \<Longrightarrow> \<not> fd_used (pcbs s (cur_pcb s)) (free_fd s)"
  using unused_fd_scan_lowest(1,2) [of "pcbs s (cur_pcb s)"] LeastI_ex [of "\<lambda>k. \<not> fd_used (pcbs s (cur_pcb s)) k"]
  by (auto simp: can_open_def free_fd_def)

definition opened_as :: "fops \<Rightarrow> kstate \<Rightarrow> u32 \<Rightarrow> kstate" where
  "opened_as ops s inode = upd_file (cur_pcb s, free_fd s) (\<lambda>fl. fl\<lparr>file_flags := (file_flags fl OR FILE_PRESENT) OR FILE_OPEN,
     inode_ptr := inode, file_pos := 0, file_op := Some ops\<rparr>) s"

abbreviation opened :: "kstate \<Rightarrow> u32 \<Rightarrow> kstate" where
  "opened \<equiv> opened_as file_fops"

lemma upd_upd_file: "upd_file r g (upd_file r h s) = upd_file r (\<lambda>x. g (h x)) s"
  if "snd r < length (file_array (pcbs s (fst r)))"
  using that by (simp add: upd_file_def upd_pcb_def)

lemma upd_file_fields [simp]:
  "cur_pcb (upd_file r g s) = cur_pcb s" "pcbs (upd_file (p, fd) g s) q = (if q = p then
     (pcbs s p)\<lparr>file_array := (file_array (pcbs s p))[fd := g (file_array (pcbs s p) ! fd)]\<rparr> else pcbs s q)"
  by (simp_all add: upd_file_def upd_pcb_def)

lemma open_with_free:
  assumes "resolves f name ty inode" "can_open s"
  shows "open_with ops f s (get_proc_pcb s) name = Some (opened_as ops s inode, int (free_fd s))"
proof -
  obtain d where d: "read_dentry_by_name f name (replicate 64 0) = Some (d, 0)" "d_inode d = inode"
    using resolves_dentry [OF assms(1)] by auto
  have p: "get_proc_pcb s = Some (cur_pcb s)" using assms(2) by (simp add: get_proc_pcb_def can_open_def)
  have g: "get_unused_fd (Some (cur_pcb s)) s =
      (upd_file (cur_pcb s, free_fd s) (\<lambda>fl. fl\<lparr>file_flags := file_flags fl OR FILE_PRESENT\<rparr>) s, int (free_fd s))"
    using assms(2) by (simp add: get_unused_fd_cases can_open_def free_fd_def Let_def)
  have l: "free_fd s < length (file_array (pcbs s (cur_pcb s)))" using assms(2) free_fd_less by (simp add: can_open_def)
  have r: "get_file_from_fd (Some (cur_pcb s)) (int (free_fd s)) = Some (cur_pcb s, free_fd s)"
    using free_fd_less [OF assms(2)] by (simp add: get_file_from_fd_def)
  show ?thesis using d p g r l by (simp add: open_with_def opened_as_def upd_upd_file)
qed

lemma sys_open_reg:
  assumes "resolves f name FILE_TYPE_REG inode" "can_open s"
  shows "sys_open f s (Some name) = Some (opened s inode, int (free_fd s))"
  using resolves_dentry [OF assms(1)] open_with_free [OF assms] by (auto simp: sys_open_def file_open_def)

lemma sys_open_dir:
  assumes "resolves f name FILE_TYPE_DIR inode" "can_open s"
  shows "sys_open f s (Some name) = Some (opened_as dir_fops s inode, int (free_fd s))"
  using resolves_dentry [OF assms(1)] open_with_free [OF assms] by (auto simp: sys_open_def dir_open_def)

lemma get_file_opened:
  assumes "can_open s"
  shows "get_file (opened_as ops s inode) (cur_pcb s, free_fd s) = (get_file s (cur_pcb s, free_fd s))
     \<lparr>file_flags := (file_flags (get_file s (cur_pcb s, free_fd s)) OR FILE_PRESENT) OR FILE_OPEN,
       inode_ptr := inode, file_pos := 0, file_op := Some ops\<rparr>"
  unfolding opened_as_def using assms free_fd_less [OF assms] by (subst get_upd_file) (auto simp: can_open_def)

lemma opened_present:
  assumes "can_open s"
  shows "fd_present (opened_as ops s inode) (int (free_fd s))" "cur_pcb (opened_as ops s inode) = cur_pcb s"
    "length (file_array (pcbs (opened_as ops s inode) (cur_pcb s))) = MAX_FILES"
  using assms free_fd_less [OF assms] by (simp_all add: can_open_def opened_as_def fd_present_def fd_used_def bit_or_iff)

lemma opened_reg:
  assumes "can_open s" "wf_inode f inode"
  shows "open_reg f (opened s inode) (cur_pcb s, free_fd s)"
    "rest_of_file f (opened s inode) (cur_pcb s, free_fd s) = file_content f (inode_at f inode)"
    "fd_present (opened s inode) (int (free_fd s))" "cur_pcb (opened s inode) = cur_pcb s"
    "length (file_array (pcbs (opened s inode) (cur_pcb s))) = MAX_FILES"
proof -
  note fd = free_fd_less [OF assms(1)]
  have l: "length (file_array (pcbs s (cur_pcb s))) = MAX_FILES" "cur_pcb s \<noteq> 0" using assms(1) by (simp_all add: can_open_def)
  show "open_reg f (opened s inode) (cur_pcb s, free_fd s)"
    using assms(2) l fd by (auto simp: open_reg_def get_file_opened [OF assms(1)] wf_inode_def bit_or_iff opened_as_def)
  show "rest_of_file f (opened s inode) (cur_pcb s, free_fd s) = file_content f (inode_at f inode)"
    by (simp add: rest_of_file_def get_file_opened [OF assms(1)])
qed (use opened_present [OF assms(1)] in simp_all)

lemma sys_read_reg:
  assumes fd: "fd_present s (int n)" and r: "open_reg f s (cur_pcb s, n)" and ops: "file_op (get_file s (cur_pcb s, n)) = Some file_fops"
    and k: "k = min (length (rest_of_file f s (cur_pcb s, n))) (unat (word_of_int nbytes :: u32))" and "k \<le> length buf"
  shows "sys_read sched f s (int n) (Some buf) nbytes =
    Some (upd_file (cur_pcb s, n) (\<lambda>fl. fl\<lparr>file_pos := file_pos fl + word_of_int (int k)\<rparr>) s,
      Some (take k (rest_of_file f s (cur_pcb s, n)) @ drop k buf), int k)"
proof -
  have p: "get_proc_pcb s = Some (cur_pcb s)" and g: "get_file_from_fd (Some (cur_pcb s)) (int n) = Some (cur_pcb s, n)"
    using fd by (simp_all add: fd_present_def get_proc_pcb_def get_file_from_fd_def)
  obtain s' where s': "file_read f s (Some (cur_pcb s)) (int n) buf nbytes =
      Some (s', take k (rest_of_file f s (cur_pcb s, n)) @ drop k buf, int k)"
    using file_read_open [OF g r k assms(5)] by blast
  then have "s' = upd_file (cur_pcb s, n) (\<lambda>fl. fl\<lparr>file_pos := file_pos fl + word_of_int (int k)\<rparr>) s"
    using g by (auto simp: file_read_def bind_eq_Some_conv split: if_splits)
  with s' show ?thesis using fd_presentD [OF fd] ops p by (simp add: sys_read_def fops_read_def)
qed

lemma sys_close_reg:
  assumes fd: "fd_present s (int n)" and "file_op (get_file s (cur_pcb s, n)) = Some file_fops"
  shows "sys_close s (int n) = Some (upd_file (cur_pcb s, n) (\<lambda>fl. fl\<lparr>file_flags := 0\<rparr>) s, 0)"
  using assms fd_presentD [OF fd] by (simp add: sys_close_def fops_close_def file_close_def release_fd_def)

lemma opened_file_op: "can_open s \<Longrightarrow> file_op (get_file (opened s inode) (cur_pcb s, free_fd s)) = Some file_fops"
  by (simp add: get_file_opened)

lemma session_reg:
  assumes "resolves f name FILE_TYPE_REG inode" "wf_inode f inode" "can_open s"
    and "n < 2 ^ 32" "min (length (file_content f (inode_at f inode))) n \<le> length buf"
  shows "\<exists>s1 s2 s3. sys_open f s (Some name) = Some (s1, int (free_fd s)) \<and>
    sys_read sched f s1 (int (free_fd s)) (Some buf) (int n) =
      Some (s2, Some (take n (file_content f (inode_at f inode)) @ drop (length (take n (file_content f (inode_at f inode)))) buf),
        int (length (take n (file_content f (inode_at f inode))))) \<and>
    sys_close s2 (int (free_fd s)) = Some (s3, 0) \<and>
    (\<forall>k < MAX_FILES. fd_used (pcbs s3 (cur_pcb s)) k = fd_used (pcbs s (cur_pcb s)) k) \<and>
    (\<forall>q. q \<noteq> cur_pcb s \<longrightarrow> pcbs s3 q = pcbs s q)"
proof -
  let ?c = "file_content f (inode_at f inode)" and ?r = "(cur_pcb s, free_fd s)" and ?s1 = "opened s inode"
  let ?k = "min (length ?c) n"
  let ?s2 = "upd_file ?r (\<lambda>fl. fl\<lparr>file_pos := file_pos fl + word_of_int (int ?k)\<rparr>) ?s1"
  note o = opened_reg [OF assms(3,2)] and fd = free_fd_less [OF assms(3)]
  have u: "unat (word_of_int (int n) :: u32) = n" using assms(4) by (simp add: unat_of_nat)
  have r: "sys_read sched f ?s1 (int (free_fd s)) (Some buf) (int n) = Some (?s2, Some (take ?k ?c @ drop ?k buf), int ?k)"
    using sys_read_reg [of ?s1 "free_fd s" f ?k "int n" buf sched] o opened_file_op [OF assms(3), of inode] u assms(5) by simp
  have l: "free_fd s < length (file_array (pcbs ?s1 (cur_pcb s)))" using fd o(5) by simp
  then have "fd_present ?s2 (int (free_fd s))" "file_op (get_file ?s2 ?r) = Some file_fops"
    using o(3,4) opened_file_op [OF assms(3), of inode] by (simp_all add: fd_present_def fd_used_def)
  from sys_close_reg [OF this(1)] this(2) o(4)
  have c: "sys_close ?s2 (int (free_fd s)) = Some (upd_file ?r (\<lambda>fl. fl\<lparr>file_flags := 0\<rparr>) ?s2, 0)" by simp
  have "fd_used (pcbs (upd_file ?r (\<lambda>fl. fl\<lparr>file_flags := 0\<rparr>) ?s2) (cur_pcb s)) k = fd_used (pcbs s (cur_pcb s)) k"
    if "k < MAX_FILES" for k
    using that fd l o(5) by (cases "k = free_fd s") (simp_all add: fd_used_def opened_as_def)
  moreover have "take ?k ?c = take n ?c" "length (take n ?c) = ?k" by (simp_all add: min_def)
  ultimately show ?thesis
    using sys_open_reg [OF assms(1,3)] r c
    by (intro exI [of _ ?s1] exI [of _ ?s2] exI [of _ "upd_file ?r (\<lambda>fl. fl\<lparr>file_flags := 0\<rparr>) ?s2"])
       (simp add: opened_as_def)
qed

section \<open>Properties\<close>

text \<open>
  C12: a file from \<open>open\<close> to \<open>close\<close>: opening an existing regular file gives the lowest free
  descriptor, a read of n bytes from it delivers the first n bytes of the file (all of them when it
  is shorter), and after \<open>close\<close> exactly the descriptors present before are present again; no other
  process changes.\<close>

theorem open_read_close:
  assumes "resolves f name FILE_TYPE_REG inode" "wf_inode f inode" "can_open s"
    and "n < 2 ^ 32" "min (length (file_content f (inode_at f inode))) n \<le> length buf"
  shows "\<exists>s1 s2 s3. sys_open f s (Some name) = Some (s1, int (free_fd s)) \<and>
    sys_read sched f s1 (int (free_fd s)) (Some buf) (int n) =
      Some (s2, Some (take n (file_content f (inode_at f inode)) @ drop (length (take n (file_content f (inode_at f inode)))) buf),
        int (length (take n (file_content f (inode_at f inode))))) \<and>
    sys_close s2 (int (free_fd s)) = Some (s3, 0) \<and>
    (\<forall>k < MAX_FILES. fd_used (pcbs s3 (cur_pcb s)) k = fd_used (pcbs s (cur_pcb s)) k) \<and>
    (\<forall>q. q \<noteq> cur_pcb s \<longrightarrow> pcbs s3 q = pcbs s q)"
  using assms by (rule session_reg)

text \<open>
  \<open>read\<close>, \<open>write\<close> and \<open>close\<close> on a descriptor that is out of range or not present return -1 and
  change nothing.\<close>

theorem bad_descriptor_rejected:
  assumes "\<not> fd_present s fd"
  shows "sys_read sched f s fd (Some buf) nbytes = Some (s, Some buf, -1) \<and>
    sys_write s fd (Some buf) nbytes = Some (s, -1) \<and> sys_close s fd = Some (s, -1)"
  using assms by (rule fd_rejected)

text \<open>
  C39: \<open>vidmap\<close> maps the real screen into the calling process even when the process belongs to a
  terminal that is not on the screen: its writes to \<open>USER_VID\<close> then go to the visible terminal.\<close>

theorem vidmap_maps_real_screen:
  assumes "linked addr" "terminal_num s < NUM_TERMS" "cur_pcb s \<noteq> 0" "USER_MEM \<le> a" "a < USER_MEM + OFFSET_4MB"
  shows "\<exists>s'. sys_vidmap addr s a = Some (s', Some (a, USER_VID), 0) \<and>
    user_video_at addr (pg s') (page_directory (pcbs s (cur_pcb s))) VIDEO_ADDR \<and>
    has_video_mapped (pcbs s' (cur_pcb s)) \<and> pdbr (pg s') = page_directory (pcbs s (cur_pcb s))"
proof -
  let ?d = "page_directory (pcbs s (cur_pcb s))" and ?t = "User_Video_Mems (terminal_num s)"
  have m: "vid_mapped addr VIDEO_ADDR USER_VID ?d ?t (PG_WRITE OR PG_USER) (install_user_vid_mem addr ?d ?t (pg s))"
    unfolding install_user_vid_mem_def by (rule vid_mapped_map [OF vid_window_USER_VID])
  have "user_video_at addr (install_user_vid_mem addr ?d ?t (pg s)) ?d VIDEO_ADDR"
    by (rule user_video_mapped [OF assms(1,2) _ _ m]) simp_all
  then show ?thesis using assms(3-5)
    by (simp add: sys_vidmap_def get_proc_pcb_def upd_pcb_def set_pdbr_def Let_def not_less not_le)
qed

lemma sample_can_open: "can_open sample_kstate" "free_fd sample_kstate = 2" "cur_pcb sample_kstate = 3"
proof -
  show c: "cur_pcb sample_kstate = 3" by (simp add: sample_kstate_def Let_def)
  then show "can_open sample_kstate" "free_fd sample_kstate = 2"
    using sample_least sample_file_array by (simp_all add: can_open_def free_fd_def)
qed

lemma sample_resolves: "resolves (sample_fs e) (chars ''shell'' @ [0]) FILE_TYPE_REG 0" "wf_inode (sample_fs e) 0"
proof -
  have n: "num_dentries (img (sample_fs e)) = Some 1" by (simp add: sample_fs_def sample_words)
  have w: "wf_dir (sample_fs e) (unat (1 :: u32))" using sample_wf_dir by simp
  have r: "readable (chars ''shell'' @ [0]) FILE_NAME_SIZE" by (simp add: readable_def)
  have "cstr (chars ''shell'' @ [0]) = chars ''shell''" by (rule cstr_append_nul) (simp add: chars_def)
  then have "name_match (sample_fs e) (chars ''shell'' @ [0]) 0" by (simp add: name_match_def sample_entry_names chars_def)
  then have "List.find (name_match (sample_fs e) (chars ''shell'' @ [0])) [0..<unat (1 :: u32) + 1] = Some 0"
    by (simp add: upt_rec)
  then show "resolves (sample_fs e) (chars ''shell'' @ [0]) FILE_TYPE_REG 0"
    unfolding resolves_def using n w r sample_entry_fields by blast
  show "wf_inode (sample_fs e) 0" using sample_num_inodes sample_wf by (auto simp: wf_inode_def sample_inode_at)
qed

theorem open_read_close_witness:
  "\<exists>s1 s2 s3 buf. sys_open sample_exe sample_kstate (Some (chars ''shell'' @ [0])) = Some (s1, 2) \<and>
     sys_read (\<lambda>i s. s) sample_exe s1 2 (Some (replicate 4 0)) 4 = Some (s2, Some buf, 4) \<and> sys_close s2 2 = Some (s3, 0)"
  using open_read_close [OF sample_resolves [of "0x08048094"] sample_can_open(1), of 4 "replicate 4 0" "\<lambda>i s. s"]
  by (auto simp: sample_can_open sample_inode_at sample_content)

theorem bad_descriptor_rejected_witness:
  "\<not> fd_present sample_kstate 8 \<and> sys_close sample_kstate 8 = Some (sample_kstate, -1)"
proof -
  have "\<not> fd_present sample_kstate 8" by (simp add: fd_present_def)
  then show ?thesis using bad_descriptor_rejected [of sample_kstate 8 "\<lambda>i s. s" sample_exe "[]" 0] by simp
qed

theorem vidmap_maps_real_screen_witness:
  "\<exists>s'. sys_vidmap sample_layout sample_kstate 0x08048000 = Some (s', Some (0x08048000, USER_VID), 0)"
proof -
  have "terminal_num sample_kstate < NUM_TERMS" by (simp add: sample_kstate_def zero_kstate_def upd_file_def upd_pcb_def Let_def)
  then show ?thesis using vidmap_maps_real_screen [OF linked_sample, of sample_kstate "0x08048000"] sample_can_open(3) by auto
qed

end
