(* ===== verification/Exec.thy ===== *)
theory Exec
  imports Syscalls
begin

text \<open>
  \<open>sys_exec_internal\<close>, \<open>sys_exec\<close>, \<open>sys_halt_internal\<close> and \<open>sys_halt\<close> of
  \<^verbatim>\<open>student-distrib/syscall_impl.c\<close>: the life of a process. These functions need not return to their
  caller: they may enter user mode (\<open>enter_userland\<close>), resume a saved context (\<open>exit_syscall\<close>) or give
  up the processor for good (\<open>sched()\<close> of a dead process), which is their \<open>outcome\<close>. Whatever
  continues runs on the kernel stack of \<open>cur_pcb\<close>. As before, \<open>None\<close> is undefined behaviour of C.
\<close>

datatype outcome =
    Returns int
  | EnterUser u32 u32
  | Resume u32
  | Yields

abbreviation (input) KERNEL_DS :: u32 where "KERNEL_DS \<equiv> 0x18"
abbreviation (input) USER_CS :: u32 where "USER_CS \<equiv> 0x23"
abbreviation (input) USER_DS :: u32 where "USER_DS \<equiv> 0x2B"
abbreviation (input) FLAG_INT :: u32 where "FLAG_INT \<equiv> 0x200"
abbreviation (input) MAX_CMD_LEN :: nat where "MAX_CMD_LEN \<equiv> 33"

section \<open>The command line\<close>

text \<open>\<open>for (c = command; *c == ' '; c++)\<close>: the rest of the text, \<open>None\<close> past the end of the memory given.\<close>

fun skip_spaces :: "u8 list \<Rightarrow> u8 list option" where
  "skip_spaces [] = None"
| "skip_spaces (c # cs) = (if c = 32 then skip_spaces cs else Some (c # cs))"

text \<open>The copy of the name: at most \<open>MAX_CMD_LEN\<close> characters, then the text after it.\<close>

fun copy_name :: "nat \<Rightarrow> u8 list \<Rightarrow> (u8 list \<times> u8 list) option" where
  "copy_name fn_cnt [] = (if fn_cnt < MAX_CMD_LEN then None else Some ([], []))"
| "copy_name fn_cnt (c # cs) =
     (if fn_cnt < MAX_CMD_LEN \<and> c \<noteq> 32 \<and> c \<noteq> 0
      then map_option (\<lambda>(nm, r). (c # nm, r)) (copy_name (fn_cnt + 1) cs)
      else Some ([], c # cs))"

text \<open>\<open>file_name[fn_cnt] = 0\<close> is outside the array when the name has \<open>MAX_CMD_LEN\<close> characters.\<close>

definition command_name :: "u8 list \<Rightarrow> (u8 list \<times> u8 list) option" where
  "command_name command = do {
     c \<leftarrow> skip_spaces command;
     (nm, rest) \<leftarrow> copy_name 0 c;
     if length nm < MAX_CMD_LEN then Some (nm @ [0], rest) else None }"

definition command_args :: "u8 list \<Rightarrow> u8 list option" where
  "command_args rest = do {
     c \<leftarrow> skip_spaces rest;
     a \<leftarrow> strncpy (replicate (MAX_ARGS_LEN + 1) 0) c MAX_ARGS_LEN;
     store a MAX_ARGS_LEN 0 }"

section \<open>Starting a process\<close>

definition kern_esp_of :: "int \<Rightarrow> u32" where
  "kern_esp_of p = (KERNEL_MEM + OFFSET_4MB - USER_STACK_SIZE * word_of_int p - 1) AND ALIGN_4B"

definition user_esp0 :: u32 where
  "user_esp0 = (USER_MEM + OFFSET_4MB - 1) AND ALIGN_4B"

definition fresh_pcb :: "int \<Rightarrow> u32 option \<Rightarrow> pcb_ptr option \<Rightarrow> u8 list \<Rightarrow> pcb" where
  "fresh_pcb p pctx par args =
     zero_pcb\<lparr>pid := word_of_int p, kern_stack := kern_esp_of p, user_stack := user_esp0, sched_ctx := None,
       page_directory := nat p, parent_ctx := pctx, cmd_args := args, parent := par\<rparr>"

text \<open>The context a process without a parent starts from: \<open>registers_t\<close> has 68 bytes.\<close>

definition start_ctx :: "int \<Rightarrow> u32" where
  "start_ctx p = kern_esp_of p - 68"

definition start_frame :: "u32 \<Rightarrow> registers" where
  "start_frame eip = zero_registers\<lparr>r_ss := USER_DS, r_user_esp := user_esp0, r_eflags := FLAG_INT, r_cs := USER_CS,
     r_eip := eip, r_fs := USER_DS, r_es := USER_DS, r_ds := USER_DS\<rparr>"

definition set_tss :: "u32 \<Rightarrow> kstate \<Rightarrow> kstate" where
  "set_tss esp s = s\<lparr>tss_ss0 := KERNEL_DS, tss_esp0 := esp\<rparr>"

text \<open>The labels \<open>exit_paging\<close> (the executable is not one) and \<open>pid_fail\<close>.\<close>

definition pid_fail :: "bool \<Rightarrow> kstate \<Rightarrow> kstate" where
  "pid_fail flags s = s\<lparr>nprocs := nprocs s - 1, iflag := flags\<rparr>"

definition exit_paging :: "bool \<Rightarrow> nat \<Rightarrow> pcb_ptr \<Rightarrow> kstate \<Rightarrow> kstate" where
  "exit_paging flags old_pdbr p s =
     (let s = free_pid (pid (pcbs s p)) s;
          s = set_pdbr old_pdbr s;
          s = (case parent (pcbs s p) of None \<Rightarrow> s | Some q \<Rightarrow> set_tss (kern_stack (pcbs s q)) s)
      in pid_fail flags s)"

text \<open>From \<open>file_loader\<close> on: user mode at once for a child, else a context for the scheduler.\<close>

definition launch :: "bool \<Rightarrow> nat \<Rightarrow> u32 option \<Rightarrow> pcb_ptr \<Rightarrow> u32 \<Rightarrow> kstate \<Rightarrow> kstate \<times> outcome" where
  "launch flags old_pdbr pctx p eip s =
     (if pctx \<noteq> None then
        (set_tss (kern_esp_of (int p)) (s\<lparr>cur_pcb := p, iflag := flags\<rparr>), EnterUser eip user_esp0)
      else
        let ctx = start_ctx (int p);
            s = upd_pcb p (\<lambda>b. b\<lparr>sched_ctx := Some ctx\<rparr>) s;
            s = s\<lparr>frames := (frames s)(ctx := start_frame eip)\<rparr>;
            s = fst (push_to_active (pid (pcbs s p)) s);
            s = set_pdbr old_pdbr s
        in (s\<lparr>iflag := flags\<rparr>, Returns (sint (pid (pcbs s p)))))"

definition spawn :: "fs \<Rightarrow> u8 list \<Rightarrow> u8 list \<Rightarrow> u32 option \<Rightarrow> kstate \<Rightarrow> (kstate \<times> outcome) option" where
  "spawn f dentry rest pctx s =
     (let flags = iflag s;
          s = s\<lparr>iflag := False, nprocs := nprocs s + 1\<rparr>
      in case get_first_free_pid s of (s, p) \<Rightarrow>
           if p = -1 then Some (pid_fail flags s, Returns (-1))
           else do {
             args \<leftarrow> command_args rest;
             let par = (if pctx \<noteq> None then get_proc_pcb s else None);
             let s = upd_pcb (nat p) (\<lambda>_. fresh_pcb p pctx par args) s;
             (s, _) \<leftarrow> term_open s (Some (nat p));
             let old_pdbr = pdbr (pg s);
             let s = set_pdbr (page_directory (pcbs s (nat p))) s;
             (umem, eip) \<leftarrow> file_loader f dentry (user_mem s (pdbr (pg s)));
             let s = s\<lparr>user_mem := (user_mem s)(pdbr (pg s) := umem)\<rparr>;
             case eip of
               None \<Rightarrow> Some (exit_paging flags old_pdbr (nat p) s, Returns (-1))
             | Some eip \<Rightarrow> Some (launch flags old_pdbr pctx (nat p) eip s) })"

definition sys_exec_internal :: "fs \<Rightarrow> u8 list option \<Rightarrow> u32 option \<Rightarrow> kstate \<Rightarrow> (kstate \<times> outcome) option" where
  "sys_exec_internal f command pctx s =
     (case command of None \<Rightarrow> Some (s, Returns (-1))
      | Some command \<Rightarrow> do {
          (file_name, rest) \<leftarrow> command_name command;
          (dentry, status) \<leftarrow> read_dentry_by_name f file_name (replicate 64 0);
          if status \<noteq> 0 then Some (s, Returns (-1))
          else if nprocs s < of_nat MAX_PROCESSES then spawn f dentry rest pctx s
          else Some (s, Returns (-1)) })"

text \<open>\<open>regs\<close> is the address of the frame of the system call, where \<open>command\<close> is the first word.\<close>

definition sys_exec :: "fs \<Rightarrow> u8 list option \<Rightarrow> u32 \<Rightarrow> kstate \<Rightarrow> (kstate \<times> outcome) option" where
  "sys_exec f command regs s =
     map_option (\<lambda>(s, out). (s, case out of Returns ret \<Rightarrow> Returns (if ret > 0 then 0 else -1) | _ \<Rightarrow> out))
       (sys_exec_internal f command (Some regs) s)"

section \<open>Ending a process\<close>

text \<open>\<open>for (i = 0; i < MAX_FILES; i++)\<close>, closing what is open or present.\<close>

fun close_files :: "pcb_ptr \<Rightarrow> nat list \<Rightarrow> kstate \<Rightarrow> kstate option" where
  "close_files p [] s = Some s"
| "close_files p (i # is) s =
     (if file_flags (get_file s (p, i)) AND (FILE_OPEN OR FILE_PRESENT) \<noteq> 0
      then case file_op (get_file s (p, i)) of None \<Rightarrow> None
        | Some ops \<Rightarrow> (case fops_close ops s (Some p) (int i) of None \<Rightarrow> None | Some (s, _) \<Rightarrow> close_files p is s)
      else close_files p is s)"

definition exit_msg :: "u8 list" where
  "exit_msg = chars ''EXITING LAST SHELL IN TERMINAL'' @ [10, 0]"

definition set_term_pid :: "nat \<Rightarrow> int \<Rightarrow> kstate \<Rightarrow> kstate" where
  "set_term_pid t v s = s\<lparr>term_pids := (term_pids s)[t := v]\<rparr>"

definition halt_child :: "bool \<Rightarrow> pcb_ptr \<Rightarrow> pcb_ptr \<Rightarrow> int \<Rightarrow> kstate \<Rightarrow> (kstate \<times> outcome) option" where
  "halt_child flags p q status s =
     (case (get_term_ctx s (Some p), parent_ctx (pcbs s p)) of
        (Some (Some t), Some ctx) \<Rightarrow>
          let s = set_term_pid t (sint (pid (pcbs s q))) s;
              s = s\<lparr>frames := (frames s)(ctx := (frames s ctx)\<lparr>r_eax := word_of_int status\<rparr>)\<rparr>
          in if get_proc_pcb s = Some p then
               Some (set_tss (kern_stack (pcbs s q)) (set_pdbr (page_directory (pcbs s q)) (s\<lparr>cur_pcb := q\<rparr>)), Resume ctx)
             else
               let s = fst (push_to_expired (pid (pcbs s q)) s);
                   s = upd_pcb q (\<lambda>b. b\<lparr>sched_ctx := Some ctx\<rparr>) s
               in Some (s\<lparr>iflag := flags\<rparr>, Returns 0)
      | _ \<Rightarrow> None)"

definition halt_root :: "pcb_ptr \<Rightarrow> kstate \<Rightarrow> (kstate \<times> outcome) option" where
  "halt_root p s =
     (let s = s\<lparr>con := fst (puts (con s) exit_msg)\<rparr>
      in case term_ctx (pcbs s p) of None \<Rightarrow> None
         | Some t \<Rightarrow>
             let s = set_term_pid t (-1) s
             in Some (s, if get_proc_pcb s = Some p then Yields else Returns 0))"

definition sys_halt_internal :: "int \<Rightarrow> int \<Rightarrow> kstate \<Rightarrow> (kstate \<times> outcome) option" where
  "sys_halt_internal p status s =
     (let flags = iflag s;
          s = s\<lparr>iflag := False, nprocs := nprocs s - 1\<rparr>
      in case get_pcb_from_pid p of None \<Rightarrow> None
         | Some p \<Rightarrow> do {
             let s = free_pid (pid (pcbs s p)) s;
             s \<leftarrow> close_files p [0..<MAX_FILES] s;
             let s = upd_pcb p (\<lambda>b. b\<lparr>state := state b OR EXIT_DEAD\<rparr>) s;
             case parent (pcbs s p) of
               Some q \<Rightarrow> halt_child flags p q status s
             | None \<Rightarrow> halt_root p s })"

definition sys_halt :: "u8 \<Rightarrow> kstate \<Rightarrow> (kstate \<times> outcome) option" where
  "sys_halt status s =
     (case get_proc_pcb s of None \<Rightarrow> None
      | Some p \<Rightarrow> sys_halt_internal (sint (pid (pcbs s p))) (uint status) s)"

section \<open>Closing files\<close>

text \<open>An operation that touches nothing but descriptors and the list of clocks.\<close>

definition files_only :: "kstate \<Rightarrow> kstate \<Rightarrow> bool" where
  "files_only s t \<longleftrightarrow> t = s\<lparr>pcbs := pcbs t, open_rtcs := open_rtcs t\<rparr> \<and>
     (\<forall>q. pcbs t q = (pcbs s q)\<lparr>file_array := file_array (pcbs t q)\<rparr>)"

lemma files_only_refl [simp]: "files_only s s"
  by (simp add: files_only_def)

lemma files_only_trans: "files_only s t \<Longrightarrow> files_only t u \<Longrightarrow> files_only s u"
  unfolding files_only_def by (cases s; cases t; cases u) (simp, metis pcb.update_convs(3) pcb.surjective)

lemma files_only_upd_file: "files_only s (upd_file r g s)"
  by (simp add: files_only_def upd_file_def upd_pcb_def)

lemma files_only_open_rtcs: "files_only s (s\<lparr>open_rtcs := v\<rparr>)"
  by (simp add: files_only_def)

lemma files_only_pcb:
  assumes "files_only s t"
  shows "parent (pcbs t q) = parent (pcbs s q)" "pid (pcbs t q) = pid (pcbs s q)" "term_ctx (pcbs t q) = term_ctx (pcbs s q)"
    "parent_ctx (pcbs t q) = parent_ctx (pcbs s q)" "kern_stack (pcbs t q) = kern_stack (pcbs s q)"
    "page_directory (pcbs t q) = page_directory (pcbs s q)" "state (pcbs t q) = state (pcbs s q)"
    "sched_ctx (pcbs t q) = sched_ctx (pcbs s q)"
  using assms unfolding files_only_def by (metis pcb.select_convs pcb.surjective pcb.update_convs(3))+

lemma files_only_state:
  assumes "files_only s t"
  shows "cur_pcb t = cur_pcb s" "nprocs t = nprocs s" "proc_bitmap t = proc_bitmap s" "frames t = frames s"
    "term_pids t = term_pids s" "iflag t = iflag s" "terminal_num t = terminal_num s" "pg t = pg s" "con t = con s"
    "term_terms t = term_terms s" "active_queue t = active_queue s" "expired_queue t = expired_queue s" "user_mem t = user_mem s"
  using assms unfolding files_only_def active_queue_def expired_queue_def by (cases s; cases t; simp)+

text \<open>The clocks of the kernel: a list without repetition of descriptors that are clocks.\<close>

definition clocks :: "kstate \<Rightarrow> file_ptr list \<Rightarrow> bool" where
  "clocks s rs \<longleftrightarrow> rtc_list s rs \<and> (\<forall>r \<in> set rs. file_op (get_file s r) = Some rtc_fops)"

text \<open>Descriptors other than \<open>r\<close> keep their table and flags.\<close>

definition keeps_files :: "file_ptr \<Rightarrow> kstate \<Rightarrow> kstate \<Rightarrow> bool" where
  "keeps_files r s t \<longleftrightarrow> (\<forall>q. file_op (get_file t q) = file_op (get_file s q)) \<and>
     (\<forall>q. q \<noteq> r \<longrightarrow> file_flags (get_file t q) = file_flags (get_file s q))"

lemma get_file_upd:
  "get_file (upd_file r g s) q = (if q = r \<and> snd r < length (file_array (pcbs s (fst r))) then g (get_file s q) else get_file s q)"
  by (cases q; cases r) (auto simp: get_file_def nth_list_update list_update_beyond)

lemma keeps_files_refl [simp]: "keeps_files r s s"
  by (simp add: keeps_files_def)

lemma keeps_files_trans: "keeps_files r s t \<Longrightarrow> keeps_files r t u \<Longrightarrow> keeps_files r s u"
  by (simp add: keeps_files_def)

lemma set_link_frame: "files_only s (set_link l v s)" "keeps_files r s (set_link l v s)"
proof -
  have "get_file (s\<lparr>open_rtcs := v\<rparr>) q = get_file s q" for q by (simp add: get_file_def)
  then show "files_only s (set_link l v s)" "keeps_files r s (set_link l v s)"
    by (cases l; simp add: set_link_def files_only_upd_file files_only_open_rtcs keeps_files_def get_file_upd)+
qed

lemma release_frame:
  "files_only s (upd_file r (\<lambda>f. f\<lparr>file_flags := 0\<rparr>) s)" "keeps_files r s (upd_file r (\<lambda>f. f\<lparr>file_flags := 0\<rparr>) s)"
  by (simp_all add: files_only_upd_file keeps_files_def get_file_upd)

lemma release_fd_upd: "i < MAX_FILES \<Longrightarrow> release_fd (Some p) (int i) s = upd_file (p, i) (\<lambda>f. f\<lparr>file_flags := 0\<rparr>) s"
  by (simp add: release_fd_def)

lemma rtc_close_frame:
  assumes "rtc_close s (Some p) (int i) = Some (t, r)" "i < MAX_FILES"
  shows "files_only s t \<and> keeps_files (p, i) s t"
proof -
  obtain l el where t: "t = release_fd (Some p) (int i) (case el of None \<Rightarrow> s | Some e \<Rightarrow> set_link l (reserved (get_file s e)) s)"
    using assms(1) by (auto simp: rtc_close_def bind_eq_Some_conv Let_def)
  let ?s = "case el of None \<Rightarrow> s | Some e \<Rightarrow> set_link l (reserved (get_file s e)) s"
  have "files_only s ?s" "keeps_files (p, i) s ?s" by (auto simp: set_link_frame split: option.splits)
  then show ?thesis unfolding t release_fd_upd [OF assms(2)]
    using release_frame files_only_trans keeps_files_trans by blast
qed

lemma clocks_keeps:
  "keeps_files r s t \<Longrightarrow> rtc_list t rs' \<Longrightarrow> clocks s rs \<Longrightarrow> set rs' \<subseteq> set rs \<Longrightarrow> clocks t rs'"
  by (auto simp: clocks_def keeps_files_def)

lemma fops_close_clocks:
  assumes "clocks s rs" "i < MAX_FILES" "file_op (get_file s (p, i)) = Some ops"
  shows "\<exists>t r. fops_close ops s (Some p) (int i) = Some (t, r) \<and> files_only s t \<and> keeps_files (p, i) s t \<and>
    clocks t (if ops = rtc_fops then remove1 (p, i) rs else rs)"
proof (cases ops)
  case rtc_fops
  obtain t where t: "rtc_close s (Some p) (int i) = Some (t, 0)" "rtc_list t (remove1 (p, i) rs)"
    using rtc_close_list [of s rs "int i" p] assms(1,2) by (auto simp: clocks_def)
  note fr = rtc_close_frame [OF t(1) assms(2)]
  have "clocks t (remove1 (p, i) rs)" by (rule clocks_keeps [OF conjunct2 [OF fr] t(2) assms(1) set_remove1_subset])
  with t(1) fr rtc_fops show ?thesis by (simp add: fops_close_def)
next
  case term_fops
  then show ?thesis using assms(1) by (simp add: fops_close_def term_close_def)
next
  case file_fops
  then have "(p, i) \<notin> set rs" using assms(1,3) by (auto simp: clocks_def)
  then have "rtc_list (upd_file (p, i) (\<lambda>f. f\<lparr>file_flags := 0\<rparr>) s) rs"
    using assms(1) rtc_list_upd_absent by (simp add: clocks_def)
  from clocks_keeps [OF release_frame(2) this assms(1)] file_fops show ?thesis
    using release_frame by (simp add: fops_close_def file_close_def release_fd_upd [OF assms(2)])
next
  case dir_fops
  then have "(p, i) \<notin> set rs" using assms(1,3) by (auto simp: clocks_def)
  then have "rtc_list (upd_file (p, i) (\<lambda>f. f\<lparr>file_flags := 0\<rparr>) s) rs"
    using assms(1) rtc_list_upd_absent by (simp add: clocks_def)
  from clocks_keeps [OF release_frame(2) this assms(1)] dir_fops show ?thesis
    using release_frame by (simp add: fops_close_def dir_close_def release_fd_upd [OF assms(2)])
qed

text \<open>Every descriptor in use has an operation table.\<close>

definition has_ops :: "kstate \<Rightarrow> pcb_ptr \<Rightarrow> bool" where
  "has_ops s p \<longleftrightarrow> (\<forall>i < MAX_FILES. file_flags (get_file s (p, i)) AND (FILE_OPEN OR FILE_PRESENT) \<noteq> 0 \<longrightarrow>
     file_op (get_file s (p, i)) \<noteq> None)"

lemma present_flags: "bit (w :: u32) 0 \<Longrightarrow> w AND (FILE_OPEN OR FILE_PRESENT) \<noteq> 0"
proof
  have b: "bit (FILE_OPEN OR FILE_PRESENT) 0" unfolding bit_or_iff by simp
  assume "bit w 0" "w AND (FILE_OPEN OR FILE_PRESENT) = 0"
  then have "bit (0 :: u32) 0" using b bit_and_iff [of w "FILE_OPEN OR FILE_PRESENT" 0] by metis
  then show False by simp
qed

lemma close_files_clocks:
  assumes "clocks s rs" "distinct is" "set is \<subseteq> {0..<MAX_FILES}"
    and "\<forall>i \<in> set is. file_flags (get_file s (p, i)) AND (FILE_OPEN OR FILE_PRESENT) \<noteq> 0 \<longrightarrow> file_op (get_file s (p, i)) \<noteq> None"
  shows "\<exists>t. close_files p is s = Some t \<and> files_only s t \<and>
    clocks t (filter (\<lambda>r. \<not> (fst r = p \<and> snd r \<in> set is)) rs)"
  using assms
proof (induction "is" arbitrary: s rs)
  case (Cons i "is")
  let ?r = "(p, i)" and ?out = "\<lambda>r. \<not> (fst r = p \<and> snd r \<in> set (i # is))"
  have d: "distinct rs" and bit: "\<And>r. r \<in> set rs \<Longrightarrow> bit (file_flags (get_file s r)) 0 \<and> file_op (get_file s r) = Some rtc_fops"
    using Cons.prems(1) by (auto simp: clocks_def rtc_list_def)
  show ?case
  proof (cases "file_flags (get_file s ?r) AND (FILE_OPEN OR FILE_PRESENT) = 0")
    case True
    then have "?r \<notin> set rs" using bit present_flags by blast
    then have "filter ?out rs = filter (\<lambda>r. \<not> (fst r = p \<and> snd r \<in> set is)) rs"
      by (intro filter_cong) auto
    then show ?thesis using Cons.IH [OF Cons.prems(1)] Cons.prems(2-4) True by (simp del: or_numerals filter.simps)
  next
    case False
    then obtain ops where ops: "file_op (get_file s ?r) = Some ops" using Cons.prems(4) by auto
    let ?rs = "if ops = rtc_fops then remove1 ?r rs else rs"
    obtain t r where t: "fops_close ops s (Some p) (int i) = Some (t, r)" "files_only s t" "keeps_files ?r s t" "clocks t ?rs"
      using fops_close_clocks [OF Cons.prems(1) _ ops] Cons.prems(3) by auto
    have "filter ?out rs = filter (\<lambda>r. \<not> (fst r = p \<and> snd r \<in> set is)) ?rs"
    proof -
      have "?rs = filter (\<lambda>r. r \<noteq> ?r) rs"
        using d bit [of ?r] ops by (auto simp: distinct_remove1_removeAll removeAll_filter_not_eq eq_commute intro!: filter_True [symmetric])
      then show ?thesis by (auto intro: filter_cong)
    qed
    moreover have "\<exists>u. close_files p is t = Some u \<and> files_only t u \<and> clocks u (filter (\<lambda>r. \<not> (fst r = p \<and> snd r \<in> set is)) ?rs)"
    proof (rule Cons.IH [OF t(4)])
      show "\<forall>j \<in> set is. file_flags (get_file t (p, j)) AND (FILE_OPEN OR FILE_PRESENT) \<noteq> 0 \<longrightarrow> file_op (get_file t (p, j)) \<noteq> None"
        using Cons.prems(2,4) t(3) unfolding keeps_files_def by (metis distinct.simps(2) list.set_intros(2) prod.inject)
    qed (use Cons.prems in auto)
    ultimately show ?thesis using t(1,2) ops False files_only_trans by (auto simp del: or_numerals filter.simps)
  qed
qed simp

lemma close_all_files:
  assumes "clocks s rs" "has_ops s p" "\<forall>r \<in> set rs. snd r < MAX_FILES"
  shows "\<exists>t. close_files p [0..<MAX_FILES] s = Some t \<and> files_only s t \<and> clocks t (filter (\<lambda>r. fst r \<noteq> p) rs)"
proof -
  have "filter (\<lambda>r. \<not> (fst r = p \<and> snd r \<in> set [0..<MAX_FILES])) rs = filter (\<lambda>r. fst r \<noteq> p) rs"
    using assms(3) by (intro filter_cong) auto
  then show ?thesis using close_files_clocks [OF assms(1), of "[0..<MAX_FILES]" p] assms(2)
    by (simp add: has_ops_def del: or_numerals)
qed

section \<open>Halting\<close>

text \<open>The kernel data that \<open>halt\<close> of process \<open>p\<close> relies on.\<close>

definition can_halt :: "kstate \<Rightarrow> pcb_ptr \<Rightarrow> file_ptr list \<Rightarrow> bool" where
  "can_halt s p rs \<longleftrightarrow> 1 \<le> p \<and> p \<le> MAX_PROCESSES \<and> pid (pcbs s p) = of_nat p \<and>
     clocks s rs \<and> (\<forall>r \<in> set rs. snd r < MAX_FILES) \<and> has_ops s p"

text \<open>The state after the part common to all branches.\<close>

definition halted :: "kstate \<Rightarrow> pcb_ptr \<Rightarrow> kstate \<Rightarrow> bool" where
  "halted s p t \<longleftrightarrow> files_only (upd_pcb p (\<lambda>b. b\<lparr>state := state b OR EXIT_DEAD\<rparr>)
      (free_pid (of_nat p) (s\<lparr>iflag := False, nprocs := nprocs s - 1\<rparr>))) t"

lemma clocks_cong:
  assumes "clocks s rs" "open_rtcs t = open_rtcs s"
    and "\<And>r. r \<in> set rs \<Longrightarrow> file_array (pcbs t (fst r)) = file_array (pcbs s (fst r))"
  shows "clocks t rs"
proof -
  have g: "get_file t r = get_file s r" if "r \<in> set rs" for r by (simp add: get_file_def assms(3) that)
  then have "rtc_chain t v rs = rtc_chain s v rs" for v
    by (induction rs arbitrary: v) simp_all
  then show ?thesis using assms(1,2) g by (simp add: clocks_def rtc_list_def fref_ok_def assms(3))
qed

lemma files_only_upd_state:
  "files_only s t \<Longrightarrow> files_only (upd_pcb p (\<lambda>b. b\<lparr>state := f b\<rparr>) s) (upd_pcb p (\<lambda>b. b\<lparr>state := f (pcbs s p)\<rparr>) t)"
  unfolding files_only_def upd_pcb_def by (cases s; cases t) (auto, metis pcb.surjective pcb.update_convs)

lemma sys_halt_internal_common:
  assumes "can_halt s p rs"
  shows "\<exists>t. halted s p t \<and> clocks t (filter (\<lambda>r. fst r \<noteq> p) rs) \<and>
    sys_halt_internal (int p) status s =
      (case parent (pcbs s p) of Some q \<Rightarrow> halt_child (iflag s) p q status t | None \<Rightarrow> halt_root p t)"
proof -
  let ?s0 = "free_pid (of_nat p) (s\<lparr>iflag := False, nprocs := nprocs s - 1\<rparr>)"
  note h = assms [unfolded can_halt_def]
  have p: "get_pcb_from_pid (int p) = Some p" using h by (simp add: get_pcb_from_pid_def)
  have "clocks ?s0 rs" using h by (auto intro!: clocks_cong [of s] simp: free_pid_def)
  moreover have "has_ops ?s0 p" using h by (simp add: has_ops_def free_pid_def get_file_def del: or_numerals)
  ultimately obtain u where u: "close_files p [0..<MAX_FILES] ?s0 = Some u" "files_only ?s0 u"
    "clocks u (filter (\<lambda>r. fst r \<noteq> p) rs)" using close_all_files h by blast
  let ?t = "upd_pcb p (\<lambda>b. b\<lparr>state := state b OR EXIT_DEAD\<rparr>) u"
  have "state (pcbs u p) = state (pcbs ?s0 p)" by (rule files_only_pcb [OF u(2)])
  then have "halted s p ?t"
    using files_only_upd_state [OF u(2), of p "\<lambda>b. state b OR EXIT_DEAD"] by (simp add: halted_def upd_pcb_def)
  moreover have "clocks ?t (filter (\<lambda>r. fst r \<noteq> p) rs)" using u(3) by (rule clocks_cong) (simp_all add: upd_pcb_def)
  moreover have "parent (pcbs ?t p) = parent (pcbs s p)"
    using files_only_pcb(1) [OF u(2)] by (simp add: upd_pcb_def free_pid_def)
  ultimately show ?thesis
    using h u(1) p by (intro exI [of _ ?t]) (simp add: sys_halt_internal_def Let_def)
qed

lemma sint_small_pid: "p \<le> MAX_PROCESSES \<Longrightarrow> sint (of_nat p :: u32) = int p"
  by (subst sint_small) (simp_all add: unat_of_nat)

lemma halted_fields:
  assumes "halted s p t"
  shows "cur_pcb t = cur_pcb s" "nprocs t = nprocs s - 1" "frames t = frames s" "term_pids t = term_pids s" "pg t = pg s"
    "proc_bitmap t = proc_bitmap (free_pid (of_nat p) s)" "con t = con s" "iflag t = False" "user_mem t = user_mem s"
    "active_queue t = active_queue s" "expired_queue t = expired_queue s"
    "parent (pcbs t q) = parent (pcbs s q)" "pid (pcbs t q) = pid (pcbs s q)" "term_ctx (pcbs t q) = term_ctx (pcbs s q)"
    "parent_ctx (pcbs t q) = parent_ctx (pcbs s q)" "kern_stack (pcbs t q) = kern_stack (pcbs s q)"
    "page_directory (pcbs t q) = page_directory (pcbs s q)"
    "state (pcbs t q) = (if q = p then state (pcbs s q) OR EXIT_DEAD else state (pcbs s q))"
  using files_only_state [OF assms [unfolded halted_def]] files_only_pcb [OF assms [unfolded halted_def], of q]
  by (simp_all add: free_pid_def upd_pcb_def active_queue_def expired_queue_def)

lemma lineage_cong: "(\<And>q. parent (bs q) = parent (bs' q)) \<Longrightarrow> lineage bs ps = lineage bs' ps"
  by (induction bs ps rule: lineage.induct) auto

lemma pid_used_free:
  assumes "p \<le> MAX_PROCESSES" "proc_bitmap t = proc_bitmap (free_pid (of_nat p) s)"
  shows "pid_used t k = (pid_used s k \<and> k \<noteq> p)"
proof -
  have "unat (of_nat p :: u32) mod 32 = p" using assms(1) by (simp add: unat_of_nat)
  then show ?thesis using assms by (cases "k < 32") (auto simp: pid_used_def free_pid_def bit_simps dest: bit_imp_le_length)
qed

lemma sys_halt_internal_child:
  assumes h: "can_halt s p rs" and cur: "cur_pcb s = p" and l: "lineage (pcbs s) (p # q # qs)"
    and t: "term_ctx (pcbs s (last (q # qs))) = Some t" and ctx: "parent_ctx (pcbs s p) = Some ctx"
  shows "\<exists>s'. sys_halt_internal (int p) status s = Some (s', Resume ctx) \<and> cur_pcb s' = q \<and>
    frames s' = (frames s)(ctx := (frames s ctx)\<lparr>r_eax := word_of_int status\<rparr>) \<and> user_mem s' = user_mem s \<and>
    pdbr (pg s') = page_directory (pcbs s q) \<and> tss_esp0 s' = kern_stack (pcbs s q) \<and>
    nprocs s' = nprocs s - 1 \<and> (\<forall>k. pid_used s' k = (pid_used s k \<and> k \<noteq> p)) \<and>
    term_pids s' = (term_pids s)[t := sint (pid (pcbs s q))] \<and> clocks s' (filter (\<lambda>r. fst r \<noteq> p) rs)"
proof -
  note hh = h [unfolded can_halt_def]
  obtain u where u: "halted s p u" "clocks u (filter (\<lambda>r. fst r \<noteq> p) rs)"
    "sys_halt_internal (int p) status s = halt_child (iflag s) p q status u"
    using sys_halt_internal_common [OF h, of status] l by auto
  note f = halted_fields [OF u(1)]
  have lu: "lineage (pcbs u) (p # q # qs)" using l lineage_cong [of "pcbs u" "pcbs s"] f by metis
  have tu: "get_term_ctx u (Some p) = Some (Some t)" using get_term_ctx_lineage [OF lu] t f by simp
  let ?s' = "set_tss (kern_stack (pcbs u q)) (set_pdbr (page_directory (pcbs u q))
      ((set_term_pid t (sint (pid (pcbs u q))) u)\<lparr>frames := (frames u)(ctx := (frames u ctx)\<lparr>r_eax := word_of_int status\<rparr>), cur_pcb := q\<rparr>))"
  have "halt_child (iflag s) p q status u = Some (?s', Resume ctx)"
    using tu ctx f cur hh by (simp add: halt_child_def get_proc_pcb_def set_term_pid_def Let_def)
  moreover have "clocks ?s' (filter (\<lambda>r. fst r \<noteq> p) rs)"
    using u(2) by (rule clocks_cong) (simp_all add: set_tss_def set_pdbr_def set_term_pid_def)
  moreover have "pid_used ?s' k = (pid_used s k \<and> k \<noteq> p)" for k
    using pid_used_free [of p ?s' s k] hh f by (simp add: set_tss_def set_pdbr_def set_term_pid_def)
  ultimately show ?thesis using u(3) f
    by (intro exI [of _ ?s']) (simp add: set_tss_def set_pdbr_def set_term_pid_def)
qed

lemma sys_halt_child:
  assumes "can_halt s p rs" "cur_pcb s = p" "lineage (pcbs s) (p # q # qs)"
    and "term_ctx (pcbs s (last (q # qs))) = Some t" "parent_ctx (pcbs s p) = Some ctx"
  shows "\<exists>s'. sys_halt status s = Some (s', Resume ctx) \<and> cur_pcb s' = q \<and>
    frames s' = (frames s)(ctx := (frames s ctx)\<lparr>r_eax := ucast status\<rparr>) \<and> user_mem s' = user_mem s \<and>
    pdbr (pg s') = page_directory (pcbs s q) \<and> tss_esp0 s' = kern_stack (pcbs s q) \<and>
    nprocs s' = nprocs s - 1 \<and> (\<forall>k. pid_used s' k = (pid_used s k \<and> k \<noteq> p)) \<and>
    term_pids s' = (term_pids s)[t := sint (pid (pcbs s q))] \<and> clocks s' (filter (\<lambda>r. fst r \<noteq> p) rs)"
proof -
  have "sys_halt status s = sys_halt_internal (int p) (uint status) s"
    using assms(1,2) sint_small_pid [of p] by (simp add: sys_halt_def get_proc_pcb_def can_halt_def)
  then show ?thesis using sys_halt_internal_child [OF assms, of "uint status"] by simp
qed

section \<open>Executing\<close>

text \<open>A command whose first word names a well-formed file of at least 28 bytes.\<close>

definition command_ok :: "fs \<Rightarrow> u8 list \<Rightarrow> u8 list \<Rightarrow> u32 \<Rightarrow> bool" where
  "command_ok f cmd args inode \<longleftrightarrow> (\<exists>nm rest ty. command_name cmd = Some (nm, rest) \<and> command_args rest = Some args \<and>
     resolves f nm ty inode \<and> wf_inode f inode \<and> 28 \<le> length (file_content f (inode_at f inode)))"

definition entry_point :: "fs \<Rightarrow> u32 \<Rightarrow> u32" where
  "entry_point f inode = le32 (take 4 (drop 24 (file_content f (inode_at f inode))))"

definition entry_ok :: "u32 \<Rightarrow> bool" where
  "entry_ok eip \<longleftrightarrow> USER_MEM + EXEC_OFFSET \<le> eip \<and> eip \<le> USER_MEM + OFFSET_4MB"

text \<open>The lowest free identifier is \<open>k\<close>.\<close>

definition next_pid :: "kstate \<Rightarrow> nat \<Rightarrow> bool" where
  "next_pid s k \<longleftrightarrow> 1 \<le> k \<and> k \<le> MAX_PROCESSES \<and> \<not> pid_used s k \<and> (\<forall>j. 1 \<le> j \<and> j < k \<longrightarrow> pid_used s j)"

lemma next_pid_alloc:
  assumes "next_pid s k"
  shows "get_first_free_pid s = (s\<lparr>proc_bitmap := proc_bitmap s OR push_bit k 1\<rparr>, int k)"
proof (cases rule: get_first_free_pid_cases [of s])
  case (free j)
  then have "j = k" using assms unfolding next_pid_def by (metis linorder_neqE_nat)
  with free show ?thesis by simp
next
  case none
  with assms show ?thesis by (auto simp: next_pid_def)
qed

text \<open>The state in which the loader runs, for a child of the process \<open>q\<close> on terminal \<open>t\<close>.\<close>

definition child_pcb :: "nat \<Rightarrow> u32 \<Rightarrow> pcb_ptr \<Rightarrow> u8 list \<Rightarrow> pcb" where
  "child_pcb k regs q args =
     (let b = fresh_pcb (int k) (Some regs) (Some q) args
      in b\<lparr>file_array := (file_array b)[0 := term_file, 1 := term_file]\<rparr>)"

definition child_state :: "kstate \<Rightarrow> nat \<Rightarrow> u32 \<Rightarrow> u8 list \<Rightarrow> nat \<Rightarrow> kstate" where
  "child_state s k regs args t =
     update_screen_cursor (Term t)
       (s\<lparr>iflag := False, nprocs := nprocs s + 1, proc_bitmap := proc_bitmap s OR push_bit k 1,
          pcbs := (pcbs s)(k := child_pcb k regs (cur_pcb s) args),
          term_pids := (term_pids s)[terminal_num s := int k]\<rparr>)"

lemma lineage_upd: "k \<notin> set ps \<Longrightarrow> lineage (bs(k := b)) ps = lineage bs ps"
  by (induction bs ps rule: lineage.induct) auto

lemma child_pcb_fields [simp]:
  "parent (child_pcb k regs q args) = Some q" "parent_ctx (child_pcb k regs q args) = Some regs"
  "pid (child_pcb k regs q args) = of_nat k" "page_directory (child_pcb k regs q args) = k"
  "cmd_args (child_pcb k regs q args) = args" "kern_stack (child_pcb k regs q args) = kern_esp_of (int k)"
  "file_array (child_pcb k regs q args) = [term_file, term_file, zero_file, zero_file, zero_file, zero_file, zero_file, zero_file]"
  "term_ctx (child_pcb k regs q args) = None" "state (child_pcb k regs q args) = 0"
  by (simp_all add: child_pcb_def fresh_pcb_def zero_pcb_def numeral_eq_Suc)

lemma child_state_fields [simp]:
  "pcbs (child_state s k regs args t) = (pcbs s)(k := child_pcb k regs (cur_pcb s) args)"
  "nprocs (child_state s k regs args t) = nprocs s + 1" "cur_pcb (child_state s k regs args t) = cur_pcb s"
  "proc_bitmap (child_state s k regs args t) = proc_bitmap s OR push_bit k 1"
  "term_pids (child_state s k regs args t) = (term_pids s)[terminal_num s := int k]"
  "pg (child_state s k regs args t) = pg s" "user_mem (child_state s k regs args t) = user_mem s"
  "frames (child_state s k regs args t) = frames s" "open_rtcs (child_state s k regs args t) = open_rtcs s"
  "sched_queue_1 (child_state s k regs args t) = sched_queue_1 s" "sched_queue_2 (child_state s k regs args t) = sched_queue_2 s"
  "active_is_1 (child_state s k regs args t) = active_is_1 s"
  by (simp_all add: child_state_def update_screen_cursor_def do_io_def)

lemma term_open_child:
  assumes k: "1 \<le> k" "k \<le> MAX_PROCESSES" "k \<notin> set (q # qs)"
    and l: "lineage (pcbs s) (q # qs)" and t: "term_ctx (pcbs s (last (q # qs))) = Some t"
  shows "term_open (upd_pcb k (\<lambda>_. fresh_pcb (int k) (Some regs) (Some q) args) s) (Some k) =
    Some (update_screen_cursor (Term t) (s\<lparr>pcbs := (pcbs s)(k := child_pcb k regs q args),
        term_pids := (term_pids s)[terminal_num s := int k]\<rparr>), 0)"
proof -
  let ?b = "fresh_pcb (int k) (Some regs) (Some q) args" and ?c = "child_pcb k regs q args"
  have b: "parent ?b = Some q" "pid ?b = of_nat k" by (simp_all add: fresh_pcb_def)
  have "lineage ((pcbs s)(k := ?c)) (k # q # qs)" using l k(3) lineage_upd [of k "q # qs"] by simp
  then have r: "root_pcb ((pcbs s)(k := ?c)) k = Some (last (q # qs))" using root_pcb_lineage by fastforce
  have "last (q # qs) \<noteq> k" using k(3) last_in_set [of "q # qs"] by auto
  then have g: "get_screen_ctx (s\<lparr>pcbs := (pcbs s)(k := ?c), term_pids := tp\<rparr>) (Some k) = Some (Some t)" for tp
    using r t by (simp add: get_screen_ctx_def get_term_ctx_def)
  have c: "?b\<lparr>file_array := (file_array ?b)[0 := term_file, 1 := term_file]\<rparr> = ?c" by (simp add: child_pcb_def Let_def)
  have comm: "s\<lparr>term_pids := tp, pcbs := bs\<rparr> = s\<lparr>pcbs := bs, term_pids := tp\<rparr>" for tp bs by simp
  show ?thesis using b c g sint_small_pid [OF k(2)]
    by (simp add: comm term_open_def upd_pcb_def Let_def)
qed


text \<open>
  The process \<open>q # qs\<close> (youngest first) of terminal \<open>t\<close> can start \<open>cmd\<close> as process \<open>k\<close>: the command
  is an executable that fits its memory, and there is room for one more process.
\<close>

definition can_exec :: "fs \<Rightarrow> kstate \<Rightarrow> u8 list \<Rightarrow> u8 list \<Rightarrow> u32 \<Rightarrow> nat \<Rightarrow> nat list \<Rightarrow> nat \<Rightarrow> bool" where
  "can_exec f s cmd args inode k qs t \<longleftrightarrow> command_ok f cmd args inode \<and> next_pid s k \<and> nprocs s < of_nat MAX_PROCESSES \<and>
     cur_pcb s \<noteq> 0 \<and> lineage (pcbs s) (cur_pcb s # qs) \<and> k \<notin> set (cur_pcb s # qs) \<and>
     term_ctx (pcbs s (last (cur_pcb s # qs))) = Some t \<and>
     length (file_content f (inode_at f inode)) \<le> length (user_mem s k)"

definition load_image :: "fs \<Rightarrow> u32 \<Rightarrow> nat \<Rightarrow> kstate \<Rightarrow> kstate" where
  "load_image f inode k s = (let c = file_content f (inode_at f inode)
     in s\<lparr>user_mem := (user_mem s)(k := c @ drop (length c) (user_mem s k))\<rparr>)"

lemma spawn_child:
  assumes "can_exec f s cmd args inode k qs t"
  shows "\<exists>nm rest d. command_name cmd = Some (nm, rest) \<and> read_dentry_by_name f nm (replicate 64 0) = Some (d, 0) \<and>
    spawn f d rest (Some regs) s =
      (let s' = load_image f inode k (set_pdbr k (child_state s k regs args t))
       in Some (if entry_ok (entry_point f inode) then launch (iflag s) (pdbr (pg s)) (Some regs) k (entry_point f inode) s'
                else (exit_paging (iflag s) (pdbr (pg s)) k s', Returns (-1))))"
proof -
  note e = assms [unfolded can_exec_def]
  obtain nm rest ty where c: "command_name cmd = Some (nm, rest)" "command_args rest = Some args" "resolves f nm ty inode"
    "wf_inode f inode" "28 \<le> length (file_content f (inode_at f inode))" using e by (auto simp: command_ok_def)
  obtain d where d: "read_dentry_by_name f nm (replicate 64 0) = Some (d, 0)" "d_inode d = inode"
    using resolves_dentry [OF c(3)] by auto
  have k: "1 \<le> k" "k \<le> MAX_PROCESSES" using e by (auto simp: next_pid_def)
  let ?s = "s\<lparr>iflag := False, nprocs := nprocs s + 1\<rparr>"
  have "next_pid ?s k" using e by (simp add: next_pid_def pid_used_def)
  then have a: "get_first_free_pid ?s = (?s\<lparr>proc_bitmap := proc_bitmap s OR push_bit k 1\<rparr>, int k)"
    using next_pid_alloc [of ?s k] by simp
  have t: "term_open (upd_pcb k (\<lambda>_. fresh_pcb (int k) (Some regs) (Some (cur_pcb s)) args)
      (?s\<lparr>proc_bitmap := proc_bitmap s OR push_bit k 1\<rparr>)) (Some k) = Some (child_state s k regs args t, 0)"
    using term_open_child [of k "cur_pcb s" qs "?s\<lparr>proc_bitmap := proc_bitmap s OR push_bit k 1\<rparr>" t regs args] e k
    by (simp add: child_state_def)
  have "file_loader f d (user_mem s k) =
      Some (file_content f (inode_at f inode) @ drop (length (file_content f (inode_at f inode))) (user_mem s k),
        if entry_ok (entry_point f inode) then Some (entry_point f inode) else None)"
    using file_loader_content [of f _ d "user_mem s k"] c(4,5) d(2) e
    by (auto simp: wf_inode_def Let_def entry_ok_def entry_point_def)
  then have "spawn f d rest (Some regs) s =
      (let s' = load_image f inode k (set_pdbr k (child_state s k regs args t))
       in Some (if entry_ok (entry_point f inode) then launch (iflag s) (pdbr (pg s)) (Some regs) k (entry_point f inode) s'
                else (exit_paging (iflag s) (pdbr (pg s)) k s', Returns (-1))))"
    using a t c(2) e by (simp add: spawn_def Let_def get_proc_pcb_def set_pdbr_def load_image_def)
  with c(1) d(1) show ?thesis by blast
qed

lemma sys_exec_child:
  assumes "can_exec f s cmd args inode k qs t"
  shows "sys_exec f (Some cmd) regs s =
    (let s' = load_image f inode k (set_pdbr k (child_state s k regs args t))
     in Some (if entry_ok (entry_point f inode)
              then (set_tss (kern_esp_of (int k)) (s'\<lparr>cur_pcb := k, iflag := iflag s\<rparr>), EnterUser (entry_point f inode) user_esp0)
              else (exit_paging (iflag s) (pdbr (pg s)) k s', Returns (-1))))"
proof -
  obtain nm rest d where c: "command_name cmd = Some (nm, rest)" "read_dentry_by_name f nm (replicate 64 0) = Some (d, 0)"
    and sp: "spawn f d rest (Some regs) s =
      (let s' = load_image f inode k (set_pdbr k (child_state s k regs args t))
       in Some (if entry_ok (entry_point f inode) then launch (iflag s) (pdbr (pg s)) (Some regs) k (entry_point f inode) s'
                else (exit_paging (iflag s) (pdbr (pg s)) k s', Returns (-1))))"
    using spawn_child [OF assms] by blast
  have "sys_exec_internal f (Some cmd) (Some regs) s = spawn f d rest (Some regs) s"
    using c assms by (simp add: sys_exec_internal_def can_exec_def)
  then show ?thesis by (simp add: sys_exec_def sp launch_def Let_def)
qed

end
