(* ===== verification/Proc_Table.thy ===== *)
theory Proc_Table
  imports Exec
begin

text \<open>
  What \<open>exec\<close> and \<open>halt\<close> do to the process table and to the processes: the properties of
  \<^verbatim>\<open>sys_exec\<close> and \<^verbatim>\<open>sys_halt\<close> (\<^verbatim>\<open>student-distrib/syscall_impl.c\<close>), and the invariant that
  \<open>nprocs\<close> counts the identifiers of \<open>proc_bitmap\<close> on every path through both, errors included.
\<close>

section \<open>The process table\<close>

text \<open>
  The invariant of the process table: \<open>nprocs\<close> counts the identifiers in use, and the control block of
  a used identifier carries it.
\<close>

definition used_pids :: "kstate \<Rightarrow> nat set" where
  "used_pids s = {k \<in> {1..MAX_PROCESSES}. pid_used s k}"

definition table_inv :: "kstate \<Rightarrow> bool" where
  "table_inv s \<longleftrightarrow> nprocs s = of_nat (card (used_pids s)) \<and> (\<forall>k \<in> used_pids s. pid (pcbs s k) = of_nat k)"

text \<open>The parts of the state the invariant is about.\<close>

definition same_table :: "kstate \<Rightarrow> kstate \<Rightarrow> bool" where
  "same_table s t \<longleftrightarrow> nprocs t = nprocs s \<and> proc_bitmap t = proc_bitmap s \<and> (\<forall>q. pid (pcbs t q) = pid (pcbs s q))"

lemma same_table_inv: "same_table s t \<Longrightarrow> table_inv t = table_inv s"
  by (simp add: same_table_def table_inv_def used_pids_def pid_used_def)

lemma same_table_trans: "same_table s t \<Longrightarrow> same_table t u \<Longrightarrow> same_table s u"
  by (simp add: same_table_def)

lemma same_table_files_only: "files_only s t \<Longrightarrow> same_table s t"
  by (simp add: same_table_def files_only_pcb files_only_state)

lemma same_table_term_open: "term_open s p = Some (t, r) \<Longrightarrow> same_table s t"
  by (auto simp: same_table_def term_open_def upd_pcb_def Let_def update_screen_cursor_def
      do_io_def init_ctx_def split: option.splits if_splits term_ref.splits)

lemma finite_used [simp]: "finite (used_pids s)"
  by (simp add: used_pids_def)

lemma used_pids_alloc:
  assumes "get_first_free_pid s = (s', p)" "p \<noteq> -1"
  shows "used_pids s' = insert (nat p) (used_pids s) \<and> nat p \<notin> used_pids s \<and> p = int (nat p) \<and> 1 \<le> nat p \<and> nat p \<le> MAX_PROCESSES \<and>
    nprocs s' = nprocs s \<and> pcbs s' = pcbs s"
proof (cases rule: get_first_free_pid_cases [of s])
  case (free k)
  then have s': "s' = s\<lparr>proc_bitmap := proc_bitmap s OR push_bit k 1\<rparr>" and p: "p = int k" using assms by auto
  have b: "pid_used s' j = (pid_used s j \<or> j = k)" for j
    using free(2) s' unfolding pid_used_def by (auto simp: bit_or_iff bit_simps)
  show ?thesis unfolding p using free(1-3) b s' by (auto simp: used_pids_def)
next
  case none
  then show ?thesis using assms by simp
qed


lemma same_table_push:
  "same_table s (fst (push_to_active p s))" "same_table s (fst (push_to_expired p s))"
  by (simp_all add: same_table_def push_to_active_def push_to_expired_def set_active_def set_expired_def Let_def split: prod.splits)

lemma table_inv_alloc:
  assumes "table_inv s" "get_first_free_pid (s\<lparr>iflag := i, nprocs := nprocs s + 1\<rparr>) = (s', p)" "p \<noteq> -1"
  shows "table_inv (upd_pcb (nat p) (\<lambda>_. fresh_pcb p pctx par args) s')"
proof -
  let ?t = "upd_pcb (nat p) (\<lambda>_. fresh_pcb p pctx par args) s'"
  have u0: "used_pids (s\<lparr>iflag := i, nprocs := nprocs s + 1\<rparr>) = used_pids s" by (simp add: used_pids_def pid_used_def)
  note a = used_pids_alloc [OF assms(2,3), unfolded u0]
  have u: "used_pids ?t = insert (nat p) (used_pids s)" using a by (simp add: used_pids_def pid_used_def upd_pcb_def)
  have "nprocs ?t = nprocs s + 1" using a by (simp add: upd_pcb_def)
  moreover have "pid (pcbs ?t k) = of_nat k" if "k \<in> used_pids ?t" for k
    using that a assms(1) unfolding u by (auto simp: upd_pcb_def fresh_pcb_def table_inv_def) 
  ultimately show ?thesis using assms(1) a by (simp add: table_inv_def u)
qed

lemma table_inv_free:
  assumes "table_inv s" "k \<in> used_pids s" "proc_bitmap t = proc_bitmap (free_pid (of_nat k) s)" "nprocs t = nprocs s - 1"
    and "\<forall>q. pid (pcbs t q) = pid (pcbs s q)"
  shows "table_inv t"
proof -
  have k: "k \<le> MAX_PROCESSES" using assms(2) by (simp add: used_pids_def)
  have u: "used_pids t = used_pids s - {k}" using pid_used_free [OF k assms(3)] by (auto simp: used_pids_def)
  have "card (used_pids s) = Suc (card (used_pids t))" using card_Suc_Diff1 [OF _ assms(2)] unfolding u by simp
  then show ?thesis using assms(1,4,5) by (auto simp: table_inv_def u)
qed

lemma exit_paging_table:
  assumes "table_inv s" "k \<in> used_pids s"
  shows "table_inv (exit_paging flags d k s)"
proof (rule table_inv_free [OF assms])
  have "pid (pcbs s k) = of_nat k" using assms by (simp add: table_inv_def)
  then show "proc_bitmap (exit_paging flags d k s) = proc_bitmap (free_pid (of_nat k) s)"
    by (simp add: exit_paging_def pid_fail_def set_pdbr_def set_tss_def free_pid_def Let_def split: option.splits)
qed (auto simp: exit_paging_def pid_fail_def set_pdbr_def set_tss_def free_pid_def Let_def split: option.splits)

lemma launch_same_table: "launch flags d pctx k eip s = (t, out) \<Longrightarrow> same_table s t"
  using same_table_push
  by (auto simp: launch_def Let_def set_tss_def set_pdbr_def upd_pcb_def same_table_def split: if_splits)

text \<open>What \<^const>\<open>spawn\<close> comes to: no identifier is free, or a control block is filled, the terminal opened on it and the image loaded into its memory.\<close>

lemma spawnE:
  assumes "spawn f d rest pctx s = Some (t, out)"
  obtains (full) s1 where "get_first_free_pid (s\<lparr>iflag := False, nprocs := nprocs s + 1\<rparr>) = (s1, -1)" "t = pid_fail (iflag s) s1" "out = Returns (-1)"
  | (made) s1 p par args s2 r m eip where "get_first_free_pid (s\<lparr>iflag := False, nprocs := nprocs s + 1\<rparr>) = (s1, p)" "p \<noteq> -1"
      "command_args rest = Some args" "term_open (upd_pcb (nat p) (\<lambda>_. fresh_pcb p pctx par args) s1) (Some (nat p)) = Some (s2, r)"
      "(t, out) = (case eip of
          None \<Rightarrow> (exit_paging (iflag s) (pdbr (pg s2)) (nat p) ((set_pdbr (page_directory (pcbs s2 (nat p))) s2)\<lparr>user_mem := m\<rparr>), Returns (-1))
        | Some e \<Rightarrow> launch (iflag s) (pdbr (pg s2)) pctx (nat p) e ((set_pdbr (page_directory (pcbs s2 (nat p))) s2)\<lparr>user_mem := m\<rparr>))"
proof -
  obtain s1 p where g: "get_first_free_pid (s\<lparr>iflag := False, nprocs := nprocs s + 1\<rparr>) = (s1, p)" by fastforce
  show thesis
  proof (cases "p = -1")
    case True
    then show ?thesis using full [of s1] assms g by (auto simp: spawn_def Let_def)
  next
    case False
    obtain args s2 r v eip where *: "command_args rest = Some args"
      "term_open (upd_pcb (nat p) (\<lambda>_. fresh_pcb p pctx (if pctx \<noteq> None then get_proc_pcb s1 else None) args) s1) (Some (nat p)) = Some (s2, r)"
      "file_loader f d (user_mem s2 (page_directory (pcbs s2 (nat p)))) = Some (v, eip)"
      using assms g False by (auto simp: spawn_def Let_def bind_eq_Some_conv set_pdbr_def split: prod.splits)
    show ?thesis
      by (rule made [OF g False *(1,2), where m = "(user_mem s2)(page_directory (pcbs s2 (nat p)) := v)" and eip = eip])
        (use assms g False * in \<open>auto simp: spawn_def Let_def set_pdbr_def split: option.splits\<close>)
  qed
qed

lemma spawn_table:
  assumes inv: "table_inv s" and sp: "spawn f d rest pctx s = Some (t, out)"
  shows "table_inv t"
  using sp
proof (cases rule: spawnE)
  case (full s1)
  then have "s1 = s\<lparr>iflag := False, nprocs := nprocs s + 1\<rparr>"
    by (cases rule: get_first_free_pid_cases [of "s\<lparr>iflag := False, nprocs := nprocs s + 1\<rparr>"]) auto
  then have "same_table s t" using full(2) by (auto simp: pid_fail_def same_table_def)
  then show ?thesis using inv same_table_inv by blast
next
  case (made s1 p par args s2 r m eip)
  let ?u = "(set_pdbr (page_directory (pcbs s2 (nat p))) s2)\<lparr>user_mem := m\<rparr>"
  have um: "same_table s2 ?u" by (simp add: same_table_def set_pdbr_def)
  have s2: "table_inv s2" using table_inv_alloc [OF inv made(1,2)] same_table_term_open [OF made(4)] same_table_inv by blast
  then have i: "table_inv ?u" using same_table_inv [OF um] by simp
  have "used_pids ?u = used_pids s1"
    using same_table_trans [OF same_table_term_open [OF made(4)] um] by (simp add: used_pids_def pid_used_def same_table_def upd_pcb_def)
  then have k: "nat p \<in> used_pids ?u" using used_pids_alloc [OF made(1,2)] by simp
  show ?thesis using made(5) exit_paging_table [OF i k] launch_same_table same_table_inv i
    by (cases eip) (auto, metis)
qed

lemma fops_close_frame:
  assumes "fops_close ops s (Some p) (int i) = Some (t, r)" "i < MAX_FILES"
  shows "files_only s t"
proof (cases ops)
  case rtc_fops
  then show ?thesis using rtc_close_frame assms by (auto simp: fops_close_def)
qed (use assms release_frame(1) in \<open>auto simp: fops_close_def term_close_def file_close_def dir_close_def release_fd_upd\<close>)

lemma close_files_frame:
  assumes "close_files p is s = Some t" "set is \<subseteq> {0..<MAX_FILES}"
  shows "files_only s t"
  using assms
proof (induction "is" arbitrary: s)
  case (Cons i "is")
  from Cons.prems show ?case
    by (auto simp del: or_numerals split: if_splits option.splits dest: fops_close_frame intro: files_only_trans [OF _ Cons.IH] Cons.IH)
qed simp

lemma halt_child_table:
  assumes "halt_child flags p q status s = Some (t, out)"
  shows "same_table s t"
  using assms same_table_push(2)
  by (auto simp: halt_child_def Let_def set_term_pid_def set_tss_def set_pdbr_def upd_pcb_def same_table_def
      split: option.splits if_splits)

lemma halt_root_table: "halt_root p s = Some (t, out) \<Longrightarrow> same_table s t"
  by (auto simp: halt_root_def Let_def set_term_pid_def same_table_def split: option.splits)

lemma halt_table:
  assumes inv: "table_inv s" and p: "p \<in> used_pids s" and h: "sys_halt_internal (int p) status s = Some (t, out)"
  shows "table_inv t"
proof -
  have pp: "p \<le> MAX_PROCESSES" "pid (pcbs s p) = of_nat p" using inv p by (auto simp: table_inv_def used_pids_def)
  let ?s = "free_pid (of_nat p) (s\<lparr>iflag := False, nprocs := nprocs s - 1\<rparr>)"
  obtain u where u: "close_files p [0..<MAX_FILES] ?s = Some u"
    and t: "(case parent (pcbs u p) of
        Some q \<Rightarrow> halt_child (iflag s) p q status (upd_pcb p (\<lambda>b. b\<lparr>state := state b OR EXIT_DEAD\<rparr>) u)
      | None \<Rightarrow> halt_root p (upd_pcb p (\<lambda>b. b\<lparr>state := state b OR EXIT_DEAD\<rparr>) u)) = Some (t, out)"
    using h pp by (auto simp: sys_halt_internal_def Let_def get_pcb_from_pid_def bind_eq_Some_conv upd_pcb_def split: option.splits)
  have "table_inv ?s" by (rule table_inv_free [OF inv p]) (simp_all add: free_pid_def)
  moreover have "same_table ?s u" by (rule same_table_files_only [OF close_files_frame [OF u]]) simp
  moreover have "same_table u (upd_pcb p (\<lambda>b. b\<lparr>state := state b OR EXIT_DEAD\<rparr>) u)" by (simp add: same_table_def upd_pcb_def)
  moreover have "same_table (upd_pcb p (\<lambda>b. b\<lparr>state := state b OR EXIT_DEAD\<rparr>) u) t"
    using t halt_child_table halt_root_table by (cases "parent (pcbs u p)") auto
  ultimately show ?thesis using same_table_inv by blast
qed

lemma exec_table:
  assumes "table_inv s" "sys_exec_internal f cmd pctx s = Some (t, out)"
  shows "table_inv t"
  using assms spawn_table
  by (auto simp: sys_exec_internal_def bind_eq_Some_conv split: option.splits if_splits)

section \<open>Properties\<close>

text \<open>
  C7: Executing a command that names an executable whose entry point lies in user memory does not
  return: the processor enters user mode at the entry point, on the stack at the top of the user page,
  in the address space of a new process with the lowest free identifier. The image of the file is at
  the start of the memory of that process, its control block carries the arguments, the frame of the
  caller and the caller as its parent, with the terminal open as descriptors 0 and 1; memory and control blocks of all other processes are untouched.\<close>

theorem exec_starts_child:
  assumes "can_exec f s cmd args inode k qs t" "entry_ok (entry_point f inode)"
  shows "\<exists>s'. sys_exec f (Some cmd) regs s = Some (s', EnterUser (entry_point f inode) user_esp0) \<and>
    cur_pcb s' = k \<and> pdbr (pg s') = k \<and> tss_esp0 s' = kern_esp_of (int k) \<and>
    pid (pcbs s' k) = of_nat k \<and> parent (pcbs s' k) = Some (cur_pcb s) \<and> parent_ctx (pcbs s' k) = Some regs \<and> cmd_args (pcbs s' k) = args \<and>
    (\<forall>fd < MAX_FILES. file_array (pcbs s' k) ! fd = (if fd < 2 then term_file else zero_file)) \<and>
    take (length (file_content f (inode_at f inode))) (user_mem s' k) = file_content f (inode_at f inode) \<and>
    (\<forall>j. j \<noteq> k \<longrightarrow> user_mem s' j = user_mem s j \<and> pcbs s' j = pcbs s j) \<and>
    nprocs s' = nprocs s + 1 \<and> (\<forall>j. pid_used s' j = (pid_used s j \<or> j = k)) \<and> iflag s' = iflag s"
proof -
  have "k < 32" using assms(1) by (simp add: can_exec_def next_pid_def)
  moreover have "\<forall>fd < MAX_FILES. file_array (child_pcb k regs (cur_pcb s) args) ! fd = (if fd < 2 then term_file else zero_file)"
    by (auto simp: less_Suc_eq numeral_eq_Suc)
  ultimately show ?thesis unfolding sys_exec_child [OF assms(1)]
    using assms(2) by (auto simp: load_image_def set_pdbr_def set_tss_def Let_def pid_used_def bit_simps simp del: child_pcb_fields(7))
qed

text \<open>
  C8: When a process other than the first of its terminal halts, its parent resumes from the frame
  of its \<open>exec\<close> call with the status in \<open>eax\<close>, in its own address space and on its own kernel stack;
  the identifier and every clock of the process are given back, and the terminal belongs to the parent.\<close>

theorem halt_resumes_parent:
  assumes "can_halt s p rs" "cur_pcb s = p" "lineage (pcbs s) (p # q # qs)"
    and "term_ctx (pcbs s (last (q # qs))) = Some t" "parent_ctx (pcbs s p) = Some ctx"
  shows "\<exists>s'. sys_halt status s = Some (s', Resume ctx) \<and> cur_pcb s' = q \<and>
    frames s' = (frames s)(ctx := (frames s ctx)\<lparr>r_eax := ucast status\<rparr>) \<and> user_mem s' = user_mem s \<and>
    pdbr (pg s') = page_directory (pcbs s q) \<and> tss_esp0 s' = kern_stack (pcbs s q) \<and>
    nprocs s' = nprocs s - 1 \<and> (\<forall>k. pid_used s' k = (pid_used s k \<and> k \<noteq> p)) \<and>
    term_pids s' = (term_pids s)[t := sint (pid (pcbs s q))] \<and> clocks s' (filter (\<lambda>r. fst r \<noteq> p) rs)"
  using assms by (rule sys_halt_child)


lemma child_has_ops:
  assumes "pcbs s k = child_pcb k regs q args"
  shows "has_ops s k"
proof -
  have "file_op (get_file s (k, i)) \<noteq> None \<or> file_flags (get_file s (k, i)) = 0" if "i < MAX_FILES" for i
  proof -
    have "i \<in> {0, 1, 2, 3, 4, 5, 6, 7}" using that by auto
    then show ?thesis using assms by (auto simp: get_file_def term_file_def zero_file_def numeral_eq_Suc)
  qed
  then show ?thesis unfolding has_ops_def by (metis and_zero_eq word_bw_comms(1))
qed

text \<open>
  C1: \<open>exec\<close> followed by \<open>halt\<close> is a call that returns the status: the caller continues from the
  frame it entered the kernel with, only \<open>eax\<close> changed, in its own address space; no identifier is lost
  and the processes are counted as before; the clocks are those that were open, and no other process
  has had its memory touched.\<close>

theorem exec_halt_round_trip:
  assumes e: "can_exec f s cmd args inode k qs t" and ok: "entry_ok (entry_point f inode)"
    and c: "clocks s rs" "\<forall>r \<in> set rs. snd r < MAX_FILES \<and> fst r \<noteq> k"
  shows "\<exists>s1 s2. sys_exec f (Some cmd) regs s = Some (s1, EnterUser (entry_point f inode) user_esp0) \<and>
    sys_halt status s1 = Some (s2, Resume regs) \<and> frames s2 = (frames s)(regs := (frames s regs)\<lparr>r_eax := ucast status\<rparr>) \<and>
    cur_pcb s2 = cur_pcb s \<and> pdbr (pg s2) = page_directory (pcbs s (cur_pcb s)) \<and> nprocs s2 = nprocs s \<and>
    (\<forall>j. pid_used s2 j = pid_used s j) \<and> clocks s2 rs \<and> (\<forall>j. j \<noteq> k \<longrightarrow> user_mem s2 j = user_mem s j) \<and>
    term_pids s2 = (term_pids s)[terminal_num s := int k, t := sint (pid (pcbs s (cur_pcb s)))]"
proof -
  note ee = e [unfolded can_exec_def next_pid_def]
  let ?s1 = "set_tss (kern_esp_of (int k)) ((load_image f inode k (set_pdbr k (child_state s k regs args t)))\<lparr>cur_pcb := k, iflag := iflag s\<rparr>)"
  have x: "sys_exec f (Some cmd) regs s = Some (?s1, EnterUser (entry_point f inode) user_esp0)"
    using sys_exec_child [OF e, of regs] ok by (simp add: Let_def)
  have f: "pcbs ?s1 = (pcbs s)(k := child_pcb k regs (cur_pcb s) args)" "cur_pcb ?s1 = k" "nprocs ?s1 = nprocs s + 1"
    "frames ?s1 = frames s" "term_pids ?s1 = (term_pids s)[terminal_num s := int k]" "open_rtcs ?s1 = open_rtcs s"
    "\<forall>j. j \<noteq> k \<longrightarrow> user_mem ?s1 j = user_mem s j" "proc_bitmap ?s1 = proc_bitmap s OR push_bit k 1"
    by (simp_all add: load_image_def set_pdbr_def set_tss_def Let_def)
  have u: "pid_used ?s1 j = (pid_used s j \<or> j = k)" for j using f(8) ee by (auto simp: pid_used_def bit_simps)
  have "clocks ?s1 rs" by (rule clocks_cong [OF c(1) f(6)]) (use c(2) f(1) in auto)
  then have h: "can_halt ?s1 k rs" using ee c(2) child_has_ops [of ?s1] f by (auto simp: can_halt_def)
  have l: "lineage (pcbs ?s1) (k # cur_pcb s # qs)" using ee lineage_upd [of k "cur_pcb s # qs"] f by simp
  have last: "last (cur_pcb s # qs) \<noteq> k" using ee last_in_set [of "cur_pcb s # qs"] by auto
  then have t: "term_ctx (pcbs ?s1 (last (cur_pcb s # qs))) = Some t" "parent_ctx (pcbs ?s1 k) = Some regs" using ee f by simp_all
  have "filter (\<lambda>r. fst r \<noteq> k) rs = rs" using c(2) by simp
  then show ?thesis using sys_halt_child [OF h f(2) l t, of status] x f u ee by (auto 0 3)
qed



lemma copy_name_long:
  assumes "length w = n" "32 \<notin> set w" "0 \<notin> set w" "n + i = MAX_CMD_LEN"
  shows "copy_name i (w @ cs) = Some (w, cs)"
  using assms
proof (induction w arbitrary: n i)
  case Nil
  then show ?case by (cases cs) simp_all
next
  case (Cons c w)
  then show ?case using Cons.IH [of "n - 1" "i + 1"] by simp
qed

lemma copy_name_short:
  assumes "32 \<notin> set w" "0 \<notin> set w" "length w + i < MAX_CMD_LEN" "c = 32 \<or> c = 0"
  shows "copy_name i (w @ c # cs) = Some (w, c # cs)"
  using assms by (induction w arbitrary: i) auto

lemma skip_spaces_append: "skip_spaces (replicate n 32 @ cs) = skip_spaces cs"
  by (induction n) simp_all


lemma skip_spaces_word: "32 \<notin> set w \<Longrightarrow> c = 32 \<or> c = 0 \<Longrightarrow> w \<noteq> [] \<or> c = 0 \<Longrightarrow> skip_spaces (w @ c # cs) = Some (w @ c # cs)"
  by (cases w) auto

text \<open>
  C40: The command line: leading blanks are skipped and the name ends at the first blank or NUL. A name
  of \<open>MAX_CMD_LEN\<close> (33) characters or more makes \<open>exec\<close> write past its array, whatever the file system
  holds; shorter ones are passed to the file system as they are.\<close>

theorem command_name_bounds:
  assumes "32 \<notin> set w" "0 \<notin> set w" "c = 32 \<or> c = 0" "w \<noteq> [] \<or> c = 0"
  shows "command_name (replicate n 32 @ w @ c # cs) = (if length w < MAX_CMD_LEN then Some (w @ [0], c # cs) else None) \<and>
    (MAX_CMD_LEN \<le> length w \<longrightarrow> sys_exec_internal f (Some (replicate n 32 @ w @ c # cs)) pctx s = None)"
proof -
  have sk: "skip_spaces (replicate n 32 @ w @ c # cs) = Some (w @ c # cs)"
    using skip_spaces_append skip_spaces_word [OF assms(1,3,4)] by simp
  have "command_name (replicate n 32 @ w @ c # cs) = (if length w < MAX_CMD_LEN then Some (w @ [0], c # cs) else None)"
  proof (cases "length w < MAX_CMD_LEN")
    case True
    then show ?thesis using sk copy_name_short [OF assms(1,2) _ assms(3), of 0] by (simp add: command_name_def)
  next
    case False
    let ?u = "take MAX_CMD_LEN w" and ?v = "drop MAX_CMD_LEN w @ c # cs"
    have "copy_name 0 (?u @ ?v) = Some (?u, ?v)"
      by (rule copy_name_long [OF refl]) (use False assms(1,2) in \<open>auto dest: in_set_takeD\<close>)
    moreover have "?u @ ?v = w @ c # cs" by simp
    ultimately show ?thesis using sk False by (simp add: command_name_def)
  qed
  then show ?thesis by (simp add: sys_exec_internal_def)
qed

section \<open>Witnesses\<close>

text \<open>Process 3 is the shell of terminal 0 and runs the executable of the sample file system.\<close>

definition sample_shell :: kstate where
  "sample_shell = (upd_pcb 3 (\<lambda>b. b\<lparr>pid := 3, page_directory := 3, term_ctx := Some 0\<rparr>) sample_kstate)
     \<lparr>nprocs := 3, user_mem := \<lambda>_. replicate 64 0\<rparr>"

lemma sample_shell_fields [simp]:
  "cur_pcb sample_shell = 3" "nprocs sample_shell = 3" "parent (pcbs sample_shell 3) = None" "open_rtcs sample_shell = None"
  "term_ctx (pcbs sample_shell 3) = Some 0" "pid (pcbs sample_shell 3) = 3" "page_directory (pcbs sample_shell 3) = 3"
  "user_mem sample_shell k = replicate 64 0" "iflag sample_shell = True" "terminal_num sample_shell = 0"
  "pid_used sample_shell k = (k < 4)"
proof -
  have "proc_bitmap sample_shell = mask 4" by (simp add: sample_shell_def sample_kstate_def Let_def upd_pcb_def)
  then show "pid_used sample_shell k = (k < 4)" unfolding pid_used_def by (simp only: bit_mask_iff) auto
qed (simp_all add: sample_shell_def sample_kstate_def Let_def upd_pcb_def upd_file_def zero_kstate_def zero_pcb_def)

lemma sample_command:
  "command_ok (sample_fs e) (chars ''shell'' @ [0]) (replicate 64 0) 0" "entry_point (sample_fs e) 0 = e"
proof -
  have "command_args [0] = Some (replicate 64 0)"
  proof -
    have "strncpy (replicate (MAX_ARGS_LEN + 1) 0) [0] MAX_ARGS_LEN = Some (replicate (MAX_ARGS_LEN + 1) 0)"
      using strncpy_eq [of MAX_ARGS_LEN "replicate (MAX_ARGS_LEN + 1) 0" "[0]"] by (simp add: cstr_def numeral_eq_Suc)
    moreover have "store (replicate (MAX_ARGS_LEN + 1) 0) MAX_ARGS_LEN 0 = Some (replicate 64 (0 :: u8))"
      by (simp add: store_def numeral_eq_Suc)
    moreover have "skip_spaces [0] = Some [0]" by simp
    ultimately show ?thesis by (simp add: command_args_def)
  qed
  moreover have "command_name (chars ''shell'' @ [0]) = Some (chars ''shell'' @ [0], [0])"
    by (simp add: command_name_def chars_def)
  ultimately show "command_ok (sample_fs e) (chars ''shell'' @ [0]) (replicate 64 0) 0"
    unfolding command_ok_def using sample_resolves by (auto simp: sample_inode_at sample_content)
  show "entry_point (sample_fs e) 0 = e"
    by (simp add: entry_point_def sample_inode_at sample_content)
qed

lemma sample_entry_ok: "entry_ok 0x08048094" "\<not> entry_ok 0"
  by (simp_all add: entry_ok_def)

lemma sample_can_exec: "can_exec (sample_fs e) sample_shell (chars ''shell'' @ [0]) (replicate 64 0) 0 4 [] 0"
proof -
  have "next_pid sample_shell 4" by (auto simp: next_pid_def)
  then show ?thesis unfolding can_exec_def using sample_command by (simp add: sample_inode_at sample_content)
qed

theorem exec_starts_child_witness:
  "\<exists>s'. sys_exec sample_exe (Some (chars ''shell'' @ [0])) 0x7F9F00 sample_shell = Some (s', EnterUser 0x08048094 user_esp0) \<and>
     cur_pcb s' = 4 \<and> pdbr (pg s') = 4"
  using exec_starts_child [OF sample_can_exec [of "0x08048094"], of "0x7F9F00"] sample_command sample_entry_ok by auto

theorem exec_halt_round_trip_witness:
  "\<exists>s1 s2. sys_exec sample_exe (Some (chars ''shell'' @ [0])) 0x7F9F00 sample_shell = Some (s1, EnterUser 0x08048094 user_esp0) \<and>
     sys_halt 7 s1 = Some (s2, Resume 0x7F9F00) \<and> r_eax (frames s2 0x7F9F00) = 7 \<and> cur_pcb s2 = 3 \<and> nprocs s2 = 3"
proof -
  have "clocks sample_shell []" by (simp add: clocks_def rtc_list_def)
  then show ?thesis using exec_halt_round_trip [OF sample_can_exec [of "0x08048094"], of "[]" "0x7F9F00" 7] sample_command sample_entry_ok
    by auto
qed


theorem command_name_bounds_witness:
  "sys_exec_internal sample_exe (Some (replicate 2 32 @ replicate 33 97 @ [0])) None sample_shell = None"
  using command_name_bounds [of "replicate 33 97" 0 2 "[]" sample_exe None sample_shell] by (simp)

text \<open>A child of the shell above.\<close>

definition sample_child :: kstate where
  "sample_child = (upd_pcb 4 (\<lambda>b. b\<lparr>pid := 4, parent := Some 3, parent_ctx := Some 0x7F9F00\<rparr>) sample_shell)\<lparr>cur_pcb := 4\<rparr>"

lemma sample_child_can_halt: "can_halt sample_child 4 []"
proof -
  have "file_array (pcbs sample_child 4) = replicate MAX_FILES zero_file" "pid (pcbs sample_child 4) = 4"
    by (simp_all add: sample_child_def sample_shell_def sample_kstate_def upd_pcb_def upd_file_def zero_kstate_def zero_pcb_def Let_def)
  then show ?thesis
    by (auto simp: has_ops_def can_halt_def get_file_def zero_file_def clocks_def rtc_list_def sample_child_def upd_pcb_def)
qed

theorem halt_resumes_parent_witness:
  "\<exists>s'. sys_halt 7 sample_child = Some (s', Resume 0x7F9F00) \<and> cur_pcb s' = 3"
  using halt_resumes_parent [OF sample_child_can_halt, of 3 "[]" 0 "0x7F9F00" 7]
  by (auto simp: sample_child_def upd_pcb_def)

end
