(* ===== verification/Sched.thy ===== *)
theory Sched
  imports Proc_Table I8259
begin

text \<open>
  \<open>context_switch\<close> and \<open>scheduler\<close> of \<^verbatim>\<open>student-distrib/sched.c\<close>, \<open>sys_sched\<close> of
  \<^verbatim>\<open>syscall_impl.c\<close> and \<open>pit_handle_interrupt\<close> of \<^verbatim>\<open>pit.c\<close>. The outcome \<open>Resume ctx\<close> is
  \<open>exit_syscall(ctx)\<close>, \<open>Returns 0\<close> the return to the interrupted code. The loop
  \<open>next_process\<close> need not end, so it is a partial function; one pass of it, from the label to a \<open>goto\<close>
  back or to a leave, is \<open>next_pass\<close>.
\<close>

definition eoi_pit :: "kstate \<Rightarrow> kstate" where
  "eoi_pit s = do_io (send_eoi PIT_IRQ_PORT) s"

text \<open>The part before the label: what becomes of the process that is left.\<close>

definition leave_current :: "u32 \<Rightarrow> kstate \<Rightarrow> kstate" where
  "leave_current regs s =
     (case get_proc_pcb s of None \<Rightarrow> s
      | Some p \<Rightarrow>
          let s = (if state (pcbs s p) AND EXIT_DEAD = 0 then fst (push_to_expired (pid (pcbs s p)) s)
                   else upd_pcb p (\<lambda>b. b\<lparr>state := state b AND NOT EXIT_DEAD\<rparr>) s)
          in upd_pcb p (\<lambda>b. b\<lparr>sched_ctx := Some regs\<rparr>) s)"

text \<open>A new shell when both queues are empty: its identifier as the unsigned number the code tests.\<close>

definition rescue_msg :: "u8 list" where
  "rescue_msg = chars ''Spawning a new shell...'' @ [10, 0]"

definition rescue :: "fs \<Rightarrow> kstate \<Rightarrow> (kstate \<times> u32) option" where
  "rescue f s =
     (case sys_exec_internal f (Some (chars ''shell'' @ [0])) None (s\<lparr>con := fst (puts (con s) rescue_msg)\<rparr>) of
        Some (s, Returns r) \<Rightarrow> Some (s, word_of_int r)
      | _ \<Rightarrow> None)"

text \<open>From \<open>get_pcb_from_pid\<close> on; \<open>None\<close> as the second component is \<open>goto next_process\<close>.\<close>

definition dispatch :: "u32 \<Rightarrow> kstate \<Rightarrow> kstate \<times> outcome option" where
  "dispatch w s =
     (case get_pcb_from_pid (sint w) of None \<Rightarrow> (eoi_pit s, Some (Returns 0))
      | Some p \<Rightarrow>
          if state (pcbs s p) AND EXIT_DEAD \<noteq> 0 then (s, None)
          else (case sched_ctx (pcbs s p) of
             None \<Rightarrow> (eoi_pit (fst (push_to_expired w s)), Some (Returns 0))
           | Some ctx \<Rightarrow>
               let s = set_tss (kern_stack (pcbs s p)) s;
                   s = upd_pcb p (\<lambda>b. b\<lparr>sched_ctx := None\<rparr>) s;
                   s = set_pdbr (page_directory (pcbs s p)) s
               in ((eoi_pit s)\<lparr>cur_pcb := p\<rparr>, Some (Resume ctx))))"

definition next_pass :: "fs \<Rightarrow> kstate \<Rightarrow> (kstate \<times> outcome option) option" where
  "next_pass f s =
     (let s = (if active_empty s then swap_queues s else s)
      in case pop_active s of
           (s, Some w) \<Rightarrow> Some (dispatch w s)
         | (s, None) \<Rightarrow>
             if \<not> expired_empty s then Some (swap_queues s, None)
             else case rescue f s of None \<Rightarrow> None
               | Some (s, w) \<Rightarrow> if w > 0 then Some (s, None) else Some (dispatch w s))"

partial_function (option) next_process :: "fs \<Rightarrow> kstate \<Rightarrow> (kstate \<times> outcome) option" where
  "next_process f s = Option.bind (next_pass f s)
     (\<lambda>x. if snd x = None then next_process f (fst x) else Some (fst x, the (snd x)))"

definition context_switch :: "fs \<Rightarrow> u32 \<Rightarrow> kstate \<Rightarrow> (kstate \<times> outcome) option" where
  "context_switch f regs s =
     (if get_proc_pcb s = None \<and> nprocs s = 0 then Some (eoi_pit s, Returns 0)
      else next_process f (leave_current regs s))"

definition scheduler :: "fs \<Rightarrow> u32 \<Rightarrow> kstate \<Rightarrow> (kstate \<times> outcome) option" where
  "scheduler f regs s = context_switch f regs s"

text \<open>
  \<open>sti(); asm("hlt")\<close> waits for an interrupt; what the interrupts do to the kernel meanwhile is the
  parameter \<open>hlt\<close>.
\<close>

definition sys_sched :: "(kstate \<Rightarrow> kstate) \<Rightarrow> fs \<Rightarrow> u32 \<Rightarrow> kstate \<Rightarrow> (kstate \<times> outcome) option" where
  "sys_sched hlt f regs s =
     (let flags = iflag s; s = s\<lparr>iflag := False\<rparr>
      in if nprocs s > 0 \<and> active_empty s \<and> expired_empty s
         then Some ((hlt (s\<lparr>iflag := True\<rparr>))\<lparr>iflag := flags\<rparr>, Returns 0)
         else map_option (\<lambda>(s, out). case out of Returns _ \<Rightarrow> (s\<lparr>iflag := flags\<rparr>, Returns 0) | _ \<Rightarrow> (s, out))
                (scheduler f regs s))"

definition pit_handle_interrupt :: "fs \<Rightarrow> u32 \<Rightarrow> kstate \<Rightarrow> (kstate \<times> outcome) option" where
  "pit_handle_interrupt f regs s = scheduler f regs (do_io pit_set_count s)"


section \<open>One switch\<close>

text \<open>The entry of a queue that the scheduler drops, and one it can run, with its context.\<close>

definition dead_entry :: "kstate \<Rightarrow> u32 \<Rightarrow> bool" where
  "dead_entry s w \<longleftrightarrow> w \<le> of_nat MAX_PROCESSES \<and> state (pcbs s (unat w)) AND EXIT_DEAD \<noteq> 0"

definition live_entry :: "kstate \<Rightarrow> u32 \<Rightarrow> bool" where
  "live_entry s w \<longleftrightarrow> w \<le> of_nat MAX_PROCESSES \<and> state (pcbs s (unat w)) AND EXIT_DEAD = 0"

lemma pcb_from_word: "(w :: u32) \<le> of_nat MAX_PROCESSES \<Longrightarrow> get_pcb_from_pid (sint w) = Some (unat w)"
proof -
  assume "(w :: u32) \<le> of_nat MAX_PROCESSES"
  then have u: "unat w \<le> MAX_PROCESSES" by (simp add: word_le_nat_alt)
  then have "sint w = int (unat w)" using sint_small_pid [OF u] by simp
  moreover have "int (unat w) \<le> int MAX_PROCESSES" using u by (rule of_nat_mono)
  ultimately show ?thesis by (simp add: get_pcb_from_pid_def)
qed

lemma empty_lists: "active_empty s = (active_list s = [])" "expired_empty s = (expired_list s = [])"
  by (simp_all add: active_empty_def expired_empty_def active_list_def expired_list_def circ_simps)

lemma rotation_swap: "sched_inv s \<Longrightarrow> sched_inv (swap_queues s)"
    "active_list (swap_queues s) = expired_list s" "expired_list (swap_queues s) = active_list s"
  by (simp_all add: sched_inv_def active_list_def expired_list_def)

lemma next_pass_rotation:
  assumes "sched_inv s" "rotation s = w # ws"
  shows "\<exists>t. next_pass f s = Some (dispatch w t) \<and> sched_inv t \<and> same_but_queues s t \<and> rotation t = ws"
proof -
  let ?s = "if active_empty s then swap_queues s else s"
  have i: "sched_inv ?s" using assms(1) rotation_swap(1) by simp
  obtain t r where p: "pop_active ?s = (t, r)" by fastforce
  have l: "active_list ?s @ expired_list ?s = w # ws" "active_list ?s \<noteq> []"
    using assms empty_lists by (auto simp: rotation_def rotation_swap)
  then obtain as where as: "active_list ?s = w # as" by (metis append_eq_Cons_conv)
  have c: "r = Some w" "sched_inv t" "same_but_queues ?s t" "active_list t = as" "expired_list t = expired_list ?s"
    using pop_active_cases [OF i p] as by simp_all
  have "next_pass f s = Some (dispatch w t)" using p c(1) by (simp add: next_pass_def Let_def)
  moreover have "same_but_queues s t" using same_but_queues_trans [OF _ c(3)] by simp
  moreover have "rotation t = ws" using l as c by (simp add: rotation_def)
  ultimately show ?thesis using c(2) by blast
qed

lemma dead_dispatch: "dead_entry t w \<Longrightarrow> dispatch w t = (t, None)"
  by (simp add: dispatch_def dead_entry_def pcb_from_word)

lemma next_process_skips:
  assumes "sched_inv s" "rotation s = ds @ w # ws" "\<forall>d \<in> set ds. dead_entry s d" "live_entry s w"
  shows "\<exists>t. sched_inv t \<and> same_but_queues s t \<and> rotation t = ws \<and>
    (\<exists>out. snd (dispatch w t) = Some out \<and> next_process f s = Some (fst (dispatch w t), out))"
  using assms
proof (induction ds arbitrary: s)
  case Nil
  then obtain t where t: "next_pass f s = Some (dispatch w t)" "sched_inv t" "same_but_queues s t" "rotation t = ws"
    using next_pass_rotation [of s w ws f] by auto
  have "live_entry t w" using Nil(4) same_but_queues_fields [OF t(3)] by (simp add: live_entry_def)
  then obtain out where "snd (dispatch w t) = Some out"
    by (cases "sched_ctx (pcbs t (unat w))") (auto simp: dispatch_def live_entry_def pcb_from_word Let_def)
  with t show ?case by (subst next_process.simps) auto
next
  case (Cons d ds)
  then obtain t where t: "next_pass f s = Some (dispatch d t)" "sched_inv t" "same_but_queues s t" "rotation t = ds @ w # ws"
    using next_pass_rotation [of s d "ds @ w # ws" f] by auto
  have e: "dead_entry t x = dead_entry s x" "live_entry t x = live_entry s x" for x
    using same_but_queues_fields [OF t(3)] by (simp_all add: dead_entry_def live_entry_def)
  have "next_process f s = next_process f t"
    using t(1) dead_dispatch [of t d] Cons.prems(3) e by (subst next_process.simps) simp
  then show ?case using Cons.IH [OF t(2,4)] Cons.prems(3,4) e same_but_queues_trans [OF t(3)] by auto
qed


text \<open>The candidates of a switch, in the order in which they are tried: the rotation, then the process left if it is alive.\<close>

definition candidates :: "kstate \<Rightarrow> u32 list" where
  "candidates s = rotation s @ (if live_entry s (of_nat (cur_pcb s)) then [of_nat (cur_pcb s)] else [])"

text \<open>
  A process is running and its queue has room; the entries of the queues are identifiers of processes,
  the running one not among them.
\<close>

definition switch_ok :: "kstate \<Rightarrow> bool" where
  "switch_ok s \<longleftrightarrow> sched_inv s \<and> 1 \<le> cur_pcb s \<and> cur_pcb s \<le> MAX_PROCESSES \<and> pid (pcbs s (cur_pcb s)) = of_nat (cur_pcb s) \<and>
     length (expired_list s) < MAX_PROCESSES - 1 \<and> (\<forall>w \<in> set (rotation s). w \<le> of_nat MAX_PROCESSES \<and> unat w \<noteq> cur_pcb s)"

lemma leave_current_ok:
  assumes "switch_ok s"
  shows "sched_inv (leave_current regs s) \<and> rotation (leave_current regs s) = candidates s \<and>
    pcbs (leave_current regs s) = (pcbs s)(cur_pcb s := (pcbs s (cur_pcb s))\<lparr>
      state := if live_entry s (of_nat (cur_pcb s)) then state (pcbs s (cur_pcb s)) else state (pcbs s (cur_pcb s)) AND NOT EXIT_DEAD,
      sched_ctx := Some regs\<rparr>)"
proof -
  note o = assms [unfolded switch_ok_def]
  let ?p = "cur_pcb s"
  have u: "unat (of_nat ?p :: u32) = ?p" "(of_nat ?p :: u32) \<le> of_nat MAX_PROCESSES"
    using o by (simp_all add: unat_of_nat word_le_nat_alt)
  have q: "active_queue (s\<lparr>pcbs := b\<rparr>) = active_queue s" "expired_queue (s\<lparr>pcbs := b\<rparr>) = expired_queue s" for s b
    by (simp_all add: active_queue_def expired_queue_def)
  show ?thesis
  proof (cases "live_entry s (of_nat ?p)")
    case True
    obtain t r where t: "push_to_expired (of_nat ?p) s = (t, r)" by fastforce
    note c = push_to_expired_cases [OF _ t] same_but_queues_fields [of s t]
    have "leave_current regs s = upd_pcb ?p (\<lambda>b. b\<lparr>sched_ctx := Some regs\<rparr>) t"
      using o True u t by (simp add: leave_current_def get_proc_pcb_def live_entry_def)
    then show ?thesis using True c o
      by (simp add: upd_pcb_def sched_inv_def rotation_def active_list_def expired_list_def candidates_def q)
  next
    case False
    then have "state (pcbs s ?p) AND EXIT_DEAD \<noteq> 0" using u by (simp add: live_entry_def)
    then show ?thesis using False o
      by (simp add: leave_current_def get_proc_pcb_def upd_pcb_def sched_inv_def rotation_def active_list_def expired_list_def candidates_def q)
  qed
qed


lemma eoi_pit_fields [simp]:
  "pcbs (eoi_pit s) = pcbs s" "cur_pcb (eoi_pit s) = cur_pcb s" "pg (eoi_pit s) = pg s" "tss_esp0 (eoi_pit s) = tss_esp0 s"
  "active_queue (eoi_pit s) = active_queue s" "expired_queue (eoi_pit s) = expired_queue s" "proc_bitmap (eoi_pit s) = proc_bitmap s"
  "nprocs (eoi_pit s) = nprocs s" "iflag (eoi_pit s) = iflag s"
  by (simp_all add: eoi_pit_def do_io_def active_queue_def expired_queue_def)

lemma dispatch_live:
  assumes "live_entry t w" "sched_ctx (pcbs t (unat w)) = Some ctx"
  shows "\<exists>u. dispatch w t = (u, Some (Resume ctx)) \<and> cur_pcb u = unat w \<and> pdbr (pg u) = page_directory (pcbs t (unat w)) \<and>
    tss_esp0 u = kern_stack (pcbs t (unat w)) \<and> active_queue u = active_queue t \<and> expired_queue u = expired_queue t \<and>
    pcbs u = (pcbs t)(unat w := (pcbs t (unat w))\<lparr>sched_ctx := None\<rparr>)"
  using assms pcb_from_word [of w]
  by (simp add: dispatch_def live_entry_def Let_def)
    (simp add: set_tss_def upd_pcb_def set_pdbr_def active_queue_def expired_queue_def eoi_pit_def do_io_def)

text \<open>The context of process \<open>p\<close> when process \<open>cur_pcb s\<close> is left with the frame \<open>regs\<close>.\<close>

definition saved_ctx :: "u32 \<Rightarrow> kstate \<Rightarrow> pcb_ptr \<Rightarrow> u32 option" where
  "saved_ctx regs s p = (if p = cur_pcb s then Some regs else sched_ctx (pcbs s p))"

lemma switch_to_first_live:
  assumes o: "switch_ok s" and c: "candidates s = ds @ w # ws" and d: "\<forall>d \<in> set ds. dead_entry s d"
    and w: "live_entry s w" and ctx: "saved_ctx regs s (unat w) = Some ctx"
  shows "\<exists>t. context_switch f regs s = Some (t, Resume ctx) \<and> cur_pcb t = unat w \<and> rotation t = ws \<and> sched_inv t \<and>
    pdbr (pg t) = page_directory (pcbs s (unat w)) \<and> tss_esp0 t = kern_stack (pcbs s (unat w)) \<and>
    (\<forall>p. pid (pcbs t p) = pid (pcbs s p) \<and>
      (p \<noteq> cur_pcb s \<or> live_entry s (of_nat (cur_pcb s)) \<longrightarrow> state (pcbs t p) = state (pcbs s p)) \<and>
      sched_ctx (pcbs t p) = (if p = unat w then None else saved_ctx regs s p) \<and>
      page_directory (pcbs t p) = page_directory (pcbs s p) \<and> kern_stack (pcbs t p) = kern_stack (pcbs s p))"
proof -
  let ?s = "leave_current regs s" and ?p = "cur_pcb s"
  note l = leave_current_ok [OF o, of regs]
  have p: "unat (of_nat ?p :: u32) = ?p" "?p \<noteq> 0" using o by (simp_all add: switch_ok_def unat_of_nat)
  have mem: "x = of_nat ?p \<and> live_entry s x \<or> unat x \<noteq> ?p" if "x \<in> set (ds @ w # ws)" for x
    using that o unfolding c [symmetric] candidates_def switch_ok_def by (auto split: if_splits)
  have nd: "\<not> (live_entry s x \<and> dead_entry s x)" for x by (simp add: live_entry_def dead_entry_def)
  have dd: "\<forall>x \<in> set ds. dead_entry ?s x" using d mem l nd by (auto simp: dead_entry_def)
  have ww: "live_entry ?s w" "sched_ctx (pcbs ?s (unat w)) = Some ctx"
    using w mem [of w] l p ctx by (auto simp: live_entry_def saved_ctx_def split: if_splits)
  obtain t out where t: "sched_inv t" "same_but_queues ?s t" "rotation t = ws" "snd (dispatch w t) = Some out"
    "next_process f ?s = Some (fst (dispatch w t), out)"
    using next_process_skips [of ?s ds w ws f] l c dd ww by auto
  have tp: "pcbs t = pcbs ?s" using same_but_queues_fields [OF t(2)] by simp
  obtain u where u: "dispatch w t = (u, Some (Resume ctx))" "cur_pcb u = unat w" "pdbr (pg u) = page_directory (pcbs t (unat w))"
    "tss_esp0 u = kern_stack (pcbs t (unat w))" "active_queue u = active_queue t" "expired_queue u = expired_queue t"
    "pcbs u = (pcbs t)(unat w := (pcbs t (unat w))\<lparr>sched_ctx := None\<rparr>)"
    using dispatch_live [of t w ctx] ww tp by (auto simp: live_entry_def)
  have "context_switch f regs s = Some (u, Resume ctx)"
    using t(4,5) u(1) p by (simp add: context_switch_def get_proc_pcb_def)
  moreover have "sched_inv u" "rotation u = ws" using t(1,3) u(5,6)
    by (simp_all add: sched_inv_def rotation_def active_list_def expired_list_def)
  ultimately show ?thesis using u tp l by (intro exI [of _ u]) (simp add: saved_ctx_def)
qed


section \<open>A round of switches\<close>

text \<open>A run of a stepped system, with what is observed after each step.\<close>

fun run_steps :: "('r \<Rightarrow> 's \<Rightarrow> 's option) \<Rightarrow> ('s \<Rightarrow> 'o) \<Rightarrow> 'r list \<Rightarrow> 's \<Rightarrow> ('s \<times> 'o list) option" where
  "run_steps step obs [] s = Some (s, [])"
| "run_steps step obs (r # rs) s =
     Option.bind (step r s) (\<lambda>t. map_option (\<lambda>(u, os). (u, obs t # os)) (run_steps step obs rs t))"

text \<open>
  A scheduler that turns a ring: the process at the front gets the processor and goes to the back.
  Over as many steps as the ring is long each of its members runs exactly once, in order.
\<close>

locale round_robin =
  fixes ready :: "'s \<Rightarrow> bool" and ring :: "'s \<Rightarrow> 'a list" and step :: "'r \<Rightarrow> 's \<Rightarrow> 's option"
    and running :: "'s \<Rightarrow> 'a"
  assumes turns: "ready s \<Longrightarrow> \<exists>t. step r s = Some t \<and> ready t \<and> ring t = rotate1 (ring s)"
    and front: "ready s \<Longrightarrow> ring s \<noteq> [] \<and> running s = last (ring s)"
begin

lemma run_prefix:
  "ready s \<Longrightarrow> length rs \<le> length (ring s) \<Longrightarrow>
   \<exists>t. run_steps step running rs s = Some (t, take (length rs) (ring s)) \<and> ready t \<and> ring t = rotate (length rs) (ring s)"
proof (induction rs arbitrary: s)
  case (Cons r rs)
  obtain t where t: "step r s = Some t" "ready t" "ring t = rotate1 (ring s)" using turns [OF Cons.prems(1)] by blast
  obtain x xs where x: "ring s = x # xs" using front [OF Cons.prems(1)] by (cases "ring s") auto
  obtain u where u: "run_steps step running rs t = Some (u, take (length rs) (ring t))" "ready u" "ring u = rotate (length rs) (ring t)"
    using Cons.IH [OF t(2)] Cons.prems(2) t(3) by auto
  have "running t = x" using front [OF t(2)] t(3) x by simp
  moreover have "take (length rs) (ring t) = take (length rs) xs" using Cons.prems(2) t(3) x by simp
  ultimately show ?case using t u x by (simp add: rotate_def funpow_swap1)
qed simp

lemma full_round:
  assumes "ready s" "length rs = length (ring s)"
  shows "\<exists>t. run_steps step running rs s = Some (t, ring s) \<and> ready t \<and> ring t = ring s"
  using run_prefix [OF assms(1), of rs] assms(2) by simp

end

text \<open>The timer interrupt as a step: the state in which the chosen process resumes.\<close>

definition pit_step :: "fs \<Rightarrow> u32 \<Rightarrow> kstate \<Rightarrow> kstate option" where
  "pit_step f regs s = (case pit_handle_interrupt f regs s of Some (t, Resume ctx) \<Rightarrow> Some t | _ \<Rightarrow> None)"

definition ring :: "kstate \<Rightarrow> nat list" where
  "ring s = map unat (rotation s) @ [cur_pcb s]"

text \<open>
  Every process of the ring is alive, those that wait have a context, and there are at most as many as
  a queue holds.
\<close>

definition ring_ready :: "kstate \<Rightarrow> bool" where
  "ring_ready s \<longleftrightarrow> sched_inv s \<and> length (ring s) \<le> MAX_PROCESSES - 1 \<and> distinct (ring s) \<and>
     (\<forall>p \<in> set (ring s). 1 \<le> p \<and> p \<le> MAX_PROCESSES \<and> pid (pcbs s p) = of_nat p \<and> state (pcbs s p) AND EXIT_DEAD = 0 \<and>
        (p \<noteq> cur_pcb s \<longrightarrow> sched_ctx (pcbs s p) \<noteq> None))"

lemma pit_step_turns:
  assumes "ring_ready s"
  shows "\<exists>t. pit_step f regs s = Some t \<and> ring_ready t \<and> ring t = rotate1 (ring s)"
proof -
  note r = assms [unfolded ring_ready_def]
  let ?s = "do_io pit_set_count s" and ?p = "cur_pcb s"
  have f: "pcbs ?s = pcbs s" "cur_pcb ?s = ?p" "rotation ?s = rotation s" "sched_inv ?s = sched_inv s" "expired_list ?s = expired_list s"
    by (simp_all add: do_io_def rotation_def active_list_def expired_list_def sched_inv_def active_queue_def expired_queue_def)
  have u: "unat (of_nat ?p :: u32) = ?p" using r by (simp add: ring_def unat_of_nat)
  have mem: "w \<le> of_nat MAX_PROCESSES" "unat w \<noteq> ?p" if "w \<in> set (rotation s)" for w
  proof -
    have "unat w \<in> set (map unat (rotation s))" using that by simp
    then show "w \<le> of_nat MAX_PROCESSES" "unat w \<noteq> ?p" using r by (auto simp: ring_def word_le_nat_alt simp del: set_map)
  qed
  have "length (expired_list s) < MAX_PROCESSES - 1" using r by (simp add: ring_def rotation_def)
  then have ok: "switch_ok ?s" using r mem f by (simp add: switch_ok_def ring_def)
  have live: "live_entry ?s w" if "w \<in> set (rotation s @ [of_nat ?p])" for w
  proof -
    have "unat w \<in> set (ring s)" using that u by (auto simp: ring_def)
    then have "unat w \<le> MAX_PROCESSES" "state (pcbs s (unat w)) AND EXIT_DEAD = 0" using r by blast+
    then show ?thesis by (simp add: live_entry_def f word_le_nat_alt)
  qed
  then have c: "candidates ?s = rotation s @ [of_nat ?p]" by (simp add: candidates_def f)
  then obtain w ws where w: "candidates ?s = w # ws" by (metis append_is_Nil_conv list.exhaust not_Cons_self2)
  have "ring s = map unat (candidates ?s)" using c u by (simp add: ring_def)
  then have rg: "ring s = unat w # map unat ws" using w by simp
  then have "unat w \<in> set (ring s)" by simp
  then have "saved_ctx regs ?s (unat w) \<noteq> None" using r f by (simp add: saved_ctx_def)
  then obtain ctx where ctx: "saved_ctx regs ?s (unat w) = Some ctx" by blast
  obtain t where t: "context_switch f regs ?s = Some (t, Resume ctx)" "cur_pcb t = unat w" "rotation t = ws" "sched_inv t"
    "\<forall>p. pid (pcbs t p) = pid (pcbs ?s p) \<and> (p \<noteq> cur_pcb ?s \<or> live_entry ?s (of_nat (cur_pcb ?s)) \<longrightarrow> state (pcbs t p) = state (pcbs ?s p)) \<and>
      sched_ctx (pcbs t p) = (if p = unat w then None else saved_ctx regs ?s p)"
    using switch_to_first_live [OF ok, of "[]" w ws regs ctx f] w ctx live c by auto
  have g: "ring t = rotate1 (ring s)" using rg t by (simp add: ring_def)
  have lv: "live_entry ?s (of_nat (cur_pcb ?s))" using live f by simp
  have "set (ring t) = set (ring s)" "length (ring t) = length (ring s)" "distinct (ring t)" using g r by simp_all
  moreover have "1 \<le> p \<and> p \<le> MAX_PROCESSES \<and> pid (pcbs t p) = of_nat p \<and> state (pcbs t p) AND EXIT_DEAD = 0 \<and>
      (p \<noteq> cur_pcb t \<longrightarrow> sched_ctx (pcbs t p) \<noteq> None)" if "p \<in> set (ring s)" for p
  proof -
    have "1 \<le> p \<and> p \<le> MAX_PROCESSES \<and> pid (pcbs s p) = of_nat p \<and> state (pcbs s p) AND EXIT_DEAD = 0 \<and>
        (p \<noteq> ?p \<longrightarrow> sched_ctx (pcbs s p) \<noteq> None)" using r that by blast
    then show ?thesis using t(5) lv by (simp add: t(2) f saved_ctx_def)
  qed
  ultimately have "ring_ready t" using r t(4) by (simp add: ring_ready_def)
  then show ?thesis using t(1) g by (intro exI [of _ t]) (simp add: pit_step_def pit_handle_interrupt_def scheduler_def)
qed

interpretation pit: round_robin ring_ready ring "pit_step f" cur_pcb for f
  by unfold_locales (simp_all add: pit_step_turns, simp add: ring_def)


section \<open>Properties\<close>

text \<open>
  C6: A context switch resumes the first live process in the order of the run queues (active list,
  expired list, then the process left, if it is alive), from the context it was left with, in its
  address space and on its kernel stack; entries of dead processes before it are dropped, and the rest
  stay queued in their order.\<close>

theorem switch_resumes_first_live:
  assumes "switch_ok s" "candidates s = ds @ w # ws" "\<forall>d \<in> set ds. dead_entry s d" "live_entry s w"
    and "saved_ctx regs s (unat w) = Some ctx"
  shows "\<exists>t. context_switch f regs s = Some (t, Resume ctx) \<and> cur_pcb t = unat w \<and> rotation t = ws \<and>
    pdbr (pg t) = page_directory (pcbs s (unat w)) \<and> tss_esp0 t = kern_stack (pcbs s (unat w)) \<and>
    (\<forall>p. p \<noteq> unat w \<longrightarrow> sched_ctx (pcbs t p) = saved_ctx regs s p)"
  using switch_to_first_live [OF assms, of f] by auto

text \<open>
  C3: Round-robin fairness: over as many timer interrupts as there are processes in the ring, whatever
  frames they interrupt, each process gets the processor exactly once, in the order of the queues,
  and the queues are in the order of before.\<close>

theorem timer_round_is_fair:
  assumes "ring_ready s" "length fs = length (ring s)"
  shows "\<exists>t. run_steps (pit_step f) cur_pcb fs s = Some (t, ring s) \<and> ring_ready t \<and> ring t = ring s"
  using assms by (rule pit.full_round)

text \<open>The queues are empty and the file system has no \<open>shell\<close>.\<close>

definition no_shell :: "fs \<Rightarrow> bool" where
  "no_shell f \<longleftrightarrow> (\<exists>d. read_dentry_by_name f (chars ''shell'' @ [0]) (replicate 64 0) = Some (d, -1))"

definition idle :: "kstate \<Rightarrow> bool" where
  "idle s \<longleftrightarrow> sched_inv s \<and> rotation s = []"

lemma shell_name: "command_name (chars ''shell'' @ [0]) = Some (chars ''shell'' @ [0], [0])"
  by (simp add: command_name_def chars_def)

lemma rescue_fails:
  assumes "no_shell f"
  shows "rescue f s = Some (s\<lparr>con := fst (puts (con s) rescue_msg)\<rparr>, -1)"
proof -
  obtain d where "read_dentry_by_name f (chars ''shell'' @ [0]) (replicate 64 0) = Some (d, -1)" using assms by (auto simp: no_shell_def)
  then show ?thesis by (simp add: rescue_def sys_exec_internal_def shell_name)
qed

lemma idle_pass:
  assumes "no_shell f" "idle s"
  shows "\<exists>t. next_pass f s = Some (t\<lparr>con := fst (puts (con s) rescue_msg)\<rparr>, None) \<and> same_but_queues s t \<and>
    idle (t\<lparr>con := fst (puts (con s) rescue_msg)\<rparr>)"
proof -
  let ?s = "swap_queues s"
  have l: "active_list s = []" "expired_list s = []" "sched_inv s" using assms(2) by (auto simp: idle_def rotation_def)
  obtain t r where p: "pop_active ?s = (t, r)" by fastforce
  have c: "r = None" "sched_inv t" "same_but_queues ?s t" "active_list t = []" "expired_list t = []"
    using pop_active_cases [OF rotation_swap(1) [OF l(3)] p] l by (simp_all add: rotation_swap)
  have s: "same_but_queues s t" using same_but_queues_trans [OF _ c(3)] by simp
  then have "con t = con s" unfolding same_but_queues_def by (cases s; cases t; simp)
  then have "next_pass f s = Some (t\<lparr>con := fst (puts (con s) rescue_msg)\<rparr>, None)"
    using p c l rescue_fails [OF assms(1)] by (simp add: next_pass_def empty_lists Let_def word_gt_0)
  moreover have "active_queue (t\<lparr>con := k\<rparr>) = active_queue t" "expired_queue (t\<lparr>con := k\<rparr>) = expired_queue t" for k
    by (simp_all add: active_queue_def expired_queue_def)
  then have "idle (t\<lparr>con := k\<rparr>)" for k
    using c by (simp add: idle_def rotation_def sched_inv_def active_list_def expired_list_def)
  ultimately show ?thesis using s by blast
qed

lemma idle_never_returns:
  assumes "no_shell f" "idle s"
  shows "next_process f s = None"
proof -
  have "next_process g u = Some y \<Longrightarrow> g = f \<longrightarrow> \<not> idle u" for g u y
  proof (erule next_process.raw_induct [rotated])
    fix np g u y
    assume ih: "\<And>g u y. np g u = Some y \<Longrightarrow> g = f \<longrightarrow> \<not> idle u"
      and e: "Option.bind (next_pass g u) (\<lambda>x. if snd x = None then np g (fst x) else Some (fst x, the (snd x))) = Some y"
    show "g = f \<longrightarrow> \<not> idle u"
    proof (intro impI notI)
      assume g: "g = f" and i: "idle u"
      then obtain t where "next_pass f u = Some (t, None)" "idle t" using idle_pass [OF assms(1) i] by blast
      then show False using ih [of g t y] e g by simp
    qed
  qed
  then show ?thesis using assms(2) by (cases "next_process f s") auto
qed

text \<open>
  C21: When no process is left and there is no \<open>shell\<close> to start, the switch never ends: every pass
  prints the message and goes back to the label, since the -1 of the failed start, held in an unsigned
  variable, passes for an identifier.\<close>

theorem failed_rescue_loops:
  assumes "no_shell f" "idle s"
  shows "next_process f s = None \<and> (\<exists>t. next_pass f s = Some (t, None) \<and> idle t \<and> con t = fst (puts (con s) rescue_msg))"
proof -
  obtain t where "next_pass f s = Some (t\<lparr>con := fst (puts (con s) rescue_msg)\<rparr>, None)" "idle (t\<lparr>con := fst (puts (con s) rescue_msg)\<rparr>)"
    using idle_pass [OF assms] by blast
  then show ?thesis using idle_never_returns [OF assms] by auto
qed


section \<open>The process table under every step\<close>

text \<open>
  The steps that start, end and switch processes, and any step that leaves the process table alone. A
  halted process is one whose identifier is in use.
\<close>

inductive kernel_step :: "fs \<Rightarrow> kstate \<Rightarrow> kstate \<Rightarrow> bool" for f where
  Exec: "sys_exec_internal f command pctx s = Some (t, out) \<Longrightarrow> kernel_step f s t"
| Halt: "p \<in> used_pids s \<Longrightarrow> sys_halt_internal (int p) status s = Some (t, out) \<Longrightarrow> kernel_step f s t"
| Timer: "pit_handle_interrupt f regs s = Some (t, out) \<Longrightarrow> kernel_step f s t"
| Other: "same_table s t \<Longrightarrow> kernel_step f s t"

inductive_cases kernel_stepE: "kernel_step f s t"

lemma same_table_queues: "same_but_queues s t \<Longrightarrow> same_table s t"
  by (simp add: same_table_def same_but_queues_fields)

lemma dispatch_table: "same_table s (fst (dispatch w s))"
  using same_table_push(2) [of s w]
  by (auto simp: dispatch_def same_table_def Let_def set_tss_def set_pdbr_def upd_pcb_def split: option.splits)

lemma pop_table: "same_table s (fst (pop_active s))" "same_table s (swap_queues s)"
  by (simp_all add: pop_active_def same_table_queues split: prod.splits)

lemma rescue_table: "table_inv s \<Longrightarrow> rescue f s = Some (t, w) \<Longrightarrow> table_inv t"
proof -
  assume s: "table_inv s" and r: "rescue f s = Some (t, w)"
  have "table_inv (s\<lparr>con := c\<rparr>)" for c using s same_table_inv [of s "s\<lparr>con := c\<rparr>"] by (simp add: same_table_def)
  with r show ?thesis by (auto simp: rescue_def split: option.splits prod.splits outcome.splits intro: exec_table)
qed

lemma next_pass_table:
  assumes "table_inv s" "next_pass f s = Some (t, out)"
  shows "table_inv t"
proof -
  let ?s = "if active_empty s then swap_queues s else s"
  obtain u r where u: "pop_active ?s = (u, r)" by fastforce
  have "table_inv ?s" using assms(1) same_table_inv [OF pop_table(2)] by simp
  then have tu: "table_inv u" using same_table_inv [OF pop_table(1) [of ?s]] u by simp
  have d: "table_inv (fst (dispatch w v)) = table_inv v" for w v by (rule same_table_inv [OF dispatch_table])
  have "table_inv (swap_queues u)" using tu same_table_inv [OF pop_table(2)] by simp
  then show ?thesis using assms(2) u tu d rescue_table [OF tu]
    by (auto simp: next_pass_def Let_def split: option.splits if_splits) (metis fst_conv)+
qed

lemma next_process_table:
  assumes "table_inv s" "next_process f s = Some (t, out)"
  shows "table_inv t"
proof -
  have "next_process g u = Some y \<Longrightarrow> table_inv u \<longrightarrow> table_inv (fst y)" for g u y
  proof (erule next_process.raw_induct [rotated])
    fix np g u y
    assume ih: "\<And>g u y. np g u = Some y \<Longrightarrow> table_inv u \<longrightarrow> table_inv (fst y)"
      and e: "Option.bind (next_pass g u) (\<lambda>x. if snd x = None then np g (fst x) else Some (fst x, the (snd x))) = Some y"
    show "table_inv u \<longrightarrow> table_inv (fst y)"
      using e next_pass_table [of u g] by (cases y) (auto simp: bind_eq_Some_conv split: if_splits dest: ih)
  qed
  then show ?thesis using assms by fastforce
qed

lemma context_switch_table:
  assumes "table_inv s" "context_switch f regs s = Some (t, out)"
  shows "table_inv t"
proof -
  have "same_table s (leave_current regs s)"
    using same_table_push(2) [of s "pid (pcbs s (cur_pcb s))"]
    by (auto simp: leave_current_def get_proc_pcb_def Let_def upd_pcb_def same_table_def)
  then have "table_inv (leave_current regs s)" using assms(1) same_table_inv by blast
  moreover have "table_inv (eoi_pit s)" using assms(1) same_table_inv [of s "eoi_pit s"] by (simp add: same_table_def)
  ultimately show ?thesis using assms(2) next_process_table by (auto simp: context_switch_def split: if_splits)
qed

lemma kernel_step_table:
  assumes "kernel_step f s t" "table_inv s"
  shows "table_inv t"
  using assms(1)
proof cases
  case (Timer regs out)
  have "table_inv (do_io pit_set_count s)"
    using assms(2) same_table_inv [of s "do_io pit_set_count s"] by (simp add: same_table_def do_io_def)
  with Timer show ?thesis using context_switch_table by (simp add: pit_handle_interrupt_def scheduler_def)
qed (use assms(2) exec_table halt_table same_table_inv in blast)+

lemma table_inv_room:
  assumes "table_inv s"
  shows "nprocs s \<le> of_nat MAX_PROCESSES \<and> (nprocs s < of_nat MAX_PROCESSES \<longleftrightarrow> snd (get_first_free_pid s) \<noteq> -1)"
proof -
  have sub: "used_pids s \<subseteq> {1..MAX_PROCESSES}" by (auto simp: used_pids_def)
  then have le: "card (used_pids s) \<le> MAX_PROCESSES" using card_mono [OF _ sub] by simp
  then have n: "unat (nprocs s) = card (used_pids s)" using assms by (simp add: table_inv_def unat_of_nat)
  have full: "card (used_pids s) = MAX_PROCESSES \<longleftrightarrow> used_pids s = {1..MAX_PROCESSES}"
    using card_subset_eq [OF _ sub] by auto
  have "snd (get_first_free_pid s) = -1 \<longleftrightarrow> used_pids s = {1..MAX_PROCESSES}"
    by (cases rule: get_first_free_pid_cases [of s]) (auto simp: used_pids_def)
  moreover have "nprocs s \<le> of_nat MAX_PROCESSES" "nprocs s < of_nat MAX_PROCESSES \<longleftrightarrow> card (used_pids s) \<noteq> MAX_PROCESSES"
    using n le by (auto simp: word_less_nat_alt word_le_nat_alt)
  ultimately show ?thesis using full by blast
qed



section \<open>Witnesses\<close>

text \<open>The shell of process 3 is running, process 4 waits in the active queue.\<close>

definition sample_ring :: kstate where
  "sample_ring = fst (push_to_active 4 ((init_sched zero_kstate)\<lparr>cur_pcb := 3,
     pcbs := (\<lambda>p. zero_pcb\<lparr>pid := of_nat p, page_directory := p, sched_ctx := if p = 4 then Some 0x7F7F00 else None\<rparr>)\<rparr>))"

lemma sample_ring_ok:
  "sched_inv sample_ring" "rotation sample_ring = [4]" "expired_list sample_ring = []" "cur_pcb sample_ring = 3"
  "pcbs sample_ring p = zero_pcb\<lparr>pid := of_nat p, page_directory := p, sched_ctx := if p = 4 then Some 0x7F7F00 else None\<rparr>"
proof -
  let ?s = "(init_sched zero_kstate)\<lparr>cur_pcb := 3,
     pcbs := (\<lambda>p. zero_pcb\<lparr>pid := of_nat p, page_directory := p, sched_ctx := if p = 4 then Some 0x7F7F00 else None\<rparr>)\<rparr>"
  have q: "active_queue ?s = active_queue (init_sched zero_kstate)" "expired_queue ?s = expired_queue (init_sched zero_kstate)"
    by (simp_all add: active_queue_def expired_queue_def)
  then have i: "sched_inv ?s" "active_list ?s = []" "expired_list ?s = []"
    using sched_inv_init by (simp_all add: sched_inv_def active_list_def expired_list_def)
  note c = push_to_active_cases [OF i(1) surjective_pairing, of 4]
  show "sched_inv sample_ring" "rotation sample_ring = [4]" "expired_list sample_ring = []"
    using c i by (simp_all add: sample_ring_def rotation_def)
  have "same_but_queues ?s sample_ring" using c by (simp add: sample_ring_def)
  from same_but_queues_fields [OF this]
  show "cur_pcb sample_ring = 3"
    "pcbs sample_ring p = zero_pcb\<lparr>pid := of_nat p, page_directory := p, sched_ctx := if p = 4 then Some 0x7F7F00 else None\<rparr>"
    by simp_all
qed

lemma sample_live: "live_entry sample_ring 3" "live_entry sample_ring 4"
  by (simp_all add: live_entry_def sample_ring_ok zero_pcb_def)

theorem switch_resumes_first_live_witness:
  "\<exists>t. context_switch sample_exe 0x7F9F00 sample_ring = Some (t, Resume 0x7F7F00) \<and> cur_pcb t = 4 \<and> rotation t = [3]"
proof -
  have o: "switch_ok sample_ring" by (simp add: switch_ok_def sample_ring_ok zero_pcb_def)
  have c: "candidates sample_ring = [] @ 4 # [3]" using sample_live by (simp add: candidates_def sample_ring_ok)
  have "saved_ctx 0x7F9F00 sample_ring (unat (4 :: u32)) = Some 0x7F7F00" by (simp add: saved_ctx_def sample_ring_ok)
  from switch_resumes_first_live [OF o c _ sample_live(2) this, of sample_exe] show ?thesis by auto
qed

theorem timer_round_is_fair_witness:
  "\<exists>t. run_steps (pit_step sample_exe) cur_pcb [0x7F9F00, 0x7F7E00] sample_ring = Some (t, [4, 3]) \<and> ring t = [4, 3]"
proof -
  have r: "ring sample_ring = [4, 3]" by (simp add: ring_def sample_ring_ok)
  have "ring_ready sample_ring" unfolding ring_ready_def r by (simp add: sample_ring_ok zero_pcb_def)
  then show ?thesis using timer_round_is_fair [of sample_ring "[0x7F9F00, 0x7F7E00]" sample_exe] r by auto
qed


text \<open>A file system with an empty directory.\<close>

definition empty_fs :: fs where
  "empty_fs = \<lparr>img = replicate 128 0, node_head = 4096, data_head = 8192\<rparr>"

lemma empty_fs_no_shell: "no_shell empty_fs"
proof -
  have e: "entry_name empty_fs 0 = []" by (simp add: entry_name_def entries_at_def empty_fs_def cstr_def)
  have n: "num_dentries (img empty_fs) = Some 0"
    by (simp add: empty_fs_def num_dentries_def rd32_def load_def le32_def)
  have w: "wf_dir empty_fs (unat (0 :: u32))" by (simp add: wf_dir_def e) (simp add: entries_at_def empty_fs_def)
  have r: "readable (chars ''shell'' @ [0]) FILE_NAME_SIZE" by (simp add: readable_def)
  have "cstr (chars ''shell'' @ [0]) = chars ''shell''" by (rule cstr_append_nul) (simp add: chars_def)
  then have "\<not> name_match empty_fs (chars ''shell'' @ [0]) 0" by (simp add: name_match_def e chars_def)
  then have "List.find (name_match empty_fs (chars ''shell'' @ [0])) [0..<unat (0 :: u32) + 1] = None" by simp
  then show ?thesis using read_dentry_by_name_find [OF n w _ r, of "replicate 64 0"] by (auto simp: no_shell_def)
qed

theorem failed_rescue_loops_witness:
  "next_process empty_fs (init_sched zero_kstate) = None"
proof -
  have "idle (init_sched zero_kstate)" using sched_inv_init by (simp add: idle_def rotation_def)
  then show ?thesis using failed_rescue_loops [OF empty_fs_no_shell] by blast
qed

end
