(* ===== verification/Root_Proc.thy ===== *)
theory Root_Proc
  imports Sched
begin

text \<open>
  Processes without a parent: \<open>sys_exec_internal\<close> of \<^verbatim>\<open>student-distrib/syscall_impl.c\<close> called by the kernel
  itself, with no context to return to. The kernel does so at boot, when a terminal is opened for the
  first time, and in \<open>context_switch\<close> of \<^verbatim>\<open>sched.c\<close> when no process is left. Such a process does not enter
  user mode at once: it waits in the active queue with a frame that the scheduler will resume.
\<close>

section \<open>The new process\<close>

definition first_pcb :: "nat \<Rightarrow> nat \<Rightarrow> u8 list \<Rightarrow> pcb" where
  "first_pcb k n args =
     (let b = fresh_pcb (int k) None None args
      in b\<lparr>file_array := (file_array b)[0 := term_file, 1 := term_file], term_ctx := Some n, sched_ctx := Some (start_ctx (int k))\<rparr>)"

lemma first_pcb_fields [simp]:
  "parent (first_pcb k n args) = None" "parent_ctx (first_pcb k n args) = None" "pid (first_pcb k n args) = of_nat k"
  "page_directory (first_pcb k n args) = k" "cmd_args (first_pcb k n args) = args"
  "kern_stack (first_pcb k n args) = kern_esp_of (int k)" "term_ctx (first_pcb k n args) = Some n"
  "sched_ctx (first_pcb k n args) = Some (start_ctx (int k))" "state (first_pcb k n args) = 0"
  "(first_pcb k n args)\<lparr>sched_ctx := Some (start_ctx (int k))\<rparr> = first_pcb k n args"
  by (simp_all add: first_pcb_def fresh_pcb_def zero_pcb_def)

text \<open>What a new first process changes of the kernel, apart from its terminal and the run queues.\<close>

definition starts_process :: "fs \<Rightarrow> u32 \<Rightarrow> u8 list \<Rightarrow> nat \<Rightarrow> kstate \<Rightarrow> kstate \<Rightarrow> bool" where
  "starts_process f inode args k s t \<longleftrightarrow>
     pcbs t = (pcbs s)(k := first_pcb k (terminal_num s) args) \<and>
     frames t = (frames s)(start_ctx (int k) := start_frame (entry_point f inode)) \<and>
     user_mem t = user_mem (load_image f inode k s) \<and> nprocs t = nprocs s + 1 \<and>
     proc_bitmap t = proc_bitmap s OR push_bit k 1 \<and> term_pids t = (term_pids s)[terminal_num s := int k] \<and>
     cur_pcb t = cur_pcb s \<and> pg t = pg s \<and> iflag t = iflag s \<and> con t = con s \<and> open_rtcs t = open_rtcs s"

text \<open>The kernel can start \<open>cmd\<close> as process \<open>k\<close>, which has no parent.\<close>

definition can_start :: "fs \<Rightarrow> kstate \<Rightarrow> u8 list \<Rightarrow> u8 list \<Rightarrow> u32 \<Rightarrow> nat \<Rightarrow> bool" where
  "can_start f s cmd args inode k \<longleftrightarrow> command_ok f cmd args inode \<and> entry_ok (entry_point f inode) \<and> next_pid s k \<and>
     nprocs s < of_nat MAX_PROCESSES \<and> length (file_content f (inode_at f inode)) \<le> length (user_mem s k)"

lemma term_open_first:
  assumes "k \<le> MAX_PROCESSES"
  shows "\<exists>ts es. term_open (upd_pcb k (\<lambda>_. fresh_pcb (int k) None None args) s) (Some k) =
    Some (s\<lparr>term_terms := ts, io := es, pcbs := (pcbs s)(k := (first_pcb k (terminal_num s) args)\<lparr>sched_ctx := None\<rparr>),
        term_pids := (term_pids s)[terminal_num s := int k]\<rparr>, 0)"
proof -
  have b: "parent (fresh_pcb (int k) None None args) = None" "sint (pid (fresh_pcb (int k) None None args)) = int k"
    using sint_small_pid [OF assms] by (simp_all add: fresh_pcb_def)
  show ?thesis using b by (cases s) (simp add: term_open_def upd_pcb_def Let_def update_screen_cursor_def do_io_def first_pcb_def fresh_pcb_def zero_pcb_def)
qed

lemma queues_cong:
  assumes "sched_queue_1 t = sched_queue_1 s" "sched_queue_2 t = sched_queue_2 s" "active_is_1 t = active_is_1 s"
  shows "sched_inv t = sched_inv s" "active_list t = active_list s" "expired_list t = expired_list s" "rotation t = rotation s"
  using assms by (simp_all add: sched_inv_def active_list_def expired_list_def rotation_def active_queue_def expired_queue_def)

lemma same_but_queues_more:
  assumes "same_but_queues s t"
  shows "user_mem t = user_mem s" "con t = con s" "open_rtcs t = open_rtcs s" "frames t = frames s" "terminal_num t = terminal_num s"
  using assms unfolding same_but_queues_def by (cases s; cases t; simp)+

lemma launch_first:
  assumes q: "sched_inv s" "length (active_list s) < MAX_PROCESSES - 1" and p: "pid (pcbs s k) = of_nat k" "k \<le> MAX_PROCESSES"
  shows "\<exists>t. launch flags d None k eip s = (t, Returns (int k)) \<and> sched_inv t \<and>
    active_list t = active_list s @ [of_nat k] \<and> expired_list t = expired_list s \<and>
    pcbs t = (pcbs s)(k := (pcbs s k)\<lparr>sched_ctx := Some (start_ctx (int k))\<rparr>) \<and>
    frames t = (frames s)(start_ctx (int k) := start_frame eip) \<and> pg t = (pg s)\<lparr>pdbr := d\<rparr> \<and> iflag t = flags \<and>
    user_mem t = user_mem s \<and> nprocs t = nprocs s \<and> proc_bitmap t = proc_bitmap s \<and> term_pids t = term_pids s \<and>
    cur_pcb t = cur_pcb s \<and> con t = con s \<and> open_rtcs t = open_rtcs s"
proof -
  let ?s = "(upd_pcb k (\<lambda>b. b\<lparr>sched_ctx := Some (start_ctx (int k))\<rparr>) s)\<lparr>frames := (frames s)(start_ctx (int k) := start_frame eip)\<rparr>"
  have c: "sched_inv ?s = sched_inv s" "active_list ?s = active_list s" "expired_list ?s = expired_list s"
    by (intro queues_cong; simp add: upd_pcb_def)+
  obtain u r where u: "push_to_active (of_nat k) ?s = (u, r)" by fastforce
  have i: "sched_inv u" "same_but_queues ?s u" "expired_list u = expired_list s" "active_list u = active_list s @ [of_nat k]"
    using push_to_active_cases [OF _ u] q unfolding c by auto
  let ?t = "(set_pdbr d u)\<lparr>iflag := flags\<rparr>"
  have t: "sched_inv ?t = sched_inv u" "active_list ?t = active_list u" "expired_list ?t = expired_list u"
    by (intro queues_cong; simp add: set_pdbr_def)+
  have "launch flags d None k eip s = (?t, Returns (sint (pid (pcbs u k))))"
    using u p by (simp add: launch_def Let_def upd_pcb_def set_pdbr_def)
  moreover have "sint (pid (pcbs u k)) = int k"
    using same_but_queues_fields [OF i(2)] p sint_small_pid [OF p(2)] by (simp add: upd_pcb_def)
  ultimately show ?thesis using i t same_but_queues_fields [OF i(2)] same_but_queues_more [OF i(2)]
    by (intro exI [of _ ?t]) (simp add: upd_pcb_def set_pdbr_def)
qed

lemma sys_exec_first:
  assumes e: "can_start f s cmd args inode k" and q: "sched_inv s" "length (active_list s) < MAX_PROCESSES - 1"
  shows "\<exists>t. sys_exec_internal f (Some cmd) None s = Some (t, Returns (int k)) \<and> starts_process f inode args k s t \<and>
    sched_inv t \<and> active_list t = active_list s @ [of_nat k] \<and> expired_list t = expired_list s"
proof -
  note e = e [unfolded can_start_def]
  obtain nm rest ty where c: "command_name cmd = Some (nm, rest)" "command_args rest = Some args" "resolves f nm ty inode"
    "wf_inode f inode" "28 \<le> length (file_content f (inode_at f inode))" using e by (auto simp: command_ok_def)
  obtain d where d: "read_dentry_by_name f nm (replicate 64 0) = Some (d, 0)" "d_inode d = inode"
    using resolves_dentry [OF c(3)] by auto
  have k: "1 \<le> k" "k \<le> MAX_PROCESSES" using e by (auto simp: next_pid_def)
  let ?s = "s\<lparr>iflag := False, nprocs := nprocs s + 1\<rparr>"
  have "next_pid ?s k" using e by (simp add: next_pid_def pid_used_def)
  then have a: "get_first_free_pid ?s = (?s\<lparr>proc_bitmap := proc_bitmap s OR push_bit k 1\<rparr>, int k)" (is "_ = (?a, _)")
    using next_pid_alloc [of ?s k] by simp
  obtain ts es where o: "term_open (upd_pcb k (\<lambda>_. fresh_pcb (int k) None None args) ?a) (Some k) =
      Some (?a\<lparr>term_terms := ts, io := es, pcbs := (pcbs s)(k := (first_pcb k (terminal_num s) args)\<lparr>sched_ctx := None\<rparr>),
        term_pids := (term_pids s)[terminal_num s := int k]\<rparr>, 0)" (is "_ = Some (?o, 0)")
    using term_open_first [OF k(2), of args ?a] by auto
  have l: "file_loader f d (user_mem s k) =
      Some (file_content f (inode_at f inode) @ drop (length (file_content f (inode_at f inode))) (user_mem s k), Some (entry_point f inode))"
    using file_loader_content [of f _ d "user_mem s k"] c(4,5) d(2) e
    by (auto simp: wf_inode_def Let_def entry_ok_def entry_point_def)
  let ?l = "load_image f inode k (set_pdbr k ?o)"
  have "spawn f d rest None s = Some (launch (iflag s) (pdbr (pg s)) None k (entry_point f inode) ?l)"
    using a o l c(2) by (simp add: spawn_def Let_def set_pdbr_def load_image_def)
  moreover have "sys_exec_internal f (Some cmd) None s = spawn f d rest None s"
    using c(1) d(1) e by (simp add: sys_exec_internal_def)
  moreover have "sched_inv ?l = sched_inv s" "active_list ?l = active_list s" "expired_list ?l = expired_list s"
    by (intro queues_cong; simp add: load_image_def set_pdbr_def Let_def)+
  moreover have "pid (pcbs ?l k) = of_nat k" by (simp add: load_image_def set_pdbr_def Let_def)
  ultimately show ?thesis
    using launch_first [of ?l k "iflag s" "pdbr (pg s)" "entry_point f inode"] q k(2)
    by (auto simp: starts_process_def load_image_def set_pdbr_def Let_def)
qed

section \<open>When no process is left\<close>

abbreviation (input) shell_cmd :: "u8 list" where "shell_cmd \<equiv> chars ''shell'' @ [0]"

lemma can_start_cong:
  "nprocs t = nprocs s \<Longrightarrow> proc_bitmap t = proc_bitmap s \<Longrightarrow> user_mem t = user_mem s \<Longrightarrow> can_start f t cmd args inode k = can_start f s cmd args inode k"
  by (simp add: can_start_def next_pid_def pid_used_def)

lemma idle_rescue_pass:
  assumes "idle s" "can_start f s shell_cmd args inode k"
  shows "\<exists>t c. next_pass f s = Some (t, None) \<and> starts_process f inode args k (s\<lparr>con := c\<rparr>) t \<and> sched_inv t \<and> rotation t = [of_nat k]"
proof -
  let ?s = "swap_queues s"
  have l: "active_list s = []" "expired_list s = []" "sched_inv s" using assms(1) by (auto simp: idle_def rotation_def)
  obtain v r where p: "pop_active ?s = (v, r)" by fastforce
  have c: "r = None" "sched_inv v" "same_but_queues ?s v" "active_list v = []" "expired_list v = []"
    using pop_active_cases [OF rotation_swap(1) [OF l(3)] p] l by (simp_all add: rotation_swap)
  have sv: "same_but_queues s v" using same_but_queues_trans [OF _ c(3)] by simp
  let ?v = "v\<lparr>con := fst (puts (con v) rescue_msg)\<rparr>"
  have q: "sched_inv ?v = sched_inv v" "active_list ?v = active_list v" "expired_list ?v = expired_list v" by (intro queues_cong; simp)+
  have "can_start f ?v shell_cmd args inode k"
    using assms(2) can_start_cong [of ?v s f shell_cmd args inode k] same_but_queues_fields [OF sv] same_but_queues_more [OF sv] by simp
  then obtain t where t: "sys_exec_internal f (Some shell_cmd) None ?v = Some (t, Returns (int k))" "starts_process f inode args k ?v t"
    "sched_inv t" "active_list t = [of_nat k]" "expired_list t = []"
    using sys_exec_first [of f ?v shell_cmd args inode k] c q by auto
  have k: "1 \<le> k" "k \<le> MAX_PROCESSES" using assms(2) by (auto simp: can_start_def next_pid_def)
  then have w: "(word_of_int (int k) :: u32) > 0" by (simp add: word_less_nat_alt unat_of_nat)
  have "next_pass f s = Some (t, None)" using p c l t(1) w by (simp add: next_pass_def rescue_def Let_def)
  moreover have "starts_process f inode args k (s\<lparr>con := con ?v\<rparr>) t"
    using t(2) same_but_queues_fields [OF sv] same_but_queues_more [OF sv] by (simp add: starts_process_def load_image_def Let_def)
  ultimately show ?thesis using t by (intro exI [of _ t] exI [of _ "con ?v"]) (simp add: rotation_def)
qed

lemma resume_first:
  assumes "sched_inv t" "rotation t = [of_nat k]" "pcbs t k = first_pcb k n args" "k \<le> MAX_PROCESSES"
  shows "\<exists>x. next_process f t = Some (x, Resume (start_ctx (int k))) \<and> cur_pcb x = k \<and> pdbr (pg x) = k \<and>
    tss_esp0 x = kern_esp_of (int k) \<and> frames x = frames t \<and> user_mem x = user_mem t \<and> nprocs x = nprocs t \<and>
    rotation x = [] \<and> sched_inv x \<and> pcbs x = (pcbs t)(k := (first_pcb k n args)\<lparr>sched_ctx := None\<rparr>)"
proof -
  have w: "unat (of_nat k :: u32) = k" "(of_nat k :: u32) \<le> of_nat MAX_PROCESSES" using assms(4) by (simp_all add: unat_of_nat word_le_nat_alt)
  have lv: "live_entry t (of_nat k)" using w assms(3) by (simp add: live_entry_def)
  obtain v where v: "sched_inv v" "same_but_queues t v" "rotation v = []"
      "next_process f t = Some (fst (dispatch (of_nat k) v), the (snd (dispatch (of_nat k) v)))"
    using next_process_skips [of t "[]" "of_nat k" "[]" f] assms(1,2) lv by fastforce
  note vf = same_but_queues_fields [OF v(2)] same_but_queues_more [OF v(2)]
  have pv: "pcbs v k = first_pcb k n args" using vf assms(3) by simp
  obtain x where x: "dispatch (of_nat k) v = (x, Some (Resume (start_ctx (int k))))"
    and xf: "x = (eoi_pit (set_pdbr k (upd_pcb k (\<lambda>b. b\<lparr>sched_ctx := None\<rparr>) (set_tss (kern_esp_of (int k)) v))))\<lparr>cur_pcb := k\<rparr>"
    using pcb_from_word [OF w(2)] w pv by (simp add: dispatch_def Let_def upd_pcb_def set_tss_def)
  have "sched_inv x = sched_inv v" "rotation x = rotation v"
    unfolding xf by (intro queues_cong; simp add: eoi_pit_def do_io_def set_pdbr_def upd_pcb_def set_tss_def)+
  then show ?thesis using v vf x assms(3)
    by (intro exI [of _ x]) (simp add: xf eoi_pit_def do_io_def set_pdbr_def upd_pcb_def set_tss_def)
qed

lemma idle_starts_shell:
  assumes "idle s" "can_start f s shell_cmd args inode k"
  shows "\<exists>t. next_process f s = Some (t, Resume (start_ctx (int k))) \<and> cur_pcb t = k \<and> pdbr (pg t) = k \<and>
    tss_esp0 t = kern_esp_of (int k) \<and> frames t (start_ctx (int k)) = start_frame (entry_point f inode) \<and>
    user_mem t = user_mem (load_image f inode k s) \<and> nprocs t = nprocs s + 1 \<and> rotation t = [] \<and> sched_inv t \<and>
    pcbs t = (pcbs s)(k := (first_pcb k (terminal_num s) args)\<lparr>sched_ctx := None\<rparr>)"
proof -
  obtain t c where t: "next_pass f s = Some (t, None)" "starts_process f inode args k (s\<lparr>con := c\<rparr>) t" "sched_inv t" "rotation t = [of_nat k]"
    using idle_rescue_pass [OF assms] by blast
  have k: "k \<le> MAX_PROCESSES" using assms(2) by (auto simp: can_start_def next_pid_def)
  note t2 = t(2) [unfolded starts_process_def]
  have "next_process f s = next_process f t" using t(1) by (subst next_process.simps) simp
  then show ?thesis using resume_first [OF t(3,4) _ k, of "terminal_num s" args f] t2
    by (auto simp: load_image_def Let_def)
qed

section \<open>Properties\<close>

text \<open>
  C20: When the last process has ended, the switch away from it starts a new shell and resumes it: on the
  terminal that is on the screen, at the entry point of the file, on a fresh user stack, in its own address
  space with the image of the file at its start. No other control block changes but the dead one's.\<close>

theorem last_process_restarts_shell:
  assumes "switch_ok s" "candidates s = []" "can_start f s shell_cmd args inode k"
  shows "\<exists>t. context_switch f regs s = Some (t, Resume (start_ctx (int k))) \<and> cur_pcb t = k \<and> pdbr (pg t) = k \<and>
    tss_esp0 t = kern_esp_of (int k) \<and> frames t (start_ctx (int k)) = start_frame (entry_point f inode) \<and>
    take (length (file_content f (inode_at f inode))) (user_mem t k) = file_content f (inode_at f inode) \<and>
    term_ctx (pcbs t k) = Some (terminal_num s) \<and> parent (pcbs t k) = None \<and> nprocs t = nprocs s + 1 \<and>
    (\<forall>j. j \<noteq> k \<and> j \<noteq> cur_pcb s \<longrightarrow> pcbs t j = pcbs s j \<and> user_mem t j = user_mem s j)"
proof -
  let ?p = "cur_pcb s" and ?s = "leave_current regs s"
  have p: "1 \<le> ?p" using assms(1) by (simp add: switch_ok_def)
  have nl: "\<not> live_entry s (of_nat ?p)" using assms(2) by (auto simp: candidates_def split: if_splits)
  have u: "unat (of_nat ?p :: u32) = ?p" "(of_nat ?p :: u32) \<le> of_nat MAX_PROCESSES"
    using assms(1) by (simp_all add: switch_ok_def unat_of_nat word_le_nat_alt)
  then have "state (pcbs s ?p) AND EXIT_DEAD \<noteq> 0" using nl by (simp add: live_entry_def)
  then obtain g where g: "?s = upd_pcb ?p g s" using p by (auto simp: leave_current_def get_proc_pcb_def upd_pcb_def Let_def)
  have "idle ?s" using leave_current_ok [OF assms(1), of regs] assms(2) by (simp add: idle_def)
  moreover have "can_start f ?s shell_cmd args inode k" using can_start_cong [of ?s s] assms(3) g by (simp add: upd_pcb_def)
  ultimately obtain t where t: "next_process f ?s = Some (t, Resume (start_ctx (int k)))" "cur_pcb t = k" "pdbr (pg t) = k"
    "tss_esp0 t = kern_esp_of (int k)" "frames t (start_ctx (int k)) = start_frame (entry_point f inode)"
    "user_mem t = user_mem (load_image f inode k ?s)" "nprocs t = nprocs ?s + 1"
    "pcbs t = (pcbs ?s)(k := (first_pcb k (terminal_num ?s) args)\<lparr>sched_ctx := None\<rparr>)"
    using idle_starts_shell [of ?s f args inode k] by blast
  moreover have "context_switch f regs s = next_process f ?s" using p by (simp add: context_switch_def get_proc_pcb_def)
  ultimately show ?thesis by (intro exI [of _ t]) (simp add: g upd_pcb_def load_image_def Let_def)
qed

text \<open>The shell of terminal 0, the only process, has halted; its identifier is free again.\<close>

definition sample_last :: kstate where
  "sample_last = (upd_pcb 1 (\<lambda>b. b\<lparr>pid := 1, state := EXIT_DEAD\<rparr>) zero_kstate)\<lparr>cur_pcb := 1, user_mem := (\<lambda>_. replicate 64 0)\<rparr>"

lemma new_queue: "circ_inv (CIRC_BUF_TYPE z MAX_PROCESSES)" "circ_cap (CIRC_BUF_TYPE z MAX_PROCESSES) = MAX_PROCESSES - 1"
    "circ_list (CIRC_BUF_TYPE z MAX_PROCESSES) = []"
  by (simp_all add: circ_inv_def circ_cap_def circ_list_def circ_count_def BUF_PTR_DIFF_def SIZEOF_BUF_def CIRC_BUF_TYPE_def)

lemma sample_can_start:
  assumes "proc_bitmap s = 0" "nprocs s = 0" "user_mem s 1 = replicate 64 0"
  shows "can_start sample_exe s shell_cmd (replicate 64 0) 0 1"
  using assms sample_command [of "0x08048094"] sample_entry_ok
  by (simp add: can_start_def next_pid_def pid_used_def sample_inode_at sample_content)

theorem last_process_restarts_shell_witness:
  "\<exists>t. context_switch sample_exe 0x7FDF00 sample_last = Some (t, Resume (start_ctx 1)) \<and> cur_pcb t = 1 \<and> nprocs t = 1 \<and>
     frames t (start_ctx 1) = start_frame 0x08048094"
proof -
  have f: "cur_pcb sample_last = 1" "pid (pcbs sample_last (Suc 0)) = 1" "state (pcbs sample_last (Suc 0)) = 6" "nprocs sample_last = 0"
    "proc_bitmap sample_last = 0" "user_mem sample_last k = replicate 64 0"
    "active_queue sample_last = CIRC_BUF_TYPE 0 MAX_PROCESSES" "expired_queue sample_last = CIRC_BUF_TYPE 0 MAX_PROCESSES"
    for k by (simp_all add: sample_last_def upd_pcb_def zero_kstate_def active_queue_def expired_queue_def)
  have r: "rotation sample_last = []" "expired_list sample_last = []" "sched_inv sample_last"
    by (simp_all add: rotation_def active_list_def expired_list_def sched_inv_def f new_queue)
  then have "switch_ok sample_last" "candidates sample_last = []"
    by (simp_all add: switch_ok_def candidates_def live_entry_def f)
  moreover have "can_start sample_exe sample_last shell_cmd (replicate 64 0) 0 1" by (rule sample_can_start) (simp_all add: f)
  ultimately show ?thesis
    using last_process_restarts_shell [of sample_last sample_exe "replicate 64 0" 0 1 "0x7FDF00"] sample_command(2) [of "0x08048094"]
    by (auto simp: f)
qed

end
