(* ===== verification/Term_Keys.thy ===== *)
theory Term_Keys
  imports Sched Kbd
begin

text \<open>
  The keyboard side of \<^verbatim>\<open>student-distrib/term.c\<close>: \<open>term_handle_keypress\<close> and \<open>switch_terminals\<close>.
  The results are those of theory \<open>Exec\<close>: a key that kills the running process does not return. \<open>None\<close>
  is undefined behaviour of C: an index out of an array, or a pointer that is not there.
\<close>

abbreviation (input) KBD_KEY_Q :: u16 where "KBD_KEY_Q \<equiv> 0x0D"
abbreviation (input) KBD_KEY_L :: u16 where "KBD_KEY_L \<equiv> 0x1F"
abbreviation (input) KBD_KEY_C :: u16 where "KBD_KEY_C \<equiv> 0x22"
abbreviation (input) KBD_KEY_M :: u16 where "KBD_KEY_M \<equiv> 0x26"
abbreviation (input) KBD_KEY_CAPS :: u16 where "KBD_KEY_CAPS \<equiv> 0x100"
abbreviation (input) KBD_KEY_LSHIFT :: u16 where "KBD_KEY_LSHIFT \<equiv> 0x101"
abbreviation (input) KBD_KEY_RSHIFT :: u16 where "KBD_KEY_RSHIFT \<equiv> 0x102"
abbreviation (input) KBD_KEY_LCTRL :: u16 where "KBD_KEY_LCTRL \<equiv> 0x103"
abbreviation (input) KBD_KEY_RCTRL :: u16 where "KBD_KEY_RCTRL \<equiv> 0x104"
abbreviation (input) KBD_KEY_LALT :: u16 where "KBD_KEY_LALT \<equiv> 0x105"
abbreviation (input) KBD_KEY_RALT :: u16 where "KBD_KEY_RALT \<equiv> 0x106"
abbreviation (input) KBD_KEY_F1 :: u16 where "KBD_KEY_F1 \<equiv> 0x130"
abbreviation (input) KBD_KEY_F4 :: u16 where "KBD_KEY_F4 \<equiv> 0x133"
abbreviation (input) KBD_KEY_DEL :: u16 where "KBD_KEY_DEL \<equiv> 0x140"
abbreviation (input) KBD_IRQ_PORT :: u32 where "KBD_IRQ_PORT \<equiv> 1"

section \<open>Switching terminals\<close>

text \<open>A terminal without a process gets a new shell and a clear screen.\<close>

definition spawn_terminal :: "fs \<Rightarrow> kstate \<Rightarrow> (kstate \<times> int) option" where
  "spawn_terminal f s =
     (case sys_exec_internal f (Some (chars ''shell'' @ [0])) None s of
        Some (s, Returns new_pid) \<Rightarrow>
          if new_pid \<le> 0 then Some (s, -1)
          else (case get_pcb_from_pid new_pid of None \<Rightarrow> None
            | Some p \<Rightarrow> (case term_ctx (pcbs s p) of None \<Rightarrow> None
                | Some t \<Rightarrow> Some (on_screen (\<lambda>(vm, sc). screen_clear vm sc) (Term t) s, 0)))
      | _ \<Rightarrow> None)"

definition switch_terminals :: "(pt_ref \<Rightarrow> u32) \<Rightarrow> fs \<Rightarrow> int \<Rightarrow> kstate \<Rightarrow> (kstate \<times> int) option" where
  "switch_terminals addr f new_terminal s =
     (if new_terminal < 0 \<or> new_terminal > int NUM_TERMS then Some (s, -1)
      else if new_terminal = int (terminal_num s) then Some (s, -1)
      else do {
        (s, _) \<leftarrow> switch_to_fake_video_memory addr s (get_pcb_from_pid (term_pids s ! terminal_num s));
        let s = s\<lparr>terminal_num := nat new_terminal\<rparr>;
        if terminal_num s \<ge> NUM_TERMS then None
        else if term_pids s ! terminal_num s < 0 then spawn_terminal f s
        else map_option (\<lambda>(s, _). (s, 0)) (switch_from_fake_video_memory addr s (get_pcb_from_pid (term_pids s ! terminal_num s))) })"

section \<open>Keys\<close>

text \<open>The terminal of the screen, or the kernel's own with the kernel's cursor.\<close>

definition key_ctx :: "kstate \<Rightarrow> kstate \<times> term_ref" where
  "key_ctx s =
     (case get_current_term s of
        Some t \<Rightarrow> (s, Term t)
      | None \<Rightarrow> (s\<lparr>kern_screen := \<lparr>scr_video = VIDEO, scr_x = screen_x (con s), scr_y = screen_y (con s)\<rparr>\<rparr>, Global))"

definition ctrl_held :: "term_t \<Rightarrow> bool" where
  "ctrl_held t \<longleftrightarrow> lctrl_held t \<or> rctrl_held t"

definition alt_held :: "term_t \<Rightarrow> bool" where
  "alt_held t \<longleftrightarrow> lalt_held t \<or> ralt_held t"

definition shift_held :: "term_t \<Rightarrow> bool" where
  "shift_held t \<longleftrightarrow> lshift_held t \<or> rshift_held t"

text \<open>The character of a printable key: capitals lock affects the letters only.\<close>

definition key_char :: "term_t \<Rightarrow> u16 \<Rightarrow> u8" where
  "key_char t key =
     (if caps_lock t \<and> key \<ge> KBD_KEY_Q \<and> key \<le> KBD_KEY_M then key_values (caps_lock t \<noteq> shift_held t) key
      else key_values (shift_held t) key)"

text \<open>\<open>CIRC_BUF_PUSH(term->key_buf, key, ok)\<close>: the state and \<open>ok\<close>.\<close>

definition push_key :: "term_ref \<Rightarrow> u8 \<Rightarrow> kstate \<Rightarrow> kstate \<times> bool" where
  "push_key t c s =
     (case CIRC_BUF_PUSH (key_buf (get_term s t)) c of (q, ok) \<Rightarrow> (upd_term t (\<lambda>x. x\<lparr>key_buf := q\<rparr>) s, ok))"

definition pop_tail_key :: "term_ref \<Rightarrow> kstate \<Rightarrow> kstate" where
  "pop_tail_key t s = upd_term t (\<lambda>x. x\<lparr>key_buf := fst (CIRC_BUF_POP_TAIL (key_buf x))\<rparr>) s"

definition type_backspace :: "term_ref \<Rightarrow> kstate \<Rightarrow> kstate option" where
  "type_backspace t s =
     (case CIRC_BUF_PEEK_TAIL (key_buf (get_term s t)) of
        Inl _ \<Rightarrow> None
      | Inr None \<Rightarrow> Some (fst (push_key t 8 s))
      | Inr (Some c) \<Rightarrow>
          Some (if c = 0 then pop_tail_key t s
                else if c \<noteq> 10 \<and> c \<noteq> 8 then screen_putc t 8 (pop_tail_key t s)
                else s))"

definition type_char :: "term_ref \<Rightarrow> u8 \<Rightarrow> kstate \<Rightarrow> kstate option" where
  "type_char t c s =
     (if c = 0 then Some s
      else map_option (update_screen_cursor t)
        (if c = 8 then type_backspace t s
         else (case push_key t c s of (s, ok) \<Rightarrow> Some (if ok then screen_putc t c s else s))))"

text \<open>The keys that are held down, and the printable ones.\<close>

definition press_key :: "term_ref \<Rightarrow> u16 \<Rightarrow> kstate \<Rightarrow> kstate option" where
  "press_key t key s =
     (if key = KBD_KEY_LCTRL then Some (upd_term t (\<lambda>x. x\<lparr>lctrl_held := True\<rparr>) s)
      else if key = KBD_KEY_RCTRL then Some (upd_term t (\<lambda>x. x\<lparr>rctrl_held := True\<rparr>) s)
      else if key = KBD_KEY_LSHIFT then Some (upd_term t (\<lambda>x. x\<lparr>lshift_held := True\<rparr>) s)
      else if key = KBD_KEY_RSHIFT then Some (upd_term t (\<lambda>x. x\<lparr>rshift_held := True\<rparr>) s)
      else if key = KBD_KEY_LALT then Some (upd_term t (\<lambda>x. x\<lparr>lalt_held := True\<rparr>) s)
      else if key = KBD_KEY_RALT then Some (upd_term t (\<lambda>x. x\<lparr>ralt_held := True\<rparr>) s)
      else if key = KBD_KEY_CAPS then Some (upd_term t (\<lambda>x. x\<lparr>caps_lock := \<not> caps_lock x\<rparr>) s)
      else if key < 128 then type_char t (key_char (get_term s t) key) s
      else Some s)"

definition release_key :: "term_ref \<Rightarrow> u16 \<Rightarrow> kstate \<Rightarrow> kstate" where
  "release_key t key s =
     (if key = KBD_KEY_LCTRL then upd_term t (\<lambda>x. x\<lparr>lctrl_held := False\<rparr>) s
      else if key = KBD_KEY_RCTRL then upd_term t (\<lambda>x. x\<lparr>rctrl_held := False\<rparr>) s
      else if key = KBD_KEY_LSHIFT then upd_term t (\<lambda>x. x\<lparr>lshift_held := False\<rparr>) s
      else if key = KBD_KEY_RSHIFT then upd_term t (\<lambda>x. x\<lparr>rshift_held := False\<rparr>) s
      else if key = KBD_KEY_LALT then upd_term t (\<lambda>x. x\<lparr>lalt_held := False\<rparr>) s
      else if key = KBD_KEY_RALT then upd_term t (\<lambda>x. x\<lparr>ralt_held := False\<rparr>) s
      else s)"

text \<open>Control-L.\<close>

definition clear_terminal :: "term_ref \<Rightarrow> kstate \<Rightarrow> kstate" where
  "clear_terminal t s =
     (let s = on_screen (\<lambda>(vm, sc). screen_clear vm sc) t s;
          s = update_screen_cursor t s;
          s = upd_term t (\<lambda>x. x\<lparr>key_buf := CIRC_BUF_INIT (key_buf x)\<rparr>) s
      in fst (push_key t 0 s))"

definition kill_foreground :: "kstate \<Rightarrow> (kstate \<times> outcome) option" where
  "kill_foreground s =
     (if term_pids s ! terminal_num s > 0
      then sys_halt_internal (term_pids s ! terminal_num s) 256 (do_io (send_eoi KBD_IRQ_PORT) s)
      else Some (s, Returns 0))"

text \<open>The end of the function: the kernel's cursor follows the kernel's screen.\<close>

definition sync_cursor :: "term_ref \<Rightarrow> kstate \<Rightarrow> kstate" where
  "sync_cursor t s =
     (if t = Global then s\<lparr>con := (con s)\<lparr>screen_x := scr_x (kern_screen s), screen_y := scr_y (kern_screen s)\<rparr>\<rparr> else s)"

definition term_handle_keypress :: "(pt_ref \<Rightarrow> u32) \<Rightarrow> fs \<Rightarrow> u16 \<Rightarrow> u8 \<Rightarrow> kstate \<Rightarrow> (kstate \<times> outcome) option" where
  "term_handle_keypress addr f key status s =
     (case key_ctx s of (s, t) \<Rightarrow>
        let x = get_term s t in
        if status \<noteq> 0 then
          if ctrl_held x \<and> key = KBD_KEY_L then Some (clear_terminal t s, Returns 0)
          else if ctrl_held x \<and> key = KBD_KEY_C \<or> ctrl_held x \<and> alt_held x \<and> key = KBD_KEY_DEL then kill_foreground s
          else if alt_held x \<and> key \<ge> KBD_KEY_F1 \<and> key \<le> KBD_KEY_F4 then
            (let flags = iflag s
             in map_option (\<lambda>(s, _). (s\<lparr>iflag := flags\<rparr>, Returns 0))
                  (switch_terminals addr f (uint (key - KBD_KEY_F1)) (s\<lparr>iflag := False\<rparr>)))
          else map_option (\<lambda>s. (sync_cursor t s, Returns 0)) (press_key t key s)
        else Some (sync_cursor t (release_key t key s), Returns 0))"


section \<open>Two terminals\<close>

text \<open>
  Terminal \<open>a\<close> is on the screen with the process \<open>p\<close> in front of its ancestors \<open>ps\<close>, terminal \<open>b\<close> is not,
  with \<open>q\<close> and \<open>qs\<close>; the two groups have different page directories.
\<close>

definition two_terminals :: "(pt_ref \<Rightarrow> u32) \<Rightarrow> kstate \<Rightarrow> nat \<Rightarrow> pcb_ptr list \<Rightarrow> nat \<Rightarrow> pcb_ptr list \<Rightarrow> bool" where
  "two_terminals addr s a ps b qs \<longleftrightarrow> video_group addr s a ps \<and> video_group addr s b qs \<and> a \<noteq> b \<and>
     terminal_num s = a \<and> term_pids s ! a = int (hd ps) \<and> term_pids s ! b = int (hd qs) \<and>
     hd ps \<le> MAX_PROCESSES \<and> hd qs \<le> MAX_PROCESSES \<and> term_region s b = FAKE b \<and>
     page_directory ` pcbs s ` set ps \<inter> page_directory ` pcbs s ` set qs = {}"

text \<open>Every process of the group that has mapped the video memory reaches \<open>vid\<close>.\<close>

definition group_video_at :: "(pt_ref \<Rightarrow> u32) \<Rightarrow> kstate \<Rightarrow> pcb_ptr list \<Rightarrow> u32 \<Rightarrow> bool" where
  "group_video_at addr s ps vid \<longleftrightarrow>
     (\<forall>q \<in> set ps. has_video_mapped (pcbs s q) \<longrightarrow> user_video_at addr (pg s) (page_directory (pcbs s q)) vid)"

lemma video_group_Cons:
  assumes "video_group addr s t ps"
  obtains p ps' where "ps = p # ps'"
  using assms by (cases ps) (simp_all add: video_group_def)

lemma video_group_kept:
  assumes "video_group addr s u ps" "other_terms_kept t s s'" "pcbs s' = pcbs s"
  shows "video_group addr (s'\<lparr>terminal_num := n\<rparr>) u ps" "video_group addr s' u ps"
  using assms by (simp_all add: video_group_def other_terms_kept_def)

lemma leaving_keeps_mapped:
  assumes g: "video_group addr s t ps" "video_group addr s u qs" and n: "t \<noteq> u"
    and d: "page_directory ` pcbs s ` set ps \<inter> page_directory ` pcbs s ` set qs = {}"
    and q: "q \<in> set ps" "has_video_mapped (pcbs s q)" and f: "fake_addr s1 u = fake_addr s u" "fake_addr s1 t = fake_addr s t"
    and p1: "pg s1 = (fold (\<lambda>q. remap_proc addr (fake_addr s t) (fake_addr s t) t (pcbs s q)) ps (pg s))\<lparr>pdbr := x\<rparr>"
    and p2: "pg s2 = (fold (\<lambda>q. remap_proc addr VIDEO_ADDR (fake_addr s1 u) u (pcbs s q)) qs ((pg s1)\<lparr>pdbr := y\<rparr>))\<lparr>pdbr := z\<rparr>"
  shows "user_video_at addr (pg s2) (page_directory (pcbs s q)) (fake_addr s t)"
proof -
  let ?fl = "PG_WRITE OR PG_USER" and ?d = "page_directory (pcbs s q)"
  note gg = g [unfolded video_group_def]
  have fw: "vid_window (fake_addr s t)" "PAGE_DIR_IDX (fake_addr s t) \<noteq> 34" "unat (fake_addr s t) mod 4096 = 0"
    "unat (fake_addr s t) + 65536 \<le> 2 ^ 32" "vid_window (fake_addr s u)"
    using fake_windows [of s t] fake_windows [of s u] gg by auto
  have v: "vid_mapped addr w USER_VID ?d T fl (g\<lparr>pdbr := k\<rparr>) = vid_mapped addr w USER_VID ?d T fl g" for w T fl g k
    by (simp add: vid_mapped_def)
  have "vid_mapped addr (fake_addr s t) USER_VID ?d (User_Video_Mems t) ?fl
      (fold (\<lambda>q. remap_proc addr (fake_addr s t) (fake_addr s t) t (pcbs s q)) ps (pg s))"
    by (rule fold_remap_maps [OF fw(1,2)]) (use q in blast)
  then have "vid_mapped addr (fake_addr s t) USER_VID ?d (User_Video_Mems t) ?fl ((pg s1)\<lparr>pdbr := y\<rparr>)" using v p1 by simp
  then have "vid_mapped addr (fake_addr s t) USER_VID ?d (User_Video_Mems t) ?fl
      (fold (\<lambda>q. remap_proc addr VIDEO_ADDR (fake_addr s u) u (pcbs s q)) qs ((pg s1)\<lparr>pdbr := y\<rparr>))"
    by (rule fold_remap_keeps [OF fw(5) n, rotated]) (use d q in blast)
  then have "vid_mapped addr (fake_addr s t) USER_VID ?d (User_Video_Mems t) ?fl (pg s2)" unfolding p2 v f .
  then show ?thesis by (intro user_video_mapped fw) (use gg in auto)
qed


lemma switch_terminals_groups:
  assumes "two_terminals addr s a ps b qs"
  shows "\<exists>s'. switch_terminals addr f (int b) s = Some (s', 0) \<and> two_terminals addr s' b qs a ps \<and>
    (\<forall>x. 0 \<le> x \<and> x < SIZE_64K \<longrightarrow> vmem (con s') VIDEO x = vmem (con s) (FAKE b) x \<and> vmem (con s') (FAKE a) x = vmem (con s) VIDEO x) \<and>
    term_region s' b = VIDEO \<and> group_video_at addr s' qs VIDEO_ADDR \<and> group_video_at addr s' ps (fake_addr s a) \<and>
    pcbs s' = pcbs s \<and> cur_pcb s' = cur_pcb s \<and> pdbr (pg s') = pdbr (pg s) \<and> iflag s' = iflag s \<and>
    (\<forall>u. keys_part (term_terms s' ! u) = keys_part (term_terms s ! u))"
proof -
  note w = assms [unfolded two_terminals_def]
  obtain p ps' where ps: "ps = p # ps'" using w video_group_Cons [of addr s a ps] by auto
  obtain q qs' where qs: "qs = q # qs'" using w video_group_Cons [of addr s b qs] by auto
  have pid: "get_pcb_from_pid (term_pids s ! a) = Some p" "get_pcb_from_pid (term_pids s ! b) = Some q"
    using w ps qs by (simp_all add: get_pcb_from_pid_def)
  have b: "b < NUM_TERMS" using w by (simp add: video_group_def)
  obtain s1 where s1: "switch_to_fake_video_memory addr s (Some p) = Some (s1, 0)" "term_region s1 a = FAKE a"
    "vmem (con s1) = copy_video (vmem (con s)) (FAKE a) VIDEO" "pcbs s1 = pcbs s" "pdbr (pg s1) = pdbr (pg s)" "iflag s1 = iflag s"
    "other_terms_kept a s s1"
    "pg s1 = (fold (\<lambda>q. remap_proc addr (fake_addr s a) (fake_addr s a) a (pcbs s q)) ps (pg s))\<lparr>pdbr := pdbr (pg s)\<rparr>"
    using switch_to_fake_group [of addr s a p ps'] w ps by blast
  let ?s1 = "s1\<lparr>terminal_num := b\<rparr>"
  note k1 = s1(7) [unfolded other_terms_kept_def]
  have g1: "video_group addr ?s1 b (q # qs')" using video_group_kept(1) [OF _ s1(7,4)] w qs by blast
  obtain s2 where s2: "switch_from_fake_video_memory addr ?s1 (Some q) = Some (s2, 0)" "term_region s2 b = VIDEO"
    "vmem (con s2) = copy_video (vmem (con ?s1)) VIDEO (term_region ?s1 b)"
    "\<forall>r \<in> set (q # qs'). has_video_mapped (pcbs ?s1 r) \<longrightarrow> user_video_at addr (pg s2) (page_directory (pcbs ?s1 r)) VIDEO_ADDR"
    "pcbs s2 = pcbs ?s1" "pdbr (pg s2) = pdbr (pg ?s1)" "iflag s2 = iflag ?s1" "other_terms_kept b ?s1 s2"
    "pg s2 = (fold (\<lambda>q. remap_proc addr VIDEO_ADDR (fake_addr ?s1 b) b (pcbs ?s1 q)) (q # qs')
      ((pg ?s1)\<lparr>pdbr := page_directory (pcbs ?s1 q)\<rparr>))\<lparr>pdbr := pdbr (pg ?s1)\<rparr>"
    using switch_from_fake_group [OF g1] by blast
  note k2 = s2(8) [unfolded other_terms_kept_def]
  have rb: "term_region ?s1 b = FAKE b" using w k1 by (simp add: term_region_def)
  have fa: "fake_addr s1 b = fake_addr s b" "fake_addr s1 a = fake_addr s a" "fake_addr ?s1 b = fake_addr s1 b"
    using k1 by (simp_all add: fake_addr_def)
  have p2: "pg s2 = (fold (\<lambda>q. remap_proc addr VIDEO_ADDR (fake_addr s1 b) b (pcbs s q)) qs
      ((pg s1)\<lparr>pdbr := page_directory (pcbs s q)\<rparr>))\<lparr>pdbr := pdbr (pg s1)\<rparr>"
    using s2(9) s1(4) fa qs by simp
  have "group_video_at addr s2 ps (fake_addr s a)"
    unfolding group_video_at_def using leaving_keeps_mapped [of addr s a ps b qs, OF _ _ _ _ _ _ fa(1,2) s1(8) p2] w s2(5) s1(4) by simp
  moreover have "group_video_at addr s2 qs VIDEO_ADDR" using s2(4,5) qs by (simp add: group_video_at_def)
  moreover have "switch_terminals addr f (int b) s = Some (s2, 0)"
    using w pid b s1(1) s2(1) k1 by (simp add: switch_terminals_def Let_def)
  moreover have "video_group addr ?s1 a ps" using video_group_kept(1) [OF _ s1(7,4)] w by blast
  then have "video_group addr s2 a ps" "video_group addr s2 b qs"
    using video_group_kept(2) [OF _ s2(8,5)] g1 qs by blast+
  then have "two_terminals addr s2 b qs a ps"
    using w k1 k2 s1(2,4) s2(5) by (simp add: two_terminals_def term_region_def Int_commute)
  moreover have "vmem (con s2) VIDEO x = vmem (con s) (FAKE b) x \<and> vmem (con s2) (FAKE a) x = vmem (con s) VIDEO x"
    if "0 \<le> x" "x < SIZE_64K" for x
    using that w unfolding s2(3) rb by (simp add: s1(3) copy_video_def)
  ultimately show ?thesis using s1(4-6) s2(2,5-7) k1 k2 by (intro exI [of _ s2]) simp
qed


section \<open>Properties of the switch\<close>

lemma key_ctx_on_screen: "0 \<le> term_pids s ! terminal_num s \<Longrightarrow> key_ctx s = (s, Term (terminal_num s))"
  by (simp add: key_ctx_def get_current_term_def)

lemma f_key_bounds:
  assumes "b < NUM_TERMS"
  shows "KBD_KEY_F1 \<le> KBD_KEY_F1 + of_nat b" "KBD_KEY_F1 + of_nat b \<le> KBD_KEY_F4" "uint ((KBD_KEY_F1 + of_nat b) - KBD_KEY_F1) = int b"
    "KBD_KEY_F1 + of_nat b \<noteq> KBD_KEY_L" "KBD_KEY_F1 + of_nat b \<noteq> KBD_KEY_C" "KBD_KEY_F1 + of_nat b \<noteq> KBD_KEY_DEL"
proof -
  have "b = 0 \<or> b = 1 \<or> b = 2 \<or> b = 3" using assms by presburger
  then show "KBD_KEY_F1 \<le> KBD_KEY_F1 + of_nat b" "KBD_KEY_F1 + of_nat b \<le> KBD_KEY_F4" "uint ((KBD_KEY_F1 + of_nat b) - KBD_KEY_F1) = int b"
    "KBD_KEY_F1 + of_nat b \<noteq> KBD_KEY_L" "KBD_KEY_F1 + of_nat b \<noteq> KBD_KEY_C" "KBD_KEY_F1 + of_nat b \<noteq> KBD_KEY_DEL" by auto
qed

lemma alt_f_key:
  assumes "two_terminals addr s a ps b qs" "alt_held (term_terms s ! a)"
  shows "\<exists>s'. term_handle_keypress addr f (KBD_KEY_F1 + of_nat b) 1 s = Some (s', Returns 0) \<and> two_terminals addr s' b qs a ps \<and>
    (\<forall>x. 0 \<le> x \<and> x < SIZE_64K \<longrightarrow> vmem (con s') VIDEO x = vmem (con s) (FAKE b) x \<and> vmem (con s') (FAKE a) x = vmem (con s) VIDEO x) \<and>
    group_video_at addr s' qs VIDEO_ADDR \<and> group_video_at addr s' ps (fake_addr s a) \<and>
    cur_pcb s' = cur_pcb s \<and> iflag s' = iflag s \<and> (\<forall>u. keys_part (term_terms s' ! u) = keys_part (term_terms s ! u))"
proof -
  note w = assms(1) [unfolded two_terminals_def]
  have b: "b < NUM_TERMS" using w by (simp add: video_group_def)
  let ?s = "s\<lparr>iflag := False\<rparr>"
  have t: "two_terminals addr ?s a ps b qs" using assms(1) by (simp add: two_terminals_def video_group_def term_region_def)
  obtain s' where s': "switch_terminals addr f (int b) ?s = Some (s', 0)" "two_terminals addr s' b qs a ps"
    "\<forall>x. 0 \<le> x \<and> x < SIZE_64K \<longrightarrow> vmem (con s') VIDEO x = vmem (con s) (FAKE b) x \<and> vmem (con s') (FAKE a) x = vmem (con s) VIDEO x"
    "group_video_at addr s' qs VIDEO_ADDR" "group_video_at addr s' ps (fake_addr s a)" "cur_pcb s' = cur_pcb s"
    "\<forall>u. keys_part (term_terms s' ! u) = keys_part (term_terms s ! u)"
    using switch_terminals_groups [OF t, of f] by (auto simp: fake_addr_def)
  have "term_handle_keypress addr f (KBD_KEY_F1 + of_nat b) 1 s = Some (s'\<lparr>iflag := iflag s\<rparr>, Returns 0)"
    using w assms(2) s'(1) f_key_bounds [OF b] by (simp add: term_handle_keypress_def key_ctx_on_screen Let_def)
  moreover have "two_terminals addr (s'\<lparr>iflag := iflag s\<rparr>) b qs a ps"
    using s'(2) by (simp add: two_terminals_def video_group_def term_region_def)
  ultimately show ?thesis using s'(3-7) by (intro exI [of _ "s'\<lparr>iflag := iflag s\<rparr>"]) (simp add: group_video_at_def)
qed



text \<open>
  The modifiers belong to the terminal on the screen: when Alt is released after a switch, the
  release reaches the terminal switched to, and the one that was left holds Alt down for ever.\<close>

theorem switch_leaves_alt_held:
  assumes "two_terminals addr s a ps b qs" "lalt_held (term_terms s ! a)"
  shows "\<exists>s1 s2. term_handle_keypress addr f (KBD_KEY_F1 + of_nat b) 1 s = Some (s1, Returns 0) \<and>
    term_handle_keypress addr f KBD_KEY_LALT 0 s1 = Some (s2, Returns 0) \<and> lalt_held (term_terms s2 ! a)"
proof -
  obtain s1 where s1: "term_handle_keypress addr f (KBD_KEY_F1 + of_nat b) 1 s = Some (s1, Returns 0)" "two_terminals addr s1 b qs a ps"
    "\<forall>u. keys_part (term_terms s1 ! u) = keys_part (term_terms s ! u)"
    using alt_f_key [OF assms(1), of f] assms(2) by (auto simp: alt_held_def)
  have "lalt_held (keys_part (term_terms s1 ! a))" using s1(3) assms(2) by (simp add: keys_part_def)
  then have "lalt_held (term_terms s1 ! a)" by (simp add: keys_part_def)
  then show ?thesis using s1(1,2)
    by (auto simp: term_handle_keypress_def key_ctx_on_screen two_terminals_def release_key_def sync_cursor_def)
qed


section \<open>Typing a line\<close>

text \<open>What a typed character does to the keys waiting in a buffer of \<open>cap\<close> places.\<close>

definition edit_key :: "nat \<Rightarrow> u8 \<Rightarrow> u8 list \<Rightarrow> u8 list" where
  "edit_key cap c xs =
     (if c = 0 then xs
      else if c = 8 then (if xs = [] then (if 0 < cap then [8] else []) else if last xs = 10 \<or> last xs = 8 then xs else butlast xs)
      else if length xs < cap then xs @ [c] else xs)"

text \<open>A buffer that has not wrapped round.\<close>

definition line_buf :: "u8 circ_buf \<Rightarrow> bool" where
  "line_buf q \<longleftrightarrow> circ_inv q \<and> cb_head q = 0"

lemma line_buf_tail: "line_buf q \<Longrightarrow> circ_list q \<noteq> [] \<Longrightarrow> cb_tail q \<noteq> 0"
proof -
  assume q: "line_buf q" "circ_list q \<noteq> []"
  then have "cb_tail q = circ_count q mod SIZEOF_BUF q" "circ_count q \<le> SIZEOF_BUF q - 2" "2 \<le> SIZEOF_BUF q"
    using circ_tail_eq [of q] by (simp_all add: line_buf_def circ_inv_def circ_cap_def)
  moreover have "circ_count q \<noteq> 0" using q(2) by (simp add: circ_list_Nil)
  ultimately show ?thesis by (cases "circ_count q < SIZEOF_BUF q") auto
qed

lemma line_buf_push:
  assumes "line_buf q" "CIRC_BUF_PUSH q c = (q', ok)"
  shows "line_buf q' \<and> circ_cap q' = circ_cap q \<and> ok = (length (circ_list q) < circ_cap q) \<and>
    circ_list q' = (if length (circ_list q) < circ_cap q then circ_list q @ [c] else circ_list q)"
proof -
  have i: "circ_inv q" and h: "cb_head q' = 0" using assms by (auto simp: line_buf_def CIRC_BUF_PUSH_def split: if_splits)
  show ?thesis
  proof (cases "length (circ_list q) < circ_cap q")
    case True
    then show ?thesis using circ_push_ok [OF i True assms(2)] h by (simp add: line_buf_def)
  next
    case False
    then have "length (circ_list q) = circ_cap q" using i by (simp add: circ_inv_def)
    then show ?thesis using circ_push_full [of q c] assms by simp
  qed
qed

lemma line_buf_pop_tail:
  assumes "line_buf q" "circ_list q \<noteq> []"
  shows "line_buf (fst (CIRC_BUF_POP_TAIL q)) \<and> circ_cap (fst (CIRC_BUF_POP_TAIL q)) = circ_cap q \<and>
    circ_list (fst (CIRC_BUF_POP_TAIL q)) = butlast (circ_list q)"
proof -
  have i: "circ_inv q" "circ_list q = butlast (circ_list q) @ [last (circ_list q)]" using assms by (simp_all add: line_buf_def)
  have "cb_head (fst (CIRC_BUF_POP_TAIL q)) = 0" using assms(1) by (simp add: CIRC_BUF_POP_TAIL_def line_buf_def Let_def)
  then show ?thesis using circ_pop_tail_ok [OF i surjective_pairing] by (simp add: line_buf_def)
qed

text \<open>The effect of a key on terminal \<open>t\<close>: its buffer becomes \<open>q\<close>, its screen may change, and no other part of the terminals.\<close>

definition typed :: "nat \<Rightarrow> u8 circ_buf \<Rightarrow> kstate \<Rightarrow> kstate \<Rightarrow> bool" where
  "typed t q s s' \<longleftrightarrow> (\<exists>sc. term_terms s' = (term_terms s)[t := (term_terms s ! t)\<lparr>key_buf := q, term_screen := sc\<rparr>]) \<and>
     term_pids s' = term_pids s \<and> terminal_num s' = terminal_num s \<and> pcbs s' = pcbs s"

lemma typed_key_buf:
  "t < length (term_terms s) \<Longrightarrow> typed t q s (upd_term (Term t) (\<lambda>x. x\<lparr>key_buf := q\<rparr>) s)"
  by (auto simp: typed_def intro!: exI [of _ "term_screen (term_terms s ! t)"])

lemma typed_screen: "typed t q s s' \<Longrightarrow> typed t q s (screen_putc (Term t) c s')"
  by (cases "t < length (term_terms s)") (auto simp: typed_def screen_putc_def on_screen_def list_update_beyond split: prod.splits)

lemma typed_cursor: "typed t q s s' \<Longrightarrow> typed t q s (update_screen_cursor (Term t) s')"
  by (simp add: typed_def update_screen_cursor_def do_io_def)

lemma typed_refl: "t < length (term_terms s) \<Longrightarrow> typed t (key_buf (term_terms s ! t)) s s"
  by (auto simp: typed_def intro!: exI [of _ "term_screen (term_terms s ! t)"])

lemma type_char_edits:
  assumes t: "t < length (term_terms s)" and q: "line_buf (key_buf (term_terms s ! t))"
  shows "\<exists>s' q'. type_char (Term t) c s = Some s' \<and> typed t q' s s' \<and> line_buf q' \<and> circ_cap q' = circ_cap (key_buf (term_terms s ! t)) \<and>
    circ_list q' = edit_key (circ_cap (key_buf (term_terms s ! t))) c (keys s t)"
proof -
  let ?q = "key_buf (term_terms s ! t)"
  obtain q1 ok where p: "CIRC_BUF_PUSH ?q c = (q1, ok)" by fastforce
  note pp = line_buf_push [OF q p]
  have push: "push_key (Term t) c s = (upd_term (Term t) (\<lambda>x. x\<lparr>key_buf := q1\<rparr>) s, ok)" using p by (simp add: push_key_def)
  consider "c = 0" | "c = 8" "keys s t = []" | "c = 8" "keys s t \<noteq> []" | "c \<noteq> 0" "c \<noteq> 8" by blast
  then show ?thesis
  proof cases
    case 1
    then show ?thesis using typed_refl [OF t] q by (auto simp: type_char_def edit_key_def keys_def)
  next
    case 2
    then have "CIRC_BUF_PEEK_TAIL ?q = Inr None" by (simp add: CIRC_BUF_PEEK_TAIL_def circ_simps keys_def)
    then have "type_char (Term t) c s = Some (update_screen_cursor (Term t) (upd_term (Term t) (\<lambda>x. x\<lparr>key_buf := q1\<rparr>) s))"
      using 2 push by (simp add: type_char_def type_backspace_def)
    moreover have "circ_list q1 = edit_key (circ_cap ?q) c (keys s t)"
      using pp 2 by (simp add: edit_key_def keys_def del: length_circ_list)
    ultimately show ?thesis using typed_cursor [OF typed_key_buf [OF t, of q1]] pp by blast
  next
    case 3
    then have pk: "CIRC_BUF_PEEK_TAIL ?q = Inr (Some (last (keys s t)))"
      using circ_peek_tail_ok [of ?q] line_buf_tail [OF q] q by (simp add: line_buf_def keys_def)
    have pop: "pop_tail_key (Term t) s = upd_term (Term t) (\<lambda>x. x\<lparr>key_buf := fst (CIRC_BUF_POP_TAIL ?q)\<rparr>) s"
      by (simp add: pop_tail_key_def)
    note pt = line_buf_pop_tail [OF q]
    show ?thesis
    proof (cases "last (keys s t) = 10 \<or> last (keys s t) = 8")
      case True
      then have "type_char (Term t) c s = Some (update_screen_cursor (Term t) s)"
        using 3 pk by (auto simp: type_char_def type_backspace_def)
      then show ?thesis using typed_cursor [OF typed_refl [OF t]] q 3 True by (auto simp: edit_key_def keys_def)
    next
      case False
      have "\<exists>s'. type_char (Term t) c s = Some s' \<and> typed t (fst (CIRC_BUF_POP_TAIL ?q)) s s'"
        using False 3 pk typed_key_buf [OF t, of "fst (CIRC_BUF_POP_TAIL ?q)"] typed_cursor typed_screen
        by (auto simp: type_char_def type_backspace_def pop)
      then show ?thesis using pt 3 False by (auto simp: edit_key_def keys_def)
    qed
  next
    case 4
    have "\<exists>s'. type_char (Term t) c s = Some s' \<and> typed t q1 s s'"
      using 4 push typed_key_buf [OF t, of q1] typed_cursor typed_screen by (auto simp: type_char_def)
    then show ?thesis using pp 4 by (auto simp: edit_key_def keys_def)
  qed
qed


text \<open>A sequence of key presses.\<close>

fun press_keys :: "(pt_ref \<Rightarrow> u32) \<Rightarrow> fs \<Rightarrow> u16 list \<Rightarrow> kstate \<Rightarrow> kstate option" where
  "press_keys addr f [] s = Some s"
| "press_keys addr f (k # ks) s =
     Option.bind (term_handle_keypress addr f k 1 s) (\<lambda>(s, out). press_keys addr f ks s)"

text \<open>The terminal on the screen, ready for a line: no Control key is held and its buffer has not wrapped.\<close>

definition typing :: "kstate \<Rightarrow> nat \<Rightarrow> bool" where
  "typing s t \<longleftrightarrow> terminal_num s = t \<and> 0 \<le> term_pids s ! t \<and> t < length (term_terms s) \<and>
     \<not> ctrl_held (term_terms s ! t) \<and> line_buf (key_buf (term_terms s ! t))"

lemma press_printable:
  assumes "typing s t" "k < 128"
  shows "\<exists>s'. term_handle_keypress addr f k 1 s = Some (s', Returns 0) \<and> typing s' t \<and> pcbs s' = pcbs s \<and>
    circ_cap (key_buf (term_terms s' ! t)) = circ_cap (key_buf (term_terms s ! t)) \<and>
    (\<forall>k. key_char (term_terms s' ! t) k = key_char (term_terms s ! t) k) \<and>
    keys s' t = edit_key (circ_cap (key_buf (term_terms s ! t))) (key_char (term_terms s ! t) k) (keys s t)"
proof -
  note y = assms(1) [unfolded typing_def]
  obtain s' q where s': "type_char (Term t) (key_char (term_terms s ! t) k) s = Some s'" "typed t q s s'" "line_buf q"
    "circ_cap q = circ_cap (key_buf (term_terms s ! t))"
    "circ_list q = edit_key (circ_cap (key_buf (term_terms s ! t))) (key_char (term_terms s ! t) k) (keys s t)"
    using type_char_edits [of t s "key_char (term_terms s ! t) k"] y by auto
  obtain sc where t: "term_terms s' = (term_terms s)[t := (term_terms s ! t)\<lparr>key_buf := q, term_screen := sc\<rparr>]"
    "term_pids s' = term_pids s" "terminal_num s' = terminal_num s" "pcbs s' = pcbs s" using s'(2) by (auto simp: typed_def)
  have b: "\<not> KBD_KEY_F1 \<le> k" "k \<notin> {KBD_KEY_LCTRL, KBD_KEY_RCTRL, KBD_KEY_LSHIFT, KBD_KEY_RSHIFT, KBD_KEY_LALT, KBD_KEY_RALT, KBD_KEY_CAPS}"
    using assms(2) by (auto simp: word_less_nat_alt word_le_nat_alt)
  then have "term_handle_keypress addr f k 1 s = Some (s', Returns 0)"
    using y s'(1) assms(2) by (simp add: term_handle_keypress_def key_ctx_on_screen press_key_def sync_cursor_def)
  then show ?thesis using y t s'(3-5) by (simp add: typing_def ctrl_held_def keys_def key_char_def shift_held_def)
qed

lemma press_keys_edit:
  assumes "typing s t" "\<forall>k \<in> set ks. k < 128"
  shows "\<exists>s'. press_keys addr f ks s = Some s' \<and> typing s' t \<and> pcbs s' = pcbs s \<and>
    keys s' t = fold (edit_key (circ_cap (key_buf (term_terms s ! t)))) (map (key_char (term_terms s ! t)) ks) (keys s t)"
  using assms
proof (induction ks arbitrary: s)
  case (Cons k ks)
  obtain s1 where s1: "term_handle_keypress addr f k 1 s = Some (s1, Returns 0)" "typing s1 t" "pcbs s1 = pcbs s"
    "circ_cap (key_buf (term_terms s1 ! t)) = circ_cap (key_buf (term_terms s ! t))"
    "\<forall>k. key_char (term_terms s1 ! t) k = key_char (term_terms s ! t) k"
    "keys s1 t = edit_key (circ_cap (key_buf (term_terms s ! t))) (key_char (term_terms s ! t) k) (keys s t)"
    using press_printable [of s t k addr f] Cons.prems by auto
  then show ?case using Cons.IH [OF s1(2)] Cons.prems(2) by (auto simp: cong: map_cong)
qed simp



section \<open>Witnesses\<close>

text \<open>Process 1 on terminal 0, where Alt is held, and process 2 on terminal 1.\<close>

definition sample_two :: kstate where
  "sample_two = zero_kstate\<lparr>pg := zero_paging\<lparr>fake_video_mem := 0x3000000\<rparr>, term_pids := [1, 2, -1, -1],
     pcbs := (\<lambda>p. zero_pcb\<lparr>page_directory := p, has_video_mapped := True, term_ctx := if p = 1 then Some 0 else Some 1\<rparr>),
     term_terms := [zero_term\<lparr>lalt_held := True\<rparr>,
       zero_term\<lparr>term_screen := \<lparr>scr_video = FAKE 1, scr_x = 0, scr_y = 0\<rparr>\<rparr>, zero_term, zero_term]\<rparr>"

lemma sample_two_terminals: "two_terminals sample_layout sample_two 0 [1] 1 [2]"
  using linked_sample
  by (simp add: two_terminals_def video_group_def sample_two_def zero_pcb_def term_region_def zero_kstate_def)

lemma sample_two_alt: "lalt_held (term_terms sample_two ! 0)"
  by (simp add: sample_two_def)



theorem switch_leaves_alt_held_witness:
  "\<exists>s1 s2. term_handle_keypress sample_layout sample_exe 0x131 1 sample_two = Some (s1, Returns 0) \<and>
     term_handle_keypress sample_layout sample_exe 0x105 0 s1 = Some (s2, Returns 0) \<and> lalt_held (term_terms s2 ! 0)"
  using switch_leaves_alt_held [OF sample_two_terminals sample_two_alt, of sample_exe] by simp

text \<open>The keys h, i, backspace and return at terminal 0.\<close>

lemma sample_two_typing: "typing sample_two 0" "get_term_ctx sample_two (Some 1) = Some (Some 0)" "keys sample_two 0 = []"
  "circ_cap (key_buf (term_terms sample_two ! 0)) = 127"
proof -
  have k: "key_buf (term_terms sample_two ! 0) = CIRC_BUF_TYPE 0 128" by (simp add: sample_two_def zero_term_def)
  have "line_buf (CIRC_BUF_TYPE 0 128)" using circ_inv_fresh [of 128] by (simp add: line_buf_def CIRC_BUF_TYPE_def)
  then show "typing sample_two 0" unfolding typing_def k by (simp add: sample_two_def zero_kstate_def ctrl_held_def zero_term_def)
  show "keys sample_two 0 = []" "circ_cap (key_buf (term_terms sample_two ! 0)) = 127" by (simp_all add: keys_def k circ_simps)
  have "root_pcb (pcbs sample_two) 1 = Some 1" by (subst root_pcb.simps) (simp add: sample_two_def zero_pcb_def)
  then show "get_term_ctx sample_two (Some 1) = Some (Some 0)" by (simp add: get_term_ctx_def sample_two_def)
qed

lemma sample_two_chars: "map (key_char (term_terms sample_two ! 0)) [0x1C, 0x14, 0x72, 0x70] = [104, 105, 8, 10]"
proof -
  have "key_char (term_terms sample_two ! 0) k = lower_codes ! unat k" for k
    by (simp add: key_char_def key_values_def shift_held_def sample_two_def zero_term_def)
  then show ?thesis by (simp add: lower_codes_def chars_def nth_append)
qed


end
