(* ===== verification/Idt.thy ===== *)
theory Idt
  imports Prelude
begin

text \<open>
  The interrupt descriptor table: \<open>idt_desc_t\<close> and \<open>SET_IDT_ENTRY\<close> of \<^verbatim>\<open>student-distrib/x86_desc.h\<close>, the
  gates and \<open>install_interrupts\<close> of \<^verbatim>\<open>student-distrib/isr.c\<close>. The table is a function of the vector. The
  entry points are assembler stubs whose addresses the linker chooses: \<open>stub n\<close> is the one named for
  vector \<open>n\<close> (\<open>divide_error\<close> for 0, \<open>irq0\<close> for 32, \<open>enter_syscall\<close> for 0x80), \<open>null_int\<close> the default.
\<close>

record idt_desc =
  offset_15_00 :: u16
  seg_selector :: u16
  reserved4 :: u8
  reserved3 :: bool
  reserved2 :: bool
  reserved1 :: bool
  gate_size :: bool
  reserved0 :: bool
  dpl :: "2 word"
  gate_present :: bool
  offset_31_16 :: u16

abbreviation (input) KERNEL_CS :: u16 where "KERNEL_CS \<equiv> 0x0010"
abbreviation (input) NUM_VEC :: nat where "NUM_VEC \<equiv> 256"

definition zero_desc :: idt_desc where
  "zero_desc = \<lparr>offset_15_00 = 0, seg_selector = 0, reserved4 = 0, reserved3 = False, reserved2 = False, reserved1 = False,
     gate_size = False, reserved0 = False, dpl = 0, gate_present = False, offset_31_16 = 0\<rparr>"

definition SET_IDT_ENTRY :: "idt_desc \<Rightarrow> u32 \<Rightarrow> idt_desc" where
  "SET_IDT_ENTRY str handler =
     str\<lparr>offset_31_16 := ucast (drop_bit 16 (handler AND 0xFFFF0000)), offset_15_00 := ucast (handler AND 0xFFFF)\<rparr>"

type_synonym idt = "u8 \<Rightarrow> idt_desc"

definition set_intr_gate :: "u8 \<Rightarrow> u32 \<Rightarrow> idt \<Rightarrow> idt" where
  "set_intr_gate n addr idt =
     idt(n := SET_IDT_ENTRY (zero_desc\<lparr>gate_present := True, gate_size := True, reserved1 := True, reserved2 := True,
       reserved3 := False, dpl := 0, seg_selector := KERNEL_CS\<rparr>) addr)"

definition set_system_gate :: "u8 \<Rightarrow> u32 \<Rightarrow> idt \<Rightarrow> idt" where
  "set_system_gate n addr idt =
     idt(n := SET_IDT_ENTRY (zero_desc\<lparr>gate_present := True, gate_size := True, reserved1 := True, reserved2 := True,
       reserved3 := True, dpl := 3, seg_selector := KERNEL_CS\<rparr>) addr)"

definition set_system_intr_gate :: "u8 \<Rightarrow> u32 \<Rightarrow> idt \<Rightarrow> idt" where
  "set_system_intr_gate n addr idt =
     idt(n := SET_IDT_ENTRY (zero_desc\<lparr>gate_present := True, gate_size := True, reserved1 := True, reserved2 := True,
       reserved3 := False, dpl := 3, seg_selector := KERNEL_CS\<rparr>) addr)"

definition set_trap_gate :: "u8 \<Rightarrow> u32 \<Rightarrow> idt \<Rightarrow> idt" where
  "set_trap_gate n addr idt =
     idt(n := SET_IDT_ENTRY (zero_desc\<lparr>gate_present := True, gate_size := True, reserved1 := True, reserved2 := True,
       reserved3 := False, dpl := 0, seg_selector := KERNEL_CS\<rparr>) addr)"

definition set_task_gate :: "u8 \<Rightarrow> u16 \<Rightarrow> idt \<Rightarrow> idt" where
  "set_task_gate n gdt idt = idt"

definition install_interrupts :: "(u8 \<Rightarrow> u32) \<Rightarrow> u32 \<Rightarrow> idt \<Rightarrow> idt" where
  "install_interrupts stub null_int idt =
     (let idt = fold (\<lambda>i. set_trap_gate (of_nat i) null_int) [0..<NUM_VEC] idt;
          idt = fold (\<lambda>n. set_intr_gate n (stub n)) [0, 1, 2] idt;
          idt = set_system_intr_gate 3 (stub 3) idt;
          idt = fold (\<lambda>n. set_system_gate n (stub n)) [4, 5] idt;
          idt = fold (\<lambda>n. set_intr_gate n (stub n)) [6, 7, 8, 9, 10, 11, 12, 13, 14, 16, 17, 18, 19] idt;
          idt = fold (\<lambda>n. set_intr_gate n (stub n)) [32, 33, 34, 35, 36, 37, 38, 39, 40, 41, 42, 43, 44, 45, 46, 47] idt
      in set_system_gate 0x80 (stub 0x80) idt)"

section \<open>What the processor reads\<close>

definition gate_offset :: "idt_desc \<Rightarrow> u32" where
  "gate_offset d = push_bit 16 (ucast (offset_31_16 d)) OR ucast (offset_15_00 d)"

text \<open>The type field: 14 is a 32-bit interrupt gate (interrupts off on entry), 15 a trap gate.\<close>

definition gate_type :: "idt_desc \<Rightarrow> nat" where
  "gate_type d = of_bool (reserved3 d) + 2 * of_bool (reserved2 d) + 4 * of_bool (reserved1 d) + 8 * of_bool (gate_size d)"

lemma gate_offset_SET [simp]: "gate_offset (SET_IDT_ENTRY d a) = a"
proof -
  have "bit (push_bit 16 (ucast (ucast (drop_bit 16 (a AND 0xFFFF0000)) :: u16)) OR ucast (ucast (a AND 0xFFFF) :: u16) :: u32) n = bit a n"
    if "n < 32" for n
  proof -
    have m: "(0xFFFF0000 :: u32) = push_bit 16 (mask 16)" "(0xFFFF :: u32) = mask 16" by (simp_all add: mask_eq_exp_minus_1 push_bit_eq_mult)
    show ?thesis unfolding m using that by (cases "n < 16") (auto simp: bit_simps)
  qed
  then show ?thesis by (intro bit_eqI) (simp add: gate_offset_def SET_IDT_ENTRY_def)
qed

lemma gate_fields [simp]:
  "gate_type (SET_IDT_ENTRY d a) = gate_type d" "dpl (SET_IDT_ENTRY d a) = dpl d"
  "gate_present (SET_IDT_ENTRY d a) = gate_present d" "seg_selector (SET_IDT_ENTRY d a) = seg_selector d"
  by (simp_all add: SET_IDT_ENTRY_def gate_type_def)

lemma gate_type_set:
  "gate_type (set_intr_gate n a idt n) = 14" "gate_type (set_trap_gate n a idt n) = 14"
  "gate_type (set_system_gate n a idt n) = 15" "gate_type (set_system_intr_gate n a idt n) = 14"
  by (simp_all add: set_intr_gate_def set_trap_gate_def set_system_gate_def set_system_intr_gate_def) (simp_all add: gate_type_def)

lemma gate_set:
  "gate_offset (set_intr_gate n a idt n) = a" "gate_offset (set_trap_gate n a idt n) = a"
  "gate_offset (set_system_gate n a idt n) = a" "gate_offset (set_system_intr_gate n a idt n) = a"
  "dpl (set_intr_gate n a idt n) = 0" "dpl (set_trap_gate n a idt n) = 0"
  "dpl (set_system_gate n a idt n) = 3" "dpl (set_system_intr_gate n a idt n) = 3"
  "gate_present (set_intr_gate n a idt n)" "gate_present (set_trap_gate n a idt n)"
  "gate_present (set_system_gate n a idt n)" "gate_present (set_system_intr_gate n a idt n)"
  "seg_selector (set_intr_gate n a idt n) = KERNEL_CS" "seg_selector (set_trap_gate n a idt n) = KERNEL_CS"
  "seg_selector (set_system_gate n a idt n) = KERNEL_CS" "seg_selector (set_system_intr_gate n a idt n) = KERNEL_CS"
  by (simp_all add: set_intr_gate_def set_trap_gate_def set_system_gate_def set_system_intr_gate_def)

lemma gate_other: "m \<noteq> n \<Longrightarrow> set_system_gate n a idt m = idt m" "m \<noteq> n \<Longrightarrow> set_system_intr_gate n a idt m = idt m"
  by (simp_all add: set_system_gate_def set_system_intr_gate_def)

lemma fold_gates:
  "fold (\<lambda>n. set_intr_gate n (stub n)) ns f n = (if n \<in> set ns then set_intr_gate n (stub n) f n else f n)"
  "fold (\<lambda>n. set_system_gate n (stub n)) ns f n = (if n \<in> set ns then set_system_gate n (stub n) f n else f n)"
  by (induction ns arbitrary: f) (auto simp: set_intr_gate_def set_system_gate_def)

lemma fold_trap_gates: "fold (\<lambda>i. set_trap_gate (of_nat i) a) [0..<NUM_VEC] idt n = set_trap_gate n a idt n"
proof -
  have "fold (\<lambda>i. set_trap_gate (of_nat i) a) is idt n = (if n \<in> of_nat ` set is then set_trap_gate n a idt n else idt n)" for "is"
    by (induction "is" arbitrary: idt) (auto simp: set_trap_gate_def)
  moreover have "n \<in> of_nat ` set [0..<NUM_VEC]"
  proof (rule image_eqI)
    show "n = of_nat (unat n)" by simp
    show "unat n \<in> set [0..<NUM_VEC]" using unsigned_less [where 'b = 8 and 'a = nat, of n] by simp
  qed
  ultimately show ?thesis by simp
qed

section \<open>Properties\<close>

definition user_vectors :: "u8 set" where
  "user_vectors = {3, 4, 5, 0x80}"

definition stub_vectors :: "u8 set" where
  "stub_vectors = {0, 1, 2, 3, 4, 5, 6, 7, 8, 9, 10, 11, 12, 13, 14, 16, 17, 18, 19,
     32, 33, 34, 35, 36, 37, 38, 39, 40, 41, 42, 43, 44, 45, 46, 47, 0x80}"


text \<open>
  \<open>set_trap_gate\<close>, whose comment says it sets a trap gate, sets the same gate as \<open>set_intr_gate\<close>.\<close>

theorem trap_gate_is_intr_gate: "set_trap_gate n addr idt = set_intr_gate n addr idt \<and> gate_type (set_trap_gate n addr idt n) = 14"
  using gate_type_set(2) by (simp add: set_trap_gate_def set_intr_gate_def)

end
