(* ===== verification/Isr.thy ===== *)
theory Isr
  imports Term_Keys Idt Lib_Printf
begin

text \<open>
  \<open>isr_impl\<close> of \<^verbatim>\<open>student-distrib/isr.c\<close>, the C side of every interrupt and exception: it ties the
  drivers, the scheduler and the end of processes together. The machine is the kernel state with
  the keyboard driver's state and the keyboard controller. \<open>halt()\<close> stops the machine; the other results
  are those of theory \<open>Exec\<close>, \<open>Returns 0\<close> being the return through the stub.
\<close>

record machine =
  kst :: kstate
  kb :: kbd
  ps2_dev :: ps2

datatype isr_result =
    Continue machine outcome
  | Stopped machine

abbreviation (input) IRQ_START :: u32 where "IRQ_START \<equiv> 32"

section \<open>Messages\<close>

text \<open>The text each exception prints before anything else.\<close>

definition exception_name :: "u32 \<Rightarrow> string option" where
  "exception_name n = map_of [
     (0, ''Interrupt occurred(0): divide_error''), (1, ''Interrupt occurred(1): debug''),
     (2, ''Interrupt occurred(2): nmi''), (3, ''Interrupt occurred(3): breakpoint''),
     (4, ''Interrupt occurred(4): overflow''), (5, ''Interrupt occurred(5): bound''),
     (6, ''Interrupt occurred(6): invalid_opcode''), (7, ''Interrupt occurred(7): device_not_available''),
     (8, ''Interrupt occurred(8): double_fault''), (9, ''Interrupt occurred(9): coprocessor_segment_overrun''),
     (10, ''Interrupt occurred(10): invalid_tss''), (11, ''Interrupt occurred(11): segment_not_present''),
     (12, ''Interrupt occurred(12): stack_fault''), (13, ''Interrupt occurred(13): general_protection''),
     (14, ''Interrupt occurred(14): page_fault''), (16, ''Interrupt occurred(16): coprocessor_error''),
     (17, ''Interrupt occurred(17): alignment_check''), (18, ''Interrupt occurred(18): machine_check''),
     (19, ''Interrupt occurred(19): simd_coprocessor_error'')] n"

definition text_line :: "string \<Rightarrow> u8 list" where
  "text_line t = chars t @ [10, 0]"

text \<open>\<open>printf\<close> with at most one argument, where a string argument is one of two.\<close>

definition printf1 :: "string \<Rightarrow> u32 \<Rightarrow> u8 list option" where
  "printf1 t a = map_option fst (printf (\<lambda>_. [0]) (text_line t) [a])"

definition printf_choice :: "string \<Rightarrow> bool \<Rightarrow> string \<Rightarrow> string \<Rightarrow> u8 list option" where
  "printf_choice t c yes no = map_option fst (printf (\<lambda>_. chars (if c then yes else no) @ [0]) (text_line t) [0])"

text \<open>What follows for a general protection fault and a page fault.\<close>

definition exception_details :: "u32 \<Rightarrow> u32 \<Rightarrow> u32 \<Rightarrow> u8 list option" where
  "exception_details n errno cr2 =
     (if n = 13 then (if errno > 0 then printf1 ''    Segment selector: %d'' errno else Some [])
      else if n = 14 then do {
        a \<leftarrow> printf1 ''    Address: 0x%x'' cr2;
        b \<leftarrow> printf_choice ''    Page was %spresent'' (errno AND 1 \<noteq> 0) '''' ''NOT '';
        c \<leftarrow> printf_choice ''    Accessed with a %s'' (errno AND 2 \<noteq> 0) ''write'' ''read'';
        d \<leftarrow> printf_choice ''    Accessed in %s mode'' (errno AND 4 \<noteq> 0) ''user'' ''supervisor'';
        e \<leftarrow> printf_choice ''    %saused by reserve bits set to 1 in page directory'' (errno AND 8 \<noteq> 0) ''C'' ''Not c'';
        Some (chars ''Details:'' @ [10] @ a @ b @ c @ d @ e) }
      else Some [])"

definition print_bytes :: "u8 list \<Rightarrow> kstate \<Rightarrow> kstate" where
  "print_bytes bs s = s\<lparr>con := fold (\<lambda>c k. putc k c) bs (con s)\<rparr>"

definition print_line :: "string \<Rightarrow> kstate \<Rightarrow> kstate" where
  "print_line t s = s\<lparr>con := fst (puts (con s) (text_line t))\<rparr>"

section \<open>The dispatcher\<close>

definition in_user_code :: "u32 \<Rightarrow> bool" where
  "in_user_code eip \<longleftrightarrow> USER_MEM < eip \<and> eip < USER_MEM + OFFSET_4MB"

text \<open>An exception of user code ends the process with status 256, one of the kernel stops the machine.\<close>

definition handle_exception :: "string \<Rightarrow> registers \<Rightarrow> u32 \<Rightarrow> kstate \<Rightarrow> (kstate \<times> outcome option) option" where
  "handle_exception name r cr2 s = do {
     let s = print_line name s;
     details \<leftarrow> exception_details (r_isrno r) (r_errno r) cr2;
     let s = print_bytes details s;
     if in_user_code (r_eip r) then
       (case get_proc_pcb s of None \<Rightarrow> None
        | Some p \<Rightarrow> map_option (\<lambda>(s, out). (s, Some out)) (sys_halt_internal (sint (pid (pcbs s p))) 256 s))
     else Some (s, None) }"

text \<open>The calls \<open>kbd_handle_interrupt\<close> makes; what does not return ends the handler.\<close>

fun kbd_actions :: "(pt_ref \<Rightarrow> u32) \<Rightarrow> fs \<Rightarrow> kbd_action list \<Rightarrow> kstate \<Rightarrow> (kstate \<times> outcome) option" where
  "kbd_actions addr f [] s = Some (s, Returns 0)"
| "kbd_actions addr f (Puts t # as) s = kbd_actions addr f as (s\<lparr>con := fst (puts (con s) (chars t @ [0]))\<rparr>)"
| "kbd_actions addr f (Keypress key status # as) s =
     (case term_handle_keypress addr f key status s of None \<Rightarrow> None
      | Some (s, Returns _) \<Rightarrow> kbd_actions addr f as s
      | Some (s, out) \<Rightarrow> Some (s, out))"

definition handle_kbd :: "(pt_ref \<Rightarrow> u32) \<Rightarrow> fs \<Rightarrow> machine \<Rightarrow> (machine \<times> outcome) option" where
  "handle_kbd addr f m = do {
     (k, d, as) \<leftarrow> kbd_handle_interrupt (kb m) (ps2_dev m);
     (s, out) \<leftarrow> kbd_actions addr f as (kst m);
     let m = m\<lparr>kb := k, ps2_dev := d\<rparr>;
     case out of
       Returns _ \<Rightarrow> Some (m\<lparr>kst := do_io (send_eoi KBD_IRQ_PORT) s\<rparr>, Returns 0)
     | _ \<Rightarrow> Some (m\<lparr>kst := s\<rparr>, out) }"

definition unhandled_irq :: "u32 \<Rightarrow> bool" where
  "unhandled_irq n \<longleftrightarrow> n \<in> {IRQ_START + 2, IRQ_START + 3, IRQ_START + 4, IRQ_START + 5, IRQ_START + 6, IRQ_START + 7, IRQ_START + 9,
     IRQ_START + 10, IRQ_START + 11, IRQ_START + 12, IRQ_START + 13, IRQ_START + 14, IRQ_START + 15}"

definition handle_unhandled :: "u32 \<Rightarrow> kstate \<Rightarrow> kstate option" where
  "handle_unhandled n s = map_option (\<lambda>bs. do_io (send_eoi (n - IRQ_START)) (print_bytes bs s)) (printf1 ''Unhandled IRQ(%d)'' (n - IRQ_START))"

text \<open>\<open>regs\<close> is the address of the frame the stub pushed; \<open>cr2\<close> and the clock's register C are read from the hardware.\<close>

definition isr_impl :: "(pt_ref \<Rightarrow> u32) \<Rightarrow> fs \<Rightarrow> u32 \<Rightarrow> u8 \<Rightarrow> u32 \<Rightarrow> machine \<Rightarrow> isr_result option" where
  "isr_impl addr f cr2 regC regs m =
     (let s = kst m; r = frames s regs; n = r_isrno r in
      case exception_name n of
        Some name \<Rightarrow> map_option (\<lambda>(s, out). case out of Some out \<Rightarrow> Continue (m\<lparr>kst := s\<rparr>) out | None \<Rightarrow> Stopped (m\<lparr>kst := s\<rparr>))
                      (handle_exception name r cr2 s)
      | None \<Rightarrow>
          if unhandled_irq n then map_option (\<lambda>s. Continue (m\<lparr>kst := s\<rparr>) (Returns 0)) (handle_unhandled n s)
          else if n = IRQ_START + PIT_IRQ_PORT then
            map_option (\<lambda>(s, out). Continue (m\<lparr>kst := s\<rparr>) out) (pit_handle_interrupt f regs s)
          else if n = IRQ_START + KBD_IRQ_PORT then map_option (\<lambda>(m, out). Continue m out) (handle_kbd addr f m)
          else if n = IRQ_START + RTC_IRQ_PORT then
            map_option (\<lambda>s. Continue (m\<lparr>kst := do_io (send_eoi RTC_IRQ_PORT) s\<rparr>) (Returns 0)) (rtc_handle_interrupt regC s)
          else Some (Stopped (m\<lparr>kst := print_line ''Error: Interrupt unknown'' s\<rparr>)))"


section \<open>Messages always print\<close>

lemma printf1_pieces:
  assumes "text_line t = format_of ps @ [0]" "args_of ps = [a]" "\<forall>p \<in> set ps. piece_ok (\<lambda>_. [0]) p"
  shows "printf1 t a = Some (text_of (\<lambda>_. [0]) ps)"
  using printf_pieces [OF assms(3)] assms(1,2) by (simp add: printf1_def)

lemma printf_choice_pieces:
  assumes "text_line t = format_of [Lit w, Text 0, Lit v] @ [0]" "piece_ok strs (Lit w)" "piece_ok strs (Lit v)"
  shows "\<exists>bs. printf_choice t b yes no = Some bs"
  using printf_pieces [of "[Lit w, Text 0, Lit v]" "\<lambda>_. chars (if b then yes else no) @ [0]"] assms
  by (simp add: printf_choice_def)

lemma exception_details_print: "\<exists>bs. exception_details n errno cr2 = Some bs"
proof -
  have p: "\<exists>bs. printf1 ''    Segment selector: %d'' errno = Some bs" "\<exists>bs. printf1 ''    Address: 0x%x'' cr2 = Some bs"
    using printf1_pieces [of "''    Segment selector: %d''" "[Lit (chars ''    Segment selector: ''), Signed errno, Lit [10]]" errno]
      printf1_pieces [of "''    Address: 0x%x''" "[Lit (chars ''    Address: 0x''), Hex cr2, Lit [10]]" cr2]
    by (simp_all add: text_line_def chars_def)
  have c: "\<exists>bs. printf_choice ''    Page was %spresent'' b '''' ''NOT '' = Some bs"
    "\<exists>bs. printf_choice ''    Accessed with a %s'' b ''write'' ''read'' = Some bs"
    "\<exists>bs. printf_choice ''    Accessed in %s mode'' b ''user'' ''supervisor'' = Some bs"
    "\<exists>bs. printf_choice ''    %saused by reserve bits set to 1 in page directory'' b ''C'' ''Not c'' = Some bs" for b
    using printf_choice_pieces [of "''    Page was %spresent''" "chars ''    Page was ''" "chars ''present'' @ [10]" "\<lambda>_. []" b "''''" "''NOT ''"]
      printf_choice_pieces [of "''    Accessed with a %s''" "chars ''    Accessed with a ''" "[10]" "\<lambda>_. []" b "''write''" "''read''"]
      printf_choice_pieces [of "''    Accessed in %s mode''" "chars ''    Accessed in ''" "chars '' mode'' @ [10]" "\<lambda>_. []" b "''user''" "''supervisor''"]
      printf_choice_pieces [of "''    %saused by reserve bits set to 1 in page directory''" "chars ''    ''"
        "chars ''aused by reserve bits set to 1 in page directory'' @ [10]" "\<lambda>_. []" b "''C''" "''Not c''"]
    by (simp_all add: text_line_def chars_def)
  show ?thesis unfolding exception_details_def
    using p c(1) [of "errno AND 1 \<noteq> 0"] c(2) [of "errno AND 2 \<noteq> 0"] c(3) [of "errno AND 4 \<noteq> 0"] c(4) [of "errno AND 8 \<noteq> 0"] by auto
qed


lemma can_halt_con:
  "can_halt (s\<lparr>con := c\<rparr>) p rs = can_halt s p rs"
proof -
  have "clocks (s\<lparr>con := c\<rparr>) rs = clocks s rs"
    using clocks_cong [of s rs "s\<lparr>con := c\<rparr>"] clocks_cong [of "s\<lparr>con := c\<rparr>" rs s] by auto
  then show ?thesis by (simp add: can_halt_def has_ops_def get_file_def)
qed

lemma not_a_status: "256 \<notin> range (ucast :: u8 \<Rightarrow> u32)"
proof
  assume "256 \<in> range (ucast :: u8 \<Rightarrow> u32)"
  then obtain b :: u8 where b: "(2 :: u32) ^ 8 = ucast b" by auto
  have "bit (ucast b :: u32) 8" unfolding b [symmetric] by (simp add: bit_simps)
  then show False by (auto simp: bit_simps dest: bit_imp_le_length)
qed

section \<open>Properties\<close>

text \<open>
  C9: An exception in user code, of whatever kind, ends the process that raised it and nothing else:
  its parent resumes from its \<open>exec\<close> with the value 256, which no process can halt with itself.\<close>

theorem user_exception_ends_process:
  assumes e: "exception_name (r_isrno (frames (kst m) regs)) = Some name" "in_user_code (r_eip (frames (kst m) regs))"
    and h: "can_halt (kst m) p rs" "cur_pcb (kst m) = p" "lineage (pcbs (kst m)) (p # q # qs)"
    and t: "term_ctx (pcbs (kst m) (last (q # qs))) = Some t" "parent_ctx (pcbs (kst m) p) = Some ctx"
  shows "\<exists>m'. isr_impl addr f cr2 regC regs m = Some (Continue m' (Resume ctx)) \<and> cur_pcb (kst m') = q \<and>
    r_eax (frames (kst m') ctx) = 256 \<and> 256 \<notin> range (ucast :: u8 \<Rightarrow> u32) \<and>
    nprocs (kst m') = nprocs (kst m) - 1 \<and> (\<forall>k. pid_used (kst m') k = (pid_used (kst m) k \<and> k \<noteq> p)) \<and>
    user_mem (kst m') = user_mem (kst m) \<and> kb m' = kb m \<and> ps2_dev m' = ps2_dev m"
proof -
  let ?r = "frames (kst m) regs"
  obtain bs where bs: "exception_details (r_isrno ?r) (r_errno ?r) cr2 = Some bs" using exception_details_print by blast
  obtain c where c: "print_bytes bs (print_line name (kst m)) = (kst m)\<lparr>con := c\<rparr>" by (simp add: print_bytes_def print_line_def)
  let ?s = "(kst m)\<lparr>con := c\<rparr>"
  obtain s' where s': "sys_halt_internal (int p) 256 ?s = Some (s', Resume ctx)" "cur_pcb s' = q"
    "frames s' = (frames ?s)(ctx := (frames ?s ctx)\<lparr>r_eax := word_of_int 256\<rparr>)" "user_mem s' = user_mem ?s"
    "nprocs s' = nprocs ?s - 1" "\<forall>k. pid_used s' k = (pid_used ?s k \<and> k \<noteq> p)"
    using sys_halt_internal_child [of ?s p rs q qs t ctx 256] h t by (auto simp: can_halt_con)
  have p: "sint (pid (pcbs (kst m) p)) = int p" "p \<noteq> 0" using h(1) sint_small_pid [of p] by (simp_all add: can_halt_def)
  have "handle_exception name ?r cr2 (kst m) = Some (s', Some (Resume ctx))"
    using e(2) bs c s'(1) p h(2) by (simp add: handle_exception_def Let_def get_proc_pcb_def)
  then have i: "isr_impl addr f cr2 regC regs m = Some (Continue (m\<lparr>kst := s'\<rparr>) (Resume ctx))"
    using e(1) by (simp add: isr_impl_def Let_def)
  show ?thesis using i s'(2-6) not_a_status by (intro exI [of _ "m\<lparr>kst := s'\<rparr>"]) (simp add: pid_used_def)
qed

text \<open>
  A line of the interrupt controllers that has no driver is acknowledged at its controller (the
  events are those of \<open>send_eoi\<close> for that line) and otherwise only reported on the screen.\<close>

theorem unhandled_line_acknowledged:
  assumes "unhandled_irq (r_isrno (frames (kst m) regs))"
  shows "\<exists>m' c. isr_impl addr f cr2 regC regs m = Some (Continue m' (Returns 0)) \<and>
    kst m' = do_io (send_eoi (r_isrno (frames (kst m) regs) - IRQ_START)) ((kst m)\<lparr>con := c\<rparr>) \<and> kb m' = kb m \<and> ps2_dev m' = ps2_dev m"
proof -
  let ?n = "r_isrno (frames (kst m) regs)"
  obtain bs where p: "printf1 ''Unhandled IRQ(%d)'' (?n - 32) = Some bs"
    using printf1_pieces [of "''Unhandled IRQ(%d)''" "[Lit (chars ''Unhandled IRQ(''), Signed (?n - 32), Lit (chars '')'' @ [10])]" "?n - 32"]
    by (simp add: text_line_def chars_def)
  have x: "exception_name ?n = None" using assms by (auto simp: unhandled_irq_def exception_name_def)
  show ?thesis using p x assms by (simp add: isr_impl_def Let_def handle_unhandled_def print_bytes_def) blast
qed

text \<open>A user process that divides by zero, the child of the shell of theory \<open>Proc_Table\<close>; and an interrupt of line 7.\<close>

definition sample_machine :: "u32 \<Rightarrow> machine" where
  "sample_machine n = \<lparr>kst = sample_child\<lparr>frames := (\<lambda>_. zero_registers\<lparr>r_isrno := n, r_eip := 0x08048100\<rparr>)\<rparr>,
     kb = sample_kbd, ps2_dev = \<lparr>ps2_in = [], ps2_log = []\<rparr>\<rparr>"

theorem user_exception_ends_process_witness:
  "\<exists>m'. isr_impl sample_layout sample_exe 0 0 0x7F7F00 (sample_machine 0) = Some (Continue m' (Resume 0x7F9F00)) \<and>
     cur_pcb (kst m') = 3 \<and> r_eax (frames (kst m') 0x7F9F00) = 256"
proof -
  let ?s = "kst (sample_machine 0)"
  have "can_halt ?s 4 []" using sample_child_can_halt
    by (simp add: sample_machine_def can_halt_def has_ops_def get_file_def clocks_def rtc_list_def)
  moreover have "cur_pcb ?s = 4" "lineage (pcbs ?s) [4, 3]" "term_ctx (pcbs ?s (last [3])) = Some 0" "parent_ctx (pcbs ?s 4) = Some 0x7F9F00"
    by (simp_all add: sample_machine_def sample_child_def upd_pcb_def)
  moreover have "exception_name (r_isrno (frames ?s 0x7F7F00)) = Some ''Interrupt occurred(0): divide_error''"
    "in_user_code (r_eip (frames ?s 0x7F7F00))"
    by (simp_all add: sample_machine_def exception_name_def in_user_code_def zero_registers_def)
  ultimately show ?thesis
    using user_exception_ends_process [of "sample_machine 0" "0x7F7F00" "''Interrupt occurred(0): divide_error''" 4 "[]" 3 "[]" 0
        "0x7F9F00" sample_layout sample_exe 0 0] by auto
qed

theorem unhandled_line_acknowledged_witness:
  "\<exists>m' c. isr_impl sample_layout sample_exe 0 0 0x7F7F00 (sample_machine 39) = Some (Continue m' (Returns 0)) \<and>
     kst m' = do_io (send_eoi 7) ((kst (sample_machine 39))\<lparr>con := c\<rparr>)"
proof -
  have n: "r_isrno (frames (kst (sample_machine 39)) 0x7F7F00) = 39" by (simp add: sample_machine_def zero_registers_def)
  then have "unhandled_irq (r_isrno (frames (kst (sample_machine 39)) 0x7F7F00))" by (simp add: unhandled_irq_def)
  from unhandled_line_acknowledged [OF this, of sample_layout sample_exe 0 0] show ?thesis by (auto simp: n)
qed

end
