(* ===== verification/Boot.thy ===== *)
theory Boot
  imports Isr Root_Proc
begin

text \<open>
  \<open>entry\<close> of \<^verbatim>\<open>student-distrib/kernel.c\<close>, the C function the boot code calls: it reports the multiboot
  information (\<^verbatim>\<open>multiboot.h\<close>), fills the descriptors of the task state and local segments (\<^verbatim>\<open>x86_desc.h\<close>),
  initialises every subsystem and starts the first shell. The physical memory is a function from addresses to
  bytes, of which only the multiboot structures and the file system image are read. What the linker and the
  hardware decide (addresses of tables and stubs, bytes of the clock's registers) is the record \<open>board\<close>. The
  interrupts that arrive once they are enabled are a list: each is taken by \<open>isr_impl\<close> at the next point where
  the code waits, and a wait that outlasts the list does not end (\<open>None\<close>).
\<close>

section \<open>Segment descriptors\<close>

record seg_desc =
  seg_lim_15_00 :: u16
  base_15_00 :: u16
  base_23_16 :: u8
  seg_type :: "4 word"
  seg_sys :: bool
  seg_dpl :: "2 word"
  seg_present :: bool
  seg_lim_19_16 :: "4 word"
  seg_avail :: bool
  seg_reserved :: bool
  seg_opsize :: bool
  seg_granularity :: bool
  base_31_24 :: u8

definition SET_LDT_PARAMS :: "seg_desc \<Rightarrow> u32 \<Rightarrow> u32 \<Rightarrow> seg_desc" where
  "SET_LDT_PARAMS str addr lim =
     str\<lparr>base_31_24 := ucast (drop_bit 24 (addr AND 0xFF000000)), base_23_16 := ucast (drop_bit 16 (addr AND 0x00FF0000)),
       base_15_00 := ucast (addr AND 0x0000FFFF), seg_lim_19_16 := ucast (drop_bit 16 (lim AND 0x000F0000)),
       seg_lim_15_00 := ucast (lim AND 0x0000FFFF)\<rparr>"

definition SET_TSS_PARAMS :: "seg_desc \<Rightarrow> u32 \<Rightarrow> u32 \<Rightarrow> seg_desc" where
  "SET_TSS_PARAMS str addr lim =
     str\<lparr>base_31_24 := ucast (drop_bit 24 (addr AND 0xFF000000)), base_23_16 := ucast (drop_bit 16 (addr AND 0x00FF0000)),
       base_15_00 := ucast (addr AND 0x0000FFFF), seg_lim_19_16 := ucast (drop_bit 16 (lim AND 0x000F0000)),
       seg_lim_15_00 := ucast (lim AND 0x0000FFFF)\<rparr>"

section \<open>The multiboot information\<close>

record multiboot_info =
  mb_flags :: u32
  mem_lower :: u32
  mem_upper :: u32
  boot_device :: u32
  cmdline :: u32
  mods_count :: u32
  mods_addr :: u32
  elf_num :: u32
  elf_size :: u32
  elf_addr :: u32
  elf_shndx :: u32
  mmap_length :: u32
  mmap_addr :: u32

record module_t =
  mod_start :: u32
  mod_end :: u32

record memory_map =
  map_size :: u32
  base_addr_low :: u32
  base_addr_high :: u32
  length_low :: u32
  length_high :: u32
  map_type :: u32

type_synonym memory = "u32 \<Rightarrow> u8"

definition word_at :: "memory \<Rightarrow> u32 \<Rightarrow> u32" where
  "word_at mem a = le32 [mem a, mem (a + 1), mem (a + 2), mem (a + 3)]"

definition info_at :: "memory \<Rightarrow> u32 \<Rightarrow> multiboot_info" where
  "info_at mem a = \<lparr>mb_flags = word_at mem a, mem_lower = word_at mem (a + 4), mem_upper = word_at mem (a + 8),
     boot_device = word_at mem (a + 12), cmdline = word_at mem (a + 16), mods_count = word_at mem (a + 20),
     mods_addr = word_at mem (a + 24), elf_num = word_at mem (a + 28), elf_size = word_at mem (a + 32),
     elf_addr = word_at mem (a + 36), elf_shndx = word_at mem (a + 40), mmap_length = word_at mem (a + 44),
     mmap_addr = word_at mem (a + 48)\<rparr>"

definition module_at :: "memory \<Rightarrow> u32 \<Rightarrow> module_t" where
  "module_at mem a = \<lparr>mod_start = word_at mem a, mod_end = word_at mem (a + 4)\<rparr>"

definition map_at :: "memory \<Rightarrow> u32 \<Rightarrow> memory_map" where
  "map_at mem a = \<lparr>map_size = word_at mem a, base_addr_low = word_at mem (a + 4), base_addr_high = word_at mem (a + 8),
     length_low = word_at mem (a + 12), length_high = word_at mem (a + 16), map_type = word_at mem (a + 20)\<rparr>"

definition CHECK_FLAG :: "u32 \<Rightarrow> nat \<Rightarrow> bool" where
  "CHECK_FLAG flags n \<longleftrightarrow> flags AND push_bit n 1 \<noteq> 0"

text \<open>The bytes of a string in memory; a string that has no end is \<open>None\<close>.\<close>

partial_function (option) string_at :: "memory \<Rightarrow> u32 \<Rightarrow> u8 list option" where
  "string_at mem a = (if mem a = 0 then Some [0] else Option.bind (string_at mem (a + 1)) (\<lambda>bs. Some (mem a # bs)))"

section \<open>The report\<close>

text \<open>What a call of \<open>printf\<close> or \<open>puts\<close> prints; \<open>bs\<close> is the string argument, if there is one.\<close>

definition report :: "u8 list \<Rightarrow> u8 list \<Rightarrow> u32 list \<Rightarrow> u8 list option" where
  "report bs format args = map_option fst (printf (\<lambda>_. bs) format args)"

abbreviation (input) when_flag :: "multiboot_info \<Rightarrow> nat \<Rightarrow> u8 list option \<Rightarrow> u8 list option" where
  "when_flag mbi n t \<equiv> (if CHECK_FLAG (mb_flags mbi) n then t else Some [])"

text \<open>\<open>*((char * )(mod->mod_start + i))\<close> is a signed character, so it is printed with its sign extended.\<close>

fun first_bytes :: "memory \<Rightarrow> u32 \<Rightarrow> nat list \<Rightarrow> u8 list option" where
  "first_bytes mem a [] = Some []"
| "first_bytes mem a (i # is) = do {
     t \<leftarrow> report [0] (chars ''0x%x '' @ [0]) [scast (mem (a + of_nat i))];
     ts \<leftarrow> first_bytes mem a is;
     Some (t @ ts) }"

definition report_module :: "memory \<Rightarrow> module_t \<Rightarrow> u32 \<Rightarrow> u8 list option" where
  "report_module mem md mod_count = do {
     a \<leftarrow> report [0] (text_line ''Module %d loaded at address: 0x%#x'') [mod_count, mod_start md];
     b \<leftarrow> report [0] (text_line ''Module %d ends at address: 0x%#x'') [mod_count, mod_end md];
     c \<leftarrow> first_bytes mem (mod_start md) [0..<16];
     Some (a @ b @ chars ''First few bytes of module:'' @ [10] @ c @ [10]) }"

text \<open>The loop counts the modules but does not advance \<open>mod\<close>.\<close>

function report_modules :: "memory \<Rightarrow> module_t \<Rightarrow> u32 \<Rightarrow> u32 \<Rightarrow> u8 list option" where
  "report_modules mem md count mod_count =
     (if mod_count < count then do {
        t \<leftarrow> report_module mem md mod_count;
        ts \<leftarrow> report_modules mem md count (mod_count + 1);
        Some (t @ ts) }
      else Some [])"
  by pat_completeness auto
termination
proof (relation "measure (\<lambda>(mem, md, count, mod_count). unat (count - mod_count))")
  fix mem :: memory and md :: module_t and count mod_count :: u32 and t :: "u8 list"
  assume "mod_count < count"
  then have "0 < count - mod_count" by (simp add: word_gt_0)
  then have "count - mod_count - 1 < count - mod_count" by (metis measure_unat word_less_nat_alt word_not_simps(1))
  then show "((mem, md, count, mod_count + 1), mem, md, count, mod_count) \<in> measure (\<lambda>(mem, md, count, mod_count). unat (count - mod_count))"
    by (simp add: word_less_nat_alt diff_diff_eq)
qed simp

declare report_modules.simps [simp del]

definition report_head :: "memory \<Rightarrow> multiboot_info \<Rightarrow> u8 list option" where
  "report_head mem mbi = do {
     a \<leftarrow> report [0] (text_line ''flags = 0x%#x'') [mb_flags mbi];
     b \<leftarrow> when_flag mbi 0 (report [0] (text_line ''mem_lower = %uKB, mem_upper = %uKB'') [mem_lower mbi, mem_upper mbi]);
     c \<leftarrow> when_flag mbi 1 (report [0] (text_line ''boot_device = 0x%#x'') [boot_device mbi]);
     d \<leftarrow> when_flag mbi 2 (Option.bind (string_at mem (cmdline mbi)) (\<lambda>bs. report bs (text_line ''cmdline = %s'') [cmdline mbi]));
     e \<leftarrow> when_flag mbi 3 (report_modules mem (module_at mem (mods_addr mbi)) (mods_count mbi) 0);
     Some (a @ b @ c @ d @ e) }"

definition report_map :: "memory_map \<Rightarrow> u8 list option" where
  "report_map m = report [0]
     (chars '' size = 0x%x,     base_addr = 0x%#x%#x'' @ [10] @ text_line ''     type = 0x%x,  length    = 0x%#x%#x'')
     [map_size m, base_addr_high m, base_addr_low m, map_type m, length_high m, length_low m]"

partial_function (option) report_maps :: "memory \<Rightarrow> u32 \<Rightarrow> u32 \<Rightarrow> u8 list option" where
  "report_maps mem mmap_end mmap =
     (if mmap < mmap_end then
        Option.bind (report_map (map_at mem mmap)) (\<lambda>t.
        Option.bind (report_maps mem mmap_end (mmap + map_size (map_at mem mmap) + 4)) (\<lambda>ts. Some (t @ ts)))
      else Some [])"

definition report_tail :: "memory \<Rightarrow> multiboot_info \<Rightarrow> u8 list option" where
  "report_tail mem mbi = do {
     a \<leftarrow> when_flag mbi 5 (report [0] (text_line ''elf_sec: num = %u, size = 0x%#x, addr = 0x%#x, shndx = 0x%#x'')
            [elf_num mbi, elf_size mbi, elf_addr mbi, elf_shndx mbi]);
     b \<leftarrow> when_flag mbi 6 (do {
            t \<leftarrow> report [0] (text_line ''mmap_addr = 0x%#x, mmap_length = 0x%x'') [mmap_addr mbi, mmap_length mbi];
            ts \<leftarrow> report_maps mem (mmap_addr mbi + mmap_length mbi) (mmap_addr mbi);
            Some (t @ ts) });
     Some (a @ b) }"

section \<open>The machine at boot\<close>

record board =
  table_addr :: "pt_ref \<Rightarrow> u32"
  stub_addr :: "u8 \<Rightarrow> u32"
  null_addr :: u32
  ldt_base :: u32
  ldt_lim :: u32
  tss_base :: u32
  tss_lim :: u32
  rtc_bytes :: "u8 \<times> u8 \<times> u8"

text \<open>An interrupt: where the stub pushes its frame, the frame, and what its handler reads from the hardware.\<close>

record irq =
  irq_addr :: u32
  irq_frame :: registers
  irq_cr2 :: u32
  irq_regC :: u8

record boot =
  mach :: machine
  pics :: pic
  idt_tab :: idt
  boot_fs :: "fs option"
  ldt_desc_ptr :: seg_desc
  tss_desc_ptr :: seg_desc
  ldt_reg :: u16
  task_reg :: u16
  tss_ldt :: u16
  pending :: "irq list"

text \<open>
  How \<open>entry\<close> ends: it returns to the boot code, waits in \<open>halt()\<close> with interrupts enabled, resets the machine, or
  an interrupt took the processor elsewhere or stopped it.
\<close>

datatype boot_result =
    Returned
  | Waits
  | Reset
  | Leaves outcome
  | Stops

abbreviation (input) MULTIBOOT_BOOTLOADER_MAGIC :: u32 where "MULTIBOOT_BOOTLOADER_MAGIC \<equiv> 0x2BADB002"
abbreviation (input) KERNEL_TSS :: u16 where "KERNEL_TSS \<equiv> 0x0030"
abbreviation (input) KERNEL_LDT :: u16 where "KERNEL_LDT \<equiv> 0x0038"

definition on_kernel :: "(kstate \<Rightarrow> kstate) \<Rightarrow> boot \<Rightarrow> boot" where
  "on_kernel g b = b\<lparr>mach := (mach b)\<lparr>kst := g (kst (mach b))\<rparr>\<rparr>"

definition put_text :: "string \<Rightarrow> boot \<Rightarrow> boot" where
  "put_text t b = on_kernel (\<lambda>s. s\<lparr>con := fst (puts (con s) (chars t @ [0]))\<rparr>) b"

definition put_line :: "string \<Rightarrow> boot \<Rightarrow> boot" where
  "put_line t b = on_kernel (print_line t) b"

definition clear_screen :: "boot \<Rightarrow> boot" where
  "clear_screen b = on_kernel (\<lambda>s. s\<lparr>con := clear (con s)\<rparr>) b"

text \<open>Before the file system is set up its pointers are NULL: no access to it is defined.\<close>

definition no_fs :: fs where
  "no_fs = \<lparr>img = [], node_head = 0, data_head = 0\<rparr>"

definition current_fs :: "boot \<Rightarrow> fs" where
  "current_fs b = (case boot_fs b of None \<Rightarrow> no_fs | Some f \<Rightarrow> f)"

section \<open>Initialisation\<close>

definition set_segments :: "board \<Rightarrow> boot \<Rightarrow> boot" where
  "set_segments e b =
     (let the_ldt_desc = \<lparr>seg_lim_15_00 = 0, base_15_00 = 0, base_23_16 = 0, seg_type = 2, seg_sys = False, seg_dpl = 0,
            seg_present = True, seg_lim_19_16 = 0, seg_avail = False, seg_reserved = False, seg_opsize = True,
            seg_granularity = False, base_31_24 = 0\<rparr>;
          b = b\<lparr>ldt_desc_ptr := SET_LDT_PARAMS the_ldt_desc (ldt_base e) (ldt_lim e), ldt_reg := KERNEL_LDT\<rparr>;
          the_tss_desc = \<lparr>seg_lim_15_00 = ucast (104 AND 0x0000FFFF :: u32), base_15_00 = 0, base_23_16 = 0, seg_type = 9,
            seg_sys = False, seg_dpl = 0, seg_present = True, seg_lim_19_16 = ucast (104 AND 0x000F0000 :: u32), seg_avail = False,
            seg_reserved = False, seg_opsize = False, seg_granularity = False, base_31_24 = 0\<rparr>;
          b = b\<lparr>tss_desc_ptr := SET_TSS_PARAMS the_tss_desc (tss_base e) (tss_lim e), tss_ldt := KERNEL_LDT\<rparr>;
          b = on_kernel (set_tss 0x800000) b
      in b\<lparr>task_reg := KERNEL_TSS\<rparr>)"

definition banner :: "string list" where
  "banner = [
     ''--------------------------------Welcome to----------------------------------'',
     ''YYY    YYY      EEEEEEEEEE       SSSSSSSSS                                  '',
     '' YY    YY       EE              SS                                          '',
     ''  YY  YY        EE              SS                                          '',
     ''    YY          EE              SS                                          '',
     ''    YY          EEEEEE           SSSSSSSS          OOOOOOOO        SSSSSSSS '',
     ''    YY          EE                      SS        OO      OO      SS        '',
     ''    YY          EE                      SS        OO      OO       SSSSSSSS '',
     ''    YY          EE                      SS        OO      OO              SS'',
     ''    YY          EEEEEEEEEE      SSSSSSSSS     oo   OOOOOOOO       SSSSSSSSS '',
     ''----------------------------------------------------------------------------'']"

definition unmask :: "u32 \<Rightarrow> boot \<Rightarrow> boot" where
  "unmask n b = (case enable_irq n (pics b) of (p, es) \<Rightarrow> on_kernel (do_io es) (b\<lparr>pics := p\<rparr>))"

definition init_pic :: "boot \<Rightarrow> boot" where
  "init_pic b = (case i8259_init (pics b) of (p, es) \<Rightarrow> on_kernel (do_io es) (b\<lparr>pics := p\<rparr>))"

definition init_pit :: "boot \<Rightarrow> boot" where
  "init_pit b = unmask PIT_IRQ_PORT (on_kernel (do_io pit_init) b)"

definition init_rtc :: "board \<Rightarrow> boot \<Rightarrow> boot" where
  "init_rtc e b = (case rtc_bytes e of (regB, nmi, regA) \<Rightarrow> unmask RTC_IRQ_PORT (on_kernel (rtc_init regB nmi regA) b))"

text \<open>The result of \<open>kbd_init\<close> is not looked at.\<close>

definition init_kbd :: "boot \<Rightarrow> boot option" where
  "init_kbd b = do {
     (k, d, _) \<leftarrow> kbd_init (kb (mach b)) (ps2_dev (mach b));
     Some (unmask KBD_IRQ_PORT (b\<lparr>mach := (mach b)\<lparr>kb := k, ps2_dev := d\<rparr>\<rparr>)) }"

definition init_fs :: "u8 list option \<Rightarrow> boot \<Rightarrow> boot option" where
  "init_fs module_bytes b =
     (case module_bytes of None \<Rightarrow> Some (put_line ''    File System Unavailable!'' b)
      | Some m \<Rightarrow> do { f \<leftarrow> fs_init m; Some (put_line ''done'' (b\<lparr>boot_fs := Some f\<rparr>)) })"

definition with_message :: "string \<Rightarrow> (boot \<Rightarrow> boot) \<Rightarrow> boot \<Rightarrow> boot" where
  "with_message t g b = put_line ''done'' (g (put_text t b))"

definition init_devices :: "board \<Rightarrow> boot \<Rightarrow> boot option" where
  "init_devices e b =
     (let b = put_line ''Initializing subsystems'' (fold put_line banner (clear_screen b));
          b = with_message ''    Initializing PIC... '' init_pic b;
          b = with_message ''    Installing Interrupts... '' (\<lambda>b. b\<lparr>idt_tab := install_interrupts (stub_addr e) (null_addr e) (idt_tab b)\<rparr>) b;
          b = with_message ''    Initializing PIT... '' init_pit b;
          b = with_message ''    Initializing RTC... '' (init_rtc e) b
      in map_option (put_line ''done'') (init_kbd (put_text ''    Initializing Keyboard... '' b)))"

definition init_kernel :: "board \<Rightarrow> boot \<Rightarrow> boot" where
  "init_kernel e b =
     (let b = with_message ''    Initializing Paging... '' (on_kernel (\<lambda>s. s\<lparr>pg := paging_init (table_addr e) (pg s)\<rparr>)) b;
          b = with_message ''    Initializing Terminal...'' (on_kernel (\<lambda>s. fst (term_init_global_ctx s))) b;
          b = with_message ''    Initializing Scheduling...'' (on_kernel init_sched) b;
          b = with_message ''    Enabling Interrupts (STI)... '' (on_kernel (\<lambda>s. s\<lparr>iflag := True\<rparr>)) b;
          b = put_line (CHR 0x0A # ''Welcome!'') b
      in on_kernel (\<lambda>s. do_io (update_cursor (con s)) s) b)"

section \<open>Waiting\<close>

text \<open>The next interrupt: its frame is pushed and its handler runs.\<close>

definition take_irq :: "board \<Rightarrow> fs \<Rightarrow> irq \<Rightarrow> machine \<Rightarrow> isr_result option" where
  "take_irq e f q m =
     isr_impl (table_addr e) f (irq_cr2 q) (irq_regC q) (irq_addr q)
       (m\<lparr>kst := (kst m)\<lparr>frames := (frames (kst m))(irq_addr q := irq_frame q)\<rparr>\<rparr>)"

text \<open>\<open>while (!kbd_initialized);\<close> with the interrupts that are taken meanwhile. The second component is \<open>None\<close> when the loop ends.\<close>

fun kbd_wait :: "board \<Rightarrow> fs \<Rightarrow> irq list \<Rightarrow> machine \<Rightarrow> (machine \<times> irq list \<times> boot_result option) option" where
  "kbd_wait e f [] m = (if kbd_initialized (kb m) then Some (m, [], None) else None)"
| "kbd_wait e f (q # qs) m =
     (if kbd_initialized (kb m) then Some (m, q # qs, None)
      else case take_irq e f q m of None \<Rightarrow> None
        | Some (Continue m' (Returns _)) \<Rightarrow> kbd_wait e f qs m'
        | Some (Continue m' out) \<Rightarrow> Some (m', qs, Some (Leaves out))
        | Some (Stopped m') \<Rightarrow> Some (m', qs, Some Stops))"

text \<open>\<open>sleep(ms)\<close> of \<^verbatim>\<open>lib.c\<close>, from \<open>i\<close> on: a \<open>hlt\<close> lasts until the next interrupt.\<close>

fun sleep_loop :: "board \<Rightarrow> fs \<Rightarrow> nat \<Rightarrow> nat \<Rightarrow> irq list \<Rightarrow> machine \<Rightarrow> (machine \<times> irq list \<times> boot_result option) option" where
  "sleep_loop e f ms i qs m =
     (if i < ms then
        let m = (if i mod 1000 = 0 then m\<lparr>kst := (kst m)\<lparr>con := fst (puts (con (kst m)) (chars ''.'' @ [0]))\<rparr>\<rparr> else m)
        in case qs of [] \<Rightarrow> None
          | q # qs \<Rightarrow> (case take_irq e f q m of None \<Rightarrow> None
            | Some (Continue m' (Returns _)) \<Rightarrow> sleep_loop e f ms (i + 1) qs m'
            | Some (Continue m' out) \<Rightarrow> Some (m', qs, Some (Leaves out))
            | Some (Stopped m') \<Rightarrow> Some (m', qs, Some Stops))
      else Some (m, qs, None))"

declare sleep_loop.simps [simp del]

definition sleep :: "board \<Rightarrow> fs \<Rightarrow> nat \<Rightarrow> irq list \<Rightarrow> machine \<Rightarrow> (machine \<times> irq list \<times> boot_result option) option" where
  "sleep e f ms qs m = sleep_loop e f ms 0 qs m"

section \<open>The entry point\<close>

text \<open>
  From the wait for the keyboard on. \<open>sys_exec_internal\<close> without a caller's context returns, and \<open>halt()\<close> lets the
  timer start what is in the queue.
\<close>

definition run_first :: "board \<Rightarrow> boot \<Rightarrow> (boot \<times> boot_result) option" where
  "run_first e b = do {
     (m, qs, r) \<leftarrow> kbd_wait e (current_fs b) (pending b) (mach b);
     let b = b\<lparr>mach := m, pending := qs\<rparr>;
     case r of Some r \<Rightarrow> Some (b, r)
     | None \<Rightarrow>
         let b = put_text [CHR 0x0A] b in
         (case boot_fs b of
            Some f \<Rightarrow> do {
              (s, out) \<leftarrow> sys_exec_internal f (Some (chars ''shell'' @ [0])) None (kst (mach b));
              Some (b\<lparr>mach := (mach b)\<lparr>kst := s\<rparr>\<rparr>, case out of Returns _ \<Rightarrow> Waits | _ \<Rightarrow> Leaves out) }
          | None \<Rightarrow> do {
              let b = put_text ''Rebooting'' b;
              (m, qs, r) \<leftarrow> sleep e (current_fs b) 3000 (pending b) (mach b);
              let b = b\<lparr>mach := m, pending := qs\<rparr>;
              Some (b, case r of None \<Rightarrow> Reset | Some r \<Rightarrow> r) }) }"

text \<open>The file system image: the first module, which is only looked at when modules are announced.\<close>

definition image_of :: "memory \<Rightarrow> multiboot_info \<Rightarrow> u8 list option" where
  "image_of mem mbi =
     (if CHECK_FLAG (mb_flags mbi) 3
      then let md = module_at mem (mods_addr mbi)
           in Some (map (\<lambda>i. mem (mod_start md + of_nat i)) [0..<unat (mod_end md - mod_start md)])
      else None)"

definition entry :: "board \<Rightarrow> memory \<Rightarrow> u32 \<Rightarrow> u32 \<Rightarrow> boot \<Rightarrow> (boot \<times> boot_result) option" where
  "entry e mem magic addr b =
     (let b = clear_screen b; mbi = info_at mem addr in
      if magic \<noteq> MULTIBOOT_BOOTLOADER_MAGIC then do {
        t \<leftarrow> report [0] (text_line ''Invalid magic number: 0x%#x'') [magic];
        Some (on_kernel (print_bytes t) b, Returned) }
      else do {
        t \<leftarrow> report_head mem mbi;
        let b = on_kernel (print_bytes t) b;
        if CHECK_FLAG (mb_flags mbi) 4 \<and> CHECK_FLAG (mb_flags mbi) 5
        then Some (put_line ''Both bits 4 and 5 are set.'' b, Returned)
        else do {
          t \<leftarrow> report_tail mem mbi;
          let b = set_segments e (on_kernel (print_bytes t) b);
          b \<leftarrow> init_devices e b;
          b \<leftarrow> init_fs (image_of mem mbi) (put_text ''    Initializing File System... '' b);
          run_first e (init_kernel e b) } })"

section \<open>The report is printed\<close>

definition map_next :: "memory \<Rightarrow> u32 \<Rightarrow> u32" where
  "map_next mem a = a + map_size (map_at mem a) + 4"

text \<open>What the boot loader promises: a command line that ends, a memory map that leads to its end.\<close>

definition info_ok :: "memory \<Rightarrow> multiboot_info \<Rightarrow> bool" where
  "info_ok mem mbi \<longleftrightarrow> \<not> (CHECK_FLAG (mb_flags mbi) 4 \<and> CHECK_FLAG (mb_flags mbi) 5) \<and>
     (CHECK_FLAG (mb_flags mbi) 2 \<longrightarrow> (\<exists>n. mem (cmdline mbi + of_nat n) = 0)) \<and>
     (CHECK_FLAG (mb_flags mbi) 6 \<longrightarrow> (\<exists>n. \<not> (map_next mem ^^ n) (mmap_addr mbi) < mmap_addr mbi + mmap_length mbi))"

lemma report_pieces:
  assumes "format = format_of ps @ [0]" "args = args_of ps" "\<forall>p \<in> set ps. piece_ok (\<lambda>_. bs) p"
  shows "report bs format args = Some (text_of (\<lambda>_. bs) ps)"
  using printf_pieces [OF assms(3)] assms(1,2) by (simp add: report_def)

lemma string_at_ends:
  assumes "mem (a + of_nat n) = 0"
  shows "\<exists>bs. string_at mem a = Some bs \<and> 0 \<in> set bs"
  using assms
proof (induction n arbitrary: a)
  case 0
  then show ?case by (subst string_at.simps) simp
next
  case (Suc n)
  have "mem (a + 1 + of_nat n) = 0" using Suc.prems by (simp add: algebra_simps)
  then obtain bs where "string_at mem (a + 1) = Some bs" "0 \<in> set bs" using Suc.IH by blast
  then show ?case by (subst string_at.simps) simp
qed

text \<open>One line of the report: the pieces its format is made of.\<close>

lemma report_lines:
  "report [0] (text_line ''flags = 0x%#x'') [a] = Some (text_of (\<lambda>_. [0]) [Lit (chars ''flags = 0x''), Hex8 a, Lit [10]])"
  "report [0] (text_line ''mem_lower = %uKB, mem_upper = %uKB'') [a, b] =
     Some (text_of (\<lambda>_. [0]) [Lit (chars ''mem_lower = ''), Unsigned a, Lit (chars ''KB, mem_upper = ''), Unsigned b, Lit (chars ''KB'' @ [10])])"
  "report [0] (text_line ''boot_device = 0x%#x'') [a] = Some (text_of (\<lambda>_. [0]) [Lit (chars ''boot_device = 0x''), Hex8 a, Lit [10]])"
  "report [0] (text_line ''Invalid magic number: 0x%#x'') [a] =
     Some (text_of (\<lambda>_. [0]) [Lit (chars ''Invalid magic number: 0x''), Hex8 a, Lit [10]])"
  "report [0] (chars ''0x%x '' @ [0]) [a] = Some (text_of (\<lambda>_. [0]) [Lit (chars ''0x''), Hex a, Lit (chars '' '')])"
  "report [0] (text_line ''Module %d loaded at address: 0x%#x'') [a, b] =
     Some (text_of (\<lambda>_. [0]) [Lit (chars ''Module ''), Signed a, Lit (chars '' loaded at address: 0x''), Hex8 b, Lit [10]])"
  "report [0] (text_line ''Module %d ends at address: 0x%#x'') [a, b] =
     Some (text_of (\<lambda>_. [0]) [Lit (chars ''Module ''), Signed a, Lit (chars '' ends at address: 0x''), Hex8 b, Lit [10]])"
  "report [0] (text_line ''mmap_addr = 0x%#x, mmap_length = 0x%x'') [a, b] =
     Some (text_of (\<lambda>_. [0]) [Lit (chars ''mmap_addr = 0x''), Hex8 a, Lit (chars '', mmap_length = 0x''), Hex b, Lit [10]])"
  by (rule report_pieces; simp add: text_line_def chars_def)+

lemma report_elf:
  "report [0] (text_line ''elf_sec: num = %u, size = 0x%#x, addr = 0x%#x, shndx = 0x%#x'') [a, b, c, d] =
     Some (text_of (\<lambda>_. [0]) [Lit (chars ''elf_sec: num = ''), Unsigned a, Lit (chars '', size = 0x''), Hex8 b,
       Lit (chars '', addr = 0x''), Hex8 c, Lit (chars '', shndx = 0x''), Hex8 d, Lit [10]])"
  by (rule report_pieces; simp add: text_line_def chars_def)

lemma report_map_prints: "\<exists>t. report_map m = Some t"
  unfolding report_map_def
  using report_pieces [of _ "[Lit (chars '' size = 0x''), Hex (map_size m), Lit (chars '',     base_addr = 0x''), Hex8 (base_addr_high m),
      Hex8 (base_addr_low m), Lit ([10] @ chars ''     type = 0x''), Hex (map_type m), Lit (chars '',  length    = 0x''),
      Hex8 (length_high m), Hex8 (length_low m), Lit [10]]", OF refl refl, of "[0]"]
  by (simp add: text_line_def chars_def)

lemma report_cmdline: "0 \<in> set bs \<Longrightarrow> \<exists>t. report bs (text_line ''cmdline = %s'') [a] = Some t"
  using report_pieces [of "text_line ''cmdline = %s''" "[Lit (chars ''cmdline = ''), Text a, Lit [10]]" "[a]" bs]
  by (simp add: text_line_def chars_def)

lemma first_bytes_prints: "\<exists>t. first_bytes mem a is = Some t"
  by (induction "is") (auto simp: report_lines simp del: append.simps)

lemma report_module_prints: "\<exists>t. report_module mem md i = Some t"
  using first_bytes_prints [of mem "mod_start md" "[0..<16]"] by (auto simp: report_module_def report_lines simp del: upt_conv_Cons)

lemma report_modules_prints: "\<exists>t. report_modules mem md count i = Some t"
proof (induction mem md count i rule: report_modules.induct)
  case (1 mem md count i)
  then show ?case using report_module_prints [of mem md i]
    by (cases "i < count") (subst report_modules.simps; fastforce)+
qed

lemma report_maps_prints:
  assumes "\<not> (map_next mem ^^ n) a < e"
  shows "\<exists>t. report_maps mem e a = Some t"
  using assms
proof (induction n arbitrary: a)
  case 0
  then show ?case by (subst report_maps.simps) simp
next
  case (Suc n)
  have "\<not> (map_next mem ^^ n) (map_next mem a) < e" using Suc.prems by (simp add: funpow_swap1)
  then obtain t u where "report_maps mem e (map_next mem a) = Some t" "report_map (map_at mem a) = Some u"
    using Suc.IH report_map_prints by blast
  then show ?case by (subst report_maps.simps) (simp add: map_next_def)
qed

lemma report_head_prints:
  assumes "CHECK_FLAG (mb_flags mbi) 2 \<longrightarrow> (\<exists>n. mem (cmdline mbi + of_nat n) = 0)"
  shows "\<exists>t. report_head mem mbi = Some t"
proof -
  have c: "\<exists>t. Option.bind (string_at mem (cmdline mbi)) (\<lambda>bs. report bs (text_line ''cmdline = %s'') [cmdline mbi]) = Some t"
    if f: "CHECK_FLAG (mb_flags mbi) 2"
  proof -
    obtain n where "mem (cmdline mbi + of_nat n) = 0" using assms f by blast
    then obtain bs where "string_at mem (cmdline mbi) = Some bs" "0 \<in> set bs" using string_at_ends by blast
    then show ?thesis using report_cmdline by simp
  qed
  obtain t where t: "(if CHECK_FLAG (mb_flags mbi) 2 then Option.bind (string_at mem (cmdline mbi)) (\<lambda>bs. report bs (text_line ''cmdline = %s'') [cmdline mbi])
      else Some []) = Some t" by (cases "CHECK_FLAG (mb_flags mbi) 2") (use c in auto)
  show ?thesis using report_modules_prints [of mem "module_at mem (mods_addr mbi)" "mods_count mbi" 0]
    unfolding report_head_def report_lines t by auto
qed

lemma report_tail_prints:
  assumes "info_ok mem mbi"
  shows "\<exists>t. report_tail mem mbi = Some t"
proof -
  have "\<exists>t. report_maps mem (mmap_addr mbi + mmap_length mbi) (mmap_addr mbi) = Some t" if "CHECK_FLAG (mb_flags mbi) 6"
    using assms that report_maps_prints by (auto simp: info_ok_def)
  then show ?thesis unfolding report_tail_def report_lines report_elf by auto
qed

section \<open>What initialisation leaves\<close>

lemma on_kernel_fields [simp]:
  "kst (mach (on_kernel g b)) = g (kst (mach b))" "kb (mach (on_kernel g b)) = kb (mach b)" "ps2_dev (mach (on_kernel g b)) = ps2_dev (mach b)"
  "pics (on_kernel g b) = pics b" "idt_tab (on_kernel g b) = idt_tab b" "boot_fs (on_kernel g b) = boot_fs b"
  "ldt_desc_ptr (on_kernel g b) = ldt_desc_ptr b" "tss_desc_ptr (on_kernel g b) = tss_desc_ptr b" "ldt_reg (on_kernel g b) = ldt_reg b"
  "task_reg (on_kernel g b) = task_reg b" "tss_ldt (on_kernel g b) = tss_ldt b" "pending (on_kernel g b) = pending b"
  by (simp_all add: on_kernel_def)

text \<open>Steps that only print and write to ports.\<close>

definition only_output :: "boot \<Rightarrow> boot \<Rightarrow> bool" where
  "only_output b b' \<longleftrightarrow> (\<exists>c. b' = on_kernel (\<lambda>s. s\<lparr>con := c\<rparr>) b)"

lemma only_output_refl [simp]: "only_output b b"
  unfolding only_output_def by (rule exI [of _ "con (kst (mach b))"]) (simp add: on_kernel_def)

lemma only_output_trans: "only_output a b \<Longrightarrow> only_output b c \<Longrightarrow> only_output a c"
  by (auto simp: only_output_def on_kernel_def)

lemma prints [simp]:
  "only_output b (put_text t b)" "only_output b (put_line t b)" "only_output b (clear_screen b)" "only_output b (on_kernel (print_bytes bs) b)"
  by (auto simp: only_output_def put_text_def put_line_def clear_screen_def print_line_def print_bytes_def on_kernel_def)

lemma print_lines [simp]: "only_output b (fold put_line ts b)"
  by (induction ts arbitrary: b) (auto intro: only_output_trans [OF prints(2)])

text \<open>The devices: their state, and the two chips behind the port writes.\<close>

definition devices_ready :: "board \<Rightarrow> kbd \<Rightarrow> ps2 \<Rightarrow> boot \<Rightarrow> boot \<Rightarrow> bool" where
  "devices_ready e k d b b' \<longleftrightarrow> kst (mach b') = (kst (mach b))\<lparr>con := con (kst (mach b')), io := io (kst (mach b')), open_rtcs := None\<rparr> \<and>
     (\<exists>es. io (kst (mach b')) = io (kst (mach b)) @ es \<and> (\<forall>m sl. pics_agree (pics b') (chip_run 0x20 es m) (chip_run 0xA0 es sl) {0, 1, 2, 8})) \<and>
     kb (mach b') = k \<and> ps2_dev (mach b') = d \<and> idt_tab b' = install_interrupts (stub_addr e) (null_addr e) (idt_tab b) \<and>
     boot_fs b' = boot_fs b \<and> pending b' = pending b \<and> ldt_desc_ptr b' = ldt_desc_ptr b \<and> tss_desc_ptr b' = tss_desc_ptr b \<and>
     ldt_reg b' = ldt_reg b \<and> task_reg b' = task_reg b \<and> tss_ldt b' = tss_ldt b"

lemma put_text_fields [simp]:
  "kst (mach (put_text t b)) = (kst (mach b))\<lparr>con := fst (puts (con (kst (mach b))) (chars t @ [0]))\<rparr>"
  "kb (mach (put_text t b)) = kb (mach b)" "ps2_dev (mach (put_text t b)) = ps2_dev (mach b)"
  "pics (put_text t b) = pics b" "idt_tab (put_text t b) = idt_tab b" "boot_fs (put_text t b) = boot_fs b"
  "ldt_desc_ptr (put_text t b) = ldt_desc_ptr b" "tss_desc_ptr (put_text t b) = tss_desc_ptr b" "ldt_reg (put_text t b) = ldt_reg b"
  "task_reg (put_text t b) = task_reg b" "tss_ldt (put_text t b) = tss_ldt b" "pending (put_text t b) = pending b"
  by (simp_all add: put_text_def split: prod.split)

lemma put_line_fields [simp]:
  "kst (mach (put_line t b)) = (kst (mach b))\<lparr>con := fst (puts (con (kst (mach b))) (text_line t))\<rparr>"
  "kb (mach (put_line t b)) = kb (mach b)" "ps2_dev (mach (put_line t b)) = ps2_dev (mach b)"
  "pics (put_line t b) = pics b" "idt_tab (put_line t b) = idt_tab b" "boot_fs (put_line t b) = boot_fs b"
  "ldt_desc_ptr (put_line t b) = ldt_desc_ptr b" "tss_desc_ptr (put_line t b) = tss_desc_ptr b" "ldt_reg (put_line t b) = ldt_reg b"
  "task_reg (put_line t b) = task_reg b" "tss_ldt (put_line t b) = tss_ldt b" "pending (put_line t b) = pending b"
  by (simp_all add: put_line_def print_line_def split: prod.split)

lemma unmask_fields [simp]:
  "kst (mach (unmask n b)) = do_io (snd (enable_irq n (pics b))) (kst (mach b))"
  "kb (mach (unmask n b)) = kb (mach b)" "ps2_dev (mach (unmask n b)) = ps2_dev (mach b)"
  "pics (unmask n b) = fst (enable_irq n (pics b))" "idt_tab (unmask n b) = idt_tab b" "boot_fs (unmask n b) = boot_fs b"
  "ldt_desc_ptr (unmask n b) = ldt_desc_ptr b" "tss_desc_ptr (unmask n b) = tss_desc_ptr b" "ldt_reg (unmask n b) = ldt_reg b"
  "task_reg (unmask n b) = task_reg b" "tss_ldt (unmask n b) = tss_ldt b" "pending (unmask n b) = pending b"
  by (simp_all add: unmask_def split: prod.split)

lemma init_pic_fields [simp]:
  "kst (mach (init_pic b)) = do_io (snd (i8259_init (pics b))) (kst (mach b))"
  "kb (mach (init_pic b)) = kb (mach b)" "ps2_dev (mach (init_pic b)) = ps2_dev (mach b)"
  "pics (init_pic b) = fst (i8259_init (pics b))" "idt_tab (init_pic b) = idt_tab b" "boot_fs (init_pic b) = boot_fs b"
  "ldt_desc_ptr (init_pic b) = ldt_desc_ptr b" "tss_desc_ptr (init_pic b) = tss_desc_ptr b" "ldt_reg (init_pic b) = ldt_reg b"
  "task_reg (init_pic b) = task_reg b" "tss_ldt (init_pic b) = tss_ldt b" "pending (init_pic b) = pending b"
  by (simp_all add: init_pic_def split: prod.split)

lemma do_io_fields [simp]:
  "con (do_io es s) = con s" "io (do_io es s) = io s @ es" "open_rtcs (do_io es s) = open_rtcs s"
  "do_io es (s\<lparr>con := c\<rparr>) = (do_io es s)\<lparr>con := c\<rparr>" "do_io fs (do_io es s) = do_io (es @ fs) s"
  by (simp_all add: do_io_def)

lemma chips_ignore:
  "chip_run 0x20 pit_init m = m" "chip_run 0xA0 pit_init m = m"
  by (simp_all add: pit_init_def pit_set_count_def outb_def)

definition rtc_events :: "board \<Rightarrow> io_event list" where
  "rtc_events e = (case rtc_bytes e of (regB, nmi, regA) \<Rightarrow>
     [Outb (0x80 OR 0x0B) NMI_RTC_PORT, Inb regB RTC_RAM_PORT, Outb (0x80 OR 0x0B) NMI_RTC_PORT, Outb (regB OR 0x40) RTC_RAM_PORT,
      Inb nmi NMI_RTC_PORT, Outb (nmi AND 0x7F) NMI_RTC_PORT, Outb 0x0A NMI_RTC_PORT, Inb regA RTC_RAM_PORT, Outb 0x0A NMI_RTC_PORT,
      Outb ((regA AND 0xF0) OR ucast (0x10 - 10 :: u32)) RTC_RAM_PORT])"

lemma chips_ignore_rtc: "chip_run 0x20 (rtc_events e) m = m" "chip_run 0xA0 (rtc_events e) m = m"
  by (simp_all add: rtc_events_def split: prod.split)

lemma init_devices_ready:
  assumes k: "kbd_init (kb (mach b)) (ps2_dev (mach b)) = Some (k, d, ok)"
  shows "\<exists>b'. init_devices e b = Some b' \<and> devices_ready e k d b b'"
proof -
  obtain p0 e0 where i: "i8259_init (pics b) = (p0, e0)" by fastforce
  obtain p1 e1 where u1: "enable_irq 0 p0 = (p1, e1)" by fastforce
  obtain p2 e2 where u2: "enable_irq 8 p1 = (p2, e2)" by fastforce
  obtain p3 e3 where u3: "enable_irq 1 p2 = (p3, e3)" by fastforce
  have a: "pics_agree p3 (chip_run 0x20 e3 (chip_run 0x20 e2 (chip_run 0x20 e1 (chip_run 0x20 e0 m))))
      (chip_run 0xA0 e3 (chip_run 0xA0 e2 (chip_run 0xA0 e1 (chip_run 0xA0 e0 sl)))) {0, 1, 2, 8}" for m sl
    using enable_irq_agree [OF enable_irq_agree [OF enable_irq_agree [OF init_agree [OF i] u1] u2] u3, of m sl]
    by (simp add: insert_commute)
  obtain c where c: "put_line ''Initializing subsystems'' (fold put_line banner (clear_screen b)) = on_kernel (\<lambda>s. s\<lparr>con := c\<rparr>) b"
    using only_output_trans [OF only_output_trans [OF prints(3) print_lines] prints(2), of b "''Initializing subsystems''" banner]
    by (auto simp: only_output_def)
  let ?b1 = "on_kernel (\<lambda>s. s\<lparr>con := c\<rparr>) b"
  let ?b2 = "with_message ''    Initializing PIC... '' init_pic ?b1"
  let ?b3 = "with_message ''    Installing Interrupts... '' (\<lambda>b. b\<lparr>idt_tab := install_interrupts (stub_addr e) (null_addr e) (idt_tab b)\<rparr>) ?b2"
  let ?b4 = "with_message ''    Initializing PIT... '' init_pit ?b3"
  let ?b5 = "with_message ''    Initializing RTC... '' (init_rtc e) ?b4"
  let ?b6 = "unmask 1 ((put_text ''    Initializing Keyboard... '' ?b5)\<lparr>mach := (mach (put_text ''    Initializing Keyboard... '' ?b5))\<lparr>kb := k, ps2_dev := d\<rparr>\<rparr>)"
  have m5: "kb (mach ?b5) = kb (mach b)" "ps2_dev (mach ?b5) = ps2_dev (mach b)"
    by (simp_all add: with_message_def init_pit_def init_rtc_def split: prod.split)
  then have "init_devices e b = Some (put_line ''done'' ?b6)"
    using k by (simp add: init_devices_def c Let_def init_kbd_def)
  moreover have "devices_ready e k d b (put_line ''done'' ?b6)"
  proof -
    have r: "init_rtc e x = unmask 8 (on_kernel (\<lambda>s. (do_io (rtc_events e) s)\<lparr>open_rtcs := None\<rparr>) x)" for x
      by (simp add: init_rtc_def rtc_events_def rtc_init_def rtc_modify_freq_def Let_def do_io_def split: prod.split)
    have p: "pics ?b2 = p0" "pics ?b3 = p0" "pics ?b4 = p1" "pics ?b5 = p2"
      by (simp_all add: with_message_def init_pit_def r i u1 u2)
    have io: "io (kst (mach (put_line ''done'' ?b6))) = io (kst (mach b)) @ e0 @ pit_init @ e1 @ rtc_events e @ e2 @ e3"
      by (simp add: p u3) (simp add: with_message_def init_pit_def r i u1 u2 do_io_def)
    have "kst (mach (put_line ''done'' ?b6)) = (kst (mach b))\<lparr>con := con (kst (mach (put_line ''done'' ?b6))), io := io (kst (mach (put_line ''done'' ?b6))), open_rtcs := None\<rparr>"
      by (simp add: with_message_def init_pit_def r i u1 u2 u3 do_io_def)
    moreover have "pics (put_line ''done'' ?b6) = p3" by (simp add: p u3)
    moreover have "idt_tab (put_line ''done'' ?b6) = install_interrupts (stub_addr e) (null_addr e) (idt_tab b)"
      by (simp add: with_message_def init_pit_def r)
    ultimately show ?thesis unfolding devices_ready_def io using a chips_ignore chips_ignore_rtc
      by (simp add: with_message_def init_pit_def r)
  qed
  ultimately show ?thesis by blast
qed

text \<open>What the rest of the initialisation sets, and what it leaves as it was.\<close>

definition kernel_ready :: "board \<Rightarrow> kstate \<Rightarrow> kstate \<Rightarrow> bool" where
  "kernel_ready e s t \<longleftrightarrow> pg t = paging_init (table_addr e) (pg s) \<and> iflag t \<and> terminal_num t = 0 \<and>
     term_pids t = replicate NUM_TERMS (-1) \<and> sched_inv t \<and> rotation t = [] \<and> cur_pcb t = cur_pcb s \<and> nprocs t = nprocs s \<and>
     proc_bitmap t = proc_bitmap s \<and> user_mem t = user_mem s \<and> open_rtcs t = open_rtcs s \<and> tss_esp0 t = tss_esp0 s \<and> pcbs t = pcbs s"

text \<open>The kernel's data as the loader leaves it: zero, with the arrays of their sizes.\<close>

definition at_reset :: "boot \<Rightarrow> bool" where
  "at_reset b \<longleftrightarrow> (let s = kst (mach b) in cur_pcb s = 0 \<and> nprocs s = 0 \<and> proc_bitmap s = 0 \<and> length (term_pids s) = NUM_TERMS \<and>
     SIZEOF_BUF (sched_queue_1 s) = MAX_PROCESSES + 1 \<and> SIZEOF_BUF (sched_queue_2 s) = MAX_PROCESSES + 1) \<and> boot_fs b = None"

lemma init_term_frame:
  "\<exists>ts. fold init_term ns s = s\<lparr>term_terms := ts, term_pids := fold (\<lambda>i ps. ps[i := -1]) ns (term_pids s)\<rparr>"
proof (induction ns arbitrary: s)
  case Nil
  show ?case by (cases s) simp
next
  case (Cons n ns)
  obtain ts where "init_term n s = s\<lparr>term_terms := ts, term_pids := (term_pids s)[n := -1]\<rparr>"
    by (cases s) (simp add: init_term_def Let_def)
  then show ?case using Cons.IH [of "init_term n s"] by auto
qed

lemma term_init_frame:
  assumes "length (term_pids s) = NUM_TERMS"
  shows "\<exists>ts g. fst (term_init_global_ctx s) = s\<lparr>term_terms := ts, term_global_ctx := g, term_pids := replicate NUM_TERMS (-1), terminal_num := 0\<rparr>"
proof -
  let ?s = "(upd_term Global init_ctx s)\<lparr>terminal_num := 0\<rparr>"
  obtain p0 p1 p2 p3 where "term_pids s = [p0, p1, p2, p3]" using assms by (auto simp: length_Suc_conv numeral_eq_Suc)
  then have p: "fold (\<lambda>i ps. ps[i := -1]) [0..<NUM_TERMS] (term_pids ?s) = replicate NUM_TERMS (-1)"
    by (simp add: upt_rec numeral_eq_Suc)
  obtain ts where "fold init_term [0..<NUM_TERMS] ?s = ?s\<lparr>term_terms := ts, term_pids := replicate NUM_TERMS (-1)\<rparr>"
    using init_term_frame [of "[0..<NUM_TERMS]" ?s] unfolding p by blast
  then show ?thesis by (cases s) (simp add: term_init_global_ctx_def Let_def)
qed

lemma init_queue:
  assumes "SIZEOF_BUF q = MAX_PROCESSES + 1"
  shows "circ_inv (CIRC_BUF_INIT q)" "circ_cap (CIRC_BUF_INIT q) = MAX_PROCESSES - 1" "circ_list (CIRC_BUF_INIT q) = []"
  using assms by (simp_all add: circ_inv_def circ_cap_def circ_list_def circ_count_def BUF_PTR_DIFF_def SIZEOF_BUF_def CIRC_BUF_INIT_def)

lemma with_message_kernel [simp]:
  "\<exists>c d. with_message t (on_kernel g) b = on_kernel (\<lambda>s. (g (s\<lparr>con := c\<rparr>))\<lparr>con := d\<rparr>) b"
  by (auto simp: with_message_def put_text_def put_line_def print_line_def on_kernel_def)

lemma welcome_kernel: "\<exists>c es. on_kernel (\<lambda>s. do_io (update_cursor (con s)) s) (put_line t x) = on_kernel (\<lambda>s. s\<lparr>con := c, io := es\<rparr>) x"
  by (auto simp: put_line_def print_line_def on_kernel_def do_io_def)

lemma init_kernel_ready:
  assumes "length (term_pids (kst (mach b))) = NUM_TERMS" "SIZEOF_BUF (sched_queue_1 (kst (mach b))) = MAX_PROCESSES + 1"
    "SIZEOF_BUF (sched_queue_2 (kst (mach b))) = MAX_PROCESSES + 1"
  shows "\<exists>g. init_kernel e b = on_kernel g b \<and> kernel_ready e (kst (mach b)) (g (kst (mach b)))"
proof -
  let ?s = "kst (mach b)"
  have oo: "on_kernel f (on_kernel g x) = on_kernel (\<lambda>s. f (g s)) x" for f g x by (simp add: on_kernel_def)
  let ?P = "\<lambda>s. s\<lparr>pg := paging_init (table_addr e) (pg s)\<rparr>" and ?T = "\<lambda>s. fst (term_init_global_ctx s)" and ?I = "\<lambda>s. s\<lparr>iflag := True\<rparr>"
  let ?msg = with_message
  obtain c1 d1 where 1: "?msg ''    Initializing Paging... '' (on_kernel ?P) b = on_kernel (\<lambda>s. (?P (s\<lparr>con := c1\<rparr>))\<lparr>con := d1\<rparr>) b"
    (is "_ = ?b1") using with_message_kernel by blast
  obtain c2 d2 where 2: "?msg ''    Initializing Terminal...'' (on_kernel ?T) ?b1 = on_kernel (\<lambda>s. (?T (s\<lparr>con := c2\<rparr>))\<lparr>con := d2\<rparr>) ?b1"
    (is "_ = ?b2") using with_message_kernel by blast
  obtain c3 d3 where 3: "?msg ''    Initializing Scheduling...'' (on_kernel init_sched) ?b2 = on_kernel (\<lambda>s. (init_sched (s\<lparr>con := c3\<rparr>))\<lparr>con := d3\<rparr>) ?b2"
    (is "_ = ?b3") using with_message_kernel by blast
  obtain c4 d4 where 4: "?msg ''    Enabling Interrupts (STI)... '' (on_kernel ?I) ?b3 = on_kernel (\<lambda>s. (?I (s\<lparr>con := c4\<rparr>))\<lparr>con := d4\<rparr>) ?b3"
    (is "_ = ?b4") using with_message_kernel by blast
  obtain c5 es where 5: "init_kernel e b = on_kernel (\<lambda>s. s\<lparr>con := c5, io := es\<rparr>) ?b4"
    unfolding init_kernel_def Let_def 1 2 3 4 using welcome_kernel by blast
  let ?s1 = "?s\<lparr>pg := paging_init (table_addr e) (pg ?s), con := c2\<rparr>"
  obtain ts g where t: "?T ?s1 = ?s1\<lparr>term_terms := ts, term_global_ctx := g, term_pids := replicate NUM_TERMS (-1), terminal_num := 0\<rparr>"
    using term_init_frame [of ?s1] assms(1) by auto
  let ?g = "\<lambda>s. (?I (init_sched (?T (s\<lparr>pg := paging_init (table_addr e) (pg s), con := c2\<rparr>))))\<lparr>con := c5, io := es\<rparr>"
  have "init_kernel e b = on_kernel ?g b" unfolding 5 oo
    by (simp add: init_sched_def)
  moreover have "kernel_ready e ?s (?g ?s)" unfolding kernel_ready_def t
    using assms init_queue [OF assms(2)] init_queue [OF assms(3)] by (simp add: init_sched_def sched_inv_def rotation_def active_list_def expired_list_def active_queue_def expired_queue_def)
  ultimately show ?thesis by blast
qed

section \<open>Interrupts while the kernel waits\<close>

definition quiet_irq :: "irq \<Rightarrow> bool" where
  "quiet_irq q \<longleftrightarrow> r_isrno (irq_frame q) = IRQ_START + PIT_IRQ_PORT \<or> r_isrno (irq_frame q) = IRQ_START + RTC_IRQ_PORT"

text \<open>No process has been started: the boot stack is in use and there is nothing to switch to.\<close>

definition no_process :: "kstate \<Rightarrow> bool" where
  "no_process s \<longleftrightarrow> cur_pcb s = 0 \<and> nprocs s = 0 \<and> open_rtcs s = None"

definition only_io :: "kstate \<Rightarrow> kstate \<Rightarrow> bool" where
  "only_io s t \<longleftrightarrow> t = s\<lparr>frames := frames t, io := io t, con := con t\<rparr>"

lemma only_io_refl [simp]: "only_io s s"
  by (simp add: only_io_def)

lemma only_io_trans: "only_io a b \<Longrightarrow> only_io b c \<Longrightarrow> only_io a c"
  unfolding only_io_def by (cases a; cases b; cases c; simp)

lemma only_io_fields:
  assumes "only_io s t"
  shows "no_process t = no_process s" "cur_pcb t = cur_pcb s" "nprocs t = nprocs s" "proc_bitmap t = proc_bitmap s" "user_mem t = user_mem s"
    "pg t = pg s" "iflag t = iflag s" "terminal_num t = terminal_num s" "term_pids t = term_pids s" "pcbs t = pcbs s"
    "sched_inv t = sched_inv s" "rotation t = rotation s" "active_list t = active_list s" "expired_list t = expired_list s" "open_rtcs t = open_rtcs s"
proof -
  obtain fr es c where t: "t = s\<lparr>frames := fr, io := es, con := c\<rparr>" using assms by (auto simp: only_io_def)
  show "sched_inv t = sched_inv s" "rotation t = rotation s" "active_list t = active_list s" "expired_list t = expired_list s"
    by (intro queues_cong; simp add: t)+
qed (use assms in \<open>unfold only_io_def no_process_def, cases s, cases t, simp\<close>)+

lemma take_quiet:
  assumes "quiet_irq q" "no_process (kst m)"
  shows "\<exists>m'. take_irq e f q m = Some (Continue m' (Returns 0)) \<and> kb m' = kb m \<and> ps2_dev m' = ps2_dev m \<and> only_io (kst m) (kst m')"
proof -
  let ?n = "r_isrno (irq_frame q)"
  have x: "exception_name ?n = None" "\<not> unhandled_irq ?n"
    using assms(1) by (auto simp: quiet_irq_def exception_name_def unhandled_irq_def)
  show ?thesis
  proof (cases "?n = 32")
    case True
    then show ?thesis using x assms(2)
      by (simp add: take_irq_def isr_impl_def Let_def pit_handle_interrupt_def scheduler_def context_switch_def get_proc_pcb_def
          no_process_def do_io_def eoi_pit_def only_io_def)
  next
    case False
    then have "?n = 40" using assms(1) by (simp add: quiet_irq_def)
    then show ?thesis using x assms(2)
      by (simp add: take_irq_def isr_impl_def Let_def rtc_handle_interrupt_def no_process_def do_io_def only_io_def)
  qed
qed

lemma take_kbd:
  assumes "r_isrno (irq_frame q) = IRQ_START + KBD_IRQ_PORT" "ps2_in (ps2_dev m) = st # 0xAA # bs" "bit st 0"
  shows "\<exists>m'. take_irq e f q m = Some (Continue m' (Returns 0)) \<and> kbd_initialized (kb m') \<and> only_io (kst m) (kst m')"
proof -
  have x: "exception_name 33 = None" "\<not> unhandled_irq 33" by (simp_all add: exception_name_def unhandled_irq_def)
  obtain d where "ps2_read_data (ps2_dev m) = Some (0xAA, d)"
    using assms(2,3) by (simp add: ps2_read_data_def ps2_poll.simps ps2_inb_def obuffer_empty_def)
  then show ?thesis using assms(1) x
    by (auto simp: take_irq_def isr_impl_def Let_def handle_kbd_def kbd_handle_interrupt_def kbd_handle_byte_def do_io_def only_io_def)
qed

lemma kbd_wait_attached:
  assumes "\<forall>q \<in> set qs. quiet_irq q" "no_process (kst m)" "\<not> kbd_initialized (kb m)"
    and "r_isrno (irq_frame q) = IRQ_START + KBD_IRQ_PORT" "ps2_in (ps2_dev m) = st # 0xAA # bs" "bit st 0"
  shows "\<exists>m'. kbd_wait e f (qs @ q # ps) m = Some (m', ps, None) \<and> only_io (kst m) (kst m')"
  using assms(1-3,5)
proof (induction qs arbitrary: m)
  case Nil
  obtain m' where "take_irq e f q m = Some (Continue m' (Returns 0))" "kbd_initialized (kb m')" "only_io (kst m) (kst m')"
    using take_kbd [OF assms(4) Nil.prems(4) assms(6)] by blast
  then show ?case using Nil.prems(3) by (cases ps) auto
next
  case (Cons x qs)
  obtain m' where m': "take_irq e f x m = Some (Continue m' (Returns 0))" "kb m' = kb m" "ps2_dev m' = ps2_dev m" "only_io (kst m) (kst m')"
    using take_quiet [of x m e f] Cons.prems by auto
  then obtain m'' where "kbd_wait e f (qs @ q # ps) m' = Some (m'', ps, None)" "only_io (kst m') (kst m'')"
    using Cons.IH [of m'] Cons.prems only_io_fields(1) [OF m'(4)] by auto
  then show ?case using m' Cons.prems(3) only_io_trans by auto
qed

lemma kbd_wait_quiet:
  assumes "\<forall>q \<in> set qs. quiet_irq q" "no_process (kst m)" "\<not> kbd_initialized (kb m)"
  shows "kbd_wait e f qs m = None"
  using assms
proof (induction qs arbitrary: m)
  case (Cons x qs)
  obtain m' where m': "take_irq e f x m = Some (Continue m' (Returns 0))" "kb m' = kb m" "only_io (kst m) (kst m')"
    using take_quiet [of x m e f] Cons.prems by auto
  then show ?case using Cons.IH [of m'] Cons.prems only_io_fields(1) [OF m'(3)] by auto
qed simp

lemma sleep_quiet:
  assumes "\<forall>q \<in> set qs. quiet_irq q" "no_process (kst m)" "ms \<le> i + length qs"
  shows "\<exists>m'. sleep_loop e f ms i (qs @ ps) m = Some (m', drop (ms - i) (qs @ ps), None) \<and> only_io (kst m) (kst m')"
  using assms
proof (induction qs arbitrary: m i)
  case Nil
  then show ?case by (subst sleep_loop.simps) auto
next
  case (Cons q qs)
  show ?case
  proof (cases "i < ms")
    case True
    let ?m = "if i mod 1000 = 0 then m\<lparr>kst := (kst m)\<lparr>con := fst (puts (con (kst m)) (chars ''.'' @ [0]))\<rparr>\<rparr> else m"
    have o: "only_io (kst m) (kst ?m)" by (simp add: only_io_def)
    obtain m' where m': "take_irq e f q ?m = Some (Continue m' (Returns 0))" "only_io (kst ?m) (kst m')"
      using take_quiet [of q ?m e f] Cons.prems only_io_fields(1) [OF o] by auto
    obtain m'' where "sleep_loop e f ms (i + 1) (qs @ ps) m' = Some (m'', drop (ms - (i + 1)) (qs @ ps), None)" "only_io (kst m') (kst m'')"
      using Cons.IH [of m' "i + 1"] Cons.prems only_io_fields(1) [OF o] only_io_fields(1) [OF m'(2)] by auto
    moreover have "drop (ms - i) ((q # qs) @ ps) = drop (ms - (i + 1)) (qs @ ps)" using Suc_diff_Suc [OF True] by (metis Cons_eq_appendI Suc_eq_plus1 drop_Suc_Cons)
    ultimately show ?thesis using True m' only_io_trans [OF o only_io_trans [OF m'(2)]]
      by (subst sleep_loop.simps) (simp add: Let_def)
  next
    case False
    then show ?thesis by (subst sleep_loop.simps) simp
  qed
qed

section \<open>Up to the wait\<close>

text \<open>
  The interrupts of the boot: some of the timer and the clock, then the one with which the keyboard reports that its
  self test has passed. The keyboard controller answered the driver before.
\<close>

definition keyboard_attaches :: "boot \<Rightarrow> irq list \<Rightarrow> bool" where
  "keyboard_attaches b ps \<longleftrightarrow> (\<exists>qs q k d ok st bs. pending b = qs @ q # ps \<and> (\<forall>q \<in> set qs. quiet_irq q) \<and>
     r_isrno (irq_frame q) = IRQ_START + KBD_IRQ_PORT \<and> kbd_init (kb (mach b)) (ps2_dev (mach b)) = Some (k, d, ok) \<and>
     ps2_in d = st # 0xAA # bs \<and> bit st 0)"

definition lines_enabled :: "pic \<Rightarrow> nat set \<Rightarrow> bool" where
  "lines_enabled p E \<longleftrightarrow> (\<forall>n < 16. (if n < 8 then \<not> bit (master_mask p) n else \<not> bit (slave_mask p) (n - 8)) \<longleftrightarrow> n \<in> E)"

text \<open>The subsystems are initialised, nothing runs yet; \<open>b\<close> is the state at the entry.\<close>

definition initialised :: "board \<Rightarrow> boot \<Rightarrow> boot \<Rightarrow> bool" where
  "initialised e b b' \<longleftrightarrow> (let s = kst (mach b') in no_process s \<and> proc_bitmap s = 0 \<and> user_mem s = user_mem (kst (mach b)) \<and>
     iflag s \<and> terminal_num s = 0 \<and> term_pids s = replicate NUM_TERMS (-1) \<and> sched_inv s \<and> rotation s = [] \<and>
     pg s = paging_init (table_addr e) (pg (kst (mach b)))) \<and>
     idt_tab b' = install_interrupts (stub_addr e) (null_addr e) (idt_tab b) \<and> lines_enabled (pics b') {0, 1, 2, 8} \<and>
     ldt_desc_ptr b' = ldt_desc_ptr (set_segments e b) \<and> tss_desc_ptr b' = tss_desc_ptr (set_segments e b) \<and>
     ldt_reg b' = KERNEL_LDT \<and> task_reg b' = KERNEL_TSS"

lemma agree_enabled: "pics_agree p m sl E \<Longrightarrow> lines_enabled p E"
  unfolding pics_agree_def unmasked_def lines_enabled_def by metis

lemma kbd_init_clears: "kbd_init k0 d0 = Some (k, d, ok) \<Longrightarrow> \<not> kbd_initialized k"
  by (auto simp: kbd_init_def kbd_reset_def Let_def bind_eq_Some_conv split: if_splits)

lemma set_segments_fields [simp]:
  "kst (mach (set_segments e b)) = set_tss 0x800000 (kst (mach b))" "kb (mach (set_segments e b)) = kb (mach b)"
  "ps2_dev (mach (set_segments e b)) = ps2_dev (mach b)" "pics (set_segments e b) = pics b" "idt_tab (set_segments e b) = idt_tab b"
  "boot_fs (set_segments e b) = boot_fs b" "pending (set_segments e b) = pending b" "ldt_reg (set_segments e b) = KERNEL_LDT"
  "task_reg (set_segments e b) = KERNEL_TSS"
  by (simp_all add: set_segments_def Let_def)

lemma init_fs_output:
  assumes "boot_fs b = None" "case im of None \<Rightarrow> fo = None | Some m \<Rightarrow> \<exists>f. fs_init m = Some f \<and> fo = Some f"
  shows "\<exists>c. init_fs im (put_text t b) = Some (on_kernel (\<lambda>s. s\<lparr>con := c\<rparr>) (b\<lparr>boot_fs := fo\<rparr>))"
proof (cases im)
  case None
  then have "b\<lparr>boot_fs := fo\<rparr> = b" using assms by simp
  then show ?thesis using None by (auto simp: init_fs_def put_text_def put_line_def print_line_def on_kernel_def)
next
  case (Some m)
  then show ?thesis using assms(2) by (auto simp: init_fs_def put_text_def put_line_def print_line_def on_kernel_def)
qed

lemma entry_runs_first:
  assumes r: "at_reset b" and i: "info_ok mem (info_at mem addr)" and k: "kbd_init (kb (mach b)) (ps2_dev (mach b)) = Some (k, d, ok)"
    and f: "case image_of mem (info_at mem addr) of None \<Rightarrow> fo = None | Some im \<Rightarrow> \<exists>f. fs_init im = Some f \<and> fo = Some f"
  shows "\<exists>b'. entry e mem MULTIBOOT_BOOTLOADER_MAGIC addr b = run_first e b' \<and> initialised e b b' \<and>
    boot_fs b' = fo \<and> pending b' = pending b \<and> kb (mach b') = k \<and> ps2_dev (mach b') = d"
proof -
  let ?mbi = "info_at mem addr"
  obtain t u where t: "report_head mem ?mbi = Some t" "report_tail mem ?mbi = Some u"
    using report_head_prints [of ?mbi mem] report_tail_prints [OF i] i by (auto simp: info_ok_def)
  define b1 where "b1 = set_segments e (on_kernel (print_bytes u) (on_kernel (print_bytes t) (clear_screen b)))"
  obtain c where c: "on_kernel (print_bytes u) (on_kernel (print_bytes t) (clear_screen b)) = on_kernel (\<lambda>s. s\<lparr>con := c\<rparr>) b"
    using only_output_trans [OF only_output_trans [OF prints(3) prints(4)] prints(4), of b u t] by (auto simp: only_output_def)
  have b1: "b1 = set_segments e (on_kernel (\<lambda>s. s\<lparr>con := c\<rparr>) b)" by (simp add: b1_def c)
  obtain b2 where b2: "init_devices e b1 = Some b2" "devices_ready e k d b1 b2"
    using init_devices_ready [of b1 k d ok e] k by (auto simp: b1)
  note dr = b2(2) [unfolded devices_ready_def]
  obtain c2 es where s2: "kst (mach b2) = (set_tss 0x800000 (kst (mach b)))\<lparr>con := c2, io := es, open_rtcs := None\<rparr>"
    using dr by (simp add: b1 set_tss_def) blast
  have "boot_fs b2 = None" using dr r by (simp add: b1 at_reset_def)
  then obtain c3 where b3: "init_fs (image_of mem ?mbi) (put_text ''    Initializing File System... '' b2) =
      Some (on_kernel (\<lambda>s. s\<lparr>con := c3\<rparr>) (b2\<lparr>boot_fs := fo\<rparr>))" (is "_ = Some ?b3")
    using init_fs_output [OF _ f] by blast
  have s3: "length (term_pids (kst (mach ?b3))) = NUM_TERMS" "SIZEOF_BUF (sched_queue_1 (kst (mach ?b3))) = MAX_PROCESSES + 1"
    "SIZEOF_BUF (sched_queue_2 (kst (mach ?b3))) = MAX_PROCESSES + 1"
    using r by (simp_all add: s2 set_tss_def at_reset_def Let_def)
  obtain g where g: "init_kernel e ?b3 = on_kernel g ?b3" "kernel_ready e (kst (mach ?b3)) (g (kst (mach ?b3)))"
    using init_kernel_ready [OF s3] by blast
  have "entry e mem MULTIBOOT_BOOTLOADER_MAGIC addr b = run_first e (on_kernel g ?b3)"
    using t i b2(1) b3 g(1) unfolding entry_def Let_def b1_def by (auto simp: info_ok_def)
  moreover have "lines_enabled (pics b2) {0, 1, 2, 8}" using dr agree_enabled by blast
  then have "initialised e b (on_kernel g ?b3)"
    using g(2) r dr by (simp add: initialised_def kernel_ready_def s2 set_tss_def no_process_def at_reset_def Let_def b1)
      (simp add: set_segments_def Let_def)
  ultimately show ?thesis using b2(2) b1 by (intro exI [of _ "on_kernel g ?b3"]) (simp add: devices_ready_def)
qed

lemma wait_over:
  assumes "initialised e b0 b" "keyboard_attaches b0 ps" "pending b = pending b0" "kbd_init (kb (mach b0)) (ps2_dev (mach b0)) = Some (k, d, ok)"
    "kb (mach b) = k" "ps2_dev (mach b) = d"
  shows "\<exists>m. kbd_wait e (current_fs b) (pending b) (mach b) = Some (m, ps, None) \<and> only_io (kst (mach b)) (kst m)"
proof -
  obtain qs q st bs where a: "pending b0 = qs @ q # ps" "\<forall>q \<in> set qs. quiet_irq q" "r_isrno (irq_frame q) = IRQ_START + KBD_IRQ_PORT"
    "ps2_in d = st # 0xAA # bs" "bit st 0"
    using assms(2,4) by (auto simp: keyboard_attaches_def)
  have "no_process (kst (mach b))" using assms(1) by (simp add: initialised_def Let_def)
  then show ?thesis using kbd_wait_attached [OF a(2) _ _ a(3), of "mach b" st bs e "current_fs b" ps] a kbd_init_clears [OF assms(4)] assms(3,5,6) by auto
qed

lemma only_io_put: "only_io s t \<Longrightarrow> only_io s (t\<lparr>con := c\<rparr>)"
  by (erule only_io_trans) (simp add: only_io_def)

text \<open>The first process is in the queue, and the timer will resume it.\<close>

lemma timer_resumes_first:
  assumes "cur_pcb s = 0" "nprocs s \<noteq> 0" "sched_inv s" "rotation s = [of_nat k]" "pcbs s k = first_pcb k n args" "k \<le> MAX_PROCESSES"
    and m: "kst m = s" and q: "r_isrno (irq_frame q) = IRQ_START + PIT_IRQ_PORT" "irq_addr q \<noteq> start_ctx (int k)"
  shows "\<exists>m'. take_irq e f q m = Some (Continue m' (Resume (start_ctx (int k)))) \<and> cur_pcb (kst m') = k \<and> pdbr (pg (kst m')) = k \<and>
    tss_esp0 (kst m') = kern_esp_of (int k) \<and> frames (kst m') (start_ctx (int k)) = frames s (start_ctx (int k)) \<and> user_mem (kst m') = user_mem s"
proof -
  let ?s = "do_io pit_set_count (s\<lparr>frames := (frames s)(irq_addr q := irq_frame q)\<rparr>)"
  have x: "exception_name 32 = None" "\<not> unhandled_irq 32" by (simp_all add: exception_name_def unhandled_irq_def)
  have "sched_inv ?s = sched_inv s" "rotation ?s = rotation s" by (intro queues_cong; simp add: do_io_def)+
  then obtain t where t: "next_process f ?s = Some (t, Resume (start_ctx (int k)))" "cur_pcb t = k" "pdbr (pg t) = k" "tss_esp0 t = kern_esp_of (int k)"
    "frames t = frames ?s" "user_mem t = user_mem ?s"
    using resume_first [of ?s k n args f] assms(3-6) by (auto simp: do_io_def)
  have "take_irq e f q m = Some (Continue (m\<lparr>kst := t\<rparr>) (Resume (start_ctx (int k))))"
    using x q(1) m assms(1,2) t(1)
    by (simp add: take_irq_def isr_impl_def Let_def pit_handle_interrupt_def scheduler_def context_switch_def get_proc_pcb_def leave_current_def do_io_def)
  then show ?thesis using t q(2) by (intro exI [of _ "m\<lparr>kst := t\<rparr>"]) (simp add: do_io_def)
qed

lemma entry_starts_first:
  assumes "at_reset b" "info_ok mem (info_at mem addr)" "image_of mem (info_at mem addr) = Some im" "fs_init im = Some f"
    and "keyboard_attaches b ps" "can_start f (kst (mach b)) shell_cmd args inode 1"
  shows "\<exists>b1 b2 s. entry e mem MULTIBOOT_BOOTLOADER_MAGIC addr b = Some (b2\<lparr>mach := (mach b2)\<lparr>kst := s\<rparr>\<rparr>, Waits) \<and> initialised e b b1 \<and>
    only_io (kst (mach b1)) (kst (mach b2)) \<and> pending b2 = ps \<and> boot_fs b2 = Some f \<and> idt_tab b2 = idt_tab b1 \<and> pics b2 = pics b1 \<and>
    sys_exec_internal f (Some shell_cmd) None (kst (mach b2)) = Some (s, Returns 1) \<and> starts_process f inode args 1 (kst (mach b2)) s \<and>
    sched_inv s \<and> active_list s = [1] \<and> expired_list s = []"
proof -
  obtain k d ok where k: "kbd_init (kb (mach b)) (ps2_dev (mach b)) = Some (k, d, ok)" using assms(5) by (auto simp: keyboard_attaches_def)
  obtain b1 where b1: "entry e mem MULTIBOOT_BOOTLOADER_MAGIC addr b = run_first e b1" "initialised e b b1" "boot_fs b1 = Some f"
    "pending b1 = pending b" "kb (mach b1) = k" "ps2_dev (mach b1) = d"
    using entry_runs_first [OF assms(1,2) k, of "Some f" e] assms(3,4) by auto
  obtain m where m: "kbd_wait e (current_fs b1) (pending b1) (mach b1) = Some (m, ps, None)" "only_io (kst (mach b1)) (kst m)"
    using wait_over [OF b1(2) assms(5) b1(4) k b1(5,6)] by blast
  note i = b1(2) [unfolded initialised_def Let_def no_process_def]
  let ?b2 = "put_text [CHR 0x0A] (b1\<lparr>mach := m, pending := ps\<rparr>)"
  let ?s = "kst (mach ?b2)"
  have o: "only_io (kst (mach b1)) ?s" using only_io_put [OF m(2)] by simp
  note fs = only_io_fields [OF o]
  have "can_start f ?s shell_cmd args inode 1" using assms(1,6) can_start_cong [of ?s "kst (mach b)"] fs i by (simp add: at_reset_def Let_def)
  moreover have "sched_inv ?s" "active_list ?s = []" "expired_list ?s = []" using fs i by (auto simp: rotation_def)
  ultimately obtain s where s: "sys_exec_internal f (Some shell_cmd) None ?s = Some (s, Returns 1)" "starts_process f inode args 1 ?s s"
    "sched_inv s" "active_list s = [1]" "expired_list s = []"
    using sys_exec_first [of f ?s shell_cmd args inode 1] by auto
  have "entry e mem MULTIBOOT_BOOTLOADER_MAGIC addr b = Some (?b2\<lparr>mach := (mach ?b2)\<lparr>kst := s\<rparr>\<rparr>, Waits)"
    using m(1) b1(1,3) s(1) by (simp add: run_first_def Let_def)
  then show ?thesis using b1(2,3) o s by (intro exI [of _ b1] exI [of _ ?b2] exI [of _ s]) simp
qed

section \<open>Properties\<close>

text \<open>
  C2: Booted with a file system module, the kernel initialises its subsystems and starts the shell: \<open>entry\<close> ends
  waiting with interrupts enabled, process 1 is the only process, in the run queue of a consistent process table, on
  terminal 0, its memory holding the image of the file; the interrupt table is installed, exactly the lines of the
  timer, the keyboard, the cascade and the clock are enabled, and the page tables are those of \<open>paging_init\<close>. The
  next timer interrupt resumes the shell: at the entry point of the file, on a fresh user stack, in its own address space.\<close>

theorem boot_starts_shell:
  assumes "at_reset b" "info_ok mem (info_at mem addr)" "image_of mem (info_at mem addr) = Some im" "fs_init im = Some f"
    and "keyboard_attaches b ps" "can_start f (kst (mach b)) shell_cmd args inode 1"
  shows "\<exists>b' s. entry e mem MULTIBOOT_BOOTLOADER_MAGIC addr b = Some (b', Waits) \<and> kst (mach b') = s \<and> pending b' = ps \<and> boot_fs b' = Some f \<and>
    idt_tab b' = install_interrupts (stub_addr e) (null_addr e) (idt_tab b) \<and> lines_enabled (pics b') {0, 1, 2, 8} \<and>
    iflag s \<and> pg s = paging_init (table_addr e) (pg (kst (mach b))) \<and> nprocs s = 1 \<and> used_pids s = {1} \<and> table_inv s \<and>
    rotation s = [1] \<and> term_pids s = [1, -1, -1, -1] \<and> parent (pcbs s 1) = None \<and> term_ctx (pcbs s 1) = Some 0 \<and>
    take (length (file_content f (inode_at f inode))) (user_mem s 1) = file_content f (inode_at f inode) \<and>
    (\<forall>q. r_isrno (irq_frame q) = IRQ_START + PIT_IRQ_PORT \<and> irq_addr q \<noteq> start_ctx 1 \<longrightarrow>
      (\<exists>m. take_irq e f q (mach b') = Some (Continue m (Resume (start_ctx 1))) \<and> cur_pcb (kst m) = 1 \<and> pdbr (pg (kst m)) = 1 \<and>
        tss_esp0 (kst m) = kern_esp_of 1 \<and> frames (kst m) (start_ctx 1) = start_frame (entry_point f inode)))"
proof -
  obtain b1 b2 s where e: "entry e mem MULTIBOOT_BOOTLOADER_MAGIC addr b = Some (b2\<lparr>mach := (mach b2)\<lparr>kst := s\<rparr>\<rparr>, Waits)"
    and b: "initialised e b b1" "only_io (kst (mach b1)) (kst (mach b2))" "pending b2 = ps" "boot_fs b2 = Some f" "idt_tab b2 = idt_tab b1" "pics b2 = pics b1"
    and s: "sys_exec_internal f (Some shell_cmd) None (kst (mach b2)) = Some (s, Returns 1)" "starts_process f inode args 1 (kst (mach b2)) s"
      "sched_inv s" "active_list s = [1]" "expired_list s = []"
    using entry_starts_first [OF assms] by blast
  note i = b(1) [unfolded initialised_def Let_def no_process_def]
  note fs = only_io_fields [OF b(2)]
  let ?s = "kst (mach b2)" and ?b3 = "b2\<lparr>mach := (mach b2)\<lparr>kst := s\<rparr>\<rparr>"
  note sp = s(2) [unfolded starts_process_def]
  have np: "nprocs s = 1" "cur_pcb s = 0" "proc_bitmap s = push_bit 1 1" "pcbs s 1 = first_pcb 1 0 args"
    "frames s (start_ctx 1) = start_frame (entry_point f inode)" "term_pids s = [1, -1, -1, -1]" "iflag s" "pg s = paging_init (table_addr e) (pg (kst (mach b)))"
    using sp fs i by (simp_all add: numeral_eq_Suc)
  have "table_inv ?s" using fs i by (simp add: table_inv_def used_pids_def pid_used_def)
  then have "table_inv s" using exec_table s(1) by blast
  moreover have "used_pids s = {1}" by (auto simp: used_pids_def pid_used_def np bit_simps)
  moreover have "take (length (file_content f (inode_at f inode))) (user_mem s 1) = file_content f (inode_at f inode)"
    using sp by (simp add: load_image_def Let_def)
  moreover have "\<exists>m. take_irq e f q (mach ?b3) = Some (Continue m (Resume (start_ctx 1))) \<and> cur_pcb (kst m) = 1 \<and> pdbr (pg (kst m)) = 1 \<and>
        tss_esp0 (kst m) = kern_esp_of 1 \<and> frames (kst m) (start_ctx 1) = start_frame (entry_point f inode)"
    if "r_isrno (irq_frame q) = IRQ_START + PIT_IRQ_PORT" "irq_addr q \<noteq> start_ctx 1" for q
    using timer_resumes_first [of s 1 0 args "mach ?b3" q e f] that np s(3-5) by (auto simp: rotation_def)
  ultimately show ?thesis using e i b(3-6) np s(4,5) by (intro exI [of _ ?b3] exI [of _ s]) (simp add: rotation_def)
qed

text \<open>
  Without modules there is no file system: \<open>entry\<close> initialises the rest, starts no process, and after 3000
  interrupts of its sleep resets the machine.\<close>

theorem boot_without_modules_resets:
  assumes "at_reset b" "info_ok mem (info_at mem addr)" "\<not> CHECK_FLAG (mb_flags (info_at mem addr)) 3"
    and "keyboard_attaches b (qs @ ps)" "\<forall>q \<in> set qs. quiet_irq q" "length qs = 3000"
  shows "\<exists>b'. entry e mem MULTIBOOT_BOOTLOADER_MAGIC addr b = Some (b', Reset) \<and> pending b' = ps \<and> boot_fs b' = None \<and>
    nprocs (kst (mach b')) = 0 \<and> used_pids (kst (mach b')) = {} \<and> rotation (kst (mach b')) = []"
proof -
  obtain k d ok where k: "kbd_init (kb (mach b)) (ps2_dev (mach b)) = Some (k, d, ok)" using assms(4) by (auto simp: keyboard_attaches_def)
  obtain b1 where b1: "entry e mem MULTIBOOT_BOOTLOADER_MAGIC addr b = run_first e b1" "initialised e b b1" "boot_fs b1 = None"
    "pending b1 = pending b" "kb (mach b1) = k" "ps2_dev (mach b1) = d"
    using entry_runs_first [OF assms(1,2) k, of None e] assms(3) by (auto simp: image_of_def)
  obtain m where m: "kbd_wait e (current_fs b1) (pending b1) (mach b1) = Some (m, qs @ ps, None)" "only_io (kst (mach b1)) (kst m)"
    using wait_over [OF b1(2) assms(4) b1(4) k b1(5,6)] by blast
  note i = b1(2) [unfolded initialised_def Let_def]
  let ?b2 = "put_text ''Rebooting'' (put_text [CHR 0x0A] (b1\<lparr>mach := m, pending := qs @ ps\<rparr>))"
  have o: "only_io (kst (mach b1)) (kst (mach ?b2))" using only_io_put [OF only_io_put [OF m(2)]] by simp
  obtain m' where m': "sleep_loop e (current_fs ?b2) 3000 0 (qs @ ps) (mach ?b2) = Some (m', ps, None)" "only_io (kst (mach ?b2)) (kst m')"
    using sleep_quiet [OF assms(5), of "mach ?b2" 3000 0 e "current_fs ?b2" ps] assms(6) only_io_fields(1) [OF o] i by auto
  have "entry e mem MULTIBOOT_BOOTLOADER_MAGIC addr b = Some (?b2\<lparr>mach := m', pending := ps\<rparr>, Reset)"
    using m(1) m'(1) b1(1,3) by (simp add: run_first_def sleep_def Let_def)
  then show ?thesis using b1(3) only_io_fields [OF only_io_trans [OF o m'(2)]] i
    by (auto simp: used_pids_def pid_used_def no_process_def)
qed

text \<open>
  While only the timer and the clock interrupt, \<open>entry\<close> never gets past its wait for the keyboard, even when
  \<open>kbd_init\<close> has reported that there is none (\<open>ok\<close> is false): without a keyboard no shell is started.\<close>

theorem boot_waits_for_keyboard:
  assumes "at_reset b" "info_ok mem (info_at mem addr)" "image_of mem (info_at mem addr) = Some im" "fs_init im = Some f"
    and "kbd_init (kb (mach b)) (ps2_dev (mach b)) = Some (k, d, ok)" "\<forall>q \<in> set (pending b). quiet_irq q"
  shows "entry e mem MULTIBOOT_BOOTLOADER_MAGIC addr b = None"
proof -
  obtain b1 where b1: "entry e mem MULTIBOOT_BOOTLOADER_MAGIC addr b = run_first e b1" "initialised e b b1" "pending b1 = pending b" "kb (mach b1) = k"
    using entry_runs_first [OF assms(1,2,5), of "Some f" e] assms(3,4) by auto
  have "no_process (kst (mach b1))" using b1(2) by (simp add: initialised_def Let_def)
  then have "kbd_wait e (current_fs b1) (pending b1) (mach b1) = None"
    using kbd_wait_quiet assms(6) b1(3,4) kbd_init_clears [OF assms(5)] by simp
  then show ?thesis using b1(1) by (simp add: run_first_def)
qed

text \<open>
  Called by a boot loader that is not compliant, or with both symbol table formats announced, \<open>entry\<close> returns:
  it has written on the screen and changed nothing else.\<close>

theorem entry_rejects_loader:
  assumes "magic \<noteq> MULTIBOOT_BOOTLOADER_MAGIC \<or>
      CHECK_FLAG (mb_flags (info_at mem addr)) 4 \<and> CHECK_FLAG (mb_flags (info_at mem addr)) 5 \<and>
      (CHECK_FLAG (mb_flags (info_at mem addr)) 2 \<longrightarrow> (\<exists>n. mem (cmdline (info_at mem addr) + of_nat n) = 0))"
  shows "\<exists>b'. entry e mem magic addr b = Some (b', Returned) \<and> only_output b b'"
proof (cases "magic = MULTIBOOT_BOOTLOADER_MAGIC")
  case True
  then obtain t where t: "report_head mem (info_at mem addr) = Some t" using assms report_head_prints by blast
  have "entry e mem magic addr b = Some (put_line ''Both bits 4 and 5 are set.'' (on_kernel (print_bytes t) (clear_screen b)), Returned)"
    using True assms t by (simp add: entry_def Let_def)
  then show ?thesis using only_output_trans [OF only_output_trans [OF prints(3) prints(4)] prints(2)] by blast
next
  case False
  then obtain t where "entry e mem magic addr b = Some (on_kernel (print_bytes t) (clear_screen b), Returned)"
    by (simp add: entry_def Let_def report_lines)
  then show ?thesis using only_output_trans [OF prints(3) prints(4)] by blast
qed

section \<open>What the processor reads from the segment descriptors\<close>

definition seg_base :: "seg_desc \<Rightarrow> u32" where
  "seg_base d = push_bit 24 (ucast (base_31_24 d)) OR push_bit 16 (ucast (base_23_16 d)) OR ucast (base_15_00 d)"

definition seg_limit :: "seg_desc \<Rightarrow> u32" where
  "seg_limit d = push_bit 16 (ucast (seg_lim_19_16 d)) OR ucast (seg_lim_15_00 d)"

lemma tss_params_ldt: "SET_TSS_PARAMS d a l = SET_LDT_PARAMS d a l"
  by (simp add: SET_TSS_PARAMS_def SET_LDT_PARAMS_def)

lemma segment_masks:
  "(0xFF000000 :: u32) = push_bit 24 (mask 8)" "(0x00FF0000 :: u32) = push_bit 16 (mask 8)" "(0xFFFF :: u32) = mask 16" "(0xF0000 :: u32) = push_bit 16 (mask 4)"
  by (simp_all add: mask_eq_exp_minus_1 push_bit_eq_mult)

lemma seg_base_SET [simp]: "seg_base (SET_LDT_PARAMS d a l) = a"
proof -
  have "bit (seg_base (SET_LDT_PARAMS d a l)) n = bit a n" if "n < 32" for n
  proof -
    consider "n < 16" | "16 \<le> n" "n < 24" | "24 \<le> n" by linarith
    then show ?thesis unfolding seg_base_def SET_LDT_PARAMS_def segment_masks using that
      by cases (auto simp: bit_simps)
  qed
  then show ?thesis by (intro bit_eqI) simp
qed

lemma seg_limit_SET [simp]: "seg_limit (SET_LDT_PARAMS d a l) = take_bit 20 l"
proof -
  have "bit (seg_limit (SET_LDT_PARAMS d a l)) n = bit (take_bit 20 l) n" if "n < 32" for n
  proof -
    consider "n < 16" | "16 \<le> n" "n < 20" | "20 \<le> n" by linarith
    then show ?thesis unfolding seg_limit_def SET_LDT_PARAMS_def segment_masks using that
      by cases (auto simp: bit_simps)
  qed
  then show ?thesis by (intro bit_eqI) simp
qed

text \<open>
  The descriptors written at boot describe the task state segment and the local table: the processor reads back their
  addresses and the low 20 bits of their sizes, as present system segments of privilege level 0 and of their types.\<close>

theorem segments_described:
  "let b' = set_segments e b; t = tss_desc_ptr b'; l = ldt_desc_ptr b' in
     seg_base t = tss_base e \<and> seg_limit t = take_bit 20 (tss_lim e) \<and> seg_type t = 9 \<and> seg_present t \<and> seg_dpl t = 0 \<and> \<not> seg_sys t \<and>
     seg_base l = ldt_base e \<and> seg_limit l = take_bit 20 (ldt_lim e) \<and> seg_type l = 2 \<and> seg_present l \<and> seg_dpl l = 0 \<and> \<not> seg_sys l \<and>
     task_reg b' = KERNEL_TSS \<and> ldt_reg b' = KERNEL_LDT \<and> tss_esp0 (kst (mach b')) = 0x800000 \<and> tss_ss0 (kst (mach b')) = KERNEL_DS"
  by (simp add: set_segments_def Let_def tss_params_ldt) (simp add: SET_LDT_PARAMS_def set_tss_def)

section \<open>A boot\<close>

text \<open>
  The information structure is at 0x1000, the module list at 0x2000 and the image of the sample file system at
  0x100000; \<open>flags\<close> is its first byte. The keyboard answers the driver and reports its self test.
\<close>

definition sample_memory :: "u8 \<Rightarrow> memory" where
  "sample_memory flags a =
     (if 0x100000 \<le> a then sample_img 0x08048094 ! unat (a - 0x100000)
      else case map_of [(0x1000, flags), (0x1014, 1), (0x1019, 0x20), (0x2002, 0x10), (0x2005, 0x40), (0x2006, 0x10)] a of
        None \<Rightarrow> 0 | Some v \<Rightarrow> v)"

definition sample_board :: board where
  "sample_board = \<lparr>table_addr = sample_layout, stub_addr = (\<lambda>_. 0x400000), null_addr = 0x400100, ldt_base = 0x401000, ldt_lim = 8,
     tss_base = 0x402000, tss_lim = 104, rtc_bytes = (0, 0, 0)\<rparr>"

definition line_irq :: "u32 \<Rightarrow> irq" where
  "line_irq n = \<lparr>irq_addr = 0x7FFF00, irq_frame = zero_registers\<lparr>r_isrno := 32 + n\<rparr>, irq_cr2 = 0, irq_regC = 0\<rparr>"

definition zero_seg :: seg_desc where
  "zero_seg = \<lparr>seg_lim_15_00 = 0, base_15_00 = 0, base_23_16 = 0, seg_type = 0, seg_sys = False, seg_dpl = 0, seg_present = False,
     seg_lim_19_16 = 0, seg_avail = False, seg_reserved = False, seg_opsize = False, seg_granularity = False, base_31_24 = 0\<rparr>"

definition sample_boot :: "irq list \<Rightarrow> boot" where
  "sample_boot ps = \<lparr>mach = \<lparr>kst = zero_kstate\<lparr>user_mem := (\<lambda>_. replicate 64 0)\<rparr>, kb = sample_kbd,
       ps2_dev = \<lparr>ps2_in = init_script 0 0 0 0 0 @ [1, 0xAA], ps2_log = []\<rparr>\<rparr>, pics = sample_pic, idt_tab = (\<lambda>_. zero_desc), boot_fs = None,
     ldt_desc_ptr = zero_seg, tss_desc_ptr = zero_seg, ldt_reg = 0, task_reg = 0, tss_ldt = 0,
     pending = [line_irq 0, line_irq 8, line_irq 1] @ ps\<rparr>"

lemma sample_info:
  "mb_flags (info_at (sample_memory v) 0x1000) = ucast v" "mods_addr (info_at (sample_memory v) 0x1000) = 0x2000"
  "module_at (sample_memory v) 0x2000 = \<lparr>mod_start = 0x100000, mod_end = 0x104000\<rparr>"
  by (simp_all add: info_at_def module_at_def word_at_def le32_def sample_memory_def)

lemma sample_image: "map (\<lambda>i. sample_memory v (0x100000 + of_nat i)) [0..<16384] = sample_img 0x08048094"
proof (rule nth_equalityI)
  fix i assume "i < length (map (\<lambda>i. sample_memory v (0x100000 + of_nat i)) [0..<16384])"
  then have i: "i < 16384" by simp
  then have u: "unat (of_nat i :: u32) = i" "unat (0x100000 + of_nat i :: u32) = 0x100000 + i"
    by (simp_all add: unat_of_nat unat_word_ariths)
  then have "0x100000 \<le> (0x100000 + of_nat i :: u32)" by (simp add: word_le_nat_alt)
  then show "map (\<lambda>i. sample_memory v (0x100000 + of_nat i)) [0..<16384] ! i = sample_img 0x08048094 ! i"
    using i u by (simp add: sample_memory_def del: upt_conv_Cons)
qed simp

lemma sample_flags: "CHECK_FLAG 8 3" "\<not> CHECK_FLAG 8 2" "\<not> CHECK_FLAG 8 5" "\<not> CHECK_FLAG 8 6" "\<not> CHECK_FLAG 0 n" "CHECK_FLAG 48 4" "CHECK_FLAG 48 5" "\<not> CHECK_FLAG 48 2"
  by (simp_all add: CHECK_FLAG_def)

lemma sample_info_ok: "info_ok (sample_memory 8) (info_at (sample_memory 8) 0x1000)" "info_ok (sample_memory 0) (info_at (sample_memory 0) 0x1000)"
  by (simp_all add: info_ok_def sample_info sample_flags)

lemma sample_boot_fields: "at_reset (sample_boot ps)"
  by (simp add: at_reset_def sample_boot_def zero_kstate_def SIZEOF_BUF_def CIRC_BUF_TYPE_def)

lemma sample_attaches: "keyboard_attaches (sample_boot ps) ps"
proof -
  obtain k d ok where k: "kbd_init (kb (mach (sample_boot ps))) (ps2_dev (mach (sample_boot ps))) = Some (k, d, ok)" "ps2_in d = [1, 0xAA]"
    by (simp add: sample_boot_def kbd_init_def kbd_reset_def init_script_def ps2_ready Let_def del: or_numerals)
  have "pending (sample_boot ps) = [line_irq 0, line_irq 8] @ line_irq 1 # ps" "\<forall>q \<in> set [line_irq 0, line_irq 8]. quiet_irq q"
    "r_isrno (irq_frame (line_irq 1)) = 33"
    by (simp_all add: sample_boot_def line_irq_def quiet_irq_def)
  then show ?thesis unfolding keyboard_attaches_def
    by (intro exI [of _ "[line_irq 0, line_irq 8]"] exI [of _ "line_irq 1"] exI [of _ k] exI [of _ d] exI [of _ ok] exI [of _ 1] exI [of _ "[]"])
      (simp add: k)
qed

lemma sample_module: "image_of (sample_memory 8) (info_at (sample_memory 8) 0x1000) = Some (sample_img 0x08048094)"
  using sample_image [of 8] by (simp add: image_of_def sample_info sample_flags Let_def)

theorem boot_starts_shell_witness:
  "\<exists>b'. entry sample_board (sample_memory 8) 0x2BADB002 0x1000 (sample_boot []) = Some (b', Waits) \<and> nprocs (kst (mach b')) = 1 \<and>
     rotation (kst (mach b')) = [1] \<and> lines_enabled (pics b') {0, 1, 2, 8} \<and>
     (\<exists>m. take_irq sample_board sample_exe (line_irq 0) (mach b') = Some (Continue m (Resume (start_ctx 1))) \<and>
       frames (kst m) (start_ctx 1) = start_frame 0x08048094)"
proof -
  have "can_start sample_exe (kst (mach (sample_boot []))) shell_cmd (replicate 64 0) 0 1"
    by (rule sample_can_start) (simp_all add: sample_boot_def zero_kstate_def)
  moreover have "r_isrno (irq_frame (line_irq 0)) = 32" "irq_addr (line_irq 0) \<noteq> start_ctx 1"
    by (simp_all add: line_irq_def start_ctx_def kern_esp_of_def)
  ultimately show ?thesis
    using boot_starts_shell [OF sample_boot_fields sample_info_ok(1) sample_module sample_init sample_attaches, where args = "replicate 64 0" and inode = 0 and e = sample_board]
      sample_command(2) [of "0x08048094"] by fastforce
qed

theorem boot_without_modules_resets_witness:
  "\<exists>b'. entry sample_board (sample_memory 0) 0x2BADB002 0x1000 (sample_boot (replicate 3000 (line_irq 0) @ [])) = Some (b', Reset) \<and>
     nprocs (kst (mach b')) = 0"
proof -
  have "\<forall>q \<in> set (replicate 3000 (line_irq 0)). quiet_irq q" by (simp add: quiet_irq_def line_irq_def)
  moreover have "\<not> CHECK_FLAG (mb_flags (info_at (sample_memory 0) 0x1000)) 3" by (simp add: sample_info sample_flags)
  ultimately show ?thesis
    using boot_without_modules_resets [OF sample_boot_fields sample_info_ok(2) _ sample_attaches, where qs = "replicate 3000 (line_irq 0)" and ps = "[]" and e = sample_board] by auto
qed

theorem entry_rejects_loader_witness:
  "(\<exists>b'. entry sample_board (sample_memory 8) 0x1BADB002 0x1000 (sample_boot []) = Some (b', Returned)) \<and>
   (\<exists>b'. entry sample_board (sample_memory 48) 0x2BADB002 0x1000 (sample_boot []) = Some (b', Returned))"
  using entry_rejects_loader [of "0x1BADB002" "sample_memory 8" "0x1000" sample_board "sample_boot []"]
    entry_rejects_loader [of "0x2BADB002" "sample_memory 48" "0x1000" sample_board "sample_boot []"]
  by (auto simp: sample_info sample_flags)

theorem boot_waits_for_keyboard_witness:
  "entry sample_board (sample_memory 8) 0x2BADB002 0x1000 ((sample_boot [])\<lparr>pending := [line_irq 0, line_irq 8]\<rparr>) = None"
proof -
  let ?b = "(sample_boot [])\<lparr>pending := [line_irq 0, line_irq 8]\<rparr>"
  obtain k d ok where "kbd_init (kb (mach ?b)) (ps2_dev (mach ?b)) = Some (k, d, ok)"
    using sample_attaches [of "[]"] by (auto simp: keyboard_attaches_def)
  moreover have "at_reset ?b" using sample_boot_fields [of "[]"] by (simp add: at_reset_def)
  moreover have "\<forall>q \<in> set (pending ?b). quiet_irq q" by (simp add: quiet_irq_def line_irq_def)
  ultimately show ?thesis using boot_waits_for_keyboard [OF _ sample_info_ok(1) sample_module sample_init] by blast
qed

end
