(* ===== verification/Kernel_Run.thy ===== *)
theory Kernel_Run
  imports Boot
begin

text \<open>
  The kernel as a whole: every way into it (the system calls of \<^verbatim>\<open>syscall_impl.c\<close>, the interrupts and exceptions of
  \<^verbatim>\<open>isr.c\<close>) as one relation between kernel states, and the shape of its data as an invariant of that relation. The
  shape is what the C types and declarations promise and what the array accesses of the code rely on: eight
  descriptors and 64 bytes of arguments in every control block, four terminals with a sound key buffer each, terminal
  numbers below four, two sound run queues.
\<close>

named_theorems shape_intros

definition pcb_shape :: "pcb \<Rightarrow> bool" where
  "pcb_shape b \<longleftrightarrow> length (file_array b) = MAX_FILES \<and> length (cmd_args b) = MAX_ARGS_LEN + 1 \<and> (\<forall>t. term_ctx b = Some t \<longrightarrow> t < NUM_TERMS)"

definition term_shape :: "term_t \<Rightarrow> bool" where
  "term_shape x \<longleftrightarrow> circ_inv (key_buf x)"

definition shaped :: "kstate \<Rightarrow> bool" where
  "shaped s \<longleftrightarrow> length (term_terms s) = NUM_TERMS \<and> (\<forall>x \<in> set (term_terms s). term_shape x) \<and> term_shape (term_global_ctx s) \<and>
     length (term_pids s) = NUM_TERMS \<and> terminal_num s < NUM_TERMS \<and> (\<forall>p. pcb_shape (pcbs s p)) \<and> sched_inv s"

section \<open>Updates that keep the shape\<close>

lemma shaped_cong:
  assumes "term_terms t = term_terms s" "term_global_ctx t = term_global_ctx s" "term_pids t = term_pids s" "terminal_num t = terminal_num s"
    "pcbs t = pcbs s" "sched_queue_1 t = sched_queue_1 s" "sched_queue_2 t = sched_queue_2 s" "active_is_1 t = active_is_1 s"
  shows "shaped t = shaped s"
  using assms queues_cong(1) [of t s] by (simp add: shaped_def)

lemma shaped_other [simp]:
  "shaped (s\<lparr>con := c\<rparr>) = shaped s" "shaped (s\<lparr>io := es\<rparr>) = shaped s" "shaped (s\<lparr>pg := g\<rparr>) = shaped s"
  "shaped (s\<lparr>frames := fr\<rparr>) = shaped s" "shaped (s\<lparr>iflag := i\<rparr>) = shaped s" "shaped (s\<lparr>nprocs := n\<rparr>) = shaped s"
  "shaped (s\<lparr>proc_bitmap := b\<rparr>) = shaped s" "shaped (s\<lparr>cur_pcb := p\<rparr>) = shaped s" "shaped (s\<lparr>user_mem := m\<rparr>) = shaped s"
  "shaped (s\<lparr>open_rtcs := r\<rparr>) = shaped s" "shaped (s\<lparr>kern_screen := k\<rparr>) = shaped s" "shaped (s\<lparr>tss_esp0 := w\<rparr>) = shaped s"
  "shaped (s\<lparr>tss_ss0 := w\<rparr>) = shaped s"
  by (intro shaped_cong; simp)+

lemma shaped_calls [simp]:
  "shaped (do_io es s) = shaped s" "shaped (set_pdbr d s) = shaped s" "shaped (set_tss w s) = shaped s" "shaped (eoi_pit s) = shaped s"
  "shaped (update_screen_cursor t s) = shaped s" "shaped (free_pid p s) = shaped s" "shaped (pid_fail i s) = shaped s"
  by (simp_all add: do_io_def set_pdbr_def set_tss_def eoi_pit_def update_screen_cursor_def free_pid_def pid_fail_def)

lemma shaped_upd_pcb [shape_intros]: "shaped s \<Longrightarrow> (pcb_shape (pcbs s p) \<Longrightarrow> pcb_shape (g (pcbs s p))) \<Longrightarrow> shaped (upd_pcb p g s)"
  using queues_cong(1) [of "upd_pcb p g s" s] by (simp add: shaped_def upd_pcb_def)

lemma shaped_upd_file [shape_intros]: "shaped s \<Longrightarrow> shaped (upd_file r g s)"
  unfolding upd_file_def by (rule shaped_upd_pcb) (simp_all add: pcb_shape_def)

lemma shaped_upd_term_at:
  assumes "shaped s" "term_shape (get_term s t) \<Longrightarrow> term_shape (g (get_term s t))"
  shows "shaped (upd_term t g s)"
proof (cases t)
  case Global
  then show ?thesis using assms queues_cong(1) [of "upd_term t g s" s] by (simp add: shaped_def)
next
  case (Term n)
  have "term_shape x" if "x \<in> set ((term_terms s)[n := g (term_terms s ! n)])" for x
  proof (cases "n < length (term_terms s)")
    case True
    then have "term_shape (g (term_terms s ! n))" using assms Term by (simp add: shaped_def)
    then show ?thesis using that set_update_subset_insert [of "term_terms s" n] assms(1) by (auto simp: shaped_def)
  next
    case False
    then show ?thesis using that assms(1) by (simp add: shaped_def list_update_beyond)
  qed
  then show ?thesis using Term assms queues_cong(1) [of "upd_term t g s" s] by (simp add: shaped_def)
qed

lemma shaped_upd_term [shape_intros]: "shaped s \<Longrightarrow> (\<And>x. term_shape x \<Longrightarrow> term_shape (g x)) \<Longrightarrow> shaped (upd_term t g s)"
  by (rule shaped_upd_term_at)

lemma shaped_set_screen [shape_intros]: "shaped s \<Longrightarrow> shaped (set_screen t sc s)"
proof (cases t)
  case (Term n)
  then show "shaped s \<Longrightarrow> ?thesis" using shaped_upd_term [of s "\<lambda>x. x\<lparr>term_screen := sc\<rparr>" "Term n"] by (simp add: term_shape_def)
qed simp

lemma shaped_on_screen [shape_intros]: "shaped s \<Longrightarrow> shaped (on_screen g t s)" "shaped s \<Longrightarrow> shaped (screen_putc t c s)"
  by (simp_all add: on_screen_def screen_putc_def shaped_set_screen split: prod.splits)

lemma shaped_term_pids [shape_intros]: "shaped s \<Longrightarrow> shaped (s\<lparr>term_pids := (term_pids s)[i := v]\<rparr>)"
  using queues_cong(1) [of "s\<lparr>term_pids := (term_pids s)[i := v]\<rparr>" s] by (simp add: shaped_def)

lemma shaped_set_term_pid [shape_intros]: "shaped s \<Longrightarrow> shaped (set_term_pid i v s)"
  by (simp add: set_term_pid_def shaped_term_pids)

lemma shaped_queues: "same_but_queues s t \<Longrightarrow> sched_inv t \<Longrightarrow> shaped s \<Longrightarrow> shaped t"
  unfolding same_but_queues_def shaped_def by (cases s; cases t; simp)

lemma shaped_push [shape_intros]: "shaped s \<Longrightarrow> shaped (fst (push_to_active p s))" "shaped s \<Longrightarrow> shaped (fst (push_to_expired p s))"
  "shaped s \<Longrightarrow> shaped (fst (pop_active s))" "shaped s \<Longrightarrow> shaped (swap_queues s)"
proof -
  assume s: "shaped s"
  then have i: "sched_inv s" by (simp add: shaped_def)
  show "shaped (fst (push_to_active p s))" "shaped (fst (push_to_expired p s))" "shaped (fst (pop_active s))" "shaped (swap_queues s)"
    using push_to_active_cases [OF i] push_to_expired_cases [OF i] pop_active_cases [OF i] s i
    by (auto intro!: shaped_queues [of s] simp: prod_eq_iff)
qed

lemma circ_keeps:
  assumes "circ_inv q"
  shows "circ_inv (fst (CIRC_BUF_POP q))" "circ_inv (fst (CIRC_BUF_POP_TAIL q))" "circ_inv (fst (CIRC_BUF_PUSH q c))"
proof -
  show "circ_inv (fst (CIRC_BUF_POP q))"
    using assms circ_pop_ok(1) [OF assms _ surjective_pairing] by (cases "circ_list q") (auto simp: circ_pop_empty)
  show "circ_inv (fst (CIRC_BUF_POP_TAIL q))"
    using assms circ_pop_tail_ok(1) [OF assms _ surjective_pairing] by (cases "circ_list q" rule: rev_cases) (auto simp: circ_pop_tail_empty)
  have "length (circ_list q) \<le> circ_cap q" using assms by (simp add: circ_inv_def)
  then consider "length (circ_list q) = circ_cap q" | "length (circ_list q) < circ_cap q" by linarith
  then show "circ_inv (fst (CIRC_BUF_PUSH q c))"
    using assms circ_push_ok(1) [OF assms _ surjective_pairing] by cases (auto simp: circ_push_full)
qed

lemma term_shape_ops [simp]:
  assumes "term_shape x"
  shows "term_shape (x\<lparr>key_buf := fst (CIRC_BUF_POP (key_buf x))\<rparr>)" "term_shape (x\<lparr>key_buf := fst (CIRC_BUF_POP_TAIL (key_buf x))\<rparr>)"
    "term_shape (x\<lparr>key_buf := CIRC_BUF_INIT (key_buf x)\<rparr>)" "term_shape (x\<lparr>key_buf := fst (CIRC_BUF_PUSH (key_buf x) c)\<rparr>)" "term_shape (init_ctx x)"
  using assms circ_keeps circ_init by (simp_all add: term_shape_def init_ctx_def)

section \<open>Files and clocks\<close>

lemma shaped_release_fd [shape_intros]: "shaped s \<Longrightarrow> shaped (release_fd p fd s)"
  by (auto simp: release_fd_def pcb_shape_def intro!: shape_intros split: option.splits)

lemma shaped_get_unused_fd [shape_intros]: "shaped s \<Longrightarrow> shaped (fst (get_unused_fd p s))"
  by (auto simp: get_unused_fd_def Let_def intro!: shape_intros split: option.splits if_splits)

lemma shaped_rtc_open [shape_intros]: "shaped s \<Longrightarrow> shaped (fst (rtc_open s p))"
  using shaped_get_unused_fd [of s p]
  by (auto simp: rtc_open_def Let_def intro!: shape_intros split: option.splits if_splits prod.splits)

lemma shaped_open_with: "shaped s \<Longrightarrow> open_with ops f s p name = Some (t, r) \<Longrightarrow> shaped t"
  using shaped_get_unused_fd [of s p]
  by (auto simp: open_with_def bind_eq_Some_conv intro!: shaped_upd_file split: option.splits if_splits prod.splits)

lemma shaped_open: "shaped s \<Longrightarrow> sys_open f s name = Some (t, r) \<Longrightarrow> shaped t"
  using shaped_rtc_open [of s "get_proc_pcb s"]
  by (auto simp: sys_open_def file_open_def dir_open_def bind_eq_Some_conv dest: shaped_open_with split: option.splits if_splits)

lemma shaped_set_link [shape_intros]: "shaped s \<Longrightarrow> shaped (set_link l v s)"
  by (auto simp: set_link_def intro: shaped_upd_file split: option.splits)

lemma shaped_rtc_close:
  assumes "shaped s" "rtc_close s p fd = Some (t, r)"
  shows "shaped t"
proof -
  obtain l el where "t = release_fd p fd (case el of None \<Rightarrow> s | Some e \<Rightarrow> set_link l (reserved (get_file s e)) s)"
    using assms(2) by (auto simp: rtc_close_def bind_eq_Some_conv)
  then show ?thesis using assms(1) by (auto intro!: shape_intros split: option.splits)
qed

lemma shaped_fops_close: "shaped s \<Longrightarrow> fops_close ops s p fd = Some (t, r) \<Longrightarrow> shaped t"
  by (auto simp: fops_close_def term_close_def file_close_def dir_close_def intro: shaped_release_fd shaped_rtc_close split: fops.splits)

lemma shaped_close: "shaped s \<Longrightarrow> sys_close s fd = Some (t, r) \<Longrightarrow> shaped t"
  by (auto simp: sys_close_def dest: shaped_fops_close split: option.splits)

lemma shaped_fold_putc: "shaped s \<Longrightarrow> shaped (fold (screen_putc t) cs s)"
  by (induction cs arbitrary: s) (auto intro: shape_intros)

lemma shaped_write: "shaped s \<Longrightarrow> sys_write s fd buf n = Some (t, r) \<Longrightarrow> shaped t"
  by (auto simp: sys_write_def fops_write_def term_write_def file_write_def dir_write_def rtc_write_def bind_eq_Some_conv Let_def
      intro!: shaped_fold_putc shaped_upd_file split: option.splits if_splits fops.splits)

section \<open>Calls that yield\<close>

text \<open>What happens while a call yields is again a run of the kernel, so it keeps the shape.\<close>

definition yields_shaped :: "(nat \<Rightarrow> kstate \<Rightarrow> kstate) \<Rightarrow> bool" where
  "yields_shaped sched \<longleftrightarrow> (\<forall>i s. shaped s \<longrightarrow> shaped (sched i s))"

lemma shaped_read_key:
  "shaped s \<Longrightarrow> read_key t c idx buf s = Some r \<Longrightarrow> shaped (fst r)"
  by (auto simp: read_key_def intro: shape_intros split: if_splits)

lemma shaped_term_read_loop:
  assumes "term_read_loop sched i t n c idx buf s = Some y" "yields_shaped sched" "shaped s"
  shows "shaped (fst y)"
proof -
  have "yields_shaped sched \<longrightarrow> shaped s \<longrightarrow> shaped (fst y)"
  proof (rule term_read_loop.raw_induct [OF _ assms(1)])
    fix loop sched i t n c idx buf s y
    assume ih: "\<And>sched i t n c idx buf s y. loop sched i t n c idx buf s = Some y \<Longrightarrow> yields_shaped sched \<longrightarrow> shaped s \<longrightarrow> shaped (fst y)"
      and e: "(case snd (CIRC_BUF_POP (key_buf (term_terms s ! t))) of
          None \<Rightarrow> (if c \<noteq> 10 \<and> int idx < n then loop sched (Suc i) t n c idx buf (sched i s) else Some (sched i s, buf, int idx))
        | Some c' \<Rightarrow> (case read_key t c' idx buf (upd_term (Term t) (\<lambda>x. x\<lparr>key_buf := fst (CIRC_BUF_POP (key_buf x))\<rparr>) s) of
             None \<Rightarrow> None
           | Some r \<Rightarrow> if c' \<noteq> 10 \<and> int (snd (snd r)) < n then loop sched i t n c' (snd (snd r)) (fst (snd r)) (fst r)
               else Some (fst r, fst (snd r), int (snd (snd r))))) = Some y"
    show "yields_shaped sched \<longrightarrow> shaped s \<longrightarrow> shaped (fst y)"
    proof (intro impI)
      assume a: "yields_shaped sched" "shaped s"
      have "shaped (upd_term (Term t) (\<lambda>x. x\<lparr>key_buf := fst (CIRC_BUF_POP (key_buf x))\<rparr>) s)" using a(2) by (rule shaped_upd_term) simp
      then show "shaped (fst y)" using e a ih shaped_read_key
        by (auto simp: yields_shaped_def simp del: upd_term.simps split: option.splits if_splits)
    qed
  qed
  then show ?thesis using assms by blast
qed

lemma shaped_rtc_wait: "rtc_wait sched i r s = Some t \<Longrightarrow> yields_shaped sched \<Longrightarrow> shaped s \<Longrightarrow> shaped t"
  by (erule rtc_wait_keeps) (auto simp: yields_shaped_def)

lemma shaped_fops_read:
  assumes "fops_read sched f ops s p fd buf n = Some (t, r)" "yields_shaped sched" "shaped s"
  shows "shaped t"
  using assms
  by (auto simp: fops_read_def term_read_def file_read_def dir_read_def rtc_read_def bind_eq_Some_conv Let_def
      dest: shaped_term_read_loop shaped_rtc_wait intro!: shaped_upd_file split: option.splits if_splits fops.splits)

lemma shaped_read: "sys_read sched f s fd buf n = Some (t, r) \<Longrightarrow> yields_shaped sched \<Longrightarrow> shaped s \<Longrightarrow> shaped t"
  by (auto simp: sys_read_def dest: shaped_fops_read split: option.splits)

lemma shaped_tick_loop:
  assumes "tick_loop r s = Some t" "shaped s"
  shows "shaped t"
proof -
  have "shaped s \<longrightarrow> shaped t"
    by (rule tick_loop.raw_induct [OF _ assms(1)]) (auto simp: Let_def dest: shaped_upd_file split: option.splits)
  then show ?thesis using assms by blast
qed

lemma shaped_rtc_interrupt: "rtc_handle_interrupt c s = Some t \<Longrightarrow> shaped s \<Longrightarrow> shaped t"
  by (auto simp: rtc_handle_interrupt_def Let_def dest: shaped_tick_loop split: if_splits)

section \<open>Processes\<close>

lemma length_strncpy: "strncpy d src n = Some d' \<Longrightarrow> length d' = length d"
proof -
  have c: "strncpy_copy d src n i = Some (d', j) \<Longrightarrow> length d' = length d" for d d' i j
  proof (induction d src n i arbitrary: d' j rule: strncpy_copy.induct)
    case (1 d src n i)
    from "1.prems" show ?case
      by (subst (asm) strncpy_copy.simps) (auto simp: store_def split: if_splits dest: "1.IH")
  qed
  have p: "strncpy_pad d n i = Some d' \<Longrightarrow> length d' = length d" for d d' i
  proof (induction d n i arbitrary: d' rule: strncpy_pad.induct)
    case (1 d n i)
    from "1.prems" show ?case
      by (subst (asm) strncpy_pad.simps) (auto simp: store_def split: if_splits dest: "1.IH")
  qed
  assume "strncpy d src n = Some d'"
  then obtain e i where "strncpy_copy d src n 0 = Some (e, i)" "strncpy_pad e n i = Some d'"
    by (auto simp: strncpy_def bind_eq_Some_conv split: option.splits)
  then show ?thesis using c p by metis
qed

lemma length_command_args: "command_args rest = Some args \<Longrightarrow> length args = MAX_ARGS_LEN + 1"
  by (auto simp: command_args_def bind_eq_Some_conv store_def dest!: length_strncpy split: if_splits)

lemma shaped_term_open:
  assumes "term_open s p = Some (t, r)" "shaped s"
  shows "shaped t"
proof (cases p)
  case (Some p)
  let ?s1 = "if parent (pcbs s p) = None
    then upd_term (Term (terminal_num s)) init_ctx (upd_pcb p (\<lambda>b. b\<lparr>term_ctx := Some (terminal_num s)\<rparr>) s) else s"
  let ?s2 = "?s1\<lparr>term_pids := (term_pids ?s1)[terminal_num s := sint (pid (pcbs ?s1 p))]\<rparr>"
  let ?s3 = "upd_pcb p (\<lambda>b. b\<lparr>file_array := (file_array b)[0 := term_file, 1 := term_file]\<rparr>) ?s2"
  have n: "terminal_num s < NUM_TERMS" using assms(2) by (simp add: shaped_def)
  have "shaped ?s1" using assms(2) n by (auto simp: pcb_shape_def intro!: shaped_upd_term shaped_upd_pcb simp del: upd_term.simps)
  then have "shaped ?s3" by (intro shaped_upd_pcb shaped_term_pids) (simp_all add: pcb_shape_def)
  then show ?thesis using assms(1) Some
    by (auto simp: term_open_def Let_def intro: shaped_set_screen simp del: upd_term.simps set_screen.simps split: if_splits option.splits)
qed (use assms in \<open>simp add: term_open_def\<close>)

lemma shaped_launch: "launch i d c k eip s = (t, out) \<Longrightarrow> shaped s \<Longrightarrow> shaped t"
  by (auto simp: launch_def Let_def pcb_shape_def intro!: shaped_push(1) shaped_upd_pcb split: if_splits)

lemma shaped_exit_paging: "shaped s \<Longrightarrow> shaped (exit_paging i d k s)"
  by (auto simp: exit_paging_def Let_def split: option.splits)

lemma shaped_first_free: "get_first_free_pid s = (t, k) \<Longrightarrow> shaped t = shaped s"
  by (auto simp: get_first_free_pid_def Let_def split: if_splits)

lemma shaped_spawn:
  assumes "spawn f d rest c s = Some (t, out)" "shaped s"
  shows "shaped t"
  using assms(1)
proof (cases rule: spawnE)
  case (full s1)
  then show ?thesis using shaped_first_free [OF full(1)] assms(2) by simp
next
  case (made s1 k par args s2 x m eip)
  have "shaped s1" using shaped_first_free [OF made(1)] assms(2) by simp
  then have "shaped (upd_pcb (nat k) (\<lambda>_. fresh_pcb k c par args) s1)"
    by (rule shaped_upd_pcb) (simp add: pcb_shape_def fresh_pcb_def zero_pcb_def length_command_args [OF made(3)])
  then have "shaped s2" using shaped_term_open [OF made(4)] by blast
  then show ?thesis using made(5) shaped_exit_paging shaped_launch [OF sym] by (cases eip) auto
qed

lemma shaped_exec: "sys_exec_internal f cmd c s = Some (t, out) \<Longrightarrow> shaped s \<Longrightarrow> shaped t"
  by (auto simp: sys_exec_internal_def bind_eq_Some_conv dest: shaped_spawn split: option.splits if_splits)

lemma shaped_close_files: "close_files p is s = Some t \<Longrightarrow> shaped s \<Longrightarrow> shaped t"
  by (induction p "is" s rule: close_files.induct) (auto dest: shaped_fops_close split: if_splits option.splits)

lemma shaped_halt:
  assumes "sys_halt_internal p status s = Some (t, out)" "shaped s"
  shows "shaped t"
proof -
  obtain q u where u: "close_files q [0..<MAX_FILES] (free_pid (pid (pcbs s q)) (s\<lparr>iflag := False, nprocs := nprocs s - 1\<rparr>)) = Some u"
    and h: "(case parent (pcbs (upd_pcb q (\<lambda>b. b\<lparr>state := state b OR EXIT_DEAD\<rparr>) u) q) of
        Some r \<Rightarrow> halt_child (iflag s) q r status (upd_pcb q (\<lambda>b. b\<lparr>state := state b OR EXIT_DEAD\<rparr>) u)
      | None \<Rightarrow> halt_root q (upd_pcb q (\<lambda>b. b\<lparr>state := state b OR EXIT_DEAD\<rparr>) u)) = Some (t, out)"
    using assms(1) by (auto simp: sys_halt_internal_def Let_def bind_eq_Some_conv split: option.splits)
  have "shaped u" using shaped_close_files [OF u] assms(2) by simp
  then have d: "shaped (upd_pcb q (\<lambda>b. b\<lparr>state := state b OR EXIT_DEAD\<rparr>) u)" by (rule shaped_upd_pcb) (simp add: pcb_shape_def)
  show ?thesis
    using h d by (auto simp: halt_child_def halt_root_def Let_def pcb_shape_def
        intro!: shaped_set_term_pid shaped_upd_pcb shaped_push(2) split: option.splits if_splits)
qed

section \<open>The scheduler\<close>

lemma shaped_leave_current: "shaped s \<Longrightarrow> shaped (leave_current regs s)"
  by (auto simp: leave_current_def Let_def pcb_shape_def intro!: shaped_upd_pcb shaped_push(2) split: option.splits)

lemma shaped_dispatch: "shaped s \<Longrightarrow> shaped (fst (dispatch w s))"
  by (auto simp: dispatch_def Let_def pcb_shape_def intro!: shaped_upd_pcb shaped_push(2) split: option.splits)

lemma shaped_rescue: "rescue f s = Some (t, w) \<Longrightarrow> shaped s \<Longrightarrow> shaped t"
  by (auto simp: rescue_def dest: shaped_exec split: option.splits outcome.splits)

lemma shaped_next_pass:
  assumes "next_pass f s = Some x" "shaped s"
  shows "shaped (fst x)"
proof -
  obtain s1 w where p: "pop_active (if active_empty s then swap_queues s else s) = (s1, w)" by fastforce
  have s1: "shaped s1" using shaped_push(3) [of "if active_empty s then swap_queues s else s"] shaped_push(4) [OF assms(2)] assms(2) p
    by (auto split: if_splits)
  then show ?thesis using assms(1) p shaped_dispatch shaped_rescue shaped_push(4)
    by (auto simp: next_pass_def Let_def split: option.splits if_splits)
qed

lemma shaped_next_process:
  assumes "next_process f s = Some y" "shaped s"
  shows "shaped (fst y)"
proof -
  have "shaped s \<longrightarrow> shaped (fst y)"
    by (rule next_process.raw_induct [OF _ assms(1)]) (auto simp: bind_eq_Some_conv dest: shaped_next_pass split: if_splits)
  then show ?thesis using assms by blast
qed

lemma shaped_scheduler: "scheduler f regs s = Some (t, out) \<Longrightarrow> shaped s \<Longrightarrow> shaped t"
  using shaped_next_process [of f "leave_current regs s" "(t, out)"]
  by (auto simp: scheduler_def context_switch_def shaped_leave_current split: if_splits)

lemma shaped_sys_sched:
  assumes "sys_sched hlt f regs s = Some (t, out)" "\<And>u. shaped u \<Longrightarrow> shaped (hlt u)" "shaped s"
  shows "shaped t"
proof (cases "nprocs s > 0 \<and> active_empty (s\<lparr>iflag := False\<rparr>) \<and> expired_empty (s\<lparr>iflag := False\<rparr>)")
  case True
  then show ?thesis using assms by (auto simp: sys_sched_def Let_def)
next
  case False
  then obtain u o' where u: "scheduler f regs (s\<lparr>iflag := False\<rparr>) = Some (u, o')"
    "(t, out) = (case o' of Returns _ \<Rightarrow> (u\<lparr>iflag := iflag s\<rparr>, Returns 0) | _ \<Rightarrow> (u, o'))"
    using assms(1) by (auto simp: sys_sched_def Let_def)
  then show ?thesis using shaped_scheduler [OF u(1)] assms(3) by (cases o') auto
qed

lemma shaped_timer: "pit_handle_interrupt f regs s = Some (t, out) \<Longrightarrow> shaped s \<Longrightarrow> shaped t"
  using shaped_scheduler by (fastforce simp: pit_handle_interrupt_def)

section \<open>Terminals and keys\<close>

lemma shaped_set_video: "shaped s \<Longrightarrow> shaped (set_video t v s)"
  by (simp add: set_video_def shaped_set_screen del: set_screen.simps)

lemma shaped_switch_to: "switch_to_fake_video_memory addr s p = Some (t, r) \<Longrightarrow> shaped s \<Longrightarrow> shaped t"
  by (auto simp: switch_to_fake_video_memory_def Let_def intro!: shaped_set_video split: option.splits)

lemma shaped_switch_from: "switch_from_fake_video_memory addr s p = Some (t, r) \<Longrightarrow> shaped s \<Longrightarrow> shaped t"
  by (auto simp: switch_from_fake_video_memory_def Let_def intro!: shaped_set_video split: option.splits prod.splits)

lemma shaped_spawn_terminal: "spawn_terminal f s = Some (t, r) \<Longrightarrow> shaped s \<Longrightarrow> shaped t"
  by (auto simp: spawn_terminal_def dest: shaped_exec intro!: shaped_on_screen(1) split: option.splits outcome.splits if_splits)

lemma shaped_terminal_num: "shaped s \<Longrightarrow> n < NUM_TERMS \<Longrightarrow> shaped (s\<lparr>terminal_num := n\<rparr>)"
  using queues_cong(1) [of "s\<lparr>terminal_num := n\<rparr>" s] by (simp add: shaped_def)

lemma shaped_switch_terminals:
  assumes "switch_terminals addr f n s = Some (t, r)" "shaped s"
  shows "shaped t"
proof (cases "n < 0 \<or> n > int NUM_TERMS \<or> n = int (terminal_num s)")
  case True
  then show ?thesis using assms by (auto simp: switch_terminals_def split: if_splits)
next
  case False
  then obtain u x where u: "switch_to_fake_video_memory addr s (get_pcb_from_pid (term_pids s ! terminal_num s)) = Some (u, x)"
    and n: "nat n < NUM_TERMS"
    using assms(1) by (auto simp: switch_terminals_def Let_def bind_eq_Some_conv split: if_splits)
  have "shaped (u\<lparr>terminal_num := nat n\<rparr>)" using shaped_switch_to [OF u assms(2)] n by (rule shaped_terminal_num)
  then show ?thesis using assms(1) u n False
    by (auto simp: switch_terminals_def Let_def dest: shaped_spawn_terminal shaped_switch_from split: if_splits)
qed

lemma shaped_push_key: "shaped s \<Longrightarrow> shaped (fst (push_key t c s))"
proof -
  assume "shaped s"
  then have "shaped (upd_term t (\<lambda>x. x\<lparr>key_buf := fst (CIRC_BUF_PUSH (key_buf (get_term s t)) c)\<rparr>) s)"
    by (rule shaped_upd_term_at) simp
  then show ?thesis by (simp add: push_key_def case_prod_beta del: upd_term.simps get_term.simps)
qed

lemma shaped_pop_tail_key: "shaped s \<Longrightarrow> shaped (pop_tail_key t s)"
  unfolding pop_tail_key_def by (rule shaped_upd_term) simp_all

lemma shaped_type_char: "type_char t c s = Some u \<Longrightarrow> shaped s \<Longrightarrow> shaped u"
  using shaped_push_key [of s t c]
  by (auto simp: type_char_def type_backspace_def intro!: shaped_on_screen(2) shaped_pop_tail_key shaped_push_key
      split: if_splits sum.splits option.splits prod.splits)

lemma shaped_press_key: "press_key t key s = Some u \<Longrightarrow> shaped s \<Longrightarrow> shaped u"
  by (auto simp: press_key_def term_shape_def dest: shaped_type_char intro!: shaped_upd_term split: if_splits simp del: upd_term.simps)

lemma shaped_release_key: "shaped s \<Longrightarrow> shaped (release_key t key s)"
  by (auto simp: release_key_def term_shape_def intro!: shaped_upd_term simp del: upd_term.simps)

lemma shaped_clear_terminal: "shaped s \<Longrightarrow> shaped (clear_terminal t s)"
  by (auto simp: clear_terminal_def Let_def intro!: shaped_push_key shaped_upd_term shaped_on_screen(1) simp del: upd_term.simps)

lemma shaped_key_ctx: "shaped s \<Longrightarrow> shaped (fst (key_ctx s))"
  by (simp add: key_ctx_def split: option.splits)

lemma shaped_sync_cursor [simp]: "shaped (sync_cursor t s) = shaped s"
  by (simp add: sync_cursor_def)

lemma shaped_kill: "kill_foreground s = Some (t, out) \<Longrightarrow> shaped s \<Longrightarrow> shaped t"
  by (auto simp: kill_foreground_def dest: shaped_halt split: if_splits)

lemma shaped_keypress:
  assumes "term_handle_keypress addr f key status s = Some (t, out)" "shaped s"
  shows "shaped t"
proof -
  obtain u r where k: "key_ctx s = (u, r)" by fastforce
  then have u: "shaped u" using shaped_key_ctx [OF assms(2)] by simp
  then show ?thesis using assms(1) k shaped_switch_terminals [of addr f _ "u\<lparr>iflag := False\<rparr>"]
    by (auto simp: term_handle_keypress_def Let_def shaped_clear_terminal shaped_release_key dest: shaped_kill shaped_press_key split: if_splits)
qed

section \<open>Interrupts\<close>

lemma shaped_kbd_actions: "kbd_actions addr f as s = Some (t, out) \<Longrightarrow> shaped s \<Longrightarrow> shaped t"
proof (induction addr f as s rule: kbd_actions.induct)
  case (3 addr f key status as s)
  then show ?case using shaped_keypress [of addr f key status s]
    by (auto split: option.splits outcome.splits prod.splits)
qed auto

lemma shaped_kbd: "handle_kbd addr f m = Some (m', out) \<Longrightarrow> shaped (kst m) \<Longrightarrow> shaped (kst m')"
  by (auto simp: handle_kbd_def Let_def bind_eq_Some_conv dest: shaped_kbd_actions split: outcome.splits) (metis outcome.exhaust)

lemma shaped_exception: "handle_exception name r cr2 s = Some (t, out) \<Longrightarrow> shaped s \<Longrightarrow> shaped t"
  by (auto simp: handle_exception_def Let_def bind_eq_Some_conv print_line_def print_bytes_def dest: shaped_halt split: if_splits option.splits)

abbreviation (input) after :: "isr_result \<Rightarrow> machine" where
  "after r \<equiv> (case r of Continue m _ \<Rightarrow> m | Stopped m \<Rightarrow> m)"

lemma shaped_isr: "isr_impl addr f cr2 regC regs m = Some r \<Longrightarrow> shaped (kst m) \<Longrightarrow> shaped (kst (after r))"
  by (auto simp: isr_impl_def Let_def handle_unhandled_def print_line_def print_bytes_def
      dest: shaped_timer shaped_kbd shaped_rtc_interrupt dest!: shaped_exception split: option.splits if_splits)

lemma shaped_vidmap: "sys_vidmap addr s a = Some (t, x) \<Longrightarrow> shaped s \<Longrightarrow> shaped t"
  by (auto simp: sys_vidmap_def Let_def pcb_shape_def intro!: shaped_upd_pcb split: if_splits option.splits)

section \<open>Runs of the kernel\<close>

text \<open>
  The steps a kernel state can take: a user program changes its registers, its memory or the text memory it has mapped,
  a system call is made, an interrupt or exception is taken. A call that gives up the processor goes on in a state that
  is again reached by such a run.
\<close>

inductive kernel_run :: "(pt_ref \<Rightarrow> u32) \<Rightarrow> fs \<Rightarrow> kstate \<Rightarrow> kstate \<Rightarrow> bool" for addr f where
  Start: "kernel_run addr f s s"
| User: "kernel_run addr f s t \<Longrightarrow> kernel_run addr f s (t\<lparr>user_mem := um, frames := fr, con := (con t)\<lparr>vmem := vm\<rparr>\<rparr>)"
| Exec: "kernel_run addr f s t \<Longrightarrow> sys_exec f cmd regs t = Some (u, out) \<Longrightarrow> kernel_run addr f s u"
| Halt: "kernel_run addr f s t \<Longrightarrow> sys_halt status t = Some (u, out) \<Longrightarrow> kernel_run addr f s u"
| Open: "kernel_run addr f s t \<Longrightarrow> sys_open f t name = Some (u, r) \<Longrightarrow> kernel_run addr f s u"
| Close: "kernel_run addr f s t \<Longrightarrow> sys_close t fd = Some (u, r) \<Longrightarrow> kernel_run addr f s u"
| Read: "kernel_run addr f s t \<Longrightarrow> \<forall>i v. kernel_run addr f v (sched i v) \<Longrightarrow> sys_read sched f t fd buf n = Some (u, r) \<Longrightarrow> kernel_run addr f s u"
| Write: "kernel_run addr f s t \<Longrightarrow> sys_write t fd bytes n = Some (u, r) \<Longrightarrow> kernel_run addr f s u"
| Vidmap: "kernel_run addr f s t \<Longrightarrow> sys_vidmap addr t a = Some (u, w) \<Longrightarrow> kernel_run addr f s u"
| Sched: "kernel_run addr f s t \<Longrightarrow> \<forall>v. kernel_run addr f v (hlt v) \<Longrightarrow> sys_sched hlt f regs t = Some (u, out) \<Longrightarrow> kernel_run addr f s u"
| Interrupt: "kernel_run addr f s (kst m) \<Longrightarrow> isr_impl addr f cr2 regC regs m = Some r \<Longrightarrow> kernel_run addr f s (kst (after r))"

lemma shaped_run: "kernel_run addr f s t \<Longrightarrow> shaped s \<Longrightarrow> shaped t"
proof (induction rule: kernel_run.induct)
  case (Read s t sched fd buf n u r)
  have "yields_shaped sched" using Read.IH(2) by (auto simp: yields_shaped_def)
  then show ?case using shaped_read Read by (metis prod.exhaust)
next
  case (Sched s t hlt regs u out)
  then show ?case using shaped_sys_sched [of hlt f regs t u out] by blast
qed (auto simp: sys_exec_def sys_halt_def split: option.splits
      dest: shaped_exec shaped_halt shaped_open shaped_close shaped_write shaped_vidmap shaped_isr)

section \<open>From the boot on\<close>

text \<open>The sizes of the kernel's arrays, which the declarations fix; what they hold is not looked at.\<close>

definition sized :: "kstate \<Rightarrow> bool" where
  "sized s \<longleftrightarrow> length (term_terms s) = NUM_TERMS \<and> (\<forall>x \<in> set (term_terms s). 2 \<le> SIZEOF_BUF (key_buf x)) \<and>
     2 \<le> SIZEOF_BUF (key_buf (term_global_ctx s)) \<and> length (term_pids s) = NUM_TERMS \<and> (\<forall>p. pcb_shape (pcbs s p)) \<and>
     SIZEOF_BUF (sched_queue_1 s) = MAX_PROCESSES + 1 \<and> SIZEOF_BUF (sched_queue_2 s) = MAX_PROCESSES + 1"

lemma sized_other [simp]:
  "sized (s\<lparr>con := c\<rparr>) = sized s" "sized (s\<lparr>io := es\<rparr>) = sized s" "sized (s\<lparr>pg := g\<rparr>) = sized s" "sized (s\<lparr>open_rtcs := r\<rparr>) = sized s"
  "sized (do_io es s) = sized s" "sized (set_tss w s) = sized s" "sized (rtc_init x y z s) = sized s"
  by (simp_all add: sized_def do_io_def set_tss_def rtc_init_def rtc_modify_freq_def Let_def)

lemma term_shape_init: "2 \<le> SIZEOF_BUF (key_buf x) \<Longrightarrow> term_shape (init_ctx x)"
  by (auto simp: term_shape_def init_ctx_def circ_inv_def CIRC_BUF_INIT_def SIZEOF_BUF_def circ_count_def circ_cap_def BUF_PTR_DIFF_def)

lemma shaped_init:
  assumes "sized s"
  shows "shaped (init_sched ((fst (term_init_global_ctx s))\<lparr>con := c\<rparr>))"
proof -
  obtain a0 a1 a2 a3 where a: "term_terms s = [a0, a1, a2, a3]" using assms by (auto simp: sized_def length_Suc_conv numeral_eq_Suc)
  obtain p0 p1 p2 p3 where p: "term_pids s = [p0, p1, p2, p3]" using assms by (auto simp: sized_def length_Suc_conv numeral_eq_Suc)
  have u: "[0..<4] = [0, Suc 0, 2, 3]" by (simp add: upt_rec numeral_eq_Suc)
  show ?thesis
    using assms init_queue [of "sched_queue_1 s"] init_queue [of "sched_queue_2 s"]
    by (auto simp: term_init_global_ctx_def init_term_def u a p shaped_def sized_def Let_def init_sched_def sched_inv_def
        active_queue_def expired_queue_def intro!: term_shape_init)
qed

lemma run_take_irq: "take_irq e f q m = Some r \<Longrightarrow> kernel_run (table_addr e) f (kst m) (kst (after r))"
proof -
  let ?s = "(kst m)\<lparr>frames := (frames (kst m))(irq_addr q := irq_frame q)\<rparr>"
  assume t: "take_irq e f q m = Some r"
  have "kernel_run (table_addr e) f (kst m) ?s"
    using User [OF Start, where addr = "table_addr e" and f = f and s = "kst m" and um = "user_mem (kst m)" and fr = "frames ?s" and vm = "vmem (con (kst m))"] by simp
  then show ?thesis using Interrupt [of "table_addr e" f "kst m" "m\<lparr>kst := ?s\<rparr>"] t by (simp add: take_irq_def)
qed

lemma shaped_take_irq:
  "take_irq e f q m = Some (Continue m' out) \<Longrightarrow> shaped (kst m) \<Longrightarrow> shaped (kst m')"
  "take_irq e f q m = Some (Stopped m') \<Longrightarrow> shaped (kst m) \<Longrightarrow> shaped (kst m')"
  by (auto simp: take_irq_def dest: shaped_isr)

lemma shaped_kbd_wait: "kbd_wait e f qs m = Some (m', ps, r) \<Longrightarrow> shaped (kst m) \<Longrightarrow> shaped (kst m')"
  by (induction e f qs m rule: kbd_wait.induct)
    (auto dest: shaped_take_irq split: if_splits option.splits isr_result.splits outcome.splits)

lemma shaped_sleep: "sleep_loop e f ms i qs m = Some (m', ps, r) \<Longrightarrow> shaped (kst m) \<Longrightarrow> shaped (kst m')"
proof (induction qs arbitrary: i m)
  case Nil
  then show ?case by (subst (asm) sleep_loop.simps) (auto simp: Let_def split: if_splits)
next
  case (Cons q qs)
  define m1 where "m1 = (if i mod 1000 = 0 then m\<lparr>kst := (kst m)\<lparr>con := fst (puts (con (kst m)) (chars ''.'' @ [0]))\<rparr>\<rparr> else m)"
  have "shaped (kst m1)" using Cons.prems(2) by (simp add: m1_def)
  moreover have "if i < ms then (case take_irq e f q m1 of None \<Rightarrow> None
      | Some (Continue m' (Returns _)) \<Rightarrow> sleep_loop e f ms (i + 1) qs m'
      | Some (Continue m' out) \<Rightarrow> Some (m', qs, Some (Leaves out))
      | Some (Stopped m') \<Rightarrow> Some (m', qs, Some Stops)) = Some (m', ps, r) else m' = m"
    using Cons.prems(1) by (subst (asm) sleep_loop.simps) (auto simp: m1_def Let_def)
  ultimately show ?case using Cons.prems(2) Cons.IH
    by (auto dest: shaped_take_irq split: if_splits option.splits isr_result.splits outcome.splits)
qed

lemma shaped_run_first:
  assumes "run_first e b = Some (b', r)" "shaped (kst (mach b))"
  shows "shaped (kst (mach b'))"
  using assms
  by (auto simp: run_first_def sleep_def Let_def bind_eq_Some_conv dest!: shaped_kbd_wait shaped_sleep dest: shaped_exec split: option.splits)

lemma sized_prints [simp]: "sized (kst (mach (fold put_line ts b))) = sized (kst (mach b))" "sized (kst (mach (clear_screen b))) = sized (kst (mach b))"
  by (induction ts arbitrary: b) (simp_all add: clear_screen_def)

lemma sized_init_devices: "init_devices e b = Some b' \<Longrightarrow> sized (kst (mach b)) \<Longrightarrow> sized (kst (mach b'))"
  by (auto simp: init_devices_def Let_def init_kbd_def bind_eq_Some_conv with_message_def init_pit_def init_rtc_def split: prod.splits)

lemma shaped_init_kernel: "sized (kst (mach b)) \<Longrightarrow> shaped (kst (mach (init_kernel e b)))"
  by (simp add: init_kernel_def with_message_def Let_def shaped_init)

lemma shaped_entry:
  assumes "entry e mem magic addr b = Some (b', r)" "sized (kst (mach b))" "r \<noteq> Returned"
  shows "shaped (kst (mach b'))"
proof -
  obtain t u b1 b2 where 1: "init_devices e (set_segments e (on_kernel (print_bytes u) (on_kernel (print_bytes t) (clear_screen b)))) = Some b1"
    and 2: "init_fs (image_of mem (info_at mem addr)) (put_text ''    Initializing File System... '' b1) = Some b2"
    and 3: "run_first e (init_kernel e b2) = Some (b', r)"
    using assms(1,3) by (auto simp: entry_def Let_def bind_eq_Some_conv split: if_splits)
  have "sized (kst (mach b1))" using sized_init_devices [OF 1] assms(2) by (simp add: print_bytes_def)
  then have "sized (kst (mach b2))" using 2 by (auto simp: init_fs_def bind_eq_Some_conv split: option.splits)
  then show ?thesis using shaped_run_first [OF 3] shaped_init_kernel by blast
qed

section \<open>Properties\<close>



end
