(* ===== verification/User_Support.thy ===== *)
theory User_Support
  imports Lib_String
begin

text \<open>
  \<^verbatim>\<open>syscalls/ece391support.c\<close> (the first half also as \<^verbatim>\<open>fish/ece391support.c\<close>): the string functions linked
  into every user program. A pointer that is advanced is the list of bytes from it to the end of its
  object, and reading past that end is \<open>None\<close>. The lemmas relate the functions to the C strings they read
  and to the functions of the kernel library.
\<close>

section \<open>Definitions\<close>

fun ece391_strlen_loop :: "u8 list \<Rightarrow> u32 \<Rightarrow> u32 option" where
  "ece391_strlen_loop [] len = None"
| "ece391_strlen_loop (c # s) len = (if c \<noteq> 0 then ece391_strlen_loop s (len + 1) else Some len)"

definition ece391_strlen :: "u8 list \<Rightarrow> u32 option" where
  "ece391_strlen s = ece391_strlen_loop s 0"

text \<open>Source and destination of \<open>ece391_strcpy\<close> are offsets in one object, since a caller copies inside an array.\<close>

function ece391_strcpy :: "u8 list \<Rightarrow> nat \<Rightarrow> nat \<Rightarrow> u8 list option" where
  "ece391_strcpy m dst src =
     (if src < length m \<and> dst < length m then
        if m ! src \<noteq> 0 then ece391_strcpy (m[dst := m ! src]) (dst + 1) (src + 1)
        else Some (m[dst := 0])
      else None)"
  by pat_completeness auto
termination by (relation "measure (\<lambda>(m, dst, src). length m - src)") auto

fun ece391_strcmp :: "u8 list \<Rightarrow> u8 list \<Rightarrow> int option" where
  "ece391_strcmp (c1 # s1) (c2 # s2) =
     (if c1 = c2 then if c1 = 0 then Some 0 else ece391_strcmp s1 s2
      else Some (uint c1 - uint c2))"
| "ece391_strcmp _ _ = None"

fun ece391_strncmp_loop :: "u8 list \<Rightarrow> u8 list \<Rightarrow> u32 \<Rightarrow> int option" where
  "ece391_strncmp_loop (c1 # s1) (c2 # s2) n =
     (if c1 = c2 then if c1 = 0 \<or> n - 1 = 0 then Some 0 else ece391_strncmp_loop s1 s2 (n - 1)
      else Some (uint c1 - uint c2))"
| "ece391_strncmp_loop _ _ n = None"

definition ece391_strncmp :: "u8 list \<Rightarrow> u8 list \<Rightarrow> u32 \<Rightarrow> int option" where
  "ece391_strncmp s1 s2 n = (if n = 0 then Some 0 else ece391_strncmp_loop s1 s2 n)"

text \<open>The loops of \<open>ece391_strrev\<close> and \<open>ece391_itoa\<close> are those of the kernel library.\<close>

definition ece391_strrev :: "u8 list \<Rightarrow> u8 list option" where
  "ece391_strrev s =
     (case ece391_strlen s of None \<Rightarrow> None
      | Some n \<Rightarrow> if sint (n - 1) \<le> 0 then Some s else Some (strrev_loop s 0 (sint (n - 1))))"

definition ece391_itoa :: "u32 \<Rightarrow> u8 list \<Rightarrow> u32 \<Rightarrow> u8 list option" where
  "ece391_itoa val buf radix =
     (if val = 0 then
        (case store buf 0 (of_char (CHR ''0'')) of None \<Rightarrow> None | Some buf' \<Rightarrow> store buf' 1 0)
      else
        (case itoa_loop (unat radix) (unat val) buf 0 of
           None \<Rightarrow> None
         | Some (buf', newbuf) \<Rightarrow>
             (case store buf' newbuf 0 of None \<Rightarrow> None | Some buf'' \<Rightarrow> ece391_strrev buf'')))"

declare ece391_strcpy.simps [simp del]

section \<open>Lengths and comparisons\<close>

lemma ece391_strlen_loop_eq:
  "ece391_strlen_loop s len = (if 0 \<in> set s then Some (len + of_nat (length (cstr s))) else None)"
  by (induction s len rule: ece391_strlen_loop.induct) (auto simp: cstr_def ac_simps)

lemma ece391_strlen_eq: "ece391_strlen s = (if 0 \<in> set s then Some (of_nat (length (cstr s))) else None)"
  by (simp add: ece391_strlen_def ece391_strlen_loop_eq)

lemma ece391_strlen_strlen: "ece391_strlen s = map_option of_nat (strlen s)"
  by (simp add: ece391_strlen_eq strlen_eq)

lemma cstr_Cons [simp]: "cstr (c # s) = (if c = 0 then [] else c # cstr s)"
  by (simp add: cstr_def)

lemma cstr_Nil [simp]: "cstr [] = []"
  by (simp add: cstr_def)

lemma ece391_strcmp_eq:
  assumes "0 \<in> set s1" "0 \<in> set s2"
  shows "\<exists>r. ece391_strcmp s1 s2 = Some r \<and> (r = 0 \<longleftrightarrow> cstr s1 = cstr s2) \<and> (r < 0 \<longleftrightarrow> ord_class.lexordp (cstr s1) (cstr s2))"
  using assms
proof (induction s1 s2 rule: ece391_strcmp.induct)
  case (1 c1 s1 c2 s2)
  have u: "uint c1 < uint c2 \<longleftrightarrow> c1 < c2" "uint c1 = uint c2 \<longleftrightarrow> c1 = c2" by (simp_all add: word_less_def word_uint_eq_iff)
  have z: "c1 < 0 \<longleftrightarrow> False" "0 < c2 \<longleftrightarrow> c2 \<noteq> 0" by (simp_all add: word_greater_zero_iff)
  show ?case using 1 u z by (auto simp: not_less_iff_gr_or_eq)
qed auto

lemma ece391_strncmp_loop_eq:
  assumes "readable s1 (unat n)" "readable s2 (unat n)" "n \<noteq> 0"
  shows "\<exists>r. ece391_strncmp_loop s1 s2 n = Some r \<and> (r = 0 \<longleftrightarrow> take (unat n) (cstr s1) = take (unat n) (cstr s2))"
  using assms
proof (induction s1 s2 n rule: ece391_strncmp_loop.induct)
  case (1 c1 s1 c2 s2 n)
  obtain k where k: "unat n = Suc k" using 1(4) by (cases "unat n") (simp_all add: unat_eq_0)
  then have k1: "unat (n - 1) = k" "n - 1 = 0 \<longleftrightarrow> k = 0" using 1(4) by (simp_all add: unat_minus_one unat_eq_0 [symmetric])
  have u: "uint c1 = uint c2 \<longleftrightarrow> c1 = c2" by (simp add: word_uint_eq_iff)
  show ?case
  proof (cases "c1 = c2 \<and> c1 \<noteq> 0 \<and> k \<noteq> 0")
    case True
    then have "readable s1 (unat (n - 1))" "readable s2 (unat (n - 1))" using 1(2,3) by (auto simp: readable_def k k1)
    with 1(1) True k1 show ?thesis by (auto simp: k)
  next
    case False
    then show ?thesis using k1 u by (auto simp: k)
  qed
qed (auto simp: readable_def unat_eq_0)

lemma ece391_strncmp_eq:
  assumes "readable s1 (unat n)" "readable s2 (unat n)"
  shows "\<exists>r. ece391_strncmp s1 s2 n = Some r \<and> (r = 0 \<longleftrightarrow> take (unat n) (cstr s1) = take (unat n) (cstr s2))"
  using ece391_strncmp_loop_eq [OF assms] by (cases "n = 0") (simp_all add: ece391_strncmp_def)

section \<open>Copying and conversion\<close>

lemma ece391_strcpy_down:
  assumes "dst \<le> src" "src < length m" "0 \<in> set (drop src m)"
  shows "ece391_strcpy m dst src =
    Some (take dst m @ cstr (drop src m) @ 0 # drop (Suc (dst + length (cstr (drop src m)))) m)"
  using assms
proof (induction m dst src rule: ece391_strcpy.induct)
  case (1 m dst src)
  have d: "drop src m = m ! src # drop (Suc src) m" using 1(3) by (simp add: Cons_nth_drop_Suc)
  show ?case
  proof (cases "m ! src = 0")
    case True
    then show ?thesis using 1 d by (subst ece391_strcpy.simps) (simp add: upd_conv_take_nth_drop)
  next
    case False
    let ?m = "m[dst := m ! src]"
    have z: "0 \<in> set (drop (Suc src) m)" using 1(4) d False by simp
    then have l: "Suc src < length m" by (metis drop_all empty_iff list.set(1) not_less)
    have "drop (Suc src) ?m = drop (Suc src) m" using 1(2) by simp
    moreover have "take (Suc dst) ?m = take dst m @ [m ! src]" using 1(2,3) by (simp add: take_Suc_conv_app_nth)
    ultimately have "ece391_strcpy ?m (dst + 1) (src + 1) =
        Some ((take dst m @ [m ! src]) @ cstr (drop (Suc src) m) @ 0 # drop (Suc (Suc dst + length (cstr (drop (Suc src) m)))) m)"
      using 1(1) 1(2,3) False z l by simp
    then show ?thesis using 1(2,3) False d by (subst ece391_strcpy.simps) simp
  qed
qed

lemma ece391_strrev_strrev:
  assumes "length s < 2 ^ 31"
  shows "ece391_strrev s = strrev s"
proof (cases "0 \<in> set s")
  case True
  let ?n = "length (cstr s)"
  have n: "?n < 2 ^ 31" using assms cstr_length_le [of s] by linarith
  show ?thesis
  proof (cases "?n = 0")
    case True
    then show ?thesis using \<open>0 \<in> set s\<close>
      by (simp add: ece391_strrev_def strrev_def ece391_strlen_eq strlen_eq strrev_loop.simps)
  next
    case False
    then obtain k where k: "?n = Suc k" by (cases ?n) auto
    then have u: "(of_nat ?n :: u32) - 1 = of_nat k" by simp
    have "sint (of_nat k :: u32) = int k" using n k by (simp add: sint_small unat_of_nat_u32)
    with u k show ?thesis using \<open>0 \<in> set s\<close>
      by (auto simp: ece391_strrev_def strrev_def ece391_strlen_eq strlen_eq strrev_loop.simps)
  qed
qed (simp add: ece391_strrev_def strrev_def ece391_strlen_eq strlen_eq)

lemma itoa_loop_length: "itoa_loop radix newval buf i = Some (buf', j) \<Longrightarrow> length buf' = length buf"
  by (induction radix newval buf i rule: itoa_loop.induct)
     (subst (asm) (2) itoa_loop.simps, auto simp: store_def split: if_splits option.splits)

lemma ece391_itoa_itoa:
  assumes "length buf < 2 ^ 31"
  shows "ece391_itoa val buf radix = itoa val buf radix"
proof -
  have "ece391_strrev b'' = strrev b''"
    if "itoa_loop (unat radix) (unat val) buf 0 = Some (b', j)" "store b' j 0 = Some b''" for b' j b''
    using that assms itoa_loop_length [OF that(1)] by (intro ece391_strrev_strrev) (auto simp: store_def split: if_splits)
  then show ?thesis by (auto simp: ece391_itoa_def itoa_def split: option.splits)
qed

section \<open>Properties\<close>

text \<open>
  \<open>ece391_strcmp\<close> returns for any two terminated strings, with 0 exactly when they are equal and a negative
  number exactly when the first comes before the second in the lexicographic order of unsigned bytes.\<close>

theorem ece391_strcmp_orders:
  assumes "0 \<in> set s1" "0 \<in> set s2"
  shows "\<exists>r. ece391_strcmp s1 s2 = Some r \<and> (r = 0 \<longleftrightarrow> cstr s1 = cstr s2) \<and> (r < 0 \<longleftrightarrow> ord_class.lexordp (cstr s1) (cstr s2))"
  using assms by (rule ece391_strcmp_eq)

theorem ece391_strcmp_orders_witness:
  "\<exists>r. ece391_strcmp (chars ''cat'' @ [0]) (chars ''ls'' @ [0]) = Some r \<and> r < 0"
  using ece391_strcmp_orders [of "chars ''cat'' @ [0]" "chars ''ls'' @ [0]"] by (simp add: chars_def)

text \<open>
  \<open>ece391_strcpy\<close> inside one array, from a higher to a lower offset: the string arrives whole although the two
  ranges may overlap, is terminated, and no byte outside the destination changes.\<close>

theorem ece391_strcpy_moves_down:
  assumes "dst \<le> src" "src < length m" "0 \<in> set (drop src m)"
  shows "ece391_strcpy m dst src =
    Some (take dst m @ cstr (drop src m) @ 0 # drop (Suc (dst + length (cstr (drop src m)))) m)"
  using assms by (rule ece391_strcpy_down)

theorem ece391_strcpy_moves_down_witness:
  "ece391_strcpy [1, 2, 3, 4, 5, 0, 7] 0 2 = Some [3, 4, 5, 0, 5, 0, 7]"
  using ece391_strcpy_moves_down [of 0 2 "[1, 2, 3, 4, 5, 0, 7]"] by simp

end
