(* ===== verification/User_Programs.thy ===== *)
theory User_Programs
  imports User_Support Syscalls
begin

text \<open>
  The user programs of \<^verbatim>\<open>syscalls\<close> over an interface of system calls, the record \<open>user_os\<close>: a program is
  a function on the state behind the interface. The theory instantiates it with the kernel's calls and
  proves what the programs do there. An uninitialised local array is an argument, of which only the
  length is known. \<open>None\<close> is an access outside an array, a call with undefined behaviour in the kernel, or
  a program that does not end.
\<close>

section \<open>The interface\<close>

record 's user_os =
  sc_read :: "'s \<Rightarrow> int \<Rightarrow> u8 list \<Rightarrow> int \<Rightarrow> ('s \<times> u8 list \<times> int) option"
  sc_write :: "'s \<Rightarrow> int \<Rightarrow> u8 list \<Rightarrow> int \<Rightarrow> ('s \<times> int) option"
  sc_open :: "'s \<Rightarrow> u8 list \<Rightarrow> ('s \<times> int) option"
  sc_close :: "'s \<Rightarrow> int \<Rightarrow> ('s \<times> int) option"
  sc_getargs :: "'s \<Rightarrow> u8 list \<Rightarrow> int \<Rightarrow> ('s \<times> u8 list \<times> int) option"
  sc_vidmap :: "'s \<Rightarrow> u32 \<Rightarrow> ('s \<times> int) option"
  sc_execute :: "'s \<Rightarrow> u8 list \<Rightarrow> ('s \<times> int) option"
  sc_call :: "'s \<Rightarrow> int \<Rightarrow> ('s \<times> int) option"

definition lit :: "string \<Rightarrow> u8 list" where
  "lit s = chars s @ [0]"

abbreviation (input) line_of :: "string \<Rightarrow> u8 list" where
  "line_of s \<equiv> lit (s @ [CHR 0x0A])"

definition ece391_fdputs :: "'s user_os \<Rightarrow> 's \<Rightarrow> int \<Rightarrow> u8 list \<Rightarrow> 's option" where
  "ece391_fdputs os s fd str = do {
     n \<leftarrow> ece391_strlen str;
     (s, _) \<leftarrow> sc_write os s fd str (sint n);
     Some s }"

text \<open>\<open>return ret\<close> after printing a message.\<close>

definition fail_with :: "'s user_os \<Rightarrow> 's \<Rightarrow> u8 list \<Rightarrow> int \<Rightarrow> ('s \<times> int) option" where
  "fail_with os s str ret = map_option (\<lambda>s. (s, ret)) (ece391_fdputs os s 1 str)"

section \<open>Programs that copy\<close>

partial_function (option) cat_loop :: "'s user_os \<Rightarrow> int \<Rightarrow> u8 list \<Rightarrow> 's \<Rightarrow> ('s \<times> int) option" where
  "cat_loop os fd buf s =
     Option.bind (sc_read os s fd buf 1024) (\<lambda>r.
       if snd (snd r) = 0 then Some (fst r, 0)
       else if snd (snd r) = -1 then fail_with os (fst r) (line_of ''file read failed'') 3
       else Option.bind (sc_write os (fst r) 1 (fst (snd r)) (snd (snd r))) (\<lambda>w.
         if snd w = -1 then Some (fst w, 3) else cat_loop os fd (fst (snd r)) (fst w)))"

definition cat_main :: "'s user_os \<Rightarrow> u8 list \<Rightarrow> 's \<Rightarrow> ('s \<times> int) option" where
  "cat_main os buf s = do {
     (s, buf, ret) \<leftarrow> sc_getargs os s buf 1024;
     if ret \<noteq> 0 then fail_with os s (line_of ''could not read arguments'') 3
     else do {
       (s, fd) \<leftarrow> sc_open os s buf;
       if fd = -1 then fail_with os s (line_of ''file not found'') 2
       else cat_loop os fd buf s } }"

text \<open>\<open>buf[cnt] = '\n'\<close> is checked against the size of the array.\<close>

partial_function (option) ls_loop :: "'s user_os \<Rightarrow> int \<Rightarrow> u8 list \<Rightarrow> 's \<Rightarrow> ('s \<times> int) option" where
  "ls_loop os fd buf s =
     Option.bind (sc_read os s fd buf 32) (\<lambda>r.
       if snd (snd r) = 0 then Some (fst r, 0)
       else if snd (snd r) = -1 then fail_with os (fst r) (line_of ''directory entry read failed'') 3
       else Option.bind (if snd (snd r) < 0 then None else store (fst (snd r)) (nat (snd (snd r))) 10) (\<lambda>buf.
         Option.bind (sc_write os (fst r) 1 buf (snd (snd r) + 1)) (\<lambda>w.
           if snd w = -1 then Some (fst w, 3) else ls_loop os fd buf (fst w))))"

definition ls_main :: "'s user_os \<Rightarrow> u8 list \<Rightarrow> 's \<Rightarrow> ('s \<times> int) option" where
  "ls_main os buf s = do {
     (s, fd) \<leftarrow> sc_open os s (lit ''.'');
     if fd = -1 then fail_with os s (line_of ''directory open failed'') 2
     else ls_loop os fd buf s }"

text \<open>
  A standard output that collects what is written; \<open>kept\<close> is what writing leaves alone.
\<close>

locale printer =
  fixes os :: "'s user_os" and inv :: "'s \<Rightarrow> bool" and kept :: "'s \<Rightarrow> 'k"
    and out :: "'s \<Rightarrow> 'g" and emit :: "u8 list \<Rightarrow> 'g \<Rightarrow> 'g" and printable :: "u8 list \<Rightarrow> bool"
  assumes write_out: "\<lbrakk>inv s; n \<le> length buf; printable (take n buf)\<rbrakk> \<Longrightarrow>
      \<exists>s'. sc_write os s 1 buf (int n) = Some (s', int n) \<and> inv s' \<and> kept s' = kept s \<and> out s' = emit (take n buf) (out s)"
    and emit_append: "emit (xs @ ys) g = emit ys (emit xs g)" and emit_Nil: "emit [] g = g"
    and printable_append: "printable (xs @ ys) \<longleftrightarrow> printable xs \<and> printable ys"
    and printable_ascii: "\<forall>c \<in> set xs. c = 10 \<or> 32 \<le> c \<Longrightarrow> printable xs"
begin

lemma fdputs:
  assumes "inv s" "0 \<in> set str" "length str < 2 ^ 31" "printable (cstr str)"
  shows "\<exists>s'. ece391_fdputs os s 1 str = Some s' \<and> inv s' \<and> kept s' = kept s \<and> out s' = emit (cstr str) (out s)"
proof -
  let ?n = "length (cstr str)"
  have n: "?n < 2 ^ 31" "?n \<le> length str" using assms(3) cstr_length_le [of str] by linarith+
  then have "sint (of_nat ?n :: u32) = int ?n" by (simp add: sint_small unat_of_nat_u32)
  moreover have "take ?n str = cstr str" unfolding cstr_def by (rule takeWhile_eq_take [symmetric])
  ultimately show ?thesis
    using write_out [OF assms(1) n(2)] assms(2,4) by (auto simp: ece391_fdputs_def ece391_strlen_eq)
qed

lemma fdputs_lit:
  assumes "inv s" "\<forall>c \<in> set (chars str). c = 10 \<or> 32 \<le> c" "length str < 2 ^ 30"
  shows "\<exists>s'. ece391_fdputs os s 1 (lit str) = Some s' \<and> inv s' \<and> kept s' = kept s \<and> out s' = emit (chars str) (out s)"
proof -
  have "0 \<notin> set (chars str)" using assms(2) by auto
  then have c: "cstr (lit str) = chars str" by (simp add: lit_def)
  then show ?thesis
    using fdputs [OF assms(1), of "lit str"] printable_ascii [OF assms(2)] assms(3) by (simp add: lit_def chars_def)
qed

lemma fail_with_lit:
  assumes "inv s" "\<forall>c \<in> set (chars str). c = 10 \<or> 32 \<le> c" "length str < 2 ^ 30"
  shows "\<exists>s'. fail_with os s (lit str) ret = Some (s', ret) \<and> inv s' \<and> kept s' = kept s \<and> out s' = emit (chars str) (out s)"
  using fdputs_lit [OF assms] by (auto simp: fail_with_def)

end

text \<open>
  A descriptor that delivers a sequence of pieces. \<open>size\<close> is the count the program passes to \<open>read\<close>.
\<close>

locale piece_reader = printer os inv pending out emit printable
  for os :: "'s user_os" and inv :: "'s \<Rightarrow> bool" and pending :: "'s \<Rightarrow> u8 list list" and out :: "'s \<Rightarrow> 'g"
    and emit :: "u8 list \<Rightarrow> 'g \<Rightarrow> 'g" and printable :: "u8 list \<Rightarrow> bool" +
  fixes fd :: int and size :: nat
  assumes read_piece: "\<lbrakk>inv s; pending s = c # cs; size \<le> length buf\<rbrakk> \<Longrightarrow>
      \<exists>s' buf'. sc_read os s fd buf (int size) = Some (s', buf', int (length c)) \<and> take (length c) buf' = c \<and>
        length buf' = length buf \<and> inv s' \<and> pending s' = cs \<and> out s' = out s"
    and read_end: "\<lbrakk>inv s; pending s = []; size \<le> length buf\<rbrakk> \<Longrightarrow>
      \<exists>s' buf'. sc_read os s fd buf (int size) = Some (s', buf', 0) \<and> inv s' \<and> out s' = out s"
    and pieces: "\<lbrakk>inv s; c \<in> set (pending s)\<rbrakk> \<Longrightarrow> c \<noteq> [] \<and> length c \<le> size"
begin

lemma cat_loop_copies:
  assumes "size = 1024" "inv s" "size \<le> length buf" "\<forall>c \<in> set (pending s). printable c"
  shows "\<exists>s'. cat_loop os fd buf s = Some (s', 0) \<and> inv s' \<and> out s' = fold emit (pending s) (out s)"
  using assms(2-)
proof (induction "pending s" arbitrary: s buf)
  case Nil
  then show ?case using read_end [of s buf] assms(1) by (subst cat_loop.simps) auto
next
  case (Cons c cs)
  note p = Cons.hyps(2) [symmetric]
  obtain s1 buf1 where r: "sc_read os s fd buf (int size) = Some (s1, buf1, int (length c))" "take (length c) buf1 = c"
    "length buf1 = length buf" "inv s1" "pending s1 = cs" "out s1 = out s"
    using read_piece [OF Cons.prems(1) p Cons.prems(2)] by blast
  have c: "c \<noteq> []" "length c \<le> length buf1" "printable c"
    using pieces [OF Cons.prems(1), of c] Cons.prems r(3) by (auto simp: p)
  obtain s2 where w: "sc_write os s1 1 buf1 (int (length c)) = Some (s2, int (length c))" "inv s2" "pending s2 = cs"
    "out s2 = emit c (out s)"
    using write_out [OF r(4) c(2)] r c(3) by auto
  obtain s' where "cat_loop os fd buf1 s2 = Some (s', 0)" "inv s'" "out s' = fold emit cs (out s2)"
    using Cons.hyps(1) [OF w(3) [symmetric] w(2), of buf1] r(3) w(3) Cons.prems(2,3) by (simp add: p) blast
  then show ?case
    using r(1) w(1,4) c(1) assms(1) by (subst cat_loop.simps) (auto simp: p)
qed

lemma ls_loop_lists:
  assumes "size = 32" "inv s" "size < length buf" "\<forall>c \<in> set (pending s). printable (c @ [10])"
  shows "\<exists>s'. ls_loop os fd buf s = Some (s', 0) \<and> inv s' \<and> out s' = fold (\<lambda>c. emit (c @ [10])) (pending s) (out s)"
  using assms(2-)
proof (induction "pending s" arbitrary: s buf)
  case Nil
  then show ?case using read_end [of s buf] assms(1) by (subst ls_loop.simps) auto
next
  case (Cons c cs)
  note p = Cons.hyps(2) [symmetric]
  obtain s1 buf1 where r: "sc_read os s fd buf (int size) = Some (s1, buf1, int (length c))" "take (length c) buf1 = c"
    "length buf1 = length buf" "inv s1" "pending s1 = cs" "out s1 = out s"
    using read_piece [OF Cons.prems(1) p] Cons.prems(2) by (meson less_imp_le)
  let ?b = "buf1[length c := 10]"
  have c: "c \<noteq> []" "length c < length buf1" "printable (c @ [10])"
    using pieces [OF Cons.prems(1), of c] Cons.prems r(3) by (auto simp: p)
  then have b: "store buf1 (length c) 10 = Some ?b" "take (Suc (length c)) ?b = c @ [10]"
    using r(2) by (simp_all add: take_Suc_conv_app_nth)
  obtain s2 where w: "sc_write os s1 1 ?b (int (Suc (length c))) = Some (s2, int (Suc (length c)))" "inv s2" "pending s2 = cs"
    "out s2 = emit (c @ [10]) (out s)"
    using write_out [OF r(4), of "Suc (length c)" ?b] r c b by auto
  obtain s' where "ls_loop os fd ?b s2 = Some (s', 0)" "inv s'" "out s' = fold (\<lambda>c. emit (c @ [10])) cs (out s2)"
    using Cons.hyps(1) [OF w(3) [symmetric] w(2), of ?b] r(3) w(3) Cons.prems(2,3) by (simp add: p) blast
  moreover have "sc_write os s1 1 ?b (int (length c) + 1) = Some (s2, int (length c) + 1)" using w(1) by (simp add: add.commute)
  moreover have "sc_read os s fd buf 32 = Some (s1, buf1, int (length c))" using r(1) assms(1) by simp
  ultimately show ?case using w(4) c(1) b(1) by (subst ls_loop.simps) (simp add: p)
qed

end

section \<open>Programs that talk\<close>

definition testprint_main :: "'s user_os \<Rightarrow> 's \<Rightarrow> ('s \<times> int) option" where
  "testprint_main os s = fail_with os s (line_of ''Hello, if this ran, the program was correct. Yay!'') 0"

text \<open>\<open>buf[cnt] = '\0'\<close>; a negative count other than -1 would store before the array.\<close>

definition terminate_at :: "u8 list \<Rightarrow> int \<Rightarrow> u8 list option" where
  "terminate_at buf cnt = (if cnt < 0 then None else store buf (nat cnt) 0)"

definition hello_main :: "'s user_os \<Rightarrow> u8 list \<Rightarrow> 's \<Rightarrow> ('s \<times> int) option" where
  "hello_main os buf s = do {
     s \<leftarrow> ece391_fdputs os s 1 (lit (''Hi, what'' @ [CHR 0x27] @ ''s your name? ''));
     (s, buf, cnt) \<leftarrow> sc_read os s 0 buf 1023;
     if cnt = -1 then fail_with os s (line_of (''Can'' @ [CHR 0x27] @ ''t read name from keyboard.'')) 3
     else do {
       buf \<leftarrow> terminate_at buf cnt;
       s \<leftarrow> ece391_fdputs os s 1 (lit ''Hello, '');
       s \<leftarrow> ece391_fdputs os s 1 buf;
       Some (s, 0) } }"

text \<open>A newline at the end of the line is cut off.\<close>

definition shell_line :: "u8 list \<Rightarrow> int \<Rightarrow> u8 list option" where
  "shell_line buf cnt =
     (if cnt > 0 then
        if nat (cnt - 1) < length buf then terminate_at buf (if buf ! nat (cnt - 1) = 10 then cnt - 1 else cnt) else None
      else terminate_at buf cnt)"

definition shell_report :: "'s user_os \<Rightarrow> 's \<Rightarrow> int \<Rightarrow> 's option" where
  "shell_report os s rval =
     (if rval = -1 then ece391_fdputs os s 1 (line_of ''no such command'')
      else if rval = 256 then ece391_fdputs os s 1 (line_of ''program terminated by exception'')
      else if rval \<noteq> 0 then ece391_fdputs os s 1 (line_of ''program terminated abnormally'')
      else Some s)"

partial_function (option) shell_main :: "'s user_os \<Rightarrow> u8 list \<Rightarrow> 's \<Rightarrow> ('s \<times> int) option" where
  "shell_main os buf s =
     Option.bind (ece391_fdputs os s 1 (lit ''391OS> '')) (\<lambda>s.
       Option.bind (sc_read os s 0 buf 1023) (\<lambda>r.
         if snd (snd r) = -1 then fail_with os (fst r) (line_of ''read from keyboard failed'') 3
         else Option.bind (shell_line (fst (snd r)) (snd (snd r))) (\<lambda>buf.
           Option.bind (ece391_strcmp buf (lit ''exit'')) (\<lambda>c.
             if c = 0 then Some (fst r, 0)
             else if buf ! 0 = 0 then shell_main os buf (fst r)
             else Option.bind (sc_execute os (fst r) buf) (\<lambda>e.
               Option.bind (shell_report os (fst e) (snd e)) (shell_main os buf))))))"

text \<open>The count that \<open>counter\<close> chooses from the first character; anything else leaves \<open>max\<close> at 0.\<close>

definition counter_max :: "u8 \<Rightarrow> u32" where
  "counter_max c = (if c = 48 then 100 else if c = 49 then 10000 else if c = 50 then 100000 else 0)"

function counter_loop :: "'s user_os \<Rightarrow> u32 \<Rightarrow> u32 \<Rightarrow> u8 list \<Rightarrow> 's \<Rightarrow> ('s \<times> int) option" where
  "counter_loop os mx i buf s =
     (if i < mx then do {
        buf \<leftarrow> ece391_itoa (i + 1) buf 10;
        s \<leftarrow> ece391_fdputs os s 1 buf;
        s \<leftarrow> ece391_fdputs os s 1 (lit [CHR 0x0A]);
        counter_loop os mx (i + 1) buf s }
      else Some (s, 0))"
  by pat_completeness auto
termination
proof (relation "measure (\<lambda>(os, mx, i, buf, s). unat mx - unat i)", simp)
  fix mx i :: u32
  assume "i < mx"
  then have "unat i < unat mx" "unat i + 1 < 2 ^ 32" using unat_u32_less [of mx] by (auto simp: word_less_nat_alt)
  then show "((os, mx, i + 1, buf, s), os, mx, i, buf', s') \<in> measure (\<lambda>(os, mx, i, buf, s). unat mx - unat i)"
    for os and buf buf' :: "u8 list" and s s' by (simp add: unat_word_ariths)
qed

definition counter_main :: "'s user_os \<Rightarrow> u8 list \<Rightarrow> 's \<Rightarrow> ('s \<times> int) option" where
  "counter_main os buf s = do {
     s \<leftarrow> ece391_fdputs os s 1 (line_of ''Enter the Test Number: (0): 100, (1): 10000, (2): 100000'');
     (s, buf, cnt) \<leftarrow> sc_read os s 0 buf 1023;
     if cnt = -1 then fail_with os s (line_of (''Can'' @ [CHR 0x27] @ ''t read the number from keyboard.'')) 3
     else do {
       buf \<leftarrow> terminate_at buf cnt;
       len \<leftarrow> ece391_strlen buf;
       if len > 2 \<or> len = 1 \<and> (buf ! 0 < 48 \<or> buf ! 0 > 50) then fail_with os s (line_of ''Wrong Choice!'') 0
       else counter_loop os (counter_max (buf ! 0)) 0 buf s } }"

declare counter_loop.simps [simp del]

lemma terminate_at_cstr:
  assumes "take n b = w" "length w = n" "n < length b" "0 \<notin> set w"
  shows "\<exists>b'. terminate_at b (int n) = Some b' \<and> cstr b' = w \<and> 0 \<in> set b' \<and> length b' = length b"
proof -
  have "b[n := 0] = w @ 0 # drop (Suc n) b" using assms(1,3) by (simp add: upd_conv_take_nth_drop)
  then show ?thesis using assms(2-4) by (simp add: terminate_at_def)
qed

text \<open>What a session of the shell prints, for the commands typed before \<open>exit\<close>.\<close>

definition shell_message :: "int \<Rightarrow> u8 list" where
  "shell_message rval = chars (if rval = -1 then ''no such command'' @ [CHR 0x0A]
     else if rval = 256 then ''program terminated by exception'' @ [CHR 0x0A]
     else if rval \<noteq> 0 then ''program terminated abnormally'' @ [CHR 0x0A] else [])"

fun shell_transcript :: "(u8 list \<Rightarrow> u8 list \<times> int) \<Rightarrow> u8 list list \<Rightarrow> u8 list" where
  "shell_transcript command [] = chars ''391OS> ''"
| "shell_transcript command (w # ws) = chars ''391OS> '' @
     (if w = [] then [] else fst (command w) @ shell_message (snd (command w))) @ shell_transcript command ws"

definition count_lines :: "nat \<Rightarrow> nat \<Rightarrow> u8 list" where
  "count_lines i n = concat (map (\<lambda>k. numeral_text 10 (Suc k) @ [10]) [i..<n])"

text \<open>
  The answer is compared with its newline still in place, so a single wrong character is not rejected: the program
  counts to 0.
\<close>

definition counter_output :: "u8 list \<Rightarrow> u8 list" where
  "counter_output w = chars (''Enter the Test Number: (0): 100, (1): 10000, (2): 100000'' @ [CHR 0x0A]) @
     (if length w = 1 then count_lines 0 (unat (counter_max (w ! 0))) else chars (''Wrong Choice!'' @ [CHR 0x0A]))"

lemma numeral_text_ascii:
  assumes "2 \<le> radix" "radix \<le> 36" "c \<in> set (numeral_text radix n)"
  shows "32 \<le> c"
proof -
  have "32 \<le> lookup ! d" if "d < 36" for d
  proof -
    have "lookup ! d = take 36 lookup ! d" using that by simp
    also have "\<dots> \<in> set (take 36 lookup)" using that length_lookup by (intro nth_mem) simp
    finally have "lookup ! d \<in> set (take 36 lookup)" .
    moreover have "\<forall>c \<in> set (take 36 lookup). 32 \<le> c" by code_simp
    ultimately show ?thesis by blast
  qed
  then show ?thesis using assms digits_less [OF assms(1)] by (fastforce simp: numeral_text_def split: if_splits)
qed

text \<open>
  A terminal: standard input delivers typed lines (their newline included) and standard output collects what
  is written.
\<close>

locale line_terminal = printer os inv typed out emit printable
  for os :: "'s user_os" and inv :: "'s \<Rightarrow> bool" and typed :: "'s \<Rightarrow> u8 list list" and out :: "'s \<Rightarrow> 'g"
    and emit :: "u8 list \<Rightarrow> 'g \<Rightarrow> 'g" and printable :: "u8 list \<Rightarrow> bool" +
  assumes read_line: "\<lbrakk>inv s; typed s = l # ls; length l \<le> n; n \<le> length buf\<rbrakk> \<Longrightarrow>
      \<exists>s' buf'. sc_read os s 0 buf (int n) = Some (s', buf', int (length l)) \<and> take (length l) buf' = l \<and>
        length buf' = length buf \<and> inv s' \<and> typed s' = ls \<and> out s' = out s"
    and line_length: "\<lbrakk>inv s; l \<in> set (typed s)\<rbrakk> \<Longrightarrow> \<exists>w. l = w @ [10] \<and> 0 \<notin> set w \<and> 10 \<notin> set w \<and> printable w \<and> length w < 1023"
begin

lemma read_typed:
  assumes "inv s" "typed s = (w @ [10]) # ls" "length buf = 1024"
  shows "\<exists>s' buf'. sc_read os s 0 buf 1023 = Some (s', buf', int (length w) + 1) \<and> take (Suc (length w)) buf' = w @ [10] \<and>
    length buf' = 1024 \<and> inv s' \<and> typed s' = ls \<and> out s' = out s \<and> length w < 1023 \<and> 0 \<notin> set w \<and> printable w"
proof -
  have l: "length w < 1023" "0 \<notin> set w" "printable w" using line_length [OF assms(1), of "w @ [10]"] assms(2) by auto
  then show ?thesis using read_line [OF assms(1,2), of 1023 buf] assms(3) by (auto simp: add.commute)
qed

lemma hello_greets:
  assumes "inv s" "typed s = (w @ [10]) # ls" "length buf = 1024"
  shows "\<exists>s'. hello_main os buf s = Some (s', 0) \<and> inv s' \<and> typed s' = ls \<and>
    out s' = emit (chars (''Hi, what'' @ [CHR 0x27] @ ''s your name? '') @ chars ''Hello, '' @ w @ [10]) (out s)"
proof -
  obtain s1 where s1: "ece391_fdputs os s 1 (lit (''Hi, what'' @ [CHR 0x27] @ ''s your name? '')) = Some s1" "inv s1" "typed s1 = typed s"
    "out s1 = emit (chars (''Hi, what'' @ [CHR 0x27] @ ''s your name? '')) (out s)"
    using fdputs_lit [OF assms(1), of "''Hi, what'' @ [CHR 0x27] @ ''s your name? ''"] by (auto simp: chars_def)
  obtain s2 b where s2: "sc_read os s1 0 buf 1023 = Some (s2, b, int (length w) + 1)" "take (Suc (length w)) b = w @ [10]"
    "length b = 1024" "inv s2" "typed s2 = ls" "out s2 = out s1" "length w < 1023" "0 \<notin> set w" "printable w"
    using read_typed [OF s1(2) _ assms(3)] assms(2) s1(3) by auto
  have z: "0 \<notin> set (w @ [10])" using s2(8) by simp
  obtain b' where t: "terminate_at b (int (length w) + 1) = Some b'" and c: "cstr b' = w @ [10]" "0 \<in> set b'" "length b' = 1024"
    using terminate_at_cstr [OF s2(2) _ _ z] s2(3,7) by (auto simp: add.commute)
  obtain s3 where s3: "ece391_fdputs os s2 1 (lit ''Hello, '') = Some s3" "inv s3" "typed s3 = ls"
    "out s3 = emit (chars ''Hello, '') (out s2)"
    using fdputs_lit [OF s2(4), of "''Hello, ''"] s2(5) by (auto simp: chars_def)
  have "printable (w @ [10])" using s2(9) printable_ascii [of "[10]"] by (simp add: printable_append)
  then obtain s4 where "ece391_fdputs os s3 1 b' = Some s4" "inv s4" "typed s4 = ls" "out s4 = emit (w @ [10]) (out s3)"
    using fdputs [OF s3(2) c(2)] c(1,3) s3(3) by auto
  then show ?thesis using s1 s2 s3 t by (simp add: hello_main_def emit_append)
qed

lemma report:
  assumes "inv s"
  shows "\<exists>s'. shell_report os s rval = Some s' \<and> inv s' \<and> typed s' = typed s \<and> out s' = emit (shell_message rval) (out s)"
proof -
  consider "rval = -1" | "rval = 256" | "rval = 0" | "rval \<noteq> -1" "rval \<noteq> 256" "rval \<noteq> 0" by blast
  then show ?thesis
  proof cases
    case 1
    then show ?thesis using fdputs_lit [OF assms, of "''no such command'' @ [CHR 0x0A]"]
      by (simp add: shell_report_def shell_message_def chars_def)
  next
    case 2
    then show ?thesis using fdputs_lit [OF assms, of "''program terminated by exception'' @ [CHR 0x0A]"]
      by (simp add: shell_report_def shell_message_def chars_def)
  next
    case 3
    then show ?thesis using assms by (simp add: shell_report_def shell_message_def emit_Nil chars_def)
  next
    case 4
    then show ?thesis using fdputs_lit [OF assms, of "''program terminated abnormally'' @ [CHR 0x0A]"]
      by (simp add: shell_report_def shell_message_def chars_def)
  qed
qed

lemma shell_reads:
  assumes "inv s" "typed s = (w @ [10]) # ls" "length buf = 1024"
  shows "\<exists>s' b. shell_main os buf s = Option.bind (ece391_strcmp b (lit ''exit'')) (\<lambda>c.
      if c = 0 then Some (s', 0) else if b ! 0 = 0 then shell_main os b s'
      else Option.bind (sc_execute os s' b) (\<lambda>e. Option.bind (shell_report os (fst e) (snd e)) (shell_main os b))) \<and>
    cstr b = w \<and> 0 \<in> set b \<and> length b = 1024 \<and> inv s' \<and> typed s' = ls \<and> out s' = emit (chars ''391OS> '') (out s)"
proof -
  obtain s1 where s1: "ece391_fdputs os s 1 (lit ''391OS> '') = Some s1" "inv s1" "typed s1 = typed s"
    "out s1 = emit (chars ''391OS> '') (out s)"
    using fdputs_lit [OF assms(1), of "''391OS> ''"] by (auto simp: chars_def)
  obtain s2 b where s2: "sc_read os s1 0 buf 1023 = Some (s2, b, int (length w) + 1)" "take (Suc (length w)) b = w @ [10]"
    "length b = 1024" "inv s2" "typed s2 = ls" "out s2 = out s1" "length w < 1023" "0 \<notin> set w" "printable w"
    using read_typed [OF s1(2) _ assms(3)] assms(2) s1(3) by auto
  have "b ! length w = (w @ [10]) ! length w" using s2(2) nth_take [of "length w" "Suc (length w)" b] by simp
  then have l: "shell_line b (int (length w) + 1) = terminate_at b (int (length w))" using s2(3,7) by (simp add: shell_line_def)
  have "take (length w) b = take (length w) (take (Suc (length w)) b)" by (simp add: min_def)
  then have "take (length w) b = w" using s2(2) by simp
  then obtain b' where "terminate_at b (int (length w)) = Some b'" "cstr b' = w" "0 \<in> set b'" "length b' = 1024"
    using terminate_at_cstr [of "length w" b w] s2(3,7,8) by auto
  then show ?thesis using s1 s2 l by (intro exI [of _ s2] exI [of _ b']) (subst shell_main.simps, simp cong: if_cong)
qed

lemma shell_session:
  assumes "inv s" "typed s = map (\<lambda>w. w @ [10]) (ws @ [chars ''exit'']) @ ls" "chars ''exit'' \<notin> set ws" "length buf = 1024"
    and execute: "\<And>s buf. \<lbrakk>inv s; 0 \<in> set buf; length buf = 1024\<rbrakk> \<Longrightarrow>
      \<exists>s'. sc_execute os s buf = Some (s', snd (command (cstr buf))) \<and> inv s' \<and> typed s' = typed s \<and>
        out s' = emit (fst (command (cstr buf))) (out s)"
  shows "\<exists>s'. shell_main os buf s = Some (s', 0) \<and> inv s' \<and> typed s' = ls \<and> out s' = emit (shell_transcript command ws) (out s)"
  using assms(1-4)
proof (induction ws arbitrary: s buf)
  case Nil
  then have t: "typed s = (chars ''exit'' @ [10]) # ls" by simp
  obtain r where "ece391_strcmp b (lit ''exit'') = Some r" "r = 0" if "cstr b = chars ''exit''" "0 \<in> set b" for b
    using ece391_strcmp_eq [of _ "lit ''exit''"] by (auto simp: lit_def chars_def)
  then show ?case using shell_reads [OF Nil(1) t Nil(4)] by auto
next
  case (Cons w ws)
  then have t: "typed s = (w @ [10]) # map (\<lambda>w. w @ [10]) (ws @ [chars ''exit'']) @ ls" and w: "w \<noteq> chars ''exit''" by auto
  obtain s1 b where s1: "shell_main os buf s = Option.bind (ece391_strcmp b (lit ''exit'')) (\<lambda>c.
      if c = 0 then Some (s1, 0) else if b ! 0 = 0 then shell_main os b s1
      else Option.bind (sc_execute os s1 b) (\<lambda>e. Option.bind (shell_report os (fst e) (snd e)) (shell_main os b)))"
    "cstr b = w" "0 \<in> set b" "length b = 1024" "inv s1" "typed s1 = map (\<lambda>w. w @ [10]) (ws @ [chars ''exit'']) @ ls"
    "out s1 = emit (chars ''391OS> '') (out s)"
    using shell_reads [OF Cons.prems(1) t Cons.prems(4)] by blast
  obtain r where r: "ece391_strcmp b (lit ''exit'') = Some r" "r \<noteq> 0"
    using ece391_strcmp_eq [OF s1(3), of "lit ''exit''"] s1(2) w by (auto simp: lit_def chars_def)
  have z: "b ! 0 = 0 \<longleftrightarrow> w = []" using s1(2,3) by (cases b) (auto split: if_splits)
  show ?case
  proof (cases "w = []")
    case True
    then show ?thesis using Cons.IH [OF s1(5,6) _ s1(4)] Cons.prems(3) r z s1(1,7) by (simp add: emit_append)
  next
    case False
    obtain s2 where s2: "sc_execute os s1 b = Some (s2, snd (command w))" "inv s2" "typed s2 = typed s1"
      "out s2 = emit (fst (command w)) (out s1)"
      using execute [OF s1(5,3,4)] s1(2) by auto
    obtain s3 where s3: "shell_report os s2 (snd (command w)) = Some s3" "inv s3" "typed s3 = typed s1"
      "out s3 = emit (shell_message (snd (command w))) (out s2)"
      using report [OF s2(2)] s2(3) by metis
    show ?thesis using Cons.IH [OF s3(2) _ _ s1(4)] s1 s2 s3 r z False Cons.prems(3) by (simp add: emit_append)
  qed
qed

lemma counter_loop_counts:
  assumes "inv s" "length buf = 1024" "i \<le> mx"
  shows "\<exists>s'. counter_loop os mx i buf s = Some (s', 0) \<and> inv s' \<and> typed s' = typed s \<and>
    out s' = emit (count_lines (unat i) (unat mx)) (out s)"
  using assms
proof (induction "unat mx - unat i" arbitrary: i buf s)
  case 0
  then have "i = mx" by (simp add: word_le_nat_alt word_unat_eq_iff)
  with 0(2) show ?case by (subst counter_loop.simps) (simp add: count_lines_def emit_Nil)
next
  case (Suc k)
  then have lt: "i < mx" "unat i < unat mx" by (simp_all add: word_less_nat_alt)
  then have i: "unat (i + 1) = Suc (unat i)" using unat_u32_less [of mx] by (simp add: unat_word_ariths)
  let ?t = "numeral_text 10 (Suc (unat i))" and ?b = "numeral_text 10 (Suc (unat i)) @ 0 # drop (Suc (length (numeral_text 10 (Suc (unat i))))) buf"
  have l: "length ?t \<le> 32" using length_numeral_text_32 [of 10 "i + 1"] i by simp
  have it: "ece391_itoa (i + 1) buf 10 = Some ?b"
    using itoa_eq [of 10 "i + 1" buf] l i Suc.prems(2) ece391_itoa_itoa [of buf "i + 1" 10] by simp
  have b: "cstr ?b = ?t" "0 \<in> set ?b" "length ?b = 1024"
    using numeral_text_no_nul [of 10 "Suc (unat i)"] l Suc.prems(2) by simp_all
  obtain s1 where s1: "ece391_fdputs os s 1 ?b = Some s1" "inv s1" "typed s1 = typed s" "out s1 = emit ?t (out s)"
    using fdputs [OF Suc.prems(1) b(2)] b printable_ascii [of ?t] numeral_text_ascii [of 10 _ "Suc (unat i)"] by auto
  obtain s2 where s2: "ece391_fdputs os s1 1 (lit [CHR 0x0A]) = Some s2" "inv s2" "typed s2 = typed s" "out s2 = emit [10] (out s1)"
    using fdputs_lit [OF s1(2), of "[CHR 0x0A]"] s1(3) by (auto simp: chars_def)
  have "i + 1 \<le> mx" "k = unat mx - unat (i + 1)" using lt(2) i Suc.hyps(2) by (simp_all add: word_le_nat_alt)
  from Suc.hyps(1) [OF this(2) s2(2) b(3) this(1)]
  obtain s' where "counter_loop os mx (i + 1) ?b s2 = Some (s', 0)" "inv s'" "typed s' = typed s2"
    "out s' = emit (count_lines (Suc (unat i)) (unat mx)) (out s2)" using i by auto
  moreover have "count_lines (unat i) (unat mx) = ?t @ [10] @ count_lines (Suc (unat i)) (unat mx)"
    using lt(2) by (simp add: count_lines_def upt_conv_Cons)
  ultimately show ?case
    using lt(1) it s1 s2 emit_append [of "[10]" "count_lines (Suc (unat i)) (unat mx)"]
    by (subst counter_loop.simps) (simp add: emit_append)
qed

lemma counter_counts:
  assumes "inv s" "typed s = (w @ [10]) # ls" "length buf = 1024"
  shows "\<exists>s'. counter_main os buf s = Some (s', 0) \<and> inv s' \<and> typed s' = ls \<and>
    out s' = emit (counter_output w) (out s)"
proof -
  let ?p = "''Enter the Test Number: (0): 100, (1): 10000, (2): 100000'' @ [CHR 0x0A]"
  obtain s1 where s1: "ece391_fdputs os s 1 (lit ?p) = Some s1" "inv s1" "typed s1 = typed s" "out s1 = emit (chars ?p) (out s)"
    using fdputs_lit [OF assms(1), of ?p] by (auto simp: chars_def)
  obtain s2 b where s2: "sc_read os s1 0 buf 1023 = Some (s2, b, int (length w) + 1)" "take (Suc (length w)) b = w @ [10]"
    "length b = 1024" "inv s2" "typed s2 = ls" "out s2 = out s1" "length w < 1023" "0 \<notin> set w" "printable w"
    using read_typed [OF s1(2) _ assms(3)] assms(2) s1(3) by auto
  have z: "0 \<notin> set (w @ [10])" using s2(8) by simp
  obtain b' where t: "terminate_at b (int (length w) + 1) = Some b'" and c: "cstr b' = w @ [10]" "0 \<in> set b'" "length b' = 1024"
    using terminate_at_cstr [OF s2(2) _ _ z] s2(3,7) by (auto simp: add.commute)
  have n: "ece391_strlen b' = Some (of_nat (Suc (length w)))" using c(1,2) by (simp add: ece391_strlen_eq)
  have u: "unat (of_nat (Suc (length w)) :: u32) = Suc (length w)" using s2(7) by (intro unat_of_nat_u32) simp
  have h: "b' ! 0 = (w @ [10]) ! 0" using c(1) cstr_nth [of 0 b'] by simp
  show ?thesis
  proof (cases "length w = 1")
    case True
    then have "b' ! 0 = w ! 0" using h by (simp add: nth_append)
    moreover obtain s3 where "counter_loop os (counter_max (w ! 0)) 0 b' s2 = Some (s3, 0)" "inv s3" "typed s3 = ls"
      "out s3 = emit (count_lines 0 (unat (counter_max (w ! 0)))) (out s2)"
      using counter_loop_counts [OF s2(4) c(3), of 0 "counter_max (w ! 0)"] s2(5) by auto
    ultimately show ?thesis using True s1 s2 t n by (simp add: counter_main_def counter_output_def emit_append)
  next
    case False
    let ?m = "''Wrong Choice!'' @ [CHR 0x0A]"
    have "of_nat (Suc (length w)) > (2 :: u32) \<or> of_nat (Suc (length w)) = (1 :: u32) \<and> (b' ! 0 < 48 \<or> b' ! 0 > 50)"
      using False u h by (cases w) (auto simp: word_less_nat_alt Suc_lessI)
    moreover obtain s3 where "fail_with os s2 (lit ?m) 0 = Some (s3, 0)" "inv s3" "typed s3 = ls" "out s3 = emit (chars ?m) (out s2)"
      using fail_with_lit [OF s2(4), of ?m 0] s2(5) by (auto simp: chars_def)
    ultimately show ?thesis using False s1 s2 t n by (simp add: counter_main_def counter_output_def emit_append del: of_nat_Suc)
  qed
qed

end

end
