(* ===== verification/User_Kernel.thy ===== *)
theory User_Kernel
  imports User_Programs
begin

text \<open>
  The user programs on the kernel: the interface \<open>user_os\<close> filled with the kernel's system calls, the laws of
  \<open>piece_reader\<close> proved for regular files and for directories, and what the programs then do.
\<close>

section \<open>The kernel's calls\<close>

text \<open>
  \<open>enter_syscall\<close> compares the number as unsigned and answers -1 outside the table. A call inside it is one
  of the other members of the interface, so it has no result here.
\<close>

abbreviation (input) MIN_SYSCALL :: u32 where "MIN_SYSCALL \<equiv> 1"
abbreviation (input) MAX_SYSCALL :: u32 where "MAX_SYSCALL \<equiv> 9"

definition syscall_oob :: "kstate \<Rightarrow> u32 \<Rightarrow> (kstate \<times> int) option" where
  "syscall_oob s eax = (if eax < MIN_SYSCALL \<or> eax > MAX_SYSCALL then Some (s, -1) else None)"

definition kernel_os ::
  "(nat \<Rightarrow> kstate \<Rightarrow> kstate) \<Rightarrow> fs \<Rightarrow> (pt_ref \<Rightarrow> u32) \<Rightarrow> (kstate \<Rightarrow> u8 list \<Rightarrow> (kstate \<times> int) option) \<Rightarrow> kstate user_os" where
  "kernel_os sched f addr execute =
     \<lparr>sc_read = (\<lambda>s fd buf n.
        case sys_read sched f s fd (Some buf) n of Some (s, Some buf, ret) \<Rightarrow> Some (s, buf, ret) | _ \<Rightarrow> None),
      sc_write = (\<lambda>s fd buf n. sys_write s fd (Some buf) n),
      sc_open = (\<lambda>s name. sys_open f s (Some name)),
      sc_close = sys_close,
      sc_getargs = (\<lambda>s buf n. case sys_getargs s (Some buf) n of Some (Some buf, ret) \<Rightarrow> Some (s, buf, ret) | _ \<Rightarrow> None),
      sc_vidmap = (\<lambda>s a. map_option (\<lambda>(s, _, ret). (s, ret)) (sys_vidmap addr s a)),
      sc_execute = execute,
      sc_call = (\<lambda>s n. syscall_oob s (word_of_int n))\<rparr>"

section \<open>Standard output\<close>

definition print_on :: "u8 list \<Rightarrow> grid \<Rightarrow> grid" where
  "print_on cs g = fold (\<lambda>c g. grid_putc g c) cs g"

definition term_grid :: "nat \<Rightarrow> kstate \<Rightarrow> grid" where
  "term_grid t s = grid_of (term_console s t)"

text \<open>The running process writes to terminal \<open>t\<close>.\<close>

definition stdout_on :: "nat \<Rightarrow> kstate \<Rightarrow> bool" where
  "stdout_on t s \<longleftrightarrow> fd_present s 1 \<and> file_op (get_file s (cur_pcb s, 1)) = Some term_fops \<and>
     get_term_ctx s (Some (cur_pcb s)) = Some (Some t) \<and> t < length (term_terms s) \<and> console_inv (term_console s t)"

lemma print_on_append: "print_on (xs @ ys) g = print_on ys (print_on xs g)"
  by (simp add: print_on_def)

lemma fold_print_on: "fold print_on xss g = print_on (concat xss) g"
  by (induction xss arbitrary: g) (simp_all add: print_on_append print_on_def)

lemma root_pcb_imp:
  assumes "root_pcb bs p = Some r" "\<forall>q. parent (bs' q) = parent (bs q)"
  shows "root_pcb bs' p = Some r"
proof -
  have "\<forall>bs'. (\<forall>q. parent (bs' q) = parent (bs q)) \<longrightarrow> root_pcb bs' p = Some r"
    by (rule root_pcb.raw_induct [OF _ assms(1)]) (subst root_pcb.simps, auto split: option.splits)
  then show ?thesis using assms(2) by blast
qed

lemma root_pcb_parents:
  assumes "\<And>q. parent (bs' q) = parent (bs q)"
  shows "root_pcb bs' p = root_pcb bs p"
  using root_pcb_imp [of bs p _ bs'] root_pcb_imp [of bs' p _ bs] assms
  by (cases "root_pcb bs' p"; cases "root_pcb bs p") simp_all

lemma get_term_ctx_same:
  assumes "\<And>q. parent (pcbs s' q) = parent (pcbs s q)" "\<And>q. term_ctx (pcbs s' q) = term_ctx (pcbs s q)"
  shows "get_term_ctx s' p = get_term_ctx s p"
  unfolding get_term_ctx_def root_pcb_parents [OF assms(1)] assms(2) ..

lemma get_term_ctx_upd_file [simp]: "get_term_ctx (upd_file (p, k) g s) q = get_term_ctx s q"
  by (rule get_term_ctx_same) simp_all

lemma term_terms_upd_file [simp]:
  "term_terms (upd_file r g s) = term_terms s" "con (upd_file r g s) = con s"
  by (simp_all add: upd_file_def upd_pcb_def)

lemma get_upd_file_other: "k \<noteq> k' \<Longrightarrow> get_file (upd_file (p, k) g s) (p, k') = get_file s (p, k')"
  by (simp add: get_file_def)

lemma fd_present_upd_other: "k \<noteq> nat fd \<Longrightarrow> fd_present (upd_file (p, k) g s) fd = fd_present s fd"
  by (simp add: fd_present_def fd_used_def)

lemma stdout_on_upd_file:
  assumes "k \<noteq> 1"
  shows "stdout_on t (upd_file (p, k) g s) = stdout_on t s" "term_grid t (upd_file (p, k) g s) = term_grid t s"
proof -
  have "get_file (upd_file (p, k) g s) (q, 1) = get_file s (q, 1)" for q using assms by (simp add: get_file_def)
  then show "stdout_on t (upd_file (p, k) g s) = stdout_on t s" "term_grid t (upd_file (p, k) g s) = term_grid t s"
    using assms by (simp_all add: stdout_on_def term_console_def fd_present_upd_other term_grid_def)
qed

lemma sys_write_stdout:
  assumes "stdout_on t s" "n \<le> length buf" "8 \<notin> set (take n buf)"
  shows "\<exists>s'. sys_write s 1 (Some buf) (int n) = Some (s', int n) \<and> stdout_on t s' \<and>
    term_grid t s' = print_on (take n buf) (term_grid t s) \<and> only_screen t s s'"
proof -
  let ?p = "cur_pcb s"
  have o: "get_term_ctx s (Some ?p) = Some (Some t)" "t < length (term_terms s)" "console_inv (term_console s t)"
    "fd_present s 1" "file_op (get_file s (?p, 1)) = Some term_fops"
    using assms(1) by (simp_all add: stdout_on_def)
  obtain s' where s': "term_write s (Some ?p) 1 buf (int n) = Some (s', int n)" "console_inv (term_console s' t)"
    "grid_of (term_console s' t) = fold (\<lambda>c g. grid_putc g c) (take n buf) (grid_of (term_console s t))" "only_screen t s s'"
    using term_write_stdout [OF o(1-3) assms(3,2)] by blast
  have w: "sys_write s 1 (Some buf) (int n) = Some (s', int n)"
    using fd_presentD [OF o(4)] o(5) s'(1) by (simp add: sys_write_def fops_write_def)
  have k: "pcbs s' = pcbs s" "cur_pcb s' = cur_pcb s" "length (term_terms s') = length (term_terms s)"
    using s'(4) by (simp_all add: only_screen_def)
  then have "get_term_ctx s' q = get_term_ctx s q" for q by (intro get_term_ctx_same) simp_all
  with k have "stdout_on t s'" using o s'(2) by (simp add: stdout_on_def fd_present_def get_file_def)
  with w s' show ?thesis by (simp add: print_on_def term_grid_def)
qed

section \<open>Reading a regular file\<close>

fun pieces_of :: "nat \<Rightarrow> u8 list \<Rightarrow> u8 list list" where
  "pieces_of n xs = (if n = 0 \<or> xs = [] then [] else take n xs # pieces_of n (drop n xs))"

declare pieces_of.simps [simp del]

lemma pieces_of_Nil [simp]: "pieces_of n [] = []"
  by (simp add: pieces_of.simps)

lemma concat_pieces_of: "0 < n \<Longrightarrow> concat (pieces_of n xs) = xs"
  by (induction n xs rule: pieces_of.induct) (subst pieces_of.simps, simp)

lemma pieces_of_member: "c \<in> set (pieces_of n xs) \<Longrightarrow> c \<noteq> [] \<and> length c \<le> n \<and> set c \<subseteq> set xs"
proof (induction n xs rule: pieces_of.induct)
  case (1 n xs)
  from 1(2) have "c = take n xs \<or> c \<in> set (pieces_of n (drop n xs))" "n \<noteq> 0" "xs \<noteq> []"
    by (auto simp: pieces_of.simps [of n xs] split: if_splits)
  then show ?case using 1(1) by (auto dest: in_set_takeD in_set_dropD)
qed

definition reading_file :: "fs \<Rightarrow> nat \<Rightarrow> nat \<Rightarrow> kstate \<Rightarrow> bool" where
  "reading_file f k t s \<longleftrightarrow> k \<noteq> 1 \<and> stdout_on t s \<and> fd_present s (int k) \<and> open_reg f s (cur_pcb s, k) \<and>
     file_op (get_file s (cur_pcb s, k)) = Some file_fops"

definition file_pieces :: "fs \<Rightarrow> nat \<Rightarrow> kstate \<Rightarrow> u8 list list" where
  "file_pieces f k s = pieces_of 1024 (rest_of_file f s (cur_pcb s, k))"

lemma sys_read_open:
  assumes fd: "fd_present s (int k)" and o: "open_reg f s (cur_pcb s, k)" and ops: "file_op (get_file s (cur_pcb s, k)) = Some file_fops"
    and m: "m \<le> length buf" "m < 2 ^ 31" and n: "n = min (length (rest_of_file f s (cur_pcb s, k))) m"
  shows "\<exists>g. sys_read sched f s (int k) (Some buf) (int m) =
      Some (upd_file (cur_pcb s, k) g s, Some (take n (rest_of_file f s (cur_pcb s, k)) @ drop n buf), int n) \<and>
    fd_present (upd_file (cur_pcb s, k) g s) (int k) \<and> open_reg f (upd_file (cur_pcb s, k) g s) (cur_pcb s, k) \<and>
    file_op (get_file (upd_file (cur_pcb s, k) g s) (cur_pcb s, k)) = Some file_fops \<and>
    rest_of_file f (upd_file (cur_pcb s, k) g s) (cur_pcb s, k) = drop n (rest_of_file f s (cur_pcb s, k))"
proof -
  let ?r = "(cur_pcb s, k)" and ?g = "\<lambda>fl. fl\<lparr>file_pos := file_pos fl + word_of_int (int n)\<rparr>"
  let ?s = "upd_file ?r ?g s"
  have g: "get_file_from_fd (Some (cur_pcb s)) (int k) = Some ?r" using fd by (simp add: get_file_from_fd_def fd_present_def)
  have n': "n = min (length (rest_of_file f s ?r)) (unat (word_of_int (int m) :: u32))" and l: "n \<le> length buf"
    using n m by (simp_all add: unat_of_nat_u32)
  have rd: "sys_read sched f s (int k) (Some buf) (int m) = Some (?s, Some (take n (rest_of_file f s ?r) @ drop n buf), int n)"
    by (rule sys_read_reg [OF fd o ops n' l])
  obtain s' where s': "file_read f s (Some (cur_pcb s)) (int k) buf (int m) = Some (s', take n (rest_of_file f s ?r) @ drop n buf, int n)"
    "open_reg f s' ?r" "rest_of_file f s' ?r = drop n (rest_of_file f s ?r)"
    using file_read_open [OF g o n' l] by blast
  have "s' = ?s"
    using s'(1) g by (auto simp: file_read_def bind_eq_Some_conv split: if_splits)
  moreover have "fd_present ?s (int k)" "file_op (get_file ?s ?r) = Some file_fops"
    using fd o ops by (simp_all add: fd_present_def fd_used_def open_reg_def)
  ultimately show ?thesis using rd s'(2,3) by (intro exI [of _ ?g]) auto
qed

lemma reading_file_read:
  assumes "reading_file f k t s" "m \<le> length buf" "m < 2 ^ 31"
    and n: "n = min (length (rest_of_file f s (cur_pcb s, k))) m"
  shows "\<exists>s'. sys_read sched f s (int k) (Some buf) (int m) =
      Some (s', Some (take n (rest_of_file f s (cur_pcb s, k)) @ drop n buf), int n) \<and> reading_file f k t s' \<and>
    rest_of_file f s' (cur_pcb s', k) = drop n (rest_of_file f s (cur_pcb s, k)) \<and> term_grid t s' = term_grid t s \<and>
    (\<exists>g. s' = upd_file (cur_pcb s, k) g s)"
proof -
  have o: "k \<noteq> 1" "stdout_on t s" "fd_present s (int k)" "open_reg f s (cur_pcb s, k)" "file_op (get_file s (cur_pcb s, k)) = Some file_fops"
    using assms(1) by (simp_all add: reading_file_def)
  from sys_read_open [OF o(3-5) assms(2,3) n, of sched] obtain g where "sys_read sched f s (int k) (Some buf) (int m) =
      Some (upd_file (cur_pcb s, k) g s, Some (take n (rest_of_file f s (cur_pcb s, k)) @ drop n buf), int n)"
    "fd_present (upd_file (cur_pcb s, k) g s) (int k)" "open_reg f (upd_file (cur_pcb s, k) g s) (cur_pcb s, k)"
    "file_op (get_file (upd_file (cur_pcb s, k) g s) (cur_pcb s, k)) = Some file_fops"
    "rest_of_file f (upd_file (cur_pcb s, k) g s) (cur_pcb s, k) = drop n (rest_of_file f s (cur_pcb s, k))" by blast
  then show ?thesis using o(1,2) stdout_on_upd_file [OF o(1)] by (intro exI [of _ "upd_file (cur_pcb s, k) g s"]) (auto simp: reading_file_def)
qed

lemma get_file_same: "pcbs s' = pcbs s \<Longrightarrow> get_file s' r = get_file s r"
  by (simp add: get_file_def split: prod.splits)

lemma reading_file_screen:
  assumes "reading_file f k t s" "only_screen t s s'" "stdout_on t s'"
  shows "reading_file f k t s'" "file_pieces f k s' = file_pieces f k s"
proof -
  have e: "pcbs s' = pcbs s" "cur_pcb s' = cur_pcb s" using assms(2) by (simp_all add: only_screen_def)
  have "open_reg f s' r = open_reg f s r" "rest_of_file f s' r = rest_of_file f s r" "fd_present s' d = fd_present s d" for r d
    unfolding open_reg_def rest_of_file_def fd_present_def e get_file_same [OF e(1)] by (rule refl)+
  then show "reading_file f k t s'" "file_pieces f k s' = file_pieces f k s"
    using assms(1,3) by (simp_all add: reading_file_def file_pieces_def e get_file_same [OF e(1)])
qed

lemma kernel_write:
  assumes "stdout_on t s" "n \<le> length buf" "8 \<notin> set (take n buf)"
  shows "\<exists>s'. sc_write (kernel_os sched f addr ex) s 1 buf (int n) = Some (s', int n) \<and> stdout_on t s' \<and>
    term_grid t s' = print_on (take n buf) (term_grid t s) \<and> only_screen t s s'"
  using sys_write_stdout [OF assms] by (simp add: kernel_os_def)

lemma ascii_no_backspace:
  assumes "\<forall>c \<in> set xs. c = 10 \<or> 32 \<le> (c :: u8)"
  shows "8 \<notin> set xs"
proof
  assume "8 \<in> set xs"
  with assms have "(8 :: u8) = 10 \<or> 32 \<le> (8 :: u8)" by blast
  then show False by simp
qed

interpretation file_reader: piece_reader "kernel_os sched f addr ex" "reading_file f k t" "file_pieces f k"
  "term_grid t" print_on "\<lambda>cs. 8 \<notin> set cs" "int k" 1024 for sched f addr ex k t
proof
  fix s c cs and buf :: "u8 list"
  assume a: "reading_file f k t s" "file_pieces f k s = c # cs" "1024 \<le> length buf"
  let ?r = "rest_of_file f s (cur_pcb s, k)"
  have c: "c = take 1024 ?r" "cs = pieces_of 1024 (drop 1024 ?r)"
    using a(2) by (simp_all add: file_pieces_def pieces_of.simps [of 1024 ?r] split: if_splits)
  obtain s' where s': "sys_read sched f s (int k) (Some buf) 1024 =
      Some (s', Some (take (length c) ?r @ drop (length c) buf), int (length c))" "reading_file f k t s'"
    "rest_of_file f s' (cur_pcb s', k) = drop (length c) ?r" "term_grid t s' = term_grid t s"
    using reading_file_read [OF a(1,3), of "length c" sched] c(1) by auto
  have "take (length c) ?r = c" "drop (length c) ?r = drop 1024 ?r" using c(1) by (auto simp: min_def)
  then show "\<exists>s' buf'. sc_read (kernel_os sched f addr ex) s (int k) buf (int 1024) = Some (s', buf', int (length c)) \<and>
      take (length c) buf' = c \<and> length buf' = length buf \<and> reading_file f k t s' \<and> file_pieces f k s' = cs \<and>
      term_grid t s' = term_grid t s"
    using s' c a(3) by (simp add: kernel_os_def file_pieces_def)
next
  fix s and buf :: "u8 list"
  assume a: "reading_file f k t s" "file_pieces f k s = []" "1024 \<le> length buf"
  then have "rest_of_file f s (cur_pcb s, k) = []"
    by (simp add: file_pieces_def pieces_of.simps [of 1024 "rest_of_file f s (cur_pcb s, k)"] split: if_splits)
  then show "\<exists>s' buf'. sc_read (kernel_os sched f addr ex) s (int k) buf (int 1024) = Some (s', buf', 0) \<and>
      reading_file f k t s' \<and> term_grid t s' = term_grid t s"
    using reading_file_read [OF a(1,3), of 0 sched] by (auto simp: kernel_os_def)
next
  fix s c
  assume "c \<in> set (file_pieces f k s)"
  then show "c \<noteq> [] \<and> length c \<le> 1024" by (auto simp: file_pieces_def dest: pieces_of_member)
next
  fix s n and buf :: "u8 list"
  assume a: "reading_file f k t s" "n \<le> length buf" "8 \<notin> set (take n buf)"
  then have "stdout_on t s" by (simp add: reading_file_def)
  from kernel_write [OF this a(2,3)] reading_file_screen [OF a(1)]
  show "\<exists>s'. sc_write (kernel_os sched f addr ex) s 1 buf (int n) = Some (s', int n) \<and> reading_file f k t s' \<and>
      file_pieces f k s' = file_pieces f k s \<and> term_grid t s' = print_on (take n buf) (term_grid t s)"
    by blast
qed (use ascii_no_backspace in \<open>auto simp: print_on_append\<close>, simp_all add: print_on_def)

section \<open>cat\<close>

lemma resolves_cstr:
  assumes "resolves f name ty inode" "cstr name' = cstr name" "readable name' FILE_NAME_SIZE"
  shows "resolves f name' ty inode"
proof -
  have "name_match f name' = name_match f name" using assms(2) by (simp add: name_match_def fun_eq_iff)
  then show ?thesis using assms(1,3) unfolding resolves_def by metis
qed

lemma kernel_getargs:
  assumes "cur_pcb s \<noteq> 0" "0 \<in> set (cmd_args (pcbs s (cur_pcb s)))" "length (cstr (cmd_args (pcbs s (cur_pcb s)))) < 1024"
    and "length buf = 1024"
  shows "\<exists>buf'. sc_getargs (kernel_os sched f addr ex) s buf 1024 = Some (s, buf', 0) \<and>
    cstr buf' = cstr (cmd_args (pcbs s (cur_pcb s))) \<and> length buf' = 1024"
proof -
  let ?a = "cmd_args (pcbs s (cur_pcb s))"
  let ?b = "cstr ?a @ replicate (1024 - length (cstr ?a)) 0"
  have "strncpy buf ?a 1024 = Some ?b" using strncpy_eq [of 1024 buf ?a] assms(2-4) by simp
  moreover have "?b ! 1023 = 0" using assms(3) by (simp add: nth_append)
  then have "?b[1023 := 0] = ?b" using list_update_id [of ?b 1023] by metis
  moreover have "length ?b = 1024" using assms(3) by simp
  moreover have "replicate (1024 - length (cstr ?a)) (0 :: u8) = 0 # replicate (1023 - length (cstr ?a)) 0"
    using assms(3) by (simp add: replicate_Suc [symmetric] del: replicate_Suc)
  then have "cstr ?b = cstr ?a" by simp
  ultimately show ?thesis using assms(1)
    by (simp add: kernel_os_def sys_getargs_def get_proc_pcb_def)
qed

lemma opened_reading:
  assumes "can_open s" "stdout_on t s" "wf_inode f inode"
  shows "reading_file f (free_fd s) t (opened s inode)" "term_grid t (opened s inode) = term_grid t s"
    "file_pieces f (free_fd s) (opened s inode) = pieces_of 1024 (file_content f (inode_at f inode))"
proof -
  have "fd_used (pcbs s (cur_pcb s)) 1" using assms(2) by (simp add: stdout_on_def fd_present_def)
  then have k: "free_fd s \<noteq> 1" using free_fd_less(2) [OF assms(1)] by metis
  note o = opened_reg [OF assms(1,3)] opened_file_op [OF assms(1), of inode]
  have "stdout_on t (opened s inode)" unfolding opened_as_def using stdout_on_upd_file(1) [OF k] assms(2) by simp
  then show "reading_file f (free_fd s) t (opened s inode)" using k o by (simp add: reading_file_def)
  show "term_grid t (opened s inode) = term_grid t s" unfolding opened_as_def by (rule stdout_on_upd_file(2) [OF k])
  show "file_pieces f (free_fd s) (opened s inode) = pieces_of 1024 (file_content f (inode_at f inode))"
    using o by (simp add: file_pieces_def)
qed

text \<open>
  C15: \<open>cat\<close> on the kernel: when its argument names a regular file, the program ends with status 0 and its
  terminal shows what it showed before followed by the whole content of the file, however many reads
  of 1024 bytes that takes.\<close>

theorem cat_prints_file:
  assumes "resolves f (cmd_args (pcbs s (cur_pcb s))) FILE_TYPE_REG inode" "wf_inode f inode"
    and "can_open s" "stdout_on t s" "0 \<in> set (cmd_args (pcbs s (cur_pcb s)))"
    and "length (cmd_args (pcbs s (cur_pcb s))) \<le> 1024" "length buf = 1024" "8 \<notin> set (file_content f (inode_at f inode))"
  shows "\<exists>s'. cat_main (kernel_os sched f addr ex) buf s = Some (s', 0) \<and>
    term_grid t s' = print_on (file_content f (inode_at f inode)) (term_grid t s)"
proof -
  let ?os = "kernel_os sched f addr ex" and ?c = "file_content f (inode_at f inode)"
  have c: "cur_pcb s \<noteq> 0" using assms(3) by (simp add: can_open_def)
  have "length (cstr (cmd_args (pcbs s (cur_pcb s)))) < 1024" using nul_after_cstr [OF assms(5)] assms(6) by linarith
  then obtain buf' where b: "sc_getargs ?os s buf 1024 = Some (s, buf', 0)" "length buf' = 1024"
    "cstr buf' = cstr (cmd_args (pcbs s (cur_pcb s)))"
    using kernel_getargs [OF c assms(5) _ assms(7)] by blast
  have "resolves f buf' FILE_TYPE_REG inode" by (rule resolves_cstr [OF assms(1) b(3)]) (simp add: readable_def b(2))
  then have o: "sc_open ?os s buf' = Some (opened s inode, int (free_fd s))"
    using sys_open_reg assms(3) by (simp add: kernel_os_def)
  note r = opened_reading [OF assms(3,4,2)]
  have p: "\<forall>c \<in> set (pieces_of 1024 ?c). 8 \<notin> set c" using assms(8) by (auto dest: pieces_of_member)
  obtain s' where "cat_loop ?os (int (free_fd s)) buf' (opened s inode) = Some (s', 0)"
    "term_grid t s' = fold print_on (pieces_of 1024 ?c) (term_grid t s)"
    using file_reader.cat_loop_copies [OF refl r(1), of buf' sched addr ex] p b(2) r(2,3) by auto
  then show ?thesis using b(1) o by (simp add: cat_main_def fold_print_on concat_pieces_of)
qed

section \<open>Reading a directory\<close>

text \<open>All names are shorter than 32 characters, so that \<open>dir_read\<close> does not run into the type behind the name.\<close>

definition short_names :: "fs \<Rightarrow> u32 \<Rightarrow> bool" where
  "short_names f n \<longleftrightarrow> num_dentries (img f) = Some n \<and> wf_dir f (unat n) \<and> (\<forall>i \<le> unat n. length (entry_name f i) < FILE_NAME_SIZE)"

definition reading_dir :: "fs \<Rightarrow> u32 \<Rightarrow> nat \<Rightarrow> nat \<Rightarrow> kstate \<Rightarrow> bool" where
  "reading_dir f n k t s \<longleftrightarrow> k \<noteq> 1 \<and> stdout_on t s \<and> fd_present s (int k) \<and> k < length (file_array (pcbs s (cur_pcb s))) \<and>
     bit (file_flags (get_file s (cur_pcb s, k))) 1 \<and> file_op (get_file s (cur_pcb s, k)) = Some dir_fops \<and>
     unat (file_pos (get_file s (cur_pcb s, k))) \<le> unat n + 1 \<and> short_names f n"

definition names_from :: "fs \<Rightarrow> u32 \<Rightarrow> nat \<Rightarrow> u8 list list" where
  "names_from f n i = takeWhile (\<lambda>c. c \<noteq> []) (map (entry_name f) [i..<unat n + 1])"

definition dir_pieces :: "fs \<Rightarrow> u32 \<Rightarrow> nat \<Rightarrow> kstate \<Rightarrow> u8 list list" where
  "dir_pieces f n k s = names_from f n (unat (file_pos (get_file s (cur_pcb s, k))))"

lemma names_from_step:
  "names_from f n i = (if i \<le> unat n \<and> entry_name f i \<noteq> [] then entry_name f i # names_from f n (Suc i) else [])"
  by (cases "i \<le> unat n") (simp_all add: names_from_def upt_conv_Cons del: upt_Suc)

lemma names_from_mem: "c \<in> set (names_from f n i) \<Longrightarrow> c \<noteq> [] \<and> (\<exists>k \<le> unat n. c = entry_name f k)"
  by (fastforce simp: names_from_def less_Suc_eq_le dest!: set_takeWhileD simp del: upt_Suc)

lemma dentry_by_index:
  assumes "num_dentries (img f) = Some n" "wf_dir f (unat n)" "unat i \<le> unat n"
  shows "\<exists>d ty m. read_dentry_by_index f i (replicate 64 0) = Some (d, 0) \<and> entry_type f (unat i) = Some ty \<and>
    d = take 32 (entry_name f (unat i)) @ replicate (32 - length (entry_name f (unat i))) 0 @ bytes32 ty @ bytes32 m @ replicate 24 0"
proof -
  let ?src = "drop (entries_at (unat i)) (img f)" and ?nm = "entry_name f (unat i)"
  note w = wf_dir_entry [OF assms(2,3)]
  let ?d = "take 32 ?nm @ replicate (32 - length ?nm) 0 @ replicate 32 (0 :: u8)"
  have 1: "strncpy (replicate 64 0) ?src 32 = Some ?d"
    using strncpy_eq [of 32 "replicate 64 0" ?src] w(3) by (simp add: entry_name_def)
  have d: "length ?d = 64" "take 32 ?d = take 32 ?nm @ replicate (32 - length ?nm) 0" "drop 40 ?d = replicate 24 0" by simp_all
  obtain ty m where "entry_type f (unat i) = Some ty"
    "set_type_inode f (entries_at (unat i)) ?d = Some (take 32 ?d @ bytes32 ty @ bytes32 m @ drop 40 ?d)"
    using set_type_inode_eq [OF w(1) d(1)] by blast
  moreover have "i \<le> n" using assms(3) by (simp add: word_le_nat_alt)
  ultimately show ?thesis using 1 d assms(1) by (auto simp: read_dentry_by_index_def)
qed

lemma dir_read_name:
  assumes "num_dentries (img f) = Some n" "wf_dir f (unat n)" "get_file_from_fd p fd = Some r"
    and "bit (file_flags (get_file s r)) 1" "i = unat (file_pos (get_file s r))" "i \<le> unat n" "length (entry_name f i) < 32" "32 \<le> length buf"
  shows "\<exists>buf'. dir_read f s p fd buf 32 =
      Some (upd_file r (\<lambda>fl. fl\<lparr>file_pos := file_pos fl + 1\<rparr>) s, buf', int (length (entry_name f i))) \<and>
    take (length (entry_name f i)) buf' = entry_name f i \<and> length buf' = length buf"
proof -
  let ?nm = "entry_name f i"
  obtain d ty m where d: "read_dentry_by_index f (file_pos (get_file s r)) (replicate 64 0) = Some (d, 0)"
    "d = ?nm @ replicate (32 - length ?nm) 0 @ bytes32 ty @ bytes32 m @ replicate 24 0"
    using dentry_by_index [OF assms(1,2), of "file_pos (get_file s r)"] assms(5-7) by auto
  have "replicate (32 - length ?nm) (0 :: u8) = 0 # replicate (31 - length ?nm) 0"
    using assms(7) by (simp add: replicate_Suc [symmetric] Suc_diff_le del: replicate_Suc)
  moreover have "0 \<notin> set ?nm" by (simp add: entry_name_def)
  ultimately have c: "cstr d = ?nm" "0 \<in> set d" by (simp_all add: d(2))
  let ?b = "?nm @ replicate (32 - length ?nm) 0 @ drop 32 buf"
  have "strncpy buf d 32 = Some ?b" using strncpy_eq [of 32 buf d] assms(7,8) c by simp
  moreover have "store ?b 31 0 = Some (?b[31 := 0])" using assms(7,8) by simp
  moreover have "strlen d = Some (length ?nm)" using c by (simp add: strlen_eq)
  ultimately have "dir_read f s p fd buf 32 = Some (upd_file r (\<lambda>fl. fl\<lparr>file_pos := file_pos fl + 1\<rparr>) s, ?b[31 := 0], int (length ?nm))"
    using assms(3,4) d(1) by (simp add: dir_read_def)
  moreover have "take (length ?nm) (?b[31 := 0]) = ?nm" using assms(7) by simp
  moreover have "length (?b[31 := 0]) = length buf" using assms(7,8) by simp
  ultimately show ?thesis by blast
qed

lemma dir_read_end:
  assumes "num_dentries (img f) = Some n" "get_file_from_fd p fd = Some r"
    and "bit (file_flags (get_file s r)) 1" "unat n < unat (file_pos (get_file s r))"
  shows "dir_read f s p fd buf nbytes = Some (s, buf, 0)"
proof -
  have "\<not> file_pos (get_file s r) \<le> n" using assms(4) by (simp add: word_le_nat_alt)
  then show ?thesis using assms by (simp add: dir_read_def read_dentry_by_index_def)
qed

lemma reading_dir_read:
  assumes "reading_dir f n k t s" "32 \<le> length buf"
  shows "\<exists>s' buf' c. sys_read sched f s (int k) (Some buf) 32 = Some (s', Some buf', int (length c)) \<and>
    take (length c) buf' = c \<and> length buf' = length buf \<and> reading_dir f n k t s' \<and> term_grid t s' = term_grid t s \<and>
    (dir_pieces f n k s = [] \<and> c = [] \<or> c \<noteq> [] \<and> dir_pieces f n k s = c # dir_pieces f n k s') \<and> (can_open s \<longrightarrow> can_open s')"
proof -
  let ?r = "(cur_pcb s, k)"
  let ?i = "unat (file_pos (get_file s ?r))" and ?s = "upd_file ?r (\<lambda>fl. fl\<lparr>file_pos := file_pos fl + 1\<rparr>) s"
  have o: "k \<noteq> 1" "stdout_on t s" "fd_present s (int k)" "k < length (file_array (pcbs s (cur_pcb s)))"
    "bit (file_flags (get_file s ?r)) 1" "file_op (get_file s ?r) = Some dir_fops" "?i \<le> unat n + 1"
    and w: "num_dentries (img f) = Some n" "wf_dir f (unat n)" "\<forall>i \<le> unat n. length (entry_name f i) < 32"
    using assms(1) by (simp_all add: reading_dir_def short_names_def)
  have g: "get_file_from_fd (Some (cur_pcb s)) (int k) = Some ?r" using o(3) by (simp add: get_file_from_fd_def fd_present_def)
  have rd: "sys_read sched f s (int k) (Some buf) 32 =
      map_option (\<lambda>(s, buf, ret). (s, Some buf, ret)) (dir_read f s (Some (cur_pcb s)) (int k) buf 32)"
    using fd_presentD [OF o(3)] o(6) by (simp add: sys_read_def fops_read_def)
  show ?thesis
  proof (cases "?i \<le> unat n")
    case False
    then have "dir_read f s (Some (cur_pcb s)) (int k) buf 32 = Some (s, buf, 0)"
      using dir_read_end [OF w(1) g o(5)] by simp
    moreover have "dir_pieces f n k s = []" using False by (simp add: dir_pieces_def names_from_step [of f n ?i])
    ultimately show ?thesis using rd assms(1) by auto
  next
    case True
    then obtain buf' where d: "dir_read f s (Some (cur_pcb s)) (int k) buf 32 = Some (?s, buf', int (length (entry_name f ?i)))"
      "take (length (entry_name f ?i)) buf' = entry_name f ?i" "length buf' = length buf"
      using dir_read_name [OF w(1,2) g o(5) refl True _ assms(2)] w(3) by blast
    have "unat n < 255" using w(2) by (simp add: wf_dir_def)
    then have i: "unat (file_pos (get_file s ?r) + 1) = Suc ?i" using True by (simp add: unat_word_ariths)
    have "reading_dir f n k t ?s"
      using o True i w stdout_on_upd_file [OF o(1)]
      by (simp add: reading_dir_def short_names_def fd_present_def fd_used_def)
    moreover have "dir_pieces f n k ?s = names_from f n (Suc ?i)" using o(4) i by (simp add: dir_pieces_def)
    moreover have "dir_pieces f n k s = (if entry_name f ?i \<noteq> [] then entry_name f ?i # names_from f n (Suc ?i) else [])"
      using True by (simp add: dir_pieces_def names_from_step [of f n ?i])
    moreover have "fd_used (pcbs ?s (cur_pcb s)) j = fd_used (pcbs s (cur_pcb s)) j" for j
      using o(4) by (cases "j = k") (simp_all add: fd_used_def)
    then have "can_open s \<longrightarrow> can_open ?s" by (simp add: can_open_def)
    ultimately show ?thesis
      using rd d stdout_on_upd_file(2) [OF o(1)]
      by (intro exI [of _ ?s] exI [of _ buf'] exI [of _ "entry_name f ?i"]) simp
  qed
qed

lemma reading_dir_screen:
  assumes "reading_dir f n k t s" "only_screen t s s'" "stdout_on t s'"
  shows "reading_dir f n k t s'" "dir_pieces f n k s' = dir_pieces f n k s"
proof -
  have e: "pcbs s' = pcbs s" "cur_pcb s' = cur_pcb s" using assms(2) by (simp_all add: only_screen_def)
  have "fd_present s' d = fd_present s d" for d unfolding fd_present_def e by (rule refl)
  then show "reading_dir f n k t s'" "dir_pieces f n k s' = dir_pieces f n k s"
    using assms(1,3) by (simp_all add: reading_dir_def dir_pieces_def e get_file_same [OF e(1)])
qed

interpretation dir_reader: piece_reader "kernel_os sched f addr ex" "reading_dir f n k t" "dir_pieces f n k"
  "term_grid t" print_on "\<lambda>cs. 8 \<notin> set cs" "int k" 32 for sched f addr ex n k t
proof
  fix s c cs and buf :: "u8 list"
  assume a: "reading_dir f n k t s" "dir_pieces f n k s = c # cs" "32 \<le> length buf"
  then show "\<exists>s' buf'. sc_read (kernel_os sched f addr ex) s (int k) buf (int 32) = Some (s', buf', int (length c)) \<and>
      take (length c) buf' = c \<and> length buf' = length buf \<and> reading_dir f n k t s' \<and> dir_pieces f n k s' = cs \<and>
      term_grid t s' = term_grid t s"
    using reading_dir_read [OF a(1,3), of sched] by (auto simp: kernel_os_def)
next
  fix s and buf :: "u8 list"
  assume a: "reading_dir f n k t s" "dir_pieces f n k s = []" "32 \<le> length buf"
  then show "\<exists>s' buf'. sc_read (kernel_os sched f addr ex) s (int k) buf (int 32) = Some (s', buf', 0) \<and>
      reading_dir f n k t s' \<and> term_grid t s' = term_grid t s"
    using reading_dir_read [OF a(1,3), of sched] by (auto simp: kernel_os_def)
next
  fix s c
  assume a: "reading_dir f n k t s" "c \<in> set (dir_pieces f n k s)"
  then obtain i where "c = entry_name f i" "i \<le> unat n" "c \<noteq> []" by (auto simp: dir_pieces_def dest!: names_from_mem)
  then show "c \<noteq> [] \<and> length c \<le> 32" using a(1) by (auto simp: reading_dir_def short_names_def intro: less_imp_le)
next
  fix s m and buf :: "u8 list"
  assume a: "reading_dir f n k t s" "m \<le> length buf" "8 \<notin> set (take m buf)"
  then have "stdout_on t s" by (simp add: reading_dir_def)
  from kernel_write [OF this a(2,3)] reading_dir_screen [OF a(1)]
  show "\<exists>s'. sc_write (kernel_os sched f addr ex) s 1 buf (int m) = Some (s', int m) \<and> reading_dir f n k t s' \<and>
      dir_pieces f n k s' = dir_pieces f n k s \<and> term_grid t s' = print_on (take m buf) (term_grid t s)"
    by blast
qed (use ascii_no_backspace in \<open>auto simp: print_on_append\<close>, simp_all add: print_on_def)

section \<open>ls\<close>

lemma opened_reading_dir:
  assumes "can_open s" "stdout_on t s" "short_names f n"
  shows "reading_dir f n (free_fd s) t (opened_as dir_fops s inode)" "term_grid t (opened_as dir_fops s inode) = term_grid t s"
    "dir_pieces f n (free_fd s) (opened_as dir_fops s inode) = names_from f n 0"
proof -
  have "fd_used (pcbs s (cur_pcb s)) 1" using assms(2) by (simp add: stdout_on_def fd_present_def)
  then have k: "free_fd s \<noteq> 1" using free_fd_less(2) [OF assms(1)] by metis
  note o = opened_present [OF assms(1), of dir_fops inode] get_file_opened [OF assms(1), of dir_fops inode] free_fd_less(1) [OF assms(1)]
  have "stdout_on t (opened_as dir_fops s inode)" unfolding opened_as_def using stdout_on_upd_file(1) [OF k] assms(2) by simp
  then show "reading_dir f n (free_fd s) t (opened_as dir_fops s inode)"
    using k o assms(3) by (simp add: reading_dir_def bit_or_iff)
  show "term_grid t (opened_as dir_fops s inode) = term_grid t s" unfolding opened_as_def by (rule stdout_on_upd_file(2) [OF k])
  show "dir_pieces f n (free_fd s) (opened_as dir_fops s inode) = names_from f n 0" using o by (simp add: dir_pieces_def)
qed


section \<open>Standard input\<close>

abbreviation (input) with_keys :: "nat \<Rightarrow> u8 circ_buf \<Rightarrow> kstate \<Rightarrow> kstate" where
  "with_keys t q \<equiv> upd_term (Term t) (\<lambda>x. x\<lparr>key_buf := q\<rparr>)"

text \<open>A line without backspaces and cleared screens is read without touching the screen.\<close>

lemma term_read_loop_plain:
  assumes "keys s t = w @ 10 # rest" "{0, 8, 10} \<inter> set w = {}" "term_ok s t"
    and "int (idx + length w) < nbytes" "nbytes \<le> int (length buf)"
  shows "\<exists>q buf'. term_read_loop sched i t nbytes c idx buf s = Some (with_keys t q s, buf', int (idx + length w + 1)) \<and>
    take (idx + length w + 1) buf' = take idx buf @ w @ [10] \<and> length buf' = length buf \<and> circ_inv q \<and> circ_list q = rest"
  using assms
proof (induction w arbitrary: s idx buf c)
  case Nil
  obtain q r where pop: "CIRC_BUF_POP (key_buf (term_terms s ! t)) = (q, r)" by fastforce
  have q: "circ_inv q" "r = Some 10" "circ_list q = rest"
    using circ_pop_ok [OF _ _ pop, of 10 rest] Nil.prems(1,3) by (simp_all add: term_ok_def keys_def)
  have l: "idx < length buf" using Nil.prems(4,5) by simp
  have "term_read_loop sched i t nbytes c idx buf s = Some (with_keys t q s, buf[idx := 10], int (idx + 1))"
    using pop q(2) l by (subst term_read_loop.simps) (simp add: read_key_def)
  then show ?case using q l by (auto simp: take_Suc_conv_app_nth)
next
  case (Cons k w)
  obtain q r where pop: "CIRC_BUF_POP (key_buf (term_terms s ! t)) = (q, r)" by fastforce
  have q: "circ_inv q" "r = Some k" "circ_list q = w @ 10 # rest"
    using circ_pop_ok [OF _ _ pop, of k "w @ 10 # rest"] Cons.prems(1,3) by (simp_all add: term_ok_def keys_def)
  have k: "k \<noteq> 8" "k \<noteq> 0" "k \<noteq> 10" using Cons.prems(2) by auto
  have l: "idx < length buf" "t < length (term_terms s)" using Cons.prems(3-5) by (simp_all add: term_ok_def)
  have step: "term_read_loop sched i t nbytes c idx buf s = term_read_loop sched i t nbytes k (idx + 1) (buf[idx := k]) (with_keys t q s)"
    using pop q(2) l k Cons.prems(4) by (subst term_read_loop.simps) (simp add: read_key_def)
  have "keys (with_keys t q s) t = w @ 10 # rest" "term_ok (with_keys t q s) t"
    using q l by (simp_all add: keys_def term_ok_def)
  from Cons.IH [OF this(1) _ this(2), of "idx + 1" "buf[idx := k]" k]
  obtain q' buf' where "term_read_loop sched i t nbytes k (idx + 1) (buf[idx := k]) (with_keys t q s) =
      Some (with_keys t q' (with_keys t q s), buf', int (idx + 1 + length w + 1))"
    "take (idx + 1 + length w + 1) buf' = take (idx + 1) (buf[idx := k]) @ w @ [10]" "length buf' = length buf"
    "circ_inv q'" "circ_list q' = rest"
    using Cons.prems(2,4,5) by auto
  then show ?case using step l by (auto simp: take_Suc_conv_app_nth)
qed

function typed_lines :: "u8 list \<Rightarrow> u8 list list" where
  "typed_lines ks = (if 10 \<in> set ks then (takeWhile (\<lambda>c. c \<noteq> 10) ks @ [10]) # typed_lines (tl (dropWhile (\<lambda>c. c \<noteq> 10) ks)) else [])"
  by pat_completeness auto
termination
proof (relation "measure length")
  fix ks :: "u8 list"
  assume "10 \<in> set ks"
  then have "dropWhile (\<lambda>c. c \<noteq> 10) ks \<noteq> []" by (simp add: dropWhile_eq_Nil_conv)
  then have "length (tl (dropWhile (\<lambda>c. c \<noteq> 10) ks)) < length (dropWhile (\<lambda>c. c \<noteq> 10) ks)" by simp
  also have "\<dots> \<le> length ks" by (rule length_dropWhile_le)
  finally show "(tl (dropWhile (\<lambda>c. c \<noteq> 10) ks), ks) \<in> measure length" by simp
qed simp

declare typed_lines.simps [simp del]

lemma typed_lines_Cons:
  assumes "typed_lines ks = l # ls"
  obtains w rest where "l = w @ [10]" "ks = w @ 10 # rest" "10 \<notin> set w" "typed_lines rest = ls"
proof -
  let ?w = "takeWhile (\<lambda>c. c \<noteq> 10) ks" and ?d = "dropWhile (\<lambda>c. c \<noteq> 10) ks"
  have a: "10 \<in> set ks" "l = ?w @ [10]" "ls = typed_lines (tl ?d)"
    using assms typed_lines.simps [of ks] by (auto split: if_splits)
  have "?d \<noteq> []" using a(1) by (simp add: dropWhile_eq_Nil_conv)
  moreover have "hd ?d = 10" using hd_dropWhile [OF calculation] by simp
  ultimately have "?d = 10 # tl ?d" by (metis list.collapse)
  then have "ks = ?w @ 10 # tl ?d" by (metis takeWhile_dropWhile_id)
  moreover have "10 \<notin> set ?w" by (auto dest: set_takeWhileD)
  ultimately show thesis using that a(2,3) by blast
qed

lemma typed_lines_line: "10 \<notin> set w \<Longrightarrow> typed_lines (w @ 10 # rest) = (w @ [10]) # typed_lines rest"
  by (subst typed_lines.simps) (simp add: takeWhile_append dropWhile_append)

lemma typed_lines_member:
  assumes "l \<in> set (typed_lines ks)"
  shows "\<exists>w. l = w @ [10] \<and> 10 \<notin> set w \<and> set w \<subseteq> set ks \<and> length w < length ks"
  using assms
proof (induction "typed_lines ks" arbitrary: ks)
  case (Cons l' ls)
  obtain w rest where w: "l' = w @ [10]" "ks = w @ 10 # rest" "10 \<notin> set w" "typed_lines rest = ls"
    using typed_lines_Cons [OF Cons.hyps(2) [symmetric]] .
  show ?case
  proof (cases "l = l'")
    case False
    then have "l \<in> set (typed_lines rest)" using Cons.prems Cons.hyps(2) w(4) by (metis set_ConsD)
    from Cons.hyps(1) [OF w(4) [symmetric] this] show ?thesis using w(2) by auto
  qed (use w in auto)
qed simp

text \<open>The running process is at terminal \<open>t\<close> with plain lines typed ahead.\<close>

definition at_terminal :: "nat \<Rightarrow> kstate \<Rightarrow> bool" where
  "at_terminal t s \<longleftrightarrow> stdout_on t s \<and> fd_present s 0 \<and> file_op (get_file s (cur_pcb s, 0)) = Some term_fops \<and>
     term_ok s t \<and> {0, 8} \<inter> set (keys s t) = {} \<and> length (keys s t) \<le> 1023"

lemma with_keys_same:
  assumes "t < length (term_terms s)"
  shows "stdout_on t (with_keys t q s) = stdout_on t s" "term_grid t (with_keys t q s) = term_grid t s"
    "fd_present (with_keys t q s) d = fd_present s d" "get_file (with_keys t q s) r = get_file s r" "cur_pcb (with_keys t q s) = cur_pcb s"
proof -
  have g: "get_term_ctx (with_keys t q s) p = get_term_ctx s p" for p by (rule get_term_ctx_same) simp_all
  show p: "fd_present (with_keys t q s) d = fd_present s d" "get_file (with_keys t q s) r = get_file s r"
    "cur_pcb (with_keys t q s) = cur_pcb s" for d r
    by (simp_all add: fd_present_def get_file_def split: prod.splits)
  have c: "term_console (with_keys t q s) t = term_console s t" using assms by (simp add: term_console_def)
  show "stdout_on t (with_keys t q s) = stdout_on t s" using p g c by (simp add: stdout_on_def)
  show "term_grid t (with_keys t q s) = term_grid t s" using c by (simp add: term_grid_def)
qed

lemma at_terminal_read:
  assumes "at_terminal t s" "typed_lines (keys s t) = l # ls" "length l \<le> n" "n \<le> length buf"
  shows "\<exists>s' buf'. sys_read sched f s 0 (Some buf) (int n) = Some (s', Some buf', int (length l)) \<and> take (length l) buf' = l \<and>
    length buf' = length buf \<and> at_terminal t s' \<and> typed_lines (keys s' t) = ls \<and> term_grid t s' = term_grid t s \<and>
    pcbs s' = pcbs s \<and> cur_pcb s' = cur_pcb s"
proof -
  obtain w rest where w: "l = w @ [10]" "keys s t = w @ 10 # rest" "10 \<notin> set w" "typed_lines rest = ls"
    using typed_lines_Cons [OF assms(2)] .
  have a: "fd_present s 0" "file_op (get_file s (cur_pcb s, 0)) = Some term_fops" "term_ok s t" "{0, 8} \<inter> set (keys s t) = {}"
    "length (keys s t) \<le> 1023" "stdout_on t s" "t < length (term_terms s)" "get_term_ctx s (Some (cur_pcb s)) = Some (Some t)"
    using assms(1) by (simp_all add: at_terminal_def stdout_on_def)
  have "{0, 8, 10} \<inter> set w = {}" "int (0 + length w) < int n" using a(4) w assms(3) by auto
  then obtain q buf' where r: "term_read_loop sched 0 t (int n) 0 0 buf s = Some (with_keys t q s, buf', int (length w + 1))"
    "take (length w + 1) buf' = w @ [10]" "length buf' = length buf" "circ_inv q" "circ_list q = rest"
    using term_read_loop_plain [OF w(2) _ a(3), of 0 "int n" buf sched 0 0] assms(4) by auto
  have "sys_read sched f s 0 (Some buf) (int n) = Some (with_keys t q s, Some buf', int (length l))"
    using fd_presentD [OF a(1)] a(2,8) r(1) w(1) by (simp add: sys_read_def fops_read_def term_read_def)
  moreover have k: "keys (with_keys t q s) t = rest" "term_ok (with_keys t q s) t"
    using r(4,5) a(7) by (simp_all add: keys_def term_ok_def)
  moreover have "at_terminal t (with_keys t q s)"
    unfolding at_terminal_def with_keys_same [OF a(7)] k(1) using a k(2) w(2) by auto
  ultimately show ?thesis using r(2,3) w(1,4) with_keys_same(2) [OF a(7)] by (intro exI [of _ "with_keys t q s"] exI [of _ buf']) simp
qed

lemma at_terminal_screen:
  assumes "at_terminal t s" "only_screen t s s'" "stdout_on t s'"
  shows "at_terminal t s'" "keys s' t = keys s t"
proof -
  have e: "pcbs s' = pcbs s" "cur_pcb s' = cur_pcb s" "key_buf (term_terms s' ! t) = key_buf (term_terms s ! t)"
    "length (term_terms s') = length (term_terms s)"
    using assms(2) by (simp_all add: only_screen_def)
  have "fd_present s' d = fd_present s d" for d unfolding fd_present_def e by (rule refl)
  then show "at_terminal t s'" "keys s' t = keys s t"
    using assms(1,3) by (simp_all add: at_terminal_def keys_def term_ok_def e get_file_same [OF e(1)])
qed

lemma at_terminal_write:
  assumes "at_terminal t s" "n \<le> length buf" "8 \<notin> set (take n buf)"
  shows "\<exists>s'. sc_write (kernel_os sched f addr ex) s 1 buf (int n) = Some (s', int n) \<and> at_terminal t s' \<and> keys s' t = keys s t \<and>
    term_grid t s' = print_on (take n buf) (term_grid t s) \<and> pcbs s' = pcbs s \<and> cur_pcb s' = cur_pcb s"
proof -
  have "stdout_on t s" using assms(1) by (simp add: at_terminal_def)
  from kernel_write [OF this assms(2,3), of sched f addr ex]
  obtain s' where "sc_write (kernel_os sched f addr ex) s 1 buf (int n) = Some (s', int n)" "stdout_on t s'"
    "term_grid t s' = print_on (take n buf) (term_grid t s)" "only_screen t s s'" by blast
  with at_terminal_screen [OF assms(1)] show ?thesis by (auto simp: only_screen_def)
qed

lemma at_terminal_line:
  assumes "at_terminal t s" "l \<in> set (typed_lines (keys s t))"
  shows "\<exists>w. l = w @ [10] \<and> 0 \<notin> set w \<and> 10 \<notin> set w \<and> 8 \<notin> set w \<and> length w < 1023"
  using typed_lines_member [OF assms(2)] assms(1) by (auto simp: at_terminal_def)

interpretation terminal: line_terminal "kernel_os sched f addr ex" "at_terminal t" "\<lambda>s. typed_lines (keys s t)"
  "term_grid t" print_on "\<lambda>cs. 8 \<notin> set cs" for sched f addr ex t
proof
  fix s l ls n and buf :: "u8 list"
  assume "at_terminal t s" "typed_lines (keys s t) = l # ls" "length l \<le> n" "n \<le> length buf"
  from at_terminal_read [OF this, of sched f]
  show "\<exists>s' buf'. sc_read (kernel_os sched f addr ex) s 0 buf (int n) = Some (s', buf', int (length l)) \<and> take (length l) buf' = l \<and>
      length buf' = length buf \<and> at_terminal t s' \<and> typed_lines (keys s' t) = ls \<and> term_grid t s' = term_grid t s"
    by (auto simp: kernel_os_def)
next
  fix s n and buf :: "u8 list"
  assume "at_terminal t s" "n \<le> length buf" "8 \<notin> set (take n buf)"
  from at_terminal_write [OF this, of sched f addr ex]
  show "\<exists>s'. sc_write (kernel_os sched f addr ex) s 1 buf (int n) = Some (s', int n) \<and> at_terminal t s' \<and>
      typed_lines (keys s' t) = typed_lines (keys s t) \<and> term_grid t s' = print_on (take n buf) (term_grid t s)"
    by metis
qed (use at_terminal_line ascii_no_backspace in \<open>auto simp: print_on_append\<close>, simp_all add: print_on_def)

text \<open>The same terminal for a process whose control blocks do not change.\<close>

definition at_terminal_of :: "nat \<Rightarrow> (pcb_ptr \<Rightarrow> pcb) \<Rightarrow> pcb_ptr \<Rightarrow> kstate \<Rightarrow> bool" where
  "at_terminal_of t bs p s \<longleftrightarrow> at_terminal t s \<and> pcbs s = bs \<and> cur_pcb s = p"

interpretation fixed_terminal: line_terminal "kernel_os sched f addr ex" "at_terminal_of t bs p" "\<lambda>s. typed_lines (keys s t)"
  "term_grid t" print_on "\<lambda>cs. 8 \<notin> set cs" for sched f addr ex t bs p
proof
  fix s l ls n and buf :: "u8 list"
  assume a: "at_terminal_of t bs p s" "typed_lines (keys s t) = l # ls" "length l \<le> n" "n \<le> length buf"
  then have "at_terminal t s" by (simp add: at_terminal_of_def)
  from at_terminal_read [OF this a(2-4), of sched f] a(1)
  show "\<exists>s' buf'. sc_read (kernel_os sched f addr ex) s 0 buf (int n) = Some (s', buf', int (length l)) \<and> take (length l) buf' = l \<and>
      length buf' = length buf \<and> at_terminal_of t bs p s' \<and> typed_lines (keys s' t) = ls \<and> term_grid t s' = term_grid t s"
    by (auto simp: kernel_os_def at_terminal_of_def)
next
  fix s n and buf :: "u8 list"
  assume a: "at_terminal_of t bs p s" "n \<le> length buf" "8 \<notin> set (take n buf)"
  then have "at_terminal t s" by (simp add: at_terminal_of_def)
  from at_terminal_write [OF this a(2,3), of sched f addr ex] a(1)
  show "\<exists>s'. sc_write (kernel_os sched f addr ex) s 1 buf (int n) = Some (s', int n) \<and> at_terminal_of t bs p s' \<and>
      typed_lines (keys s' t) = typed_lines (keys s t) \<and> term_grid t s' = print_on (take n buf) (term_grid t s)"
    unfolding at_terminal_of_def by metis
qed (use at_terminal_line ascii_no_backspace in \<open>auto simp: print_on_append at_terminal_of_def\<close>, simp_all add: print_on_def)

text \<open>The lines that \<open>ws\<close> are when they are typed.\<close>

definition type_lines :: "u8 list list \<Rightarrow> u8 list" where
  "type_lines ws = concat (map (\<lambda>w. w @ [10]) ws)"

lemma typed_lines_type_lines:
  assumes "\<forall>w \<in> set ws. 10 \<notin> set w"
  shows "typed_lines (type_lines ws) = map (\<lambda>w. w @ [10]) ws"
  using assms
proof (induction ws)
  case Nil
  then show ?case by (simp add: type_lines_def typed_lines.simps)
next
  case (Cons w ws)
  then show ?case using typed_lines_line [of w "type_lines ws"] by (simp add: type_lines_def)
qed

text \<open>What executed commands do: print something on the terminal, leave its keys alone and return a status.\<close>

definition commands_print ::
  "nat \<Rightarrow> (u8 list \<Rightarrow> u8 list \<times> int) \<Rightarrow> (kstate \<Rightarrow> u8 list \<Rightarrow> (kstate \<times> int) option) \<Rightarrow> bool" where
  "commands_print t command ex \<longleftrightarrow> (\<forall>s buf. at_terminal t s \<and> 0 \<in> set buf \<and> length buf = 1024 \<longrightarrow>
     (\<exists>s'. ex s buf = Some (s', snd (command (cstr buf))) \<and> at_terminal t s' \<and> keys s' t = keys s t \<and>
       term_grid t s' = print_on (fst (command (cstr buf))) (term_grid t s)))"

section \<open>Shell, hello, counter\<close>


text \<open>
  \<open>counter\<close> on the kernel: after one typed line the program ends with status 0; for the line 0, 1 or 2 it prints the numbers from
  1 to 100, 10000 or 100000 in decimal, a line each. A line of another length is rejected with a message, but any
  other single character is not: nothing is counted and nothing is said.\<close>

theorem counter_prints_numbers:
  assumes "at_terminal t s" "keys s t = w @ 10 # ks" "10 \<notin> set w" "length buf = 1024"
  shows "\<exists>s'. counter_main (kernel_os sched f addr ex) buf s = Some (s', 0) \<and>
    term_grid t s' = print_on (counter_output w) (term_grid t s)"
  using terminal.counter_counts [OF assms(1) _ assms(4), of w] typed_lines_line [OF assms(3)] assms(2) by fastforce

text \<open>\<open>hello\<close> on the kernel greets with the line that was typed.\<close>

theorem hello_greets_name:
  assumes "at_terminal t s" "keys s t = w @ 10 # ks" "10 \<notin> set w" "length buf = 1024"
  shows "\<exists>s'. hello_main (kernel_os sched f addr ex) buf s = Some (s', 0) \<and>
    term_grid t s' = print_on (chars (''Hi, what'' @ [CHR 0x27] @ ''s your name? '') @ chars ''Hello, '' @ w @ [10]) (term_grid t s)"
  using terminal.hello_greets [OF assms(1) _ assms(4), of w] typed_lines_line [OF assms(3)] assms(2) by fastforce

section \<open>A sample process\<close>

text \<open>Process 3 on terminal 0, started with the arguments \<open>args\<close>, and the keys \<open>ks\<close> typed.\<close>

definition sample_user :: "u8 list \<Rightarrow> u8 list \<Rightarrow> kstate" where
  "sample_user args ks = upd_term (Term 0) (\<lambda>t. t\<lparr>key_buf := fold (\<lambda>c q. fst (CIRC_BUF_PUSH q c)) ks (key_buf t)\<rparr>)
     (upd_pcb 3 (\<lambda>b. b\<lparr>term_ctx := Some 0, cmd_args := args\<rparr>) sample_kstate)"

lemma sample_user_pcb:
  "cur_pcb (sample_user args ks) = 3" "pcbs (sample_user args ks) 3 = (pcbs sample_kstate 3)\<lparr>term_ctx := Some 0, cmd_args := args\<rparr>"
  "term_terms (sample_user args ks) = (term_terms zero_kstate)[0 := (term_terms zero_kstate ! 0)\<lparr>key_buf :=
     fold (\<lambda>c q. fst (CIRC_BUF_PUSH q c)) ks (key_buf (term_terms zero_kstate ! 0))\<rparr>]"
  by (simp_all add: sample_user_def sample_kstate_def upd_pcb_def upd_file_def Let_def)

lemma sample_user_ctx: "get_term_ctx (sample_user args ks) (Some 3) = Some (Some 0)"
proof -
  have "parent (pcbs (sample_user args ks) 3) = None"
    by (simp add: sample_user_pcb sample_kstate_def upd_pcb_def upd_file_def Let_def zero_kstate_def zero_pcb_def)
  then have "root_pcb (pcbs (sample_user args ks)) 3 = Some 3" by (subst root_pcb.simps) simp
  then show ?thesis by (simp add: get_term_ctx_def sample_user_pcb)
qed

lemma sample_user_files:
  "can_open (sample_user args ks)" "stdout_on 0 (sample_user args ks)" "fd_present (sample_user args ks) 0"
  "file_op (get_file (sample_user args ks) (3, 0)) = Some term_fops"
proof -
  let ?s = "sample_user args ks"
  have u: "fd_used (pcbs ?s 3) = fd_used (pcbs sample_kstate 3)" by (simp add: fun_eq_iff fd_used_def sample_user_pcb)
  have "fd_used (pcbs sample_kstate 3) k" if "k < 2" for k
    using not_less_Least [of k "\<lambda>k. \<not> fd_used (pcbs sample_kstate 3) k"] that sample_least(1) by simp
  then have p: "fd_used (pcbs ?s 3) 0" "fd_used (pcbs ?s 3) 1" unfolding u by simp_all
  show "can_open ?s" using sample_least(2) unfolding can_open_def sample_user_pcb(1) u by (simp add: sample_user_pcb sample_file_array)
  show "fd_present ?s 0" using p by (simp add: fd_present_def sample_user_pcb(1))
  show "file_op (get_file ?s (3, 0)) = Some term_fops" by (simp add: get_file_def sample_user_pcb sample_file_array)
  have "fd_present ?s 1" using p by (simp add: fd_present_def sample_user_pcb(1))
  moreover have "file_op (get_file ?s (3, 1)) = Some term_fops" by (simp add: get_file_def sample_user_pcb sample_file_array)
  moreover have "0 < length (term_terms ?s)" "console_inv (term_console ?s 0)"
    by (simp_all add: term_console_def sample_user_pcb zero_kstate_def console_inv_def screen_console_def zero_term_def)
  ultimately show "stdout_on 0 ?s" using sample_user_ctx by (simp add: stdout_on_def sample_user_pcb(1))
qed

lemma sample_user_free_fd: "free_fd (sample_user args ks) = 2"
proof -
  have u: "fd_used (pcbs (sample_user args ks) 3) = fd_used (pcbs sample_kstate 3)" by (simp add: fun_eq_iff fd_used_def sample_user_pcb)
  show ?thesis using sample_least(1) unfolding free_fd_def sample_user_pcb(1) u .
qed

lemma sample_user_terminal:
  assumes "length ks \<le> 127" "0 \<notin> set ks" "8 \<notin> set ks"
  shows "at_terminal 0 (sample_user args ks)" "keys (sample_user args ks) 0 = ks"
proof -
  have "circ_inv (CIRC_BUF_TYPE (0 :: u8) 128)" by (rule circ_inv_fresh) simp
  from circ.enq_many [OF this, of ks] assms(1)
  have k: "term_ok (sample_user args ks) 0" "keys (sample_user args ks) 0 = ks"
    by (simp_all add: sample_user_pcb zero_kstate_def zero_term_def term_ok_def keys_def circ_simps)
  then show "at_terminal 0 (sample_user args ks)" "keys (sample_user args ks) 0 = ks"
    using sample_user_files [of args ks] assms by (simp_all add: at_terminal_def sample_user_pcb(1))
qed

theorem cat_prints_file_witness:
  "\<exists>s'. cat_main (kernel_os (\<lambda>i s. s) (sample_fs 0) sample_layout (\<lambda>s b. None)) (replicate 1024 0)
       (sample_user (chars ''shell'' @ [0]) []) = Some (s', 0) \<and>
     term_grid 0 s' = print_on (file_content (sample_fs 0) 4096) (term_grid 0 (sample_user (chars ''shell'' @ [0]) []))"
proof -
  let ?s = "sample_user (chars ''shell'' @ [0]) []"
  have a: "cmd_args (pcbs ?s (cur_pcb ?s)) = chars ''shell'' @ [0]" by (simp add: sample_user_pcb)
  have "set (bytes32 3) \<union> set (bytes32 0) = {0, 3}" by code_simp
  then have "8 \<notin> set (file_content (sample_fs 0) (inode_at (sample_fs 0) 0))" by (auto simp: sample_inode_at sample_content)
  then show ?thesis
    using cat_prints_file [of "sample_fs 0" ?s 0 0 "replicate 1024 0" "\<lambda>i s. s" sample_layout "\<lambda>s b. None"]
      sample_resolves [of 0] sample_user_files [of "chars ''shell'' @ [0]" "[]"] unfolding a
    by (simp add: chars_def sample_inode_at)
qed


theorem counter_prints_numbers_witness:
  "\<exists>s'. counter_main (kernel_os (\<lambda>i s. s) (sample_fs 0) sample_layout (\<lambda>s b. None)) (replicate 1024 0) (sample_user [] [48, 10]) = Some (s', 0) \<and>
     term_grid 0 s' = print_on (counter_output [48]) (term_grid 0 (sample_user [] [48, 10]))"
  using counter_prints_numbers [of 0 "sample_user [] [48, 10]" "[48]" "[]" "replicate 1024 0" "\<lambda>i s. s" "sample_fs 0" sample_layout "\<lambda>s b. None"]
    sample_user_terminal [of "[48, 10]" "[]"] by simp

theorem hello_greets_name_witness:
  "\<exists>s'. hello_main (kernel_os (\<lambda>i s. s) (sample_fs 0) sample_layout (\<lambda>s b. None)) (replicate 1024 0) (sample_user [] [65, 10]) = Some (s', 0)"
  using hello_greets_name [of 0 "sample_user [] [65, 10]" "[65]" "[]" "replicate 1024 0" "\<lambda>i s. s" "sample_fs 0" sample_layout "\<lambda>s b. None"]
    sample_user_terminal [of "[65, 10]" "[]"] by auto

section \<open>A sample directory\<close>

text \<open>A boot block with one entry, of the name and type given.\<close>

definition dir_fs :: "u8 list \<Rightarrow> u32 \<Rightarrow> fs" where
  "dir_fs nm ty = \<lparr>img = bytes32 1 @ replicate 60 0 @ (nm @ replicate (32 - length nm) 0 @ bytes32 ty @ replicate 28 0) @ replicate 3968 0,
     node_head = 4096, data_head = 4096\<rparr>"

lemma dir_fs_entries:
  assumes "length nm \<le> 32"
  shows "drop 64 (img (dir_fs nm ty)) = nm @ replicate (32 - length nm) 0 @ bytes32 ty @ replicate 28 0 @ replicate 3968 0"
    "drop 128 (img (dir_fs nm ty)) = replicate 3968 0" "length (img (dir_fs nm ty)) = 4096" "num_dentries (img (dir_fs nm ty)) = Some 1"
    "entry_type (dir_fs nm ty) 0 = Some ty" "entry_inode (dir_fs nm ty) 0 = Some 0"
proof -
  let ?m = "img (dir_fs nm ty)"
  show d: "drop 64 ?m = nm @ replicate (32 - length nm) 0 @ bytes32 ty @ replicate 28 0 @ replicate 3968 0" by (simp add: dir_fs_def)
  have "drop 128 ?m = drop 64 (drop 64 ?m)" by simp
  then show "drop 128 ?m = replicate 3968 0" unfolding d using assms by simp
  show l: "length ?m = 4096" using assms by (simp add: dir_fs_def)
  show "num_dentries ?m = Some 1" unfolding num_dentries_def
    by (rule rd32_append [of 0 _ _ "drop 4 ?m"]) (simp_all add: dir_fs_def)
  have "drop 96 ?m = drop 32 (drop 64 ?m)" by simp
  then have "drop 96 ?m = bytes32 ty @ replicate 28 0 @ replicate 3968 0" unfolding d using assms by simp
  then show "entry_type (dir_fs nm ty) 0 = Some ty" unfolding entry_type_def entries_at_def by (intro rd32_append) (use l in simp_all)
  have "drop 100 ?m = drop 36 (drop 64 ?m)" by simp
  then have "drop 100 ?m = bytes32 0 @ replicate 24 0 @ replicate 3968 0"
    unfolding d using assms by (simp add: bytes32_def numeral_eq_Suc)
  then show "entry_inode (dir_fs nm ty) 0 = Some 0" unfolding entry_inode_def entries_at_def by (intro rd32_append) (use l in simp_all)
qed

lemma dir_fs_names:
  assumes "length nm \<le> 32" "0 \<notin> set nm"
  shows "entry_name (dir_fs nm ty) 0 = (if length nm < 32 then nm else nm @ cstr (bytes32 ty @ [0]))" "entry_name (dir_fs nm ty) (Suc 0) = []"
    "cstr (bytes32 ty) \<noteq> bytes32 ty \<Longrightarrow> wf_dir (dir_fs nm ty) 1"
proof -
  let ?m = "img (dir_fs nm ty)"
  note d = dir_fs_entries [OF assms(1), of ty]
  have c: "cstr (nm @ xs) = nm @ cstr xs" for xs using assms(2) by (simp add: cstr_def takeWhile_append)
  have z: "cstr (bytes32 ty @ replicate 28 0 @ replicate 3968 0) = cstr (bytes32 ty @ [0])" by (simp add: bytes32_def numeral_eq_Suc)
  have "replicate (32 - length nm) (0 :: u8) = 0 # replicate (31 - length nm) 0" if "length nm < 32"
    using that by (simp add: replicate_Suc [symmetric] Suc_diff_le del: replicate_Suc)
  then show 0: "entry_name (dir_fs nm ty) 0 = (if length nm < 32 then nm else nm @ cstr (bytes32 ty @ [0]))"
    using assms(1) by (auto simp: entry_name_def entries_at_def d(1) c z simp del: append_assoc)
  have "replicate 3968 (0 :: u8) = 0 # replicate 3967 0" by (simp add: replicate_Suc [symmetric] del: replicate_Suc)
  then show 1: "entry_name (dir_fs nm ty) (Suc 0) = []" by (simp add: entry_name_def entries_at_def d(2))
  show "wf_dir (dir_fs nm ty) 1" if "cstr (bytes32 ty) \<noteq> bytes32 ty"
  proof -
    have "length (cstr (bytes32 ty @ [0])) < 4" using that by (simp add: bytes32_def split: if_splits)
    then have "length (entry_name (dir_fs nm ty) i) < 36 \<and> 0 \<in> set (drop (entries_at i) ?m)" if "i \<le> 1" for i
      using that 0 1 assms(1) d(1,2) by (cases i) (auto simp: entries_at_def)
    then show ?thesis by (simp add: wf_dir_def entries_at_def d(3))
  qed
qed

lemma dir_fs_resolves:
  assumes "length nm < 32" "0 \<notin> set nm" "nm \<noteq> []" "cstr (bytes32 ty) \<noteq> bytes32 ty"
  shows "resolves (dir_fs nm ty) (nm @ [0]) ty 0"
proof -
  note d = dir_fs_entries [OF less_imp_le [OF assms(1)], of ty] and e = dir_fs_names [OF less_imp_le [OF assms(1)] assms(2), of ty]
  have "name_match (dir_fs nm ty) (nm @ [0]) 0" using assms e(1) by (simp add: name_match_def)
  then have "List.find (name_match (dir_fs nm ty) (nm @ [0])) [0..<unat (1 :: u32) + 1] = Some 0" by (simp add: upt_rec)
  then show ?thesis
    unfolding resolves_def using d(4-6) e(3) [OF assms(4)] by (intro exI [of _ "1 :: u32"] exI [of _ "0 :: nat"]) (simp add: readable_def)
qed

abbreviation dot_fs :: fs where "dot_fs \<equiv> dir_fs (chars ''.'') 1"

lemma dot_fs_dir:
  "entry_name dot_fs 0 = chars ''.''" "entry_name dot_fs (Suc 0) = []" "wf_dir dot_fs 1" "num_dentries (img dot_fs) = Some 1"
  "resolves dot_fs (lit ''.'') FILE_TYPE_DIR 0"
proof -
  have b: "bytes32 1 = [1, 0, 0, 0]" by code_simp
  have n: "length (chars ''.'') \<le> 32" "0 \<notin> set (chars ''.'')" by (simp_all add: chars_def)
  show e: "entry_name dot_fs 0 = chars ''.''" "entry_name dot_fs (Suc 0) = []" "wf_dir dot_fs 1"
    using dir_fs_names [OF n, of 1] by (simp_all add: chars_def b)
  show "num_dentries (img dot_fs) = Some 1" by (rule dir_fs_entries(4) [OF n(1)])
  show "resolves dot_fs (lit ''.'') FILE_TYPE_DIR 0"
    using dir_fs_resolves [of "chars ''.''" 1] n by (simp add: lit_def b) (simp add: chars_def)
qed


section \<open>A name of 32 characters\<close>

text \<open>
  A regular file whose name fills its 32 characters breaks \<open>ls\<close>: \<open>dir_read\<close> measures the name up to the NUL inside the type behind
  it and returns 33 for a read of 32 bytes, and \<open>ls\<close> stores its newline past the end of its buffer of 33 bytes.\<close>

theorem ls_overruns_long_name:
  assumes "num_dentries (img f) = Some n" "wf_dir f (unat n)" "fd_present s (int k)" "bit (file_flags (get_file s (cur_pcb s, k))) 1"
    and "file_op (get_file s (cur_pcb s, k)) = Some dir_fops" "unat (file_pos (get_file s (cur_pcb s, k))) = i" "i \<le> unat n"
    and "32 \<le> length (entry_name f i)" "entry_type f i = Some FILE_TYPE_REG" "length buf = 33"
  shows "ls_loop (kernel_os sched f addr ex) (int k) buf s = None \<and>
    (\<exists>s' buf'. sys_read sched f s (int k) (Some buf) 32 = Some (s', Some buf', 33))"
proof -
  let ?r = "(cur_pcb s, k)" and ?nm = "take 32 (entry_name f i)"
  obtain d m where d: "read_dentry_by_index f (file_pos (get_file s ?r)) (replicate 64 0) = Some (d, 0)"
    "d = ?nm @ bytes32 2 @ bytes32 m @ replicate 24 0"
    using dentry_by_index [OF assms(1,2), of "file_pos (get_file s ?r)"] assms(6-9) by auto
  have b: "bytes32 2 = [2, 0, 0, 0]" by code_simp
  have nz: "0 \<notin> set ?nm" using cstr_no_nul [of "drop (entries_at i) (img f)"] by (auto simp: entry_name_def dest: in_set_takeD)
  have "d = (?nm @ [2]) @ 0 # [0, 0] @ bytes32 m @ replicate 24 0" by (simp add: d(2) b)
  moreover have "0 \<notin> set (?nm @ [2])" using nz by simp
  ultimately have c: "cstr d = ?nm @ [2]" "0 \<in> set d" using cstr_append_nul [of "?nm @ [2]"] by auto
  have l: "length ?nm = 32" using assms(8) by simp
  have "strncpy buf d 32 = Some (?nm @ drop 32 buf)" using strncpy_eq [of 32 buf d] c l assms(10) by simp
  moreover have "store (?nm @ drop 32 buf) 31 0 = Some ((?nm @ drop 32 buf)[31 := 0])" using l by simp
  moreover have "strlen d = Some 33" using c l by (simp add: strlen_eq)
  moreover have g: "get_file_from_fd (Some (cur_pcb s)) (int k) = Some ?r" using assms(3) by (simp add: get_file_from_fd_def fd_present_def)
  ultimately have "dir_read f s (Some (cur_pcb s)) (int k) buf 32 =
      Some (upd_file ?r (\<lambda>fl. fl\<lparr>file_pos := file_pos fl + 1\<rparr>) s, (?nm @ drop 32 buf)[31 := 0], 33)"
    using d(1) assms(4) by (simp add: dir_read_def)
  then have r: "sys_read sched f s (int k) (Some buf) 32 =
      Some (upd_file ?r (\<lambda>fl. fl\<lparr>file_pos := file_pos fl + 1\<rparr>) s, Some ((?nm @ drop 32 buf)[31 := 0]), 33)"
    using fd_presentD [OF assms(3)] assms(5) by (simp add: sys_read_def fops_read_def)
  moreover have "length ((?nm @ drop 32 buf)[31 := 0]) = 33" using l assms(10) by simp
  ultimately have "ls_loop (kernel_os sched f addr ex) (int k) buf s = None"
    by (subst ls_loop.simps) (simp add: kernel_os_def store_def del: length_list_update)
  with r show ?thesis by blast
qed

definition long_name :: "u8 list" where
  "long_name = chars ''verylargetxtwithverylongname.txt''"

theorem ls_overruns_long_name_witness:
  "ls_loop (kernel_os (\<lambda>i s. s) (dir_fs long_name 2) sample_layout (\<lambda>s b. None)) 2 (replicate 33 0)
     (opened_as dir_fops (sample_user [] []) 0) = None"
proof -
  let ?f = "dir_fs long_name 2" and ?s = "opened_as dir_fops (sample_user [] []) 0"
  have b: "bytes32 2 = [2, 0, 0, 0]" by code_simp
  have n: "length long_name = 32" "0 \<notin> set long_name" by (simp_all add: long_name_def chars_def)
  have e: "entry_name ?f 0 = long_name @ [2]" "wf_dir ?f 1"
    using dir_fs_names [OF _ n(2), of 2] n(1) by (simp_all add: b)
  note d = dir_fs_entries [of long_name 2]
  note k = sample_user_free_fd [of "[]" "[]"]
  note o = opened_present [OF sample_user_files(1), of dir_fops "[]" "[]" 0] get_file_opened [OF sample_user_files(1), of dir_fops "[]" "[]" 0]
  have c: "cur_pcb ?s = 3" using o(2) by (simp add: sample_user_pcb(1))
  have f: "fd_present ?s (int 2)" "bit (file_flags (get_file ?s (3, 2))) 1" "file_op (get_file ?s (3, 2)) = Some dir_fops"
    "unat (file_pos (get_file ?s (3, 2))) = 0"
    using o unfolding k sample_user_pcb(1) by (simp_all add: bit_or_iff)
  show ?thesis
    using ls_overruns_long_name [of ?f 1 ?s 2 0 "replicate 33 0" "\<lambda>i s. s" sample_layout "\<lambda>s b. None"] d(4,5) e f n(1)
    unfolding c by simp
qed

end
