(* ===== verification/User_Grep.thy ===== *)
theory User_Grep
  imports User_Kernel
begin

text \<open>
  \<^verbatim>\<open>syscalls/ece391grep.c\<close>: the search through all files of the directory. A file is read into a buffer of 1024
  bytes, complete lines are searched in place, and what is left of the last line is moved to the front before the
  next read. The theory compares this with searching the lines of the whole file.
\<close>

section \<open>The program\<close>

abbreviation (input) BUFSIZE :: nat where "BUFSIZE \<equiv> 1024"
abbreviation (input) SBUFSIZE :: nat where "SBUFSIZE \<equiv> 33"

text \<open>\<open>while (line_end < last && '\n' != data[line_end]) line_end++\<close>\<close>

function find_line_end :: "u8 list \<Rightarrow> nat \<Rightarrow> nat \<Rightarrow> nat option" where
  "find_line_end data lst line_end =
     (if line_end < lst then
        if line_end < length data then if data ! line_end \<noteq> 10 then find_line_end data lst (line_end + 1) else Some line_end
        else None
      else Some line_end)"
  by pat_completeness auto
termination by (relation "measure (\<lambda>(data, lst, line_end). lst - line_end)") auto

declare find_line_end.simps [simp del]

lemma find_line_end_ge: "find_line_end data lst i = Some j \<Longrightarrow> i \<le> j"
proof (induction data lst i rule: find_line_end.induct)
  case (1 data lst i)
  from "1.prems" show ?case by (subst (asm) find_line_end.simps) (auto split: if_splits dest: "1.IH")
qed

definition print_match :: "'s user_os \<Rightarrow> u8 list \<Rightarrow> u8 list \<Rightarrow> 's \<Rightarrow> 's option" where
  "print_match os fname line s = do {
     s \<leftarrow> ece391_fdputs os s 1 fname;
     s \<leftarrow> ece391_fdputs os s 1 (lit '':'');
     s \<leftarrow> ece391_fdputs os s 1 line;
     ece391_fdputs os s 1 (lit [CHR 0x0A]) }"

text \<open>The loop over \<open>check\<close>; \<open>pat\<close> is the array that \<open>s\<close> points to.\<close>

function search_line :: "'s user_os \<Rightarrow> u8 list \<Rightarrow> u32 \<Rightarrow> u8 list \<Rightarrow> u8 list \<Rightarrow> nat \<Rightarrow> nat \<Rightarrow> nat \<Rightarrow> 's \<Rightarrow> 's option" where
  "search_line os pat s_len fname data line_start line_end check s =
     (if check < line_end then
        if check < length data \<and> pat \<noteq> [] then
          if pat ! 0 = data ! check then do {
            r \<leftarrow> ece391_strncmp (drop check data) pat s_len;
            if r = 0 then print_match os fname (drop line_start data) s
            else search_line os pat s_len fname data line_start line_end (check + 1) s }
          else search_line os pat s_len fname data line_start line_end (check + 1) s
        else None
      else Some s)"
  by pat_completeness auto
termination by (relation "measure (\<lambda>(os, pat, s_len, fname, data, line_start, line_end, check, s). line_end - check)") auto

declare search_line.simps [simp del]

text \<open>The inner \<open>while (1)\<close>, with the new \<open>data\<close> and \<open>last\<close>.\<close>

function search_lines :: "'s user_os \<Rightarrow> u8 list \<Rightarrow> u32 \<Rightarrow> u8 list \<Rightarrow> int \<Rightarrow> u8 list \<Rightarrow> nat \<Rightarrow> nat \<Rightarrow> 's \<Rightarrow> ('s \<times> u8 list \<times> nat) option" where
  "search_lines os pat s_len fname cnt data lst line_start s = do {
     line_end \<leftarrow> find_line_end data lst line_start;
     if line_end \<ge> length data then None
     else if data ! line_end \<noteq> 10 \<and> cnt \<noteq> 0 \<and> line_start \<noteq> 0 then do {
       data \<leftarrow> ece391_strcpy (data[line_end := 0]) 0 line_start;
       Some (s, data, lst - line_start) }
     else do {
       let data = data[line_end := 0];
       s \<leftarrow> search_line os pat s_len fname data line_start line_end line_start s;
       if line_end + 1 \<ge> lst then Some (s, data, 0)
       else search_lines os pat s_len fname cnt data lst (line_end + 1) s } }"
  by pat_completeness auto
termination
  by (relation "measure (\<lambda>(os, pat, s_len, fname, cnt, data, lst, line_start, s). lst - line_start)") (auto dest: find_line_end_ge)

declare search_lines.simps [simp del]

text \<open>The outer \<open>while (1)\<close> and what follows it. \<open>read\<close> stores into \<open>data + last\<close>.\<close>

partial_function (option) search_file :: "'s user_os \<Rightarrow> int \<Rightarrow> u8 list \<Rightarrow> u32 \<Rightarrow> u8 list \<Rightarrow> u8 list \<Rightarrow> nat \<Rightarrow> 's \<Rightarrow> ('s \<times> int) option" where
  "search_file os fd pat s_len fname data lst s =
     Option.bind (sc_read os s fd (drop lst data) (int BUFSIZE - int lst)) (\<lambda>r.
       if snd (snd r) = -1 then fail_with os (fst r) (line_of ''file read failed'') (-1)
       else if snd (snd r) < 0 then None
       else Option.bind (search_lines os pat s_len fname (snd (snd r)) (take lst data @ fst (snd r)) (lst + nat (snd (snd r))) 0 (fst r)) (\<lambda>w.
         if snd (snd r) = 0 then
           Option.bind (sc_close os (fst w) fd) (\<lambda>c.
             if snd c = -1 then fail_with os (fst c) (line_of ''file close failed'') (-1) else Some (fst c, 0))
         else search_file os fd pat s_len fname (fst (snd w)) (snd (snd w)) (fst w)))"

definition do_one_file :: "'s user_os \<Rightarrow> u8 list \<Rightarrow> u8 list \<Rightarrow> u8 list \<Rightarrow> 's \<Rightarrow> ('s \<times> int) option" where
  "do_one_file os data pat fname s = do {
     s_len \<leftarrow> ece391_strlen pat;
     (s, fd) \<leftarrow> sc_open os s fname;
     if fd = -1 then fail_with os s (line_of ''file open failed'') (-1)
     else search_file os fd pat s_len fname data 0 s }"

text \<open>The loop over the directory. The array \<open>data\<close> of the \<open>i\<close>-th call holds whatever is on the stack, \<open>stack i\<close>.\<close>

partial_function (option) search_dir :: "'s user_os \<Rightarrow> int \<Rightarrow> (nat \<Rightarrow> u8 list) \<Rightarrow> nat \<Rightarrow> u8 list \<Rightarrow> u8 list \<Rightarrow> 's \<Rightarrow> ('s \<times> int) option" where
  "search_dir os fd stack i search buf s =
     Option.bind (sc_read os s fd buf (int SBUFSIZE - 1)) (\<lambda>r.
       if snd (snd r) = 0 then Some (fst r, 0)
       else if snd (snd r) = -1 then fail_with os (fst r) (line_of ''directory entry read failed'') 3
       else if fst (snd r) = [] then None
       else if fst (snd r) ! 0 = 46 then search_dir os fd stack i search (fst (snd r)) (fst r)
       else Option.bind (terminate_at (fst (snd r)) (snd (snd r))) (\<lambda>buf.
         Option.bind (do_one_file os (stack i) search buf (fst r)) (\<lambda>w.
           if snd w \<noteq> 0 then Some (fst w, 3) else search_dir os fd stack (i + 1) search buf (fst w))))"

definition grep_main :: "'s user_os \<Rightarrow> (nat \<Rightarrow> u8 list) \<Rightarrow> u8 list \<Rightarrow> u8 list \<Rightarrow> 's \<Rightarrow> ('s \<times> int) option" where
  "grep_main os stack search buf s = do {
     (s, search, ret) \<leftarrow> sc_getargs os s search (int BUFSIZE);
     if ret \<noteq> 0 then fail_with os s (line_of ''could not read argument'') 3
     else do {
       (s, fd) \<leftarrow> sc_open os s (lit ''.'');
       if fd = -1 then fail_with os s (line_of ''directory open failed'') 2
       else search_dir os fd stack 0 search buf s } }"

section \<open>Lines\<close>

text \<open>The lines of a text; the last one is what follows the last newline.\<close>

function text_lines :: "u8 list \<Rightarrow> u8 list list" where
  "text_lines xs = (case dropWhile (\<lambda>c. c \<noteq> 10) xs of [] \<Rightarrow> [xs] | c # ys \<Rightarrow> takeWhile (\<lambda>c. c \<noteq> 10) xs # text_lines ys)"
  by pat_completeness auto
termination
proof (relation "measure length", simp)
  fix xs c and ys :: "u8 list"
  assume "dropWhile (\<lambda>c. c \<noteq> 10) xs = c # ys"
  then have "length (c # ys) \<le> length xs" by (metis length_dropWhile_le)
  then show "(ys, xs) \<in> measure length" by simp
qed

declare text_lines.simps [simp del]

lemma span_newline:
  fixes xs :: "u8 list"
  assumes "10 \<notin> set xs"
  shows "takeWhile (\<lambda>c. c \<noteq> 10) (xs @ 10 # ys) = xs" "dropWhile (\<lambda>c. c \<noteq> 10) (xs @ 10 # ys) = 10 # ys"
    "takeWhile (\<lambda>c. c \<noteq> 10) xs = xs" "dropWhile (\<lambda>c. c \<noteq> 10) xs = []"
  using assms by (induction xs) auto

lemma text_lines_single [simp]: "10 \<notin> set xs \<Longrightarrow> text_lines xs = [xs]"
  by (subst text_lines.simps) (simp add: span_newline(4) [of xs] del: dropWhile_eq_Nil_conv)

lemma text_lines_newline [simp]: "10 \<notin> set xs \<Longrightarrow> text_lines (xs @ 10 # ys) = xs # text_lines ys"
  by (subst text_lines.simps) (use span_newline [where xs = xs] in simp)

lemma text_lines_not_Nil [simp]: "text_lines xs \<noteq> []"
  by (subst text_lines.simps) (simp split: list.splits)

lemma text_cases:
  obtains (single) "10 \<notin> set xs" | (line) l ys where "xs = l @ (10 :: u8) # ys" "10 \<notin> set l"
  using split_list_first [of 10 xs] by blast

lemma text_lines_append: "text_lines (xs @ ys) = butlast (text_lines xs) @ text_lines (last (text_lines xs) @ ys)"
proof (induction "length xs" arbitrary: xs rule: less_induct)
  case less
  show ?case
  proof (cases xs rule: text_cases)
    case (line l zs)
    then show ?thesis using less [of zs] by simp
  qed simp
qed

lemma text_lines_last: "10 \<notin> set (last (text_lines xs))"
proof (induction "length xs" arbitrary: xs rule: less_induct)
  case less
  show ?case
  proof (cases xs rule: text_cases)
    case (line l zs)
    then show ?thesis using less [of zs] by simp
  qed simp
qed

lemma text_lines_suffix: "\<exists>us. xs = us @ last (text_lines xs)"
proof (induction "length xs" arbitrary: xs rule: less_induct)
  case less
  show ?case
  proof (cases xs rule: text_cases)
    case (line l zs)
    then obtain us where "zs = us @ last (text_lines zs)" using less [of zs] by auto
    then show ?thesis using line by (intro exI [of _ "l @ 10 # us"]) simp
  qed simp
qed

definition contains :: "u8 list \<Rightarrow> u8 list \<Rightarrow> bool" where
  "contains w l \<longleftrightarrow> w \<noteq> [] \<and> (\<exists>i \<le> length l. take (length w) (drop i l) = w)"

text \<open>What is printed for lines \<open>ls\<close> of the file \<open>name\<close>.\<close>

definition matches_of :: "u8 list \<Rightarrow> u8 list \<Rightarrow> u8 list list \<Rightarrow> u8 list" where
  "matches_of name w ls = concat (map (\<lambda>l. name @ [58] @ l @ [10]) (filter (contains w) ls))"

lemma matches_of_simps [simp]:
  "matches_of name w [] = []" "matches_of name w (l # ls) = (if contains w l then name @ 58 # l @ [10] else []) @ matches_of name w ls"
  "matches_of name w (ls @ ks) = matches_of name w ls @ matches_of name w ks"
  by (simp_all add: matches_of_def)

lemma contains_Nil [simp]: "\<not> contains w []"
  by (auto simp: contains_def)

lemma find_line_end_eq:
  "i \<le> n \<Longrightarrow> n \<le> length data \<Longrightarrow> find_line_end data n i = Some (i + length (takeWhile (\<lambda>c. c \<noteq> 10) (drop i (take n data))))"
proof (induction data n i rule: find_line_end.induct)
  case (1 data n i)
  have d: "drop i (take n data) = data ! i # drop (Suc i) (take n data)" if "i < n"
    using that 1(3) by (metis Cons_nth_drop_Suc length_take min.absorb2 nth_take)
  show ?case using 1 by (subst find_line_end.simps) (auto simp: d)
qed

section \<open>Searching a line\<close>

text \<open>The arguments of the search: the pattern \<open>w\<close> and the file name \<open>name\<close> as strings in their arrays.\<close>

definition search_args :: "u8 list \<Rightarrow> u8 list \<Rightarrow> u8 list \<Rightarrow> u8 list \<Rightarrow> bool" where
  "search_args pat w fname name \<longleftrightarrow> 0 \<in> set pat \<and> cstr pat = w \<and> length pat < 2 ^ 31 \<and> 0 \<in> set fname \<and> cstr fname = name \<and> length fname < 2 ^ 31"

definition match_from :: "u8 list \<Rightarrow> nat \<Rightarrow> u8 list \<Rightarrow> bool" where
  "match_from w i l \<longleftrightarrow> w \<noteq> [] \<and> (\<exists>j. i \<le> j \<and> j < length l \<and> take (length w) (drop j l) = w)"

lemma match_from_0: "match_from w 0 l = contains w l"
proof -
  have "take (length w) (drop j l) \<noteq> w" if "w \<noteq> []" "\<not> j < length l" for j using that by auto
  then show ?thesis unfolding match_from_def contains_def by (meson le0 less_imp_le)
qed

lemma match_from_Suc:
  assumes "i < length l"
  shows "match_from w i l \<longleftrightarrow> w \<noteq> [] \<and> take (length w) (drop i l) = w \<or> match_from w (Suc i) l"
proof -
  have "i \<le> j \<longleftrightarrow> j = i \<or> Suc i \<le> j" for j by auto
  then show ?thesis unfolding match_from_def using assms by metis
qed

lemma nth_overwrite: "length xs < j \<Longrightarrow> j < length m \<Longrightarrow> (xs @ c # drop (Suc (length xs)) m) ! j = m ! j"
  by (simp add: nth_append nth_Cons')

context printer
begin

lemma print_match_prints:
  assumes "inv s" "search_args pat w fname name" "printable name" "0 \<in> set line" "length line < 2 ^ 31" "printable (cstr line)"
  shows "\<exists>s'. print_match os fname line s = Some s' \<and> inv s' \<and> kept s' = kept s \<and> out s' = emit (name @ 58 # cstr line @ [10]) (out s)"
proof -
  obtain s1 where s1: "ece391_fdputs os s 1 fname = Some s1" "inv s1" "kept s1 = kept s" "out s1 = emit name (out s)"
    using fdputs [OF assms(1), of fname] assms(2,3) by (auto simp: search_args_def)
  obtain s2 where s2: "ece391_fdputs os s1 1 (lit '':'') = Some s2" "inv s2" "kept s2 = kept s" "out s2 = emit (name @ [58]) (out s)"
    using fdputs_lit [OF s1(2), of "'':''"] s1(3,4) by (auto simp: chars_def emit_append)
  obtain s3 where s3: "ece391_fdputs os s2 1 line = Some s3" "inv s3" "kept s3 = kept s" "out s3 = emit (name @ 58 # cstr line) (out s)"
    using fdputs [OF s2(2) assms(4-6)] s2(3,4) emit_append [of "name @ [58]" "cstr line"] by auto
  obtain s4 where s4: "ece391_fdputs os s3 1 (lit [CHR 0x0A]) = Some s4" "inv s4" "kept s4 = kept s" "out s4 = emit (name @ 58 # cstr line @ [10]) (out s)"
    using fdputs_lit [OF s3(2), of "[CHR 0x0A]"] s3(3,4) emit_append [of "name @ 58 # cstr line" "[10]"] by (auto simp: chars_def)
  show ?thesis using s1(1) s2(1) s3(1) s4 by (auto simp: print_match_def)
qed

lemma search_line_prints:
  assumes a: "search_args pat w fname name" and d: "drop start data = l @ 0 # zs" "0 \<notin> set l" "length data < 2 ^ 31"
    and p: "printable name" "printable l" and i: "inv s" "i \<le> length l"
  shows "\<exists>s'. search_line os pat (of_nat (length w)) fname data start (start + length l) (start + i) s = Some s' \<and> inv s' \<and> kept s' = kept s \<and>
    out s' = (if match_from w i l then emit (name @ 58 # l @ [10]) (out s) else out s)"
  using i(2)
proof (induction "length l - i" arbitrary: i)
  case 0
  then show ?case using i(1) by (subst search_line.simps) (auto simp: match_from_def)
next
  case (Suc n)
  have il: "i < length l" using Suc.hyps(2) by simp
  have di: "drop (start + i) data = drop i l @ 0 # zs" using arg_cong [OF d(1), of "drop i"] il by (simp add: add.commute)
  then have si: "start + i < length data" by (metis drop_all append_is_Nil_conv list.distinct(1) not_less)
  have ci: "data ! (start + i) = l ! i" using di il si by (metis Cons_nth_drop_Suc append_Cons list.inject)
  have w: "0 \<in> set pat" "cstr pat = w" "length pat < 2 ^ 31" using a by (auto simp: search_args_def)
  obtain c pat' where pat: "pat = c # pat'" using w(1) by (cases pat) auto
  have lw: "length w < 2 ^ 31" using w cstr_length_le [of pat] by simp
  have "cstr (drop (start + i) data) = drop i l" unfolding di using d(2) by (intro cstr_append_nul) (auto dest: in_set_dropD)
  moreover have "0 \<in> set (drop (start + i) data)" by (simp add: di)
  ultimately obtain r where r: "ece391_strncmp (drop (start + i) data) pat (of_nat (length w)) = Some r" "r = 0 \<longleftrightarrow> take (length w) (drop i l) = w"
    using ece391_strncmp_eq [of "drop (start + i) data" "of_nat (length w)" pat] w lw by (auto simp: readable_def unat_of_nat_u32)
  have z: "l ! i \<noteq> 0" using d(2) il by (metis nth_mem)
  then have hd: "pat ! 0 = l ! i \<and> take (length w) (drop i l) = w \<longleftrightarrow> w \<noteq> [] \<and> take (length w) (drop i l) = w"
    using w(2) pat il by (cases "c = 0") (auto simp: Cons_nth_drop_Suc [symmetric])
  show ?case
  proof (cases "pat ! 0 = l ! i \<and> r = 0")
    case True
    have "length (drop start data) < 2 ^ 31" using d(3) length_drop [of start data] by linarith
    moreover have "0 \<in> set (drop start data)" "cstr (drop start data) = l" using d by simp_all
    ultimately obtain s' where "print_match os fname (drop start data) s = Some s'" "inv s'" "kept s' = kept s" "out s' = emit (name @ 58 # l @ [10]) (out s)"
      using print_match_prints [OF i(1) a p(1), of "drop start data"] p(2) by auto
    moreover have "match_from w i l" using match_from_Suc [OF il] True r(2) hd by auto
    ultimately show ?thesis using True r(1) ci si il pat by (subst search_line.simps) auto
  next
    case False
    have "match_from w i l = match_from w (Suc i) l" using match_from_Suc [OF il] False r(2) hd by auto
    then show ?thesis using Suc.hyps(1) [of "Suc i"] Suc.hyps(2) il False r(1) ci si pat by (subst search_line.simps) auto
  qed
qed

lemma search_lines_prints:
  assumes a: "search_args pat w fname name" "printable name"
    and "data = us @ xs @ v # vs" "length data = 1025" "us \<noteq> [] \<longrightarrow> xs \<noteq> []" "0 \<notin> set xs" "printable xs" "inv s"
  shows "\<exists>s' data' m. search_lines os pat (of_nat (length w)) fname cnt data (length us + length xs) (length us) s = Some (s', data', m) \<and>
    inv s' \<and> kept s' = kept s \<and> length data' = 1025 \<and> (data ! 1024 \<noteq> 10 \<longrightarrow> data' ! 1024 \<noteq> 10) \<and>
    (out s' = emit (matches_of name w (butlast (text_lines xs))) (out s) \<and> m = length (last (text_lines xs)) \<and> take m data' = last (text_lines xs) \<and>
       (cnt \<noteq> 0 \<or> last (text_lines xs) = []) \<or>
     out s' = emit (matches_of name w (text_lines xs)) (out s) \<and> m = 0 \<and> (cnt = 0 \<or> v = 10 \<or> us = [] \<and> 10 \<notin> set xs))"
  using assms(3-)
proof (induction "length xs" arbitrary: xs data us s rule: less_induct)
  case less
  have fe: "find_line_end data (length us + length xs) (length us) = Some (length us + length (takeWhile (\<lambda>c. c \<noteq> 10) xs))"
    using find_line_end_eq [of "length us" "length us + length xs" data] less.prems(1) by simp
  have upd: "(data[k := 0]) ! 1024 \<noteq> 10" if "data ! 1024 \<noteq> 10" for k
    using that less.prems(2) by (cases "k = 1024") simp_all
  have search: "\<exists>s'. search_line os pat (of_nat (length w)) fname (us @ l @ 0 # zs) (length us) (length us + length l) (length us) s = Some s' \<and>
      inv s' \<and> kept s' = kept s \<and> out s' = emit (matches_of name w [l]) (out s)"
    if "length (us @ l @ 0 # zs) = 1025" "0 \<notin> set l" "printable l" for l zs
    using search_line_prints [OF a(1), of "length us" "us @ l @ 0 # zs" l zs s 0] a(2) that less.prems(6) by (auto simp: match_from_0 emit_Nil split: if_splits)
  show ?case
  proof (cases xs rule: text_cases)
    case single
    then have k: "takeWhile (\<lambda>c. c \<noteq> 10) xs = xs" by (rule span_newline(3))
    have d: "data[length us + length xs := 0] = us @ xs @ 0 # vs" using less.prems(1) by (simp add: list_update_append)
    have v: "data ! (length us + length xs) = v" "length us + length xs < length data" using less.prems(1) by (simp_all add: nth_append)
    have z: "data ! 1024 \<noteq> 10 \<longrightarrow> (us @ xs @ 0 # vs) ! 1024 \<noteq> 10" "length (us @ xs @ 0 # vs) = 1025"
      using upd [of "length us + length xs"] d less.prems(1,2) by simp_all
    show ?thesis
    proof (cases "v \<noteq> 10 \<and> cnt \<noteq> 0 \<and> us \<noteq> []")
      case True
      define e where "e = xs @ 0 # drop (Suc (length xs)) (us @ xs @ 0 # vs)"
      have c: "ece391_strcpy (us @ xs @ 0 # vs) 0 (length us) = Some e"
        using ece391_strcpy_down [of 0 "length us" "us @ xs @ 0 # vs"] less.prems(4) by (simp add: e_def)
      have l: "length xs < 1024" "length (us @ xs @ 0 # vs) = 1025" using True less.prems(1,2) by (cases us; simp)+
      then have "e ! 1024 = (us @ xs @ 0 # vs) ! 1024" unfolding e_def by (intro nth_overwrite) simp_all
      then have e: "data ! 1024 \<noteq> 10 \<longrightarrow> e ! 1024 \<noteq> 10" "length e = 1025" "take (length xs) e = xs"
        using upd [of "length us + length xs"] d l by (simp_all add: e_def)
      show ?thesis using True fe k d v c e less.prems(6) single
        by (subst search_lines.simps) (simp add: emit_Nil)
    next
      case False
      obtain s' where "search_line os pat (of_nat (length w)) fname (us @ xs @ 0 # vs) (length us) (length us + length xs) (length us) s = Some s'"
        "inv s'" "kept s' = kept s" "out s' = emit (matches_of name w [xs]) (out s)"
        using search [of xs vs] less.prems by auto
      then show ?thesis using False fe k d v z single
        by (subst search_lines.simps) auto
    qed
  next
    case (line l ys)
    then have k: "takeWhile (\<lambda>c. c \<noteq> 10) xs = l" using span_newline(1) by simp
    let ?d = "us @ l @ 0 # ys @ v # vs"
    have d: "data[length us + length l := 0] = ?d" "data ! (length us + length l) = 10" using less.prems(1) line(1) by (simp_all add: list_update_append nth_append)
    have z: "data ! 1024 \<noteq> 10 \<longrightarrow> ?d ! 1024 \<noteq> 10" "length ?d = 1025" using upd [of "length us + length l"] d less.prems(1,2) line(1) by simp_all
    have v: "length us + length l < length data" using less.prems(1) line(1) by simp
    have p: "printable l" "printable ys" using less.prems(5) line(1) printable_append [of l "[10] @ ys"] printable_append [of "[10]" ys] by simp_all
    obtain s1 where s1: "search_line os pat (of_nat (length w)) fname ?d (length us) (length us + length l) (length us) s = Some s1"
      "inv s1" "kept s1 = kept s" "out s1 = emit (matches_of name w [l]) (out s)"
      using search [of l "ys @ v # vs"] less.prems(1,2,4) line(1) p(1) by auto
    show ?thesis
    proof (cases "ys = []")
      case True
      then show ?thesis using s1 fe k d v z line(1,2)
        by (subst search_lines.simps) simp
    next
      case False
      have "length ys < length xs" "?d = (us @ l @ [0]) @ ys @ v # vs" "length ?d = 1025" using line(1) less.prems(1,2) by simp_all
      from less.hyps [OF this(1,2,3) _ _ p(2) s1(2)] obtain s2 d2 m where s2:
        "search_lines os pat (of_nat (length w)) fname cnt ?d (length (us @ l @ [0]) + length ys) (length (us @ l @ [0])) s1 = Some (s2, d2, m)"
        "inv s2" "kept s2 = kept s" "length d2 = 1025" "?d ! 1024 \<noteq> 10 \<longrightarrow> d2 ! 1024 \<noteq> 10" and
        o: "out s2 = emit (matches_of name w (butlast (text_lines ys))) (out s1) \<and> m = length (last (text_lines ys)) \<and> take m d2 = last (text_lines ys) \<and>
             (cnt \<noteq> 0 \<or> last (text_lines ys) = []) \<or>
           out s2 = emit (matches_of name w (text_lines ys)) (out s1) \<and> m = 0 \<and> (cnt = 0 \<or> v = 10)"
        using False less.prems(4) line(1) s1(3) by auto
      have "search_lines os pat (of_nat (length w)) fname cnt data (length us + length xs) (length us) s = Some (s2, d2, m)"
        using s2(1) s1(1) fe k d v False line(1) by (subst search_lines.simps) (simp add: add.assoc)
      moreover have "emit (matches_of name w (l # ls)) (out s) = emit (matches_of name w ls) (out s1)" for ls
        using s1(4) by (simp add: emit_append emit_Nil split: if_splits)
      ultimately show ?thesis using s2 o z line by (intro exI [of _ s2] exI [of _ d2] exI [of _ m]) auto
    qed
  qed
qed

end

section \<open>Searching a file\<close>

text \<open>A descriptor that delivers the bytes \<open>rest\<close>, as many as fit, and can be closed.\<close>

locale text_reader = printer os inv rest out emit printable
  for os :: "'s user_os" and inv :: "'s \<Rightarrow> bool" and rest :: "'s \<Rightarrow> u8 list" and out :: "'s \<Rightarrow> 'g"
    and emit :: "u8 list \<Rightarrow> 'g \<Rightarrow> 'g" and printable :: "u8 list \<Rightarrow> bool" +
  fixes fd :: int and closed :: "'s \<Rightarrow> bool"
  assumes read_rest: "\<lbrakk>inv s; n \<le> length buf; n \<le> BUFSIZE; k = min (length (rest s)) n\<rbrakk> \<Longrightarrow>
      \<exists>s'. sc_read os s fd buf (int n) = Some (s', take k (rest s) @ drop k buf, int k) \<and> inv s' \<and> rest s' = drop k (rest s) \<and> out s' = out s"
    and close_fd: "inv s \<Longrightarrow> \<exists>s'. sc_close os s fd = Some (s', 0) \<and> closed s' \<and> out s' = out s"
begin

text \<open>
  \<open>p\<close> is the part of the last line that is still in the buffer. Every line fits into the buffer, and the byte behind
  the buffer, which is not initialised, is not a newline by accident.
\<close>

lemma search_file_prints:
  assumes a: "search_args pat w fname name" "printable name"
    and "inv s" "length data = 1025" "data ! 1024 \<noteq> 10" "take (length p) data = p" "10 \<notin> set p"
      "0 \<notin> set (p @ rest s)" "printable (p @ rest s)" "\<forall>l \<in> set (text_lines (p @ rest s)). length l < BUFSIZE"
  shows "\<exists>s'. search_file os fd pat (of_nat (length w)) fname data (length p) s = Some (s', 0) \<and> closed s' \<and>
    out s' = emit (matches_of name w (text_lines (p @ rest s))) (out s)"
  using assms(3-)
proof (induction "length (rest s)" arbitrary: s data p rule: less_induct)
  case less
  have first: "length q < BUFSIZE" if "\<forall>l \<in> set (text_lines (q @ r)). length l < BUFSIZE" "10 \<notin> set q" for q r
  proof (cases r rule: text_cases)
    case single
    then show ?thesis using that by simp
  next
    case (line l zs)
    then show ?thesis using that text_lines_newline [of "q @ l" zs] by simp
  qed
  have lp: "length p < 1024" using first [OF less.prems(8,5)] by simp
  define k where "k = min (length (rest s)) (1024 - length p)"
  define x where "x = p @ take k (rest s)"
  have le: "1024 - length p \<le> length (drop (length p) data)" "1024 - length p \<le> 1024" using less.prems(2) by simp_all
  obtain s1 where s1: "sc_read os s fd (drop (length p) data) (int (1024 - length p)) =
      Some (s1, take k (rest s) @ drop k (drop (length p) data), int k)" "inv s1" "rest s1 = drop k (rest s)" "out s1 = out s"
    using read_rest [OF less.prems(1) _ _ k_def, of "drop (length p) data"] le less.prems(2) by blast
  have lx: "length x = length p + k" "length x \<le> 1024" using lp by (simp_all add: x_def k_def)
  let ?d = "x @ data ! length x # drop (Suc (length x)) data"
  have "drop (length x) data = data ! length x # drop (Suc (length x)) data" using less.prems(2) lx by (simp add: Cons_nth_drop_Suc)
  then have d: "take (length p) data @ take k (rest s) @ drop k (drop (length p) data) = ?d"
    using less.prems(4) lx(1) by (simp add: x_def add.commute)
  have d2: "length ?d = 1025" "?d ! 1024 \<noteq> 10" using nth_overwrite [of x 1024 data "data ! length x"] less.prems(2,3) lx
    by (cases "length x = 1024"; simp add: nth_append)+
  have x: "p @ rest s = x @ rest s1" using s1(3) by (simp add: x_def)
  then have x0: "0 \<notin> set x" "printable x" using less.prems(6,7) printable_append by auto
  obtain s2 e m where s2: "search_lines os pat (of_nat (length w)) fname (int k) ?d (length x) 0 s1 = Some (s2, e, m)" "inv s2" "rest s2 = rest s1"
    "length e = 1025" "e ! 1024 \<noteq> 10"
    and o: "out s2 = emit (matches_of name w (butlast (text_lines x))) (out s) \<and> m = length (last (text_lines x)) \<and>
        take m e = last (text_lines x) \<and> (k \<noteq> 0 \<or> last (text_lines x) = []) \<or>
      out s2 = emit (matches_of name w (text_lines x)) (out s) \<and> m = 0 \<and> (k = 0 \<or> data ! length x = 10 \<or> 10 \<notin> set x)"
    using search_lines_prints [OF a, of ?d "[]" x "data ! length x" "drop (Suc (length x)) data" s1 "int k"] d2 x0 s1(2-4) by auto
  have step: "search_file os fd pat (of_nat (length w)) fname data (length p) s =
      (if k = 0 then Option.bind (sc_close os s2 fd) (\<lambda>c. if snd c = -1 then fail_with os (fst c) (line_of ''file close failed'') (-1) else Some (fst c, 0))
       else search_file os fd pat (of_nat (length w)) fname e m s2)"
    using s1(1) s2(1) d lx(1) lp by (subst search_file.simps) (simp add: of_nat_diff)
  show ?case
  proof (cases "k = 0")
    case True
    then have "x = p" "rest s = []" using lp by (simp_all add: x_def k_def min_def split: if_splits)
    then have "out s2 = emit (matches_of name w (text_lines (p @ rest s))) (out s)" using o True less.prems(5) by (auto simp: emit_Nil)
    then show ?thesis using step True close_fd [OF s2(2)] by auto
  next
    case False
    then have r: "length (rest s2) < length (rest s)" using s1(3) s2(3) by (auto simp: k_def)
    show ?thesis
    proof (cases "m = 0 \<and> (data ! length x = 10 \<or> 10 \<notin> set x) \<and> out s2 = emit (matches_of name w (text_lines x)) (out s)")
      case True
      have "length x < 1024" using True first [of x "rest s1"] less.prems(3,8) lx(2) x by (cases "length x = 1024") auto
      then have "rest s2 = []" using s1(3) s2(3) lx(1) by (auto simp: k_def)
      then show ?thesis using less.hyps [OF r s2(2,4,5), of "[]"] True step False x s2(3)
        by (auto simp: emit_Nil printable_ascii)
    next
      case F: False
      let ?q = "last (text_lines x)"
      have q: "out s2 = emit (matches_of name w (butlast (text_lines x))) (out s)" "m = length ?q" "take m e = ?q" using o F False by auto
      have t: "text_lines (p @ rest s) = butlast (text_lines x) @ text_lines (?q @ rest s2)" unfolding x s2(3) by (rule text_lines_append)
      obtain us where us: "x = us @ ?q" using text_lines_suffix by blast
      have "0 \<notin> set (?q @ rest s2)" using less.prems(6) x us s2(3) by (metis Un_iff set_append)
      moreover have "printable (?q @ rest s2)" using less.prems(7) x us s2(3) printable_append append.assoc by metis
      moreover have "\<forall>l \<in> set (text_lines (?q @ rest s2)). length l < BUFSIZE" using less.prems(8) t by simp
      ultimately obtain s' where "search_file os fd pat (of_nat (length w)) fname e m s2 = Some (s', 0)" "closed s'"
        "out s' = emit (matches_of name w (text_lines (?q @ rest s2))) (out s2)"
        using less.hyps [OF r s2(2,4,5), of ?q] text_lines_last [of x] q(2,3) by auto
      then show ?thesis using step False t q(1) by (simp add: emit_append)
    qed
  qed
qed

end

section \<open>Searching a file of the kernel\<close>

text \<open>The running process has changed nothing in its table but descriptor \<open>k\<close>, and no other process.\<close>

definition only_fd :: "nat \<Rightarrow> kstate \<Rightarrow> kstate \<Rightarrow> bool" where
  "only_fd k s s' \<longleftrightarrow> cur_pcb s' = cur_pcb s \<and>
     (\<exists>fl. pcbs s' = (pcbs s)(cur_pcb s := (pcbs s (cur_pcb s))\<lparr>file_array := (file_array (pcbs s (cur_pcb s)))[k := fl]\<rparr>))"

lemma only_fd_upd: "only_fd k s s' \<Longrightarrow> k < length (file_array (pcbs s (cur_pcb s))) \<Longrightarrow> only_fd k s (upd_file (cur_pcb s, k) g s')"
  by (auto simp: only_fd_def fun_eq_iff)

lemma only_fd_refl: "only_fd k s s"
  unfolding only_fd_def by (intro conjI exI [of _ "file_array (pcbs s (cur_pcb s)) ! k"]) simp_all

lemma only_fd_screen: "only_fd k s s' \<Longrightarrow> only_screen t s' u \<Longrightarrow> only_fd k s u"
  by (auto simp: only_fd_def only_screen_def)

lemma only_fd_keeps:
  assumes "only_fd k s s'"
  shows "cur_pcb s' = cur_pcb s" "length (file_array (pcbs s' (cur_pcb s))) = length (file_array (pcbs s (cur_pcb s)))"
    "j \<noteq> k \<Longrightarrow> get_file s' (cur_pcb s, j) = get_file s (cur_pcb s, j)"
    "j \<noteq> k \<Longrightarrow> fd_used (pcbs s' (cur_pcb s)) j = fd_used (pcbs s (cur_pcb s)) j"
  using assms by (auto simp: only_fd_def get_file_def fd_used_def)

definition searching :: "fs \<Rightarrow> nat \<Rightarrow> nat \<Rightarrow> kstate \<Rightarrow> kstate \<Rightarrow> bool" where
  "searching f k t s0 s \<longleftrightarrow> reading_file f k t s \<and> only_fd k s0 s \<and> k < length (file_array (pcbs s0 (cur_pcb s0)))"

definition searched :: "nat \<Rightarrow> nat \<Rightarrow> kstate \<Rightarrow> kstate \<Rightarrow> bool" where
  "searched k t s0 s \<longleftrightarrow> stdout_on t s \<and> only_fd k s0 s \<and> \<not> fd_used (pcbs s (cur_pcb s)) k"

abbreviation (input) unread :: "fs \<Rightarrow> nat \<Rightarrow> kstate \<Rightarrow> u8 list" where
  "unread f k s \<equiv> rest_of_file f s (cur_pcb s, k)"

lemma searching_close:
  assumes "searching f k t s0 s"
  shows "\<exists>s'. sys_close s (int k) = Some (s', 0) \<and> searched k t s0 s' \<and> term_grid t s' = term_grid t s"
proof -
  let ?s = "upd_file (cur_pcb s, k) (\<lambda>fl. fl\<lparr>file_flags := 0\<rparr>) s"
  have r: "k \<noteq> 1" "stdout_on t s" "fd_present s (int k)" "file_op (get_file s (cur_pcb s, k)) = Some file_fops" "cur_pcb s = cur_pcb s0"
    and o: "only_fd k s0 s" "k < length (file_array (pcbs s0 (cur_pcb s0)))"
    using assms only_fd_keeps(1) [of k s0 s] by (simp_all add: searching_def reading_file_def)
  have "only_fd k s0 ?s" using only_fd_upd [OF o] r(5) by simp
  moreover have "\<not> fd_used (pcbs ?s (cur_pcb ?s)) k" using only_fd_keeps(2) [OF o(1)] o(2) r(5) by (simp add: fd_used_def)
  ultimately show ?thesis using sys_close_reg [OF r(3,4)] stdout_on_upd_file [OF r(1)] r(2) by (auto simp: searched_def)
qed

interpretation kernel_text: text_reader "kernel_os sched f addr ex" "searching f k t s0" "unread f k"
  "term_grid t" print_on "\<lambda>cs. 8 \<notin> set cs" "int k" "searched k t s0" for sched f addr ex k t s0
proof
  fix s n m and buf :: "u8 list"
  assume a: "searching f k t s0 s" "n \<le> length buf" "n \<le> BUFSIZE" "m = min (length (unread f k s)) n"
  then have r: "reading_file f k t s" and o: "only_fd k s0 s" "k < length (file_array (pcbs s0 (cur_pcb s0)))" "cur_pcb s = cur_pcb s0"
    using only_fd_keeps(1) [of k s0 s] by (simp_all add: searching_def)
  obtain s' g where s': "sys_read sched f s (int k) (Some buf) (int n) = Some (s', Some (take m (unread f k s) @ drop m buf), int m)"
    "reading_file f k t s'" "unread f k s' = drop m (unread f k s)" "term_grid t s' = term_grid t s" "s' = upd_file (cur_pcb s, k) g s"
    using reading_file_read [OF r a(2) _ a(4), of sched] a(3) by auto
  moreover have "only_fd k s0 s'" using only_fd_upd [OF o(1,2)] s'(5) o(3) by simp
  ultimately show "\<exists>s'. sc_read (kernel_os sched f addr ex) s (int k) buf (int n) = Some (s', take m (unread f k s) @ drop m buf, int m) \<and>
      searching f k t s0 s' \<and> unread f k s' = drop m (unread f k s) \<and> term_grid t s' = term_grid t s"
    using o(2) by (intro exI [of _ s']) (simp add: kernel_os_def searching_def)
next
  fix s
  assume "searching f k t s0 s"
  then show "\<exists>s'. sc_close (kernel_os sched f addr ex) s (int k) = Some (s', 0) \<and> searched k t s0 s' \<and> term_grid t s' = term_grid t s"
    using searching_close by (simp add: kernel_os_def)
next
  fix s n and buf :: "u8 list"
  assume a: "searching f k t s0 s" "n \<le> length buf" "8 \<notin> set (take n buf)"
  then have r: "reading_file f k t s" "stdout_on t s" by (simp_all add: searching_def reading_file_def)
  obtain s' where s': "sc_write (kernel_os sched f addr ex) s 1 buf (int n) = Some (s', int n)" "stdout_on t s'"
    "term_grid t s' = print_on (take n buf) (term_grid t s)" "only_screen t s s'"
    using kernel_write [OF r(2) a(2,3)] by blast
  have "unread f k s' = unread f k s" using get_file_same [of s' s] s'(4) by (simp add: rest_of_file_def only_screen_def)
  then show "\<exists>s'. sc_write (kernel_os sched f addr ex) s 1 buf (int n) = Some (s', int n) \<and> searching f k t s0 s' \<and> unread f k s' = unread f k s \<and>
      term_grid t s' = print_on (take n buf) (term_grid t s)"
    using s' a(1) reading_file_screen(1) [OF r(1) s'(4,2)] only_fd_screen [OF _ s'(4)]
    by (intro exI [of _ s']) (simp add: searching_def)
qed (use ascii_no_backspace in \<open>auto simp: print_on_append\<close>, simp_all add: print_on_def)

text \<open>A text file: no NUL, no backspace, and every line fits into the buffer of the program.\<close>

definition plain_text :: "u8 list \<Rightarrow> bool" where
  "plain_text xs \<longleftrightarrow> 0 \<notin> set xs \<and> 8 \<notin> set xs \<and> (\<forall>l \<in> set (text_lines xs). length l < BUFSIZE)"

lemma do_one_file_kernel:
  assumes "resolves f fname FILE_TYPE_REG inode" "wf_inode f inode" "can_open s" "stdout_on t s"
    and "search_args pat w fname name" "8 \<notin> set name" "plain_text (file_content f (inode_at f inode))" "length data = 1025" "data ! 1024 \<noteq> 10"
  shows "\<exists>s'. do_one_file (kernel_os sched f addr ex) data pat fname s = Some (s', 0) \<and> searched (free_fd s) t s s' \<and>
    term_grid t s' = print_on (matches_of name w (text_lines (file_content f (inode_at f inode)))) (term_grid t s)"
proof -
  let ?os = "kernel_os sched f addr ex" and ?s = "opened s inode" and ?c = "file_content f (inode_at f inode)"
  note r = opened_reading [OF assms(3,4,2)]
  have k: "free_fd s < length (file_array (pcbs s (cur_pcb s)))" using free_fd_less(1) [OF assms(3)] assms(3) by (simp add: can_open_def)
  have "only_fd (free_fd s) s ?s" unfolding opened_as_def using only_fd_upd [OF only_fd_refl k] .
  then have "searching f (free_fd s) t s ?s" using r(1) k by (simp add: searching_def)
  moreover have u: "unread f (free_fd s) ?s = ?c" using opened_reg(2,4) [OF assms(3,2)] by simp
  ultimately obtain s' where s': "search_file ?os (int (free_fd s)) pat (of_nat (length w)) fname data 0 ?s = Some (s', 0)"
    "searched (free_fd s) t s s'" "term_grid t s' = print_on (matches_of name w (text_lines ?c)) (term_grid t ?s)"
    using kernel_text.search_file_prints [OF assms(5,6) _ assms(8,9), of f "free_fd s" t s ?s "[]" sched addr ex] assms(7) by (auto simp: plain_text_def)
  moreover have "ece391_strlen pat = Some (of_nat (length w))" using assms(5) by (auto simp: search_args_def ece391_strlen_eq)
  moreover have "sc_open ?os s fname = Some (?s, int (free_fd s))" using sys_open_reg [OF assms(1,3)] by (simp add: kernel_os_def)
  ultimately show ?thesis using r(2) by (simp add: do_one_file_def)
qed

section \<open>The whole directory\<close>

lemma searched_dir:
  assumes "searched k t s s'" "reading_dir f n j t s" "j \<noteq> k" "can_open s" "k < MAX_FILES"
  shows "reading_dir f n j t s'" "dir_pieces f n j s' = dir_pieces f n j s" "can_open s'"
proof -
  have o: "stdout_on t s'" "only_fd k s s'" "\<not> fd_used (pcbs s' (cur_pcb s')) k" using assms(1) by (simp_all add: searched_def)
  note e = only_fd_keeps(1,2) [OF o(2)] only_fd_keeps(3,4) [OF o(2) assms(3)]
  have "fd_present s' (int j) = fd_present s (int j)" using e by (simp add: fd_present_def)
  then show "reading_dir f n j t s'" using assms(2) o(1) e by (simp add: reading_dir_def)
  show "dir_pieces f n j s' = dir_pieces f n j s" using e by (simp add: dir_pieces_def)
  show "can_open s'" using assms(4,5) o(3) e(1,2) by (auto simp: can_open_def)
qed

text \<open>
  The entries \<open>grep\<close> can search: those whose name begins with a dot are passed over, every other one names a regular
  text file; \<open>files\<close> gives the contents by name. \<open>grep_of\<close> is what is to be printed for an entry.
\<close>

definition text_entry :: "fs \<Rightarrow> (u8 list \<Rightarrow> u8 list) \<Rightarrow> u8 list \<Rightarrow> bool" where
  "text_entry f files c \<longleftrightarrow> 8 \<notin> set c \<and> (hd c \<noteq> 46 \<longrightarrow> plain_text (files c) \<and>
     (\<exists>inode. resolves f (c @ [0]) FILE_TYPE_REG inode \<and> wf_inode f inode \<and> file_content f (inode_at f inode) = files c))"

definition grep_of :: "(u8 list \<Rightarrow> u8 list) \<Rightarrow> u8 list \<Rightarrow> u8 list \<Rightarrow> u8 list" where
  "grep_of files w c = (if hd c = 46 then [] else matches_of c w (text_lines (files c)))"

lemma search_dir_kernel:
  assumes pat: "0 \<in> set pat" "cstr pat = w" "length pat < 2 ^ 31" and stack: "\<And>i. length (stack i) = 1025 \<and> stack i ! 1024 \<noteq> 10"
    and "reading_dir f n j t s" "can_open s" "length buf = 33" "dir_pieces f n j s = cs" "\<forall>c \<in> set cs. text_entry f files c"
  shows "\<exists>s'. search_dir (kernel_os sched f addr ex) (int j) stack i pat buf s = Some (s', 0) \<and>
    term_grid t s' = print_on (concat (map (grep_of files w) cs)) (term_grid t s)"
  using assms(5-)
proof (induction cs arbitrary: s buf i)
  case Nil
  then obtain s' buf' where "sys_read sched f s (int j) (Some buf) 32 = Some (s', Some buf', 0)" "term_grid t s' = term_grid t s"
    using reading_dir_read [OF Nil.prems(1), of buf sched] by auto
  then show ?case by (subst search_dir.simps) (auto simp: kernel_os_def print_on_def)
next
  case (Cons c cs)
  let ?os = "kernel_os sched f addr ex"
  obtain s1 b1 where s1: "sys_read sched f s (int j) (Some buf) 32 = Some (s1, Some b1, int (length c))" "take (length c) b1 = c" "length b1 = 33"
    "reading_dir f n j t s1" "term_grid t s1 = term_grid t s" "can_open s1" "dir_pieces f n j s1 = cs" "c \<noteq> []"
    using reading_dir_read [OF Cons.prems(1), of buf sched] Cons.prems(2-4) by auto
  have rd: "sc_read ?os s (int j) buf 32 = Some (s1, b1, int (length c))" using s1(1) by (simp add: kernel_os_def)
  obtain i' where "c = entry_name f i'" "i' \<le> unat n"
    using names_from_mem [of c f n "unat (file_pos (get_file s (cur_pcb s, j)))"] Cons.prems(4) by (auto simp: dir_pieces_def)
  then have c: "length c < 32" "0 \<notin> set c" using Cons.prems(1) by (auto simp: reading_dir_def short_names_def entry_name_def)
  have b0: "b1 ! 0 = hd c" using s1(2,8) by (metis hd_conv_nth length_greater_0_conv nth_take)
  show ?case
  proof (cases "hd c = 46")
    case True
    then have "grep_of files w c = []" by (simp add: grep_of_def)
    then show ?thesis using Cons.IH [OF s1(4,6,3,7), of i] Cons.prems(5) rd s1(3,5,8) b0 True
      by (subst search_dir.simps) auto
  next
    case False
    then obtain inode where e: "resolves f (c @ [0]) FILE_TYPE_REG inode" "wf_inode f inode" "file_content f (inode_at f inode) = files c"
      "plain_text (files c)" "8 \<notin> set c"
      using Cons.prems(5) by (auto simp: text_entry_def)
    obtain b2 where b2: "terminate_at b1 (int (length c)) = Some b2" "cstr b2 = c" "0 \<in> set b2" "length b2 = 33"
      using terminate_at_cstr [OF s1(2) refl] c s1(3) by auto
    have "resolves f b2 FILE_TYPE_REG inode" by (rule resolves_cstr [OF e(1)]) (use b2 c in \<open>simp_all add: readable_def\<close>)
    moreover have "search_args pat w b2 c" using pat b2 by (simp add: search_args_def)
    ultimately obtain s2 where s2: "do_one_file ?os (stack i) pat b2 s1 = Some (s2, 0)" "searched (free_fd s1) t s1 s2"
      "term_grid t s2 = print_on (matches_of c w (text_lines (files c))) (term_grid t s1)"
      using do_one_file_kernel [OF _ e(2) s1(6), of b2 t pat w c "stack i" sched addr ex] s1(4) e(3-5) stack [of i] by (auto simp: reading_dir_def)
    have "j \<noteq> free_fd s1" using free_fd_less(2) [OF s1(6)] s1(4) by (auto simp: reading_dir_def fd_present_def)
    note d = searched_dir [OF s2(2) s1(4) this s1(6) free_fd_less(1) [OF s1(6)]]
    obtain s' where "search_dir ?os (int j) stack (i + 1) pat b2 s2 = Some (s', 0)" "term_grid t s' = print_on (concat (map (grep_of files w) cs)) (term_grid t s2)"
      using Cons.IH [OF d(1,3) b2(4)] d(2) s1(7) Cons.prems(5) by auto
    moreover have "grep_of files w c = matches_of c w (text_lines (files c))" using False by (simp add: grep_of_def)
    ultimately show ?thesis using rd s1(3,5) s2(1,3) b2(1) b0 False s1(8)
      by (subst search_dir.simps) (auto simp: print_on_append)
  qed
qed

section \<open>Properties\<close>


section \<open>A sample directory\<close>

text \<open>The directory itself and the file \<open>a\<close>, with the lines \<open>ab\<close>, \<open>c\<close> and \<open>b\<close>.\<close>

definition sample_text :: "u8 list" where
  "sample_text = [97, 98, 10, 99, 10, 98, 10]"

definition text_fs :: fs where
  "text_fs = \<lparr>img = (bytes32 2 @ bytes32 1 @ replicate 56 0 @ ([46, 0] @ replicate 30 0 @ bytes32 1 @ bytes32 0 @ replicate 24 0) @
       ([97, 0] @ replicate 30 0 @ bytes32 2 @ bytes32 0 @ replicate 24 0) @ 0 # replicate 3903 0) @
       (bytes32 7 @ bytes32 0 @ replicate 4088 0) @ (sample_text @ replicate 4089 0), node_head = 4096, data_head = 8192\<rparr>"

lemma text_fs_drops:
  "img text_fs = bytes32 2 @ drop 4 (img text_fs)" "drop 4 (img text_fs) = bytes32 1 @ drop 8 (img text_fs)"
  "drop 64 (img text_fs) = 46 # 0 # replicate 30 0 @ drop 96 (img text_fs)" "drop 96 (img text_fs) = bytes32 1 @ drop 100 (img text_fs)"
  "drop 100 (img text_fs) = bytes32 0 @ drop 104 (img text_fs)" "drop 128 (img text_fs) = 97 # 0 # replicate 30 0 @ drop 160 (img text_fs)"
  "drop 160 (img text_fs) = bytes32 2 @ drop 164 (img text_fs)" "drop 164 (img text_fs) = bytes32 0 @ drop 168 (img text_fs)"
  "drop 192 (img text_fs) = 0 # replicate 3903 0 @ drop 4096 (img text_fs)" "drop 4096 (img text_fs) = bytes32 7 @ drop 4100 (img text_fs)"
  "drop 4100 (img text_fs) = bytes32 0 @ drop 4104 (img text_fs)" "drop 8192 (img text_fs) = sample_text @ replicate 4089 0" "length (img text_fs) = 12288"
  by (simp_all add: text_fs_def sample_text_def)

lemma text_fs_words:
  "num_dentries (img text_fs) = Some 2" "num_inodes (img text_fs) = Some 1" "entry_type text_fs 0 = Some 1" "entry_inode text_fs 0 = Some 0"
  "entry_type text_fs 1 = Some 2" "entry_inode text_fs 1 = Some 0" "rd32 (img text_fs) 4096 = Some 7" "rd32 (img text_fs) 4100 = Some 0"
  unfolding num_dentries_def num_inodes_def entry_type_def entry_inode_def entries_at_def
  by (rule rd32_append [of _ _ _ "drop 4 (img text_fs)"] rd32_append [OF text_fs_drops(2)] rd32_append [of _ _ _ "drop 100 (img text_fs)"]
      rd32_append [of _ _ _ "drop 104 (img text_fs)"] rd32_append [of _ _ _ "drop 164 (img text_fs)"] rd32_append [of _ _ _ "drop 168 (img text_fs)"]
      rd32_append [OF text_fs_drops(10)] rd32_append [OF text_fs_drops(11)];
      simp add: text_fs_drops(13) text_fs_drops(1) [symmetric] text_fs_drops(4) [symmetric] text_fs_drops(5) [symmetric] text_fs_drops(7) [symmetric] text_fs_drops(8) [symmetric])+

lemma text_fs_names: "entry_name text_fs 0 = [46]" "entry_name text_fs 1 = [97]" "entry_name text_fs 2 = []"
  by (simp_all add: entry_name_def entries_at_def text_fs_drops(3,6,9) del: drop_drop)

lemma text_fs_le: "i \<le> unat (2 :: u32) \<longleftrightarrow> i = 0 \<or> i = 1 \<or> i = 2"
  by auto

lemma text_fs_dir: "short_names text_fs 2" "names_from text_fs 2 0 = [[46], [97]]"
proof -
  have "0 \<in> set (drop 64 (img text_fs))" "0 \<in> set (drop 128 (img text_fs))" "0 \<in> set (drop 192 (img text_fs))"
    unfolding text_fs_drops(3,6,9) by simp_all
  then have "wf_dir text_fs (unat (2 :: u32))" unfolding wf_dir_def text_fs_le using text_fs_names by (auto simp: entries_at_def text_fs_drops(13))
  then show "short_names text_fs 2" unfolding short_names_def text_fs_le using text_fs_names text_fs_words(1) by auto
  show "names_from text_fs 2 0 = [[46], [97]]" using text_fs_names names_from_step [of text_fs 2 0] names_from_step [of text_fs 2 1] names_from_step [of text_fs 2 2]
    by (simp add: numeral_2_eq_2 [symmetric])
qed

lemma text_fs_resolves:
  "resolves text_fs (lit ''.'') FILE_TYPE_DIR 0" "resolves text_fs [97, 0] FILE_TYPE_REG 0" "wf_inode text_fs 0"
  "file_content text_fs (inode_at text_fs 0) = sample_text"
proof -
  have w: "wf_dir text_fs (unat (2 :: u32))" using text_fs_dir(1) by (simp add: short_names_def)
  have r: "readable (lit ''.'') FILE_NAME_SIZE" "readable [97, 0] FILE_NAME_SIZE" by (simp_all add: readable_def lit_def)
  have "List.find (name_match text_fs (lit ''.'')) [0..<unat (2 :: u32) + 1] = Some 0"
    "List.find (name_match text_fs [97, 0]) [0..<unat (2 :: u32) + 1] = Some 1"
    using text_fs_names by (simp_all add: name_match_def lit_def chars_def upt_rec)
  then show "resolves text_fs (lit ''.'') FILE_TYPE_DIR 0" "resolves text_fs [97, 0] FILE_TYPE_REG 0"
    unfolding resolves_def using text_fs_words(1,3-6) w r by blast+
  have i: "inode_at text_fs 0 = 4096" "byte_length text_fs 4096 = Some 7" "data_block_idx text_fs 4096 0 = Some 0" "data_head text_fs = 8192" "nblocks 7 = 1"
    by (simp_all add: inode_at_def byte_length_def data_block_idx_def text_fs_words nblocks_def) (simp_all add: text_fs_def)
  then show "wf_inode text_fs 0" using text_fs_words(2) text_fs_drops(13) by (auto simp: wf_inode_def wf_file_def)
  have "file_block text_fs 4096 0 = take 4096 (drop 8192 (img text_fs))" using i by (simp add: file_block_def)
  then show "file_content text_fs (inode_at text_fs 0) = sample_text"
    using i by (simp add: file_content_def) (simp add: text_fs_drops(12) sample_text_def)
qed

lemma sample_user_two: "can_open (opened_as ops (sample_user args ks) i)"
proof -
  let ?s = "sample_user args ks"
  have "\<not> fd_used (pcbs (opened_as ops ?s i) 3) 3"
    by (simp add: opened_as_def sample_user_free_fd sample_user_pcb fd_used_def sample_file_array zero_file_def)
  then show ?thesis using opened_present [OF sample_user_files(1), of ops args ks i]
    by (auto simp: can_open_def sample_user_pcb(1) intro!: exI [of _ 3])
qed

lemma sample_text_lines: "text_lines sample_text = [[97, 98], [99], [98], []]"
  using text_lines_newline [of "[97, 98]" "[99, 10, 98, 10]"] text_lines_newline [of "[99]" "[98, 10]"] text_lines_newline [of "[98]" "[]"]
  by (simp add: sample_text_def)


end
