(* ===== verification/Blink.thy ===== *)
theory Blink
  imports File_Sys
begin

text \<open>
  The blinking characters of \<^verbatim>\<open>fish\<close>: the allocator and the byte copies of \<^verbatim>\<open>fish/fish.c\<close>, and the list of blinks that
  \<^verbatim>\<open>fish/blink.S\<close> keeps in it. A pointer is its address; \<open>base\<close> is the address of \<open>blink_array\<close>. \<open>vmem_page\<close> is the video page
  at \<open>vmem_base_addr\<close>. \<open>None\<close> is an access outside an object or a walk that does not end.
\<close>

section \<open>Definitions\<close>

subsection \<open>The structure\<close>

record blink =
  location :: u16
  on_char :: u8
  off_char :: u8
  on_length :: u16
  off_length :: u16
  countdown :: u16
  status :: u16
  next_blink :: u32

record blinker =
  blink_array :: "blink list"
  mp1_list_head :: u32
  vmem_page :: "u8 list"

definition bytes16 :: "u16 \<Rightarrow> u8 list" where
  "bytes16 w = [ucast w, ucast (drop_bit 8 w)]"

definition le16 :: "u8 list \<Rightarrow> u16" where
  "le16 bs = ucast (bs ! 0) OR push_bit 8 (ucast (bs ! 1))"

text \<open>The packed structure as 16 bytes, at the offsets that \<^verbatim>\<open>blink.S\<close> names.\<close>

definition blink_bytes :: "blink \<Rightarrow> u8 list" where
  "blink_bytes b = bytes16 (location b) @ [on_char b, off_char b] @ bytes16 (on_length b) @ bytes16 (off_length b) @
     bytes16 (countdown b) @ bytes16 (status b) @ bytes32 (next_blink b)"

definition blink_of :: "u8 list \<Rightarrow> blink" where
  "blink_of bs = \<lparr>location = le16 bs, on_char = bs ! 2, off_char = bs ! 3, on_length = le16 (drop 4 bs), off_length = le16 (drop 6 bs),
     countdown = le16 (drop 8 bs), status = le16 (drop 10 bs), next_blink = le32 (drop 12 bs)\<rparr>"

definition zero_blink :: blink where
  "zero_blink = \<lparr>location = 0, on_char = 0, off_char = 0, on_length = 0, off_length = 0, countdown = 0, status = 0, next_blink = 0\<rparr>"

abbreviation (input) STRUCT_SIZE :: nat where "STRUCT_SIZE \<equiv> 16"

subsection \<open>Bytes\<close>

function memset_loop :: "u8 list \<Rightarrow> u8 \<Rightarrow> nat \<Rightarrow> nat \<Rightarrow> u8 list option" where
  "memset_loop mem c n i = (if i < n then Option.bind (store mem i c) (\<lambda>mem. memset_loop mem c n (i + 1)) else Some mem)"
  by pat_completeness auto
termination by (relation "measure (\<lambda>(mem, c, n, i). n - i)") auto

definition ece391_memset :: "u8 list \<Rightarrow> u8 \<Rightarrow> nat \<Rightarrow> u8 list option" where
  "ece391_memset mem c n = memset_loop mem c n 0"

function memcpy_loop :: "u8 list \<Rightarrow> u8 list \<Rightarrow> nat \<Rightarrow> nat \<Rightarrow> u8 list option" where
  "memcpy_loop d s n i =
     (if i < n then if i < length s then Option.bind (store d i (s ! i)) (\<lambda>d. memcpy_loop d s n (i + 1)) else None
      else Some d)"
  by pat_completeness auto
termination by (relation "measure (\<lambda>(d, s, n, i). n - i)") auto

definition ece391_memcpy :: "u8 list \<Rightarrow> u8 list \<Rightarrow> nat \<Rightarrow> (u8 list \<times> int) option" where
  "ece391_memcpy dest src n = map_option (\<lambda>d. (d, 0)) (memcpy_loop dest src n 0)"

declare memset_loop.simps [simp del] memcpy_loop.simps [simp del]

definition copy_blink :: "blink \<Rightarrow> blink \<Rightarrow> (blink \<times> int) option" where
  "copy_blink dest src = map_option (\<lambda>(bs, r). (blink_of bs, r)) (ece391_memcpy (blink_bytes dest) (blink_bytes src) STRUCT_SIZE)"

subsection \<open>The allocator\<close>

abbreviation (input) NUM_BLINKS :: nat where "NUM_BLINKS \<equiv> 80 * 25"

definition blink_addr :: "u32 \<Rightarrow> nat \<Rightarrow> u32" where
  "blink_addr base i = base + of_nat (STRUCT_SIZE * i)"

text \<open>The structure of \<open>blink_array\<close> that an address points at.\<close>

definition blink_slot :: "u32 \<Rightarrow> blinker \<Rightarrow> u32 \<Rightarrow> nat option" where
  "blink_slot base b p = (let d = unat (p - base) in
     if d mod STRUCT_SIZE = 0 \<and> d div STRUCT_SIZE < length (blink_array b) then Some (d div STRUCT_SIZE) else None)"

definition upd_blink :: "nat \<Rightarrow> (blink \<Rightarrow> blink) \<Rightarrow> blinker \<Rightarrow> blinker" where
  "upd_blink i g b = b\<lparr>blink_array := (blink_array b)[i := g (blink_array b ! i)]\<rparr>"

function mp1_malloc :: "u32 \<Rightarrow> blink list \<Rightarrow> nat \<Rightarrow> u32 option" where
  "mp1_malloc base arr i =
     (if i < NUM_BLINKS then
        if i < length arr then if location (arr ! i) = 0 then Some (blink_addr base i) else mp1_malloc base arr (i + 1)
        else None
      else Some 0)"
  by pat_completeness auto
termination by (relation "measure (\<lambda>(base, arr, i). NUM_BLINKS - i)") auto

declare mp1_malloc.simps [simp del]

definition mp1_free :: "blink \<Rightarrow> blink option" where
  "mp1_free memory = map_option blink_of (ece391_memset (blink_bytes memory) 0 STRUCT_SIZE)"

text \<open>The \<open>memset\<close> at the start of \<open>main\<close>, over the bytes of the whole array.\<close>

definition clear_blinks :: "blinker \<Rightarrow> blinker option" where
  "clear_blinks b = map_option
     (\<lambda>bs. b\<lparr>blink_array := map (\<lambda>i. blink_of (take STRUCT_SIZE (drop (STRUCT_SIZE * i) bs))) [0..<NUM_BLINKS]\<rparr>)
     (ece391_memset (concat (map blink_bytes (blink_array b))) 0 (STRUCT_SIZE * NUM_BLINKS))"

subsection \<open>The list of blinks\<close>

definition mp1_poke :: "u16 \<Rightarrow> u8 \<Rightarrow> blinker \<Rightarrow> blinker option" where
  "mp1_poke loc c b = map_option (\<lambda>v. b\<lparr>vmem_page := v\<rparr>) (store (vmem_page b) (2 * unat loc) c)"

partial_function (option) find_loop :: "u32 \<Rightarrow> blinker \<Rightarrow> u16 \<Rightarrow> u32 \<Rightarrow> u32 option" where
  "find_loop base b ax p =
     (if p = 0 then Some 0
      else Option.bind (blink_slot base b p) (\<lambda>i.
        if location (blink_array b ! i) = ax then Some p else find_loop base b ax (next_blink (blink_array b ! i))))"

definition mp1_find_helper :: "u32 \<Rightarrow> blinker \<Rightarrow> u32 \<Rightarrow> u32 option" where
  "mp1_find_helper base b arg = find_loop base b (ucast arg) (mp1_list_head b)"

text \<open>The new blink is built on the stack, in a structure that the copy overwrites entirely.\<close>

definition mp1_ioctl_add :: "u32 \<Rightarrow> blink \<Rightarrow> blinker \<Rightarrow> (blinker \<times> int) option" where
  "mp1_ioctl_add base user b = do {
     (tmp, r) \<leftarrow> copy_blink zero_blink user;
     if r \<noteq> 0 \<or> location tmp \<ge> 80 * 25 then Some (b, -1)
     else do {
       let tmp = tmp\<lparr>status := 1, countdown := on_length tmp\<rparr>;
       p \<leftarrow> mp1_malloc base (blink_array b) 0;
       if p = 0 then Some (b, -1)
       else do {
         i \<leftarrow> blink_slot base b p;
         (new, _) \<leftarrow> copy_blink (blink_array b ! i) tmp;
         let b = upd_blink i (\<lambda>_. new\<lparr>next_blink := mp1_list_head b\<rparr>) b;
         let b = b\<lparr>mp1_list_head := p\<rparr>;
         b \<leftarrow> mp1_poke (location new) (on_char new) b;
         Some (b, 0) } } }"

text \<open>
  The walk to the pointer that points at \<open>p\<close>: the head of the list (\<open>None\<close>) or the \<open>NEXT\<close> field of a blink.
\<close>

partial_function (option) find_prev :: "u32 \<Rightarrow> blinker \<Rightarrow> u32 \<Rightarrow> nat option \<Rightarrow> nat option option" where
  "find_prev base b p prev =
     (let q = (case prev of None \<Rightarrow> mp1_list_head b | Some i \<Rightarrow> next_blink (blink_array b ! i)) in
      if q = p then Some prev
      else Option.bind (blink_slot base b q) (\<lambda>i. find_prev base b p (Some i)))"

definition set_prev :: "nat option \<Rightarrow> u32 \<Rightarrow> blinker \<Rightarrow> blinker" where
  "set_prev prev q b = (case prev of None \<Rightarrow> b\<lparr>mp1_list_head := q\<rparr> | Some i \<Rightarrow> upd_blink i (\<lambda>x. x\<lparr>next_blink := q\<rparr>) b)"

definition mp1_ioctl_remove :: "u32 \<Rightarrow> u32 \<Rightarrow> blinker \<Rightarrow> (blinker \<times> int) option" where
  "mp1_ioctl_remove base arg b = do {
     p \<leftarrow> mp1_find_helper base b arg;
     if p = 0 then Some (b, -1)
     else do {
       prev \<leftarrow> find_prev base b p None;
       i \<leftarrow> blink_slot base b p;
       let b = set_prev prev (next_blink (blink_array b ! i)) b;
       z \<leftarrow> mp1_free (blink_array b ! i);
       Some (upd_blink i (\<lambda>_. z) b, 0) } }"

text \<open>
  The character to show is chosen with \<open>cmovl\<close> after \<open>testb $1\<close>: it moves when the sign and overflow flags differ, the
  sign flag being bit 7 of the tested byte, and \<open>testb\<close> clears the overflow flag.
\<close>

definition sync_char :: "blink \<Rightarrow> u8" where
  "sync_char x = (let t = ucast (status x) AND (1 :: u8); sf = bit t 7; ovf = False in if sf \<noteq> ovf then on_char x else off_char x)"

definition mp1_ioctl_sync :: "u32 \<Rightarrow> u32 \<Rightarrow> blinker \<Rightarrow> (blinker \<times> int) option" where
  "mp1_ioctl_sync base arg b = do {
     src \<leftarrow> mp1_find_helper base b (drop_bit 16 arg);
     if src = 0 then Some (b, -1)
     else do {
       dst \<leftarrow> mp1_find_helper base b (arg AND 0xFFFF);
       if dst = 0 then Some (b, -1)
       else do {
         i \<leftarrow> blink_slot base b src;
         j \<leftarrow> blink_slot base b dst;
         let x = blink_array b ! i;
         let b = upd_blink j (\<lambda>y. y\<lparr>on_length := on_length x, off_length := off_length x, countdown := countdown x, status := status x\<rparr>) b;
         let y = blink_array b ! j;
         b \<leftarrow> mp1_poke (location y) (sync_char y) b;
         Some (b, 0) } } }"

text \<open>The location is read from the first two bytes of the user's structure, which receives the blink.\<close>

definition mp1_ioctl_find :: "u32 \<Rightarrow> blink \<Rightarrow> blinker \<Rightarrow> (blink \<times> int) option" where
  "mp1_ioctl_find base user b = do {
     (bs, r) \<leftarrow> ece391_memcpy [0, 0] (blink_bytes user) 2;
     if r \<noteq> 0 then Some (user, -1)
     else do {
       p \<leftarrow> mp1_find_helper base b (ucast (le16 bs));
       if p = 0 then Some (user, -1)
       else do {
         i \<leftarrow> blink_slot base b p;
         (user, r) \<leftarrow> copy_blink user (blink_array b ! i);
         Some (user, if r = 0 then 0 else -1) } } }"

abbreviation (input) RTC_ADD :: nat where "RTC_ADD \<equiv> 0"
abbreviation (input) RTC_REMOVE :: nat where "RTC_REMOVE \<equiv> 1"
abbreviation (input) RTC_FIND :: nat where "RTC_FIND \<equiv> 2"
abbreviation (input) RTC_SYNC :: nat where "RTC_SYNC \<equiv> 3"

text \<open>
  The argument is a number \<open>arg\<close> for some commands and a pointer to the structure \<open>user\<close> for others. The jump through
  the table is not checked.
\<close>

definition mp1_ioctl :: "u32 \<Rightarrow> blink \<Rightarrow> u32 \<Rightarrow> nat \<Rightarrow> blinker \<Rightarrow> (blinker \<times> blink \<times> int) option" where
  "mp1_ioctl base user arg cmd b =
     (if cmd = RTC_ADD then map_option (\<lambda>(b, r). (b, user, r)) (mp1_ioctl_add base user b)
      else if cmd = RTC_REMOVE then map_option (\<lambda>(b, r). (b, user, r)) (mp1_ioctl_remove base arg b)
      else if cmd = RTC_FIND then map_option (\<lambda>(user, r). (b, user, r)) (mp1_ioctl_find base user b)
      else if cmd = RTC_SYNC then map_option (\<lambda>(b, r). (b, user, r)) (mp1_ioctl_sync base arg b)
      else None)"

subsection \<open>The tick\<close>

text \<open>One blink: the new structure, and the character that is shown when it changes.\<close>

definition blink_tick :: "blink \<Rightarrow> blink \<times> u8 option" where
  "blink_tick x = (let x = x\<lparr>countdown := countdown x - 1\<rparr> in
     if sint (countdown x) > 0 then (x, None)
     else let (c, dx) = (if bit (status x) 0 then (off_char x, off_length x) else (on_char x, on_length x))
          in (x\<lparr>countdown := dx, status := status x XOR 1\<rparr>, Some c))"

partial_function (option) tasklet_loop :: "u32 \<Rightarrow> u32 \<Rightarrow> blinker \<Rightarrow> blinker option" where
  "tasklet_loop base p b =
     (if p = 0 then Some b
      else Option.bind (blink_slot base b p) (\<lambda>i.
        let (x, c) = blink_tick (blink_array b ! i); b = upd_blink i (\<lambda>_. x) b in
        Option.bind (case c of None \<Rightarrow> Some b | Some c \<Rightarrow> mp1_poke (location x) c b) (tasklet_loop base (next_blink x))))"

definition mp1_rtc_tasklet :: "u32 \<Rightarrow> blinker \<Rightarrow> blinker option" where
  "mp1_rtc_tasklet base b = tasklet_loop base (mp1_list_head b) b"

section \<open>Structures and bytes\<close>

lemma le16_bytes16: "le16 (ucast w # ucast (drop_bit 8 w) # xs) = w"
proof (rule bit_word_eqI)
  fix n
  assume n: "n < LENGTH(16)"
  show "bit (le16 (ucast w # ucast (drop_bit 8 w) # xs)) n = bit w n"
    using n by (auto simp: le16_def bit_simps)
qed

lemma length_blink_bytes [simp]: "length (blink_bytes b) = STRUCT_SIZE"
  by (simp add: blink_bytes_def bytes16_def)

lemma blink_round_trip [simp]: "blink_of (blink_bytes b) = b"
  using le32_bytes32 [of "next_blink b"]
  by (simp add: blink_of_def blink_bytes_def bytes16_def le16_bytes16 bytes32_def)

lemma blink_of_zeros [simp]: "blink_of (replicate 16 0) = zero_blink"
proof -
  have "replicate 16 (0 :: u8) = [0, 0, 0, 0, 0, 0, 0, 0, 0, 0, 0, 0, 0, 0, 0, 0]" by code_simp
  then show ?thesis by (simp add: blink_of_def zero_blink_def le16_def le32_def)
qed

lemma memset_loop_eq: "i \<le> n \<Longrightarrow> n \<le> length mem \<Longrightarrow> memset_loop mem c n i = Some (take i mem @ replicate (n - i) c @ drop n mem)"
proof (induction mem c n i rule: memset_loop.induct)
  case (1 mem c n i)
  show ?case
  proof (cases "i < n")
    case True
    then have "replicate (n - i) c = c # replicate (n - Suc i) c" by (metis Suc_diff_Suc replicate_Suc)
    then show ?thesis using 1 True by (subst memset_loop.simps) (simp add: take_Suc_conv_app_nth)
  qed (use 1 in \<open>subst memset_loop.simps, simp\<close>)
qed

lemma memset_eq [simp]: "n \<le> length mem \<Longrightarrow> ece391_memset mem c n = Some (replicate n c @ drop n mem)"
  by (simp add: ece391_memset_def memset_loop_eq)

lemma memcpy_loop_eq:
  "i \<le> n \<Longrightarrow> n \<le> length d \<Longrightarrow> n \<le> length s \<Longrightarrow> memcpy_loop d s n i = Some (take i d @ take (n - i) (drop i s) @ drop n d)"
proof (induction d s n i rule: memcpy_loop.induct)
  case (1 d s n i)
  show ?case
  proof (cases "i < n")
    case True
    then have "take (n - i) (drop i s) = s ! i # take (n - Suc i) (drop (Suc i) s)"
      using 1(4) by (simp add: Cons_nth_drop_Suc [symmetric] take_Cons' )
    then show ?thesis using 1 True by (subst memcpy_loop.simps) (simp add: take_Suc_conv_app_nth)
  qed (use 1 in \<open>subst memcpy_loop.simps, simp\<close>)
qed

lemma memcpy_eq [simp]: "n \<le> length d \<Longrightarrow> n \<le> length s \<Longrightarrow> ece391_memcpy d s n = Some (take n s @ drop n d, 0)"
  by (simp add: ece391_memcpy_def memcpy_loop_eq)

lemma copy_blink_eq [simp]: "copy_blink d s = Some (s, 0)"
  by (simp add: copy_blink_def)

lemma mp1_free_eq [simp]: "mp1_free x = Some zero_blink"
  by (simp add: mp1_free_def)

lemma length_concat_blinks: "length (concat (map blink_bytes xs)) = STRUCT_SIZE * length xs"
  by (induction xs) simp_all

lemma blinks_of_zeros:
  "map (\<lambda>i. blink_of (take STRUCT_SIZE (drop (STRUCT_SIZE * i) (replicate (STRUCT_SIZE * n) 0)))) [0..<n] = replicate n zero_blink"
proof -
  have "take 16 (drop (16 * i) (replicate (16 * n) (0 :: u8))) = replicate 16 0" if "i < n" for i
    using that by (simp add: min_def)
  then show ?thesis by (intro nth_equalityI) simp_all
qed

lemma clear_blinks_eq:
  assumes "length (blink_array b) = NUM_BLINKS"
  shows "clear_blinks b = Some (b\<lparr>blink_array := replicate NUM_BLINKS zero_blink\<rparr>)"
proof -
  define n where "n = NUM_BLINKS"
  have "length (concat (map blink_bytes (blink_array b))) = STRUCT_SIZE * n" using length_concat_blinks assms by (simp add: n_def)
  then show ?thesis unfolding clear_blinks_def n_def [symmetric] by (simp add: blinks_of_zeros del: take_replicate drop_replicate)
qed

section \<open>Addresses\<close>

text \<open>The array lies in the address space and not at 0.\<close>

definition blinks_at :: "u32 \<Rightarrow> bool" where
  "blinks_at base \<longleftrightarrow> 0 < unat base \<and> unat base + STRUCT_SIZE * NUM_BLINKS \<le> 2 ^ 32"

lemma unat_blink_addr: "blinks_at base \<Longrightarrow> i < NUM_BLINKS \<Longrightarrow> unat (blink_addr base i) = unat base + STRUCT_SIZE * i"
  by (simp add: blink_addr_def blinks_at_def unat_word_ariths unat_of_nat)

lemma blink_addr_simps:
  assumes "blinks_at base" "i < NUM_BLINKS"
  shows "blink_addr base i \<noteq> 0" "j < NUM_BLINKS \<Longrightarrow> blink_addr base i = blink_addr base j \<longleftrightarrow> i = j"
    "length (blink_array b) = NUM_BLINKS \<Longrightarrow> blink_slot base b (blink_addr base i) = Some i"
proof -
  have "unat (blink_addr base i) \<noteq> 0" using unat_blink_addr [OF assms] assms(1) unfolding blinks_at_def by linarith
  then show "blink_addr base i \<noteq> 0" by (metis unat_0)
  show "blink_addr base i = blink_addr base j \<longleftrightarrow> i = j" if "j < NUM_BLINKS"
    using unat_blink_addr [OF assms] unat_blink_addr [OF assms(1) that] by (metis add_left_cancel mult_cancel1 zero_neq_numeral)
  have "unat (of_nat (16 * i) :: u32) = 16 * i" using assms(2) by (intro unat_of_nat_u32) simp
  then show "blink_slot base b (blink_addr base i) = Some i" if "length (blink_array b) = NUM_BLINKS"
    using that assms(2) unfolding blink_slot_def blink_addr_def add_diff_cancel_left' by (simp only: Let_def) simp
qed

section \<open>The list in the array\<close>

fun blink_chain :: "u32 \<Rightarrow> blink list \<Rightarrow> u32 \<Rightarrow> nat list \<Rightarrow> bool" where
  "blink_chain base arr p [] \<longleftrightarrow> p = 0"
| "blink_chain base arr p (i # is) \<longleftrightarrow> p = blink_addr base i \<and> i < NUM_BLINKS \<and> blink_chain base arr (next_blink (arr ! i)) is"

text \<open>
  The slots \<open>is\<close> of the list are those in use, and a slot is in use exactly when its location is not 0.
\<close>

definition blinker_inv :: "u32 \<Rightarrow> nat list \<Rightarrow> blinker \<Rightarrow> bool" where
  "blinker_inv base is b \<longleftrightarrow> blinks_at base \<and> length (blink_array b) = NUM_BLINKS \<and> 2 * NUM_BLINKS \<le> length (vmem_page b) \<and>
     blink_chain base (blink_array b) (mp1_list_head b) is \<and> distinct is \<and>
     (\<forall>i < NUM_BLINKS. location (blink_array b ! i) = 0 \<longleftrightarrow> i \<notin> set is) \<and> (\<forall>i < NUM_BLINKS. unat (location (blink_array b ! i)) < NUM_BLINKS)"

text \<open>What the list means: the blinks without their links.\<close>

definition unlinked :: "blink \<Rightarrow> blink" where
  "unlinked x = x\<lparr>next_blink := 0\<rparr>"

definition blinks_of :: "nat list \<Rightarrow> blinker \<Rightarrow> blink list" where
  "blinks_of is b = map (\<lambda>i. unlinked (blink_array b ! i)) is"

lemma unlinked_simps [simp]:
  "location (unlinked x) = location x" "on_char (unlinked x) = on_char x" "off_char (unlinked x) = off_char x"
  "on_length (unlinked x) = on_length x" "off_length (unlinked x) = off_length x" "countdown (unlinked x) = countdown x"
  "status (unlinked x) = status x" "unlinked (x\<lparr>next_blink := p\<rparr>) = unlinked x"
  by (simp_all add: unlinked_def)

lemma blink_chain_less: "blink_chain base arr p is \<Longrightarrow> \<forall>i \<in> set is. i < NUM_BLINKS"
  by (induction "is" arbitrary: p) auto

lemma blink_chain_cong:
  "(\<And>i. i \<in> set is \<Longrightarrow> next_blink (arr' ! i) = next_blink (arr ! i)) \<Longrightarrow> blink_chain base arr' p is = blink_chain base arr p is"
  by (induction "is" arbitrary: p) auto

lemma upd_blink_simps [simp]:
  "vmem_page (upd_blink i g b) = vmem_page b" "mp1_list_head (upd_blink i g b) = mp1_list_head b"
  "length (blink_array (upd_blink i g b)) = length (blink_array b)"
  "i < length (blink_array b) \<Longrightarrow> blink_array (upd_blink i g b) ! j = (if j = i then g (blink_array b ! i) else blink_array b ! j)"
  "(upd_blink i g b)\<lparr>vmem_page := vmem_page b\<rparr> = upd_blink i g b"
  by (simp_all add: upd_blink_def nth_list_update)

lemma blink_chain_upd:
  "i \<notin> set is \<or> next_blink (g (blink_array b ! i)) = next_blink (blink_array b ! i) \<Longrightarrow> i < length (blink_array b) \<Longrightarrow>
   blink_chain base (blink_array (upd_blink i g b)) p is = blink_chain base (blink_array b) p is"
  by (rule blink_chain_cong) auto

lemma mp1_malloc_eq:
  assumes "length arr = NUM_BLINKS" "i \<le> NUM_BLINKS"
  shows "mp1_malloc base arr i = Some (case List.find (\<lambda>j. location (arr ! j) = 0) [i..<NUM_BLINKS] of None \<Rightarrow> 0 | Some j \<Rightarrow> blink_addr base j)"
  using assms
proof (induction "2000 - i" arbitrary: i)
  case 0
  then show ?case by (subst mp1_malloc.simps) simp
next
  case (Suc n)
  have l: "i < 2000" "[i..<2000] = i # [Suc i..<2000]" using Suc.hyps(2) by (simp_all add: upt_rec)
  show ?case using Suc.hyps(1) [of "Suc i"] Suc.hyps(2) Suc.prems l by (subst mp1_malloc.simps) simp
qed

lemma mp1_malloc_free:
  assumes "blinker_inv base is b" "length is < NUM_BLINKS"
  obtains i where "i < NUM_BLINKS" "i \<notin> set is" "mp1_malloc base (blink_array b) 0 = Some (blink_addr base i)"
proof -
  have "card (set is) < card {..<2000 :: nat}" using assms(2) card_length [of "is"] by simp
  then have "\<not> {..<2000} \<subseteq> set is" using card_mono [of "set is" "{..<2000}"] by auto
  then obtain j where "j < 2000" "j \<notin> set is" by auto
  then obtain i where i: "List.find (\<lambda>j. location (blink_array b ! j) = 0) [0..<2000] = Some i"
    using assms(1) find_SomeI [of j "[0..<2000]" "\<lambda>j. location (blink_array b ! j) = 0"] by (auto simp: blinker_inv_def)
  then have "i < 2000" "location (blink_array b ! i) = 0" by (auto dest: find_SomeD)
  moreover from this have "i \<notin> set is" using assms(1) by (auto simp: blinker_inv_def)
  moreover have "mp1_malloc base (blink_array b) 0 = Some (blink_addr base i)"
    using mp1_malloc_eq [of "blink_array b" 0 base] assms(1) i by (simp add: blinker_inv_def)
  ultimately show ?thesis using that by auto
qed

lemma blinker_inv_slot:
  assumes "blinker_inv base is b" "i < NUM_BLINKS"
  shows "blink_slot base b (blink_addr base i) = Some i" "blink_addr base i \<noteq> 0"
  using assms blink_addr_simps(1,3) [of base i] by (simp_all add: blinker_inv_def)

lemma find_loop_eq:
  assumes "blinks_at base" "length (blink_array b) = NUM_BLINKS" "blink_chain base (blink_array b) p is"
  shows "find_loop base b ax p = Some (case List.find (\<lambda>i. location (blink_array b ! i) = ax) is of None \<Rightarrow> 0 | Some i \<Rightarrow> blink_addr base i)"
  using assms(3)
proof (induction "is" arbitrary: p)
  case Nil
  then show ?case by (subst find_loop.simps) simp
next
  case (Cons i "is")
  then show ?case using blink_addr_simps(1,3) [OF assms(1), of i] assms(2) by (subst find_loop.simps) auto
qed

lemma mp1_find_helper_eq:
  assumes "blinker_inv base is b"
  shows "mp1_find_helper base b arg = Some (case List.find (\<lambda>i. location (blink_array b ! i) = ucast arg) is of None \<Rightarrow> 0 | Some i \<Rightarrow> blink_addr base i)"
  using assms find_loop_eq by (simp add: mp1_find_helper_def blinker_inv_def)

lemma mp1_poke_eq [simp]: "2 * unat loc < length (vmem_page b) \<Longrightarrow> mp1_poke loc c b = Some (b\<lparr>vmem_page := (vmem_page b)[2 * unat loc := c]\<rparr>)"
  by (simp add: mp1_poke_def)

section \<open>Adding\<close>

text \<open>The blink as it is stored, and the state when it is stored in slot \<open>i\<close>.\<close>

definition fresh_blink :: "blink \<Rightarrow> blink" where
  "fresh_blink x = x\<lparr>status := 1, countdown := on_length x\<rparr>"

definition put_blink :: "u32 \<Rightarrow> nat \<Rightarrow> blink \<Rightarrow> blinker \<Rightarrow> blinker" where
  "put_blink base i x b = (upd_blink i (\<lambda>_. (fresh_blink x)\<lparr>next_blink := mp1_list_head b\<rparr>) b)
     \<lparr>mp1_list_head := blink_addr base i, vmem_page := (vmem_page b)[2 * unat (location x) := on_char x]\<rparr>"

lemma mp1_ioctl_add_at:
  assumes "blinks_at base" "length (blink_array b) = NUM_BLINKS" "2 * NUM_BLINKS \<le> length (vmem_page b)" "i < NUM_BLINKS"
    and "mp1_malloc base (blink_array b) 0 = Some (blink_addr base i)" "unat (location x) < NUM_BLINKS"
  shows "mp1_ioctl_add base x b = Some (put_blink base i x b, 0)"
proof -
  have "\<not> location x \<ge> 2000" using assms(6) by (simp add: word_le_nat_alt)
  then show ?thesis using blink_addr_simps(1,3) [OF assms(1,4)] assms by (simp add: mp1_ioctl_add_def put_blink_def fresh_blink_def)
qed

lemma mp1_ioctl_add_eq:
  assumes inv: "blinker_inv base is b" and l: "location x \<noteq> 0" "unat (location x) < NUM_BLINKS" "length is < NUM_BLINKS"
  shows "\<exists>i b'. mp1_ioctl_add base x b = Some (b', 0) \<and> blinker_inv base (i # is) b' \<and>
    blinks_of (i # is) b' = unlinked (fresh_blink x) # blinks_of is b \<and> vmem_page b' = (vmem_page b)[2 * unat (location x) := on_char x]"
proof -
  obtain i where i: "i < NUM_BLINKS" "i \<notin> set is" "mp1_malloc base (blink_array b) 0 = Some (blink_addr base i)"
    using mp1_malloc_free [OF inv l(3)] by blast
  have v: "length (blink_array b) = NUM_BLINKS" using inv by (simp add: blinker_inv_def)
  have "mp1_ioctl_add base x b = Some (put_blink base i x b, 0)"
    using inv i l(2) by (intro mp1_ioctl_add_at) (auto simp: blinker_inv_def)
  moreover have "blinker_inv base (i # is) (put_blink base i x b)"
    using inv i l(1,2) blink_chain_upd [of i "is" _ b] by (auto simp: blinker_inv_def put_blink_def fresh_blink_def)
  moreover have "blinks_of (i # is) (put_blink base i x b) = unlinked (fresh_blink x) # blinks_of is b"
    using i v by (auto simp: blinks_of_def put_blink_def intro!: map_cong)
  ultimately show ?thesis by (intro exI [of _ i] exI [of _ "put_blink base i x b"]) (simp add: put_blink_def)
qed

section \<open>Removing, finding and synchronising\<close>

lemma find_split:
  assumes "List.find P is = Some i"
  shows "\<exists>us vs. is = us @ i # vs \<and> P i \<and> (\<forall>j \<in> set us. \<not> P j)"
  using assms
proof (induction "is")
  case (Cons j js)
  show ?case
  proof (cases "P j")
    case False
    with Cons obtain us vs where "js = us @ i # vs \<and> P i \<and> (\<forall>j \<in> set us. \<not> P j)" by auto
    with False show ?thesis by (intro exI [of _ "j # us"] exI [of _ vs]) auto
  next
    case True
    with Cons.prems show ?thesis by (intro exI [of _ "[]"] exI [of _ js]) simp
  qed
qed simp

text \<open>The place that points behind \<open>us\<close>.\<close>

definition prev_of :: "nat list \<Rightarrow> nat option" where
  "prev_of us = (if us = [] then None else Some (last us))"

lemma find_prev_eq:
  assumes "blinks_at base" "length (blink_array b) = NUM_BLINKS" "distinct (us @ i # vs)"
    and "blink_chain base (blink_array b) (case prev of None \<Rightarrow> mp1_list_head b | Some j \<Rightarrow> next_blink (blink_array b ! j)) (us @ i # vs)"
  shows "find_prev base b (blink_addr base i) prev = Some (if us = [] then prev else Some (last us))"
  using assms(3,4)
proof (induction us arbitrary: prev)
  case Nil
  then show ?case by (subst find_prev.simps) (simp add: Let_def)
next
  case (Cons j us)
  have i: "i < 2000" using blink_chain_less [OF Cons.prems(2)] by simp
  have j: "j < 2000" "blink_addr base j \<noteq> blink_addr base i"
    using Cons.prems blink_addr_simps(2) [OF assms(1), of j i] i by auto
  then show ?case using Cons.IH [of "Some j"] Cons.prems blink_addr_simps(3) [OF assms(1), of j b] assms(2)
    by (subst find_prev.simps) (auto simp: Let_def)
qed

lemma blink_chain_unlink:
  assumes "blink_chain base arr p (us @ i # vs)" "distinct (us @ i # vs)" "length arr = NUM_BLINKS" "us \<noteq> []"
    and "next_blink x = next_blink (arr ! i)"
  shows "blink_chain base (arr[last us := x]) p (us @ vs)"
  using assms(1,2,4)
proof (induction us arbitrary: p)
  case (Cons a us)
  have a: "a < 2000" using Cons.prems(1) by simp
  show ?case
  proof (cases "us = []")
    case True
    have "blink_chain base (arr[a := x]) q vs = blink_chain base arr q vs" for q
      using Cons.prems(2) by (intro blink_chain_cong) (metis distinct.simps(2) nth_list_update_neq in_set_conv_decomp append_Cons Un_iff list.set_intros(2) set_append)
    then show ?thesis using True Cons.prems a assms(3,5) by simp
  next
    case False
    then have "a \<noteq> last us" using Cons.prems(2) by auto
    then show ?thesis using False Cons a by simp
  qed
qed simp

lemma set_prev_chain:
  assumes "blinker_inv base (us @ i # vs) b"
  shows "blink_chain base (blink_array (set_prev (prev_of us) (next_blink (blink_array b ! i)) b))
      (mp1_list_head (set_prev (prev_of us) (next_blink (blink_array b ! i)) b)) (us @ vs)"
proof (cases "us = []")
  case True
  then show ?thesis using assms by (simp add: set_prev_def prev_of_def blinker_inv_def)
next
  case False
  then show ?thesis using assms blink_chain_unlink [of base "blink_array b" "mp1_list_head b" us i vs "(blink_array b ! last us)\<lparr>next_blink := next_blink (blink_array b ! i)\<rparr>"]
    by (simp add: set_prev_def prev_of_def blinker_inv_def upd_blink_def)
qed

lemma set_prev_fields [simp]:
  "vmem_page (set_prev p q b) = vmem_page b" "length (blink_array (set_prev p q b)) = length (blink_array b)"
  "unlinked (blink_array (set_prev p q b) ! j) = unlinked (blink_array b ! j)"
  by (auto simp: set_prev_def upd_blink_def nth_list_update split: option.splits)
    (metis list_update_beyond not_less nth_list_update_eq nth_list_update_neq unlinked_simps(8))

lemma unlinked_location: "unlinked x = unlinked y \<Longrightarrow> location x = location y"
  by (metis unlinked_simps(1))

fun remove_blink :: "u16 \<Rightarrow> blink list \<Rightarrow> blink list" where
  "remove_blink loc [] = []"
| "remove_blink loc (x # xs) = (if location x = loc then xs else x # remove_blink loc xs)"

lemma remove_blink_absent: "loc \<notin> location ` set xs \<Longrightarrow> remove_blink loc xs = xs"
  by (induction xs) auto

lemma remove_blink_append: "\<forall>x \<in> set xs. location x \<noteq> loc \<Longrightarrow> remove_blink loc (xs @ ys) = xs @ remove_blink loc ys"
  by (induction xs) auto

lemma mp1_ioctl_remove_eq:
  assumes inv: "blinker_inv base is b"
  shows "\<exists>b' js. mp1_ioctl_remove base arg b = Some (b', if ucast arg \<in> location ` set (blinks_of is b) then 0 else -1) \<and>
    blinker_inv base js b' \<and> vmem_page b' = vmem_page b \<and> blinks_of js b' = remove_blink (ucast arg) (blinks_of is b)"
proof (cases "List.find (\<lambda>i. location (blink_array b ! i) = ucast arg) is")
  case None
  then have "ucast arg \<notin> location ` set (blinks_of is b)" by (auto simp: find_None_iff blinks_of_def)
  moreover have "mp1_ioctl_remove base arg b = Some (b, -1)" using mp1_find_helper_eq [OF inv] None by (simp add: mp1_ioctl_remove_def)
  ultimately show ?thesis using inv remove_blink_absent by (intro exI [of _ b] exI [of _ "is"]) auto
next
  case (Some i)
  then obtain us vs where f: "is = us @ i # vs" "location (blink_array b ! i) = ucast arg" "\<forall>j \<in> set us. location (blink_array b ! j) \<noteq> ucast arg"
    using find_split by fastforce
  note iv = inv [unfolded f(1)]
  have v: "length (blink_array b) = 2000" "distinct (us @ i # vs)" "i < NUM_BLINKS"
    using iv blink_chain_less [of base _ _ "us @ i # vs"] by (auto simp: blinker_inv_def)
  let ?s = "set_prev (prev_of us) (next_blink (blink_array b ! i)) b"
  let ?b = "upd_blink i (\<lambda>_. zero_blink) ?s"
  have "find_prev base b (blink_addr base i) None = Some (prev_of us)"
    using find_prev_eq [of base b us i vs None] iv by (simp add: blinker_inv_def prev_of_def)
  then have r: "mp1_ioctl_remove base arg b = Some (?b, 0)"
    using mp1_find_helper_eq [OF inv] Some blinker_inv_slot [OF inv v(3)] by (simp add: mp1_ioctl_remove_def)
  have "location (blink_array ?s ! j) = location (blink_array b ! j)" for j
    by (rule unlinked_location) simp
  moreover have "blink_chain base (blink_array ?b) (mp1_list_head ?b) (us @ vs)"
    using set_prev_chain [OF iv] blink_chain_upd [of i "us @ vs" _ ?s] v by simp
  ultimately have "blinker_inv base (us @ vs) ?b"
    using iv v(3) by (auto simp: blinker_inv_def zero_blink_def)
  moreover have "blinks_of (us @ vs) ?b = blinks_of us b @ blinks_of vs b"
    using v by (auto simp: blinks_of_def)
  moreover have "remove_blink (ucast arg) (blinks_of is b) = blinks_of us b @ blinks_of vs b"
    using f remove_blink_append [of "blinks_of us b" "ucast arg" "blinks_of (i # vs) b"] by (simp add: blinks_of_def)
  moreover have "ucast arg \<in> location ` set (blinks_of is b)" using f by (auto simp: blinks_of_def)
  ultimately show ?thesis using r by auto
qed

lemma find_blinks_of:
  "List.find (\<lambda>x. location x = loc) (blinks_of is b) =
     map_option (\<lambda>i. unlinked (blink_array b ! i)) (List.find (\<lambda>i. location (blink_array b ! i) = loc) is)"
  by (induction "is") (simp_all add: blinks_of_def)

lemma ucast_up_down: "ucast (ucast (w :: u16) :: u32) = w"
  by (rule bit_word_eqI) (simp add: bit_simps)

lemma mp1_ioctl_find_eq:
  assumes inv: "blinker_inv base is b"
  shows "\<exists>u. mp1_ioctl_find base user b =
    Some (case List.find (\<lambda>x. location x = location user) (blinks_of is b) of None \<Rightarrow> (user, -1) | Some x \<Rightarrow> (u, 0)) \<and>
    (\<forall>x. List.find (\<lambda>x. location x = location user) (blinks_of is b) = Some x \<longrightarrow> unlinked u = x)"
proof -
  have "take 2 (blink_bytes user) = bytes16 (location user)" by (simp add: blink_bytes_def bytes16_def numeral_eq_Suc)
  then have h: "ece391_memcpy [0, 0] (blink_bytes user) 2 = Some (bytes16 (location user), 0)" by simp
  have "le16 (bytes16 (location user)) = location user" by (simp add: bytes16_def le16_bytes16)
  then have h: "ece391_memcpy [0, 0] (blink_bytes user) 2 = Some (bytes16 (location user), 0)" "le16 (bytes16 (location user)) = location user"
    using h by simp_all
  show ?thesis
  proof (cases "List.find (\<lambda>i. location (blink_array b ! i) = location user) is")
    case None
    then show ?thesis by (simp add: mp1_ioctl_find_def h find_blinks_of mp1_find_helper_eq [OF inv] ucast_up_down)
  next
    case (Some i)
    then have "i < NUM_BLINKS" using inv blink_chain_less by (auto simp: blinker_inv_def dest!: find_SomeD)
    then show ?thesis using Some blinker_inv_slot [OF inv, of i]
      by (intro exI [of _ "blink_array b ! i"]) (simp add: mp1_ioctl_find_def h find_blinks_of mp1_find_helper_eq [OF inv] ucast_up_down)
  qed
qed

definition sync_to :: "blink \<Rightarrow> blink \<Rightarrow> blink" where
  "sync_to x y = y\<lparr>on_length := on_length x, off_length := off_length x, countdown := countdown x, status := status x\<rparr>"

fun sync_first :: "u16 \<Rightarrow> blink \<Rightarrow> blink list \<Rightarrow> blink list" where
  "sync_first loc x [] = []"
| "sync_first loc x (y # ys) = (if location y = loc then sync_to x y # ys else y # sync_first loc x ys)"

text \<open>The flags never select the character that is shown while a blink is on.\<close>

lemma sync_char_off [simp]: "sync_char x = off_char x"
  by (simp add: sync_char_def Let_def bit_simps)

lemma blinks_of_upd:
  assumes "List.find (\<lambda>i. location (blink_array b ! i) = loc) is = Some j" "distinct is" "j < length (blink_array b)"
    and "\<And>y. unlinked (g y) = sync_to x (unlinked y)"
  shows "blinks_of is (upd_blink j g b) = sync_first loc x (blinks_of is b)"
  using assms(1,2)
proof (induction "is")
  case (Cons i "is")
  show ?case
  proof (cases "location (blink_array b ! i) = loc")
    case True
    then have "blinks_of is (upd_blink j g b) = blinks_of is b" using Cons.prems assms(3) by (auto simp: blinks_of_def)
    then show ?thesis using True Cons.prems(1) assms(3,4) by (simp add: blinks_of_def)
  next
    case False
    then have "j \<in> set is" using Cons.prems(1) by (auto dest: find_SomeD)
    then have "i \<noteq> j" using Cons.prems(2) by auto
    then show ?thesis using False Cons assms(3) by (simp add: blinks_of_def)
  qed
qed simp

lemma mp1_ioctl_sync_eq:
  assumes inv: "blinker_inv base is b"
    and f: "List.find (\<lambda>x. location x = ucast (drop_bit 16 arg)) (blinks_of is b) = Some x"
      "List.find (\<lambda>x. location x = ucast (arg AND 0xFFFF)) (blinks_of is b) = Some y"
  shows "\<exists>b'. mp1_ioctl_sync base arg b = Some (b', 0) \<and> blinker_inv base is b' \<and>
    blinks_of is b' = sync_first (ucast (arg AND 0xFFFF)) x (blinks_of is b) \<and> vmem_page b' = (vmem_page b)[2 * unat (location y) := off_char y]"
proof -
  obtain i where i: "List.find (\<lambda>i. location (blink_array b ! i) = ucast (drop_bit 16 arg)) is = Some i" "x = unlinked (blink_array b ! i)"
    using f(1) unfolding find_blinks_of by auto
  obtain j where j: "List.find (\<lambda>i. location (blink_array b ! i) = ucast (arg AND 0xFFFF)) is = Some j" "y = unlinked (blink_array b ! j)"
    using f(2) unfolding find_blinks_of by auto
  have l: "i < NUM_BLINKS" "j < NUM_BLINKS" "length (blink_array b) = NUM_BLINKS" "distinct is" "2 * NUM_BLINKS \<le> length (vmem_page b)"
    using inv blink_chain_less i(1) j(1) by (auto simp: blinker_inv_def dest!: find_SomeD)
  let ?g = "\<lambda>y. y\<lparr>on_length := on_length x, off_length := off_length x, countdown := countdown x, status := status x\<rparr>"
  let ?b = "(upd_blink j ?g b)\<lparr>vmem_page := (vmem_page b)[2 * unat (location y) := off_char y]\<rparr>"
  have "unat (location y) < 2000" using inv l(2) j(2) by (simp add: blinker_inv_def)
  then have "mp1_ioctl_sync base arg b = Some (?b, 0)"
    using blinker_inv_slot [OF inv l(1)] blinker_inv_slot [OF inv l(2)] i j l(2,3,5)
    by (simp add: mp1_ioctl_sync_def mp1_find_helper_eq [OF inv] Let_def)
  moreover have "blinker_inv base is ?b" using inv l blink_chain_upd [of j "is" ?g b] by (auto simp: blinker_inv_def)
  moreover have "blinks_of is ?b = sync_first (ucast (arg AND 0xFFFF)) x (blinks_of is b)"
    using blinks_of_upd [OF j(1) l(4), of ?g x] l by (simp add: blinks_of_def sync_to_def unlinked_def)
  ultimately show ?thesis by auto
qed

lemma mp1_ioctl_sync_total:
  assumes inv: "blinker_inv base is b"
  shows "\<exists>b' r. mp1_ioctl_sync base arg b = Some (b', r) \<and> blinker_inv base is b'"
proof (cases "List.find (\<lambda>x. location x = ucast (drop_bit 16 arg)) (blinks_of is b)")
  case None
  then have "mp1_ioctl_sync base arg b = Some (b, -1)"
    by (simp add: mp1_ioctl_sync_def mp1_find_helper_eq [OF inv] find_blinks_of)
  then show ?thesis using inv by blast
next
  case (Some x)
  show ?thesis
  proof (cases "List.find (\<lambda>x. location x = ucast (arg AND 0xFFFF)) (blinks_of is b)")
    case None
    obtain i where i: "List.find (\<lambda>i. location (blink_array b ! i) = ucast (drop_bit 16 arg)) is = Some i"
      using Some by (auto simp: find_blinks_of)
    then have "i < NUM_BLINKS" using inv blink_chain_less by (auto simp: blinker_inv_def dest!: find_SomeD)
    then have "mp1_ioctl_sync base arg b = Some (b, -1)"
      using None i blinker_inv_slot [OF inv] by (simp add: mp1_ioctl_sync_def mp1_find_helper_eq [OF inv] find_blinks_of)
    then show ?thesis using inv by blast
  next
    case y: (Some y)
    show ?thesis using mp1_ioctl_sync_eq [OF inv Some y] by blast
  qed
qed

section \<open>Ticking\<close>

abbreviation (input) ticked :: "blink \<Rightarrow> blink" where "ticked x \<equiv> fst (blink_tick x)"

definition tick_show :: "blink \<Rightarrow> u8 list \<Rightarrow> u8 list" where
  "tick_show x v = (case snd (blink_tick x) of None \<Rightarrow> v | Some c \<Rightarrow> v[2 * unat (location x) := c])"

lemma blink_tick_keeps [simp]:
  "location (ticked x) = location x" "on_char (ticked x) = on_char x" "off_char (ticked x) = off_char x"
  "on_length (ticked x) = on_length x" "off_length (ticked x) = off_length x" "next_blink (ticked x) = next_blink x"
  by (simp_all add: blink_tick_def Let_def)

lemma blink_tick_unlinked [simp]: "snd (blink_tick (unlinked x)) = snd (blink_tick x)" "ticked (unlinked x) = unlinked (ticked x)"
  by (simp_all add: blink_tick_def Let_def unlinked_def)

lemma tick_show_unlinked [simp]: "tick_show (unlinked x) = tick_show x"
  by (simp add: tick_show_def fun_eq_iff split: option.split)

lemma length_tick_show [simp]: "length (tick_show x v) = length v"
  by (simp add: tick_show_def split: option.splits)

lemma tasklet_loop_eq:
  assumes "blinks_at base"
  shows "blink_chain base (blink_array b) p is \<Longrightarrow> distinct is \<Longrightarrow> length (blink_array b) = NUM_BLINKS \<Longrightarrow> 2 * NUM_BLINKS \<le> length (vmem_page b) \<Longrightarrow>
    \<forall>i < NUM_BLINKS. unat (location (blink_array b ! i)) < NUM_BLINKS \<Longrightarrow>
    \<exists>b'. tasklet_loop base p b = Some b' \<and> mp1_list_head b' = mp1_list_head b \<and> length (blink_array b') = NUM_BLINKS \<and>
      (\<forall>j. blink_array b' ! j = (if j \<in> set is then ticked (blink_array b ! j) else blink_array b ! j)) \<and>
      vmem_page b' = fold tick_show (blinks_of is b) (vmem_page b)"
proof (induction "is" arbitrary: p b)
  case Nil
  then show ?case by (subst tasklet_loop.simps) (simp add: blinks_of_def)
next
  case (Cons i "is")
  let ?x = "ticked (blink_array b ! i)"
  let ?u = "upd_blink i (\<lambda>_. ?x) b"
  define d where "d = ?u\<lparr>vmem_page := tick_show (blink_array b ! i) (vmem_page b)\<rparr>"
  have i: "i < NUM_BLINKS" "p = blink_addr base i" "i \<notin> set is" "unat (location (blink_array b ! i)) < NUM_BLINKS" using Cons.prems by auto
  note a = blink_addr_simps(1,3) [OF assms i(1)]
  have step: "tasklet_loop base p b = tasklet_loop base (next_blink (blink_array b ! i)) d"
    using a i Cons.prems(3,4) by (subst tasklet_loop.simps) (simp add: d_def Let_def tick_show_def split_def split: option.splits)
  have n: "blink_array d ! j = (if j = i then ?x else blink_array b ! j)" for j using i Cons.prems(3) by (simp add: d_def)
  have l: "length (blink_array d) = NUM_BLINKS" "2 * NUM_BLINKS \<le> length (vmem_page d)" "mp1_list_head d = mp1_list_head b"
    "vmem_page d = tick_show (blink_array b ! i) (vmem_page b)"
    using Cons.prems(3,4) by (simp_all add: d_def)
  have c: "blink_chain base (blink_array d) (next_blink (blink_array b ! i)) is"
    using Cons.prems(1,3) i blink_chain_upd [of i "is" _ b] by (simp add: d_def)
  have "\<forall>i < NUM_BLINKS. unat (location (blink_array d ! i)) < NUM_BLINKS" using Cons.prems(5) i(1) by (simp add: n)
  with Cons.IH [OF c _ l(1,2)] Cons.prems(2) obtain b' where "tasklet_loop base (next_blink (blink_array b ! i)) d = Some b'"
    "mp1_list_head b' = mp1_list_head d" "length (blink_array b') = NUM_BLINKS"
    "\<forall>j. blink_array b' ! j = (if j \<in> set is then ticked (blink_array d ! j) else blink_array d ! j)"
    "vmem_page b' = fold tick_show (blinks_of is d) (vmem_page d)"
    by auto
  moreover have "blinks_of is d = blinks_of is b" using i(3) by (auto simp: blinks_of_def n)
  moreover have "blinks_of (i # is) b = unlinked (blink_array b ! i) # blinks_of is b" by (simp add: blinks_of_def)
  ultimately show ?case using step i(3) l(3,4) n by auto
qed

lemma mp1_rtc_tasklet_eq:
  assumes "blinker_inv base is b"
  shows "\<exists>b'. mp1_rtc_tasklet base b = Some b' \<and> blinker_inv base is b' \<and> blinks_of is b' = map ticked (blinks_of is b) \<and>
    vmem_page b' = fold tick_show (blinks_of is b) (vmem_page b)"
proof -
  obtain b' where b': "tasklet_loop base (mp1_list_head b) b = Some b'" "mp1_list_head b' = mp1_list_head b" "length (blink_array b') = NUM_BLINKS"
    "\<forall>j. blink_array b' ! j = (if j \<in> set is then ticked (blink_array b ! j) else blink_array b ! j)"
    "vmem_page b' = fold tick_show (blinks_of is b) (vmem_page b)"
    using assms tasklet_loop_eq [of base b "mp1_list_head b" "is"] by (auto simp: blinker_inv_def)
  have "length (fold tick_show xs v) = length v" for xs v by (induction xs arbitrary: v) simp_all
  moreover have "blink_chain base (blink_array b') (mp1_list_head b') is = blink_chain base (blink_array b) (mp1_list_head b) is"
    unfolding b'(2) using b'(4) by (intro blink_chain_cong) simp
  ultimately have "blinker_inv base is b'" using assms b' by (simp add: blinker_inv_def)
  moreover have "blinks_of is b' = map ticked (blinks_of is b)" using b'(4) by (simp add: blinks_of_def)
  ultimately show ?thesis using b'(1,5) by (simp add: mp1_rtc_tasklet_def)
qed

text \<open>
  \<open>in_phase n x\<close>: the blink \<open>x\<close> is \<open>n\<close> ticks old. It is on for the first \<open>on_length\<close> ticks of each period.
\<close>

definition period_of :: "blink \<Rightarrow> nat" where
  "period_of x = unat (on_length x) + unat (off_length x)"

definition lit_at :: "nat \<Rightarrow> blink \<Rightarrow> bool" where
  "lit_at n x \<longleftrightarrow> n mod period_of x < unat (on_length x)"

definition in_phase :: "nat \<Rightarrow> blink \<Rightarrow> bool" where
  "in_phase n x \<longleftrightarrow> bit (status x) 0 = lit_at n x \<and>
     unat (countdown x) = (if lit_at n x then unat (on_length x) else period_of x) - n mod period_of x"

text \<open>Lengths that a signed comparison with 0 tells from 0.\<close>

definition good_lengths :: "blink \<Rightarrow> bool" where
  "good_lengths x \<longleftrightarrow> 0 < unat (on_length x) \<and> unat (on_length x) < 2 ^ 15 \<and> 0 < unat (off_length x) \<and> unat (off_length x) < 2 ^ 15"

definition shown :: "blink \<Rightarrow> u8" where
  "shown x = (if bit (status x) 0 then on_char x else off_char x)"

lemma sint_u16_pos:
  assumes "0 < unat (w :: u16)" "unat w < 2 ^ 15"
  shows "sint (w - 1) > 0 \<longleftrightarrow> 1 < unat w" "unat (w - 1) = unat w - 1"
proof -
  have "w \<noteq> 0" using assms(1) by auto
  then show m: "unat (w - 1) = unat w - 1" by (rule unat_minus_one)
  have u: "uint (w - 1) = int (unat w - 1)" unfolding uint_nat m ..
  moreover have "unat w < 32768" using assms(2) by simp
  ultimately have "uint (w - 1) < 2 ^ 15" by simp
  then have "sint (w - 1) = uint (w - 1)" unfolding sint_uint by (intro signed_take_bit_int_eq_self) (auto intro: order_trans [of _ 0])
  then show "sint (w - 1) > 0 \<longleftrightarrow> 1 < unat w" unfolding u by linarith
qed

lemma in_phase_tick:
  assumes "good_lengths x" "in_phase n x"
  shows "in_phase (Suc n) (ticked x)" "snd (blink_tick x) = (if lit_at (Suc n) x = lit_at n x then None else Some (shown (ticked x)))"
proof -
  let ?on = "unat (on_length x)" and ?off = "unat (off_length x)" and ?c = "unat (countdown x)"
  define m where "m = n mod (?on + ?off)"
  have g: "0 < ?on" "0 < ?off" "?on < 2 ^ 15" "?off < 2 ^ 15" using assms(1) by (simp_all add: good_lengths_def)
  have m: "m < ?on + ?off" "Suc n mod (?on + ?off) = (if Suc m = ?on + ?off then 0 else Suc m)" using g by (simp_all add: m_def mod_Suc)
  have c: "?c = (if m < ?on then ?on - m else ?on + ?off - m)" "bit (status x) 0 = (m < ?on)"
    using assms(2) by (simp_all add: in_phase_def lit_at_def period_of_def m_def)
  then have "0 < ?c" "?c < 2 ^ 15" using m(1) g by auto
  note s = sint_u16_pos [OF this]
  have x: "bit (status x XOR 1) 0 = (\<not> bit (status x) 0)" by (simp add: bit_simps)
  show "in_phase (Suc n) (ticked x)" "snd (blink_tick x) = (if lit_at (Suc n) x = lit_at n x then None else Some (shown (ticked x)))"
    using s c m g x by (auto simp: in_phase_def lit_at_def period_of_def blink_tick_def shown_def m_def [symmetric] Let_def)
qed

abbreviation (input) cell_of :: "blink \<Rightarrow> nat" where "cell_of x \<equiv> 2 * unat (location x)"

lemma fold_tick_show_other: "i \<notin> cell_of ` set xs \<Longrightarrow> fold tick_show xs v ! i = v ! i"
proof (induction xs arbitrary: v)
  case (Cons x xs)
  then have "tick_show x v ! i = v ! i" by (auto simp: tick_show_def split: option.splits)
  then show ?case using Cons by simp
qed simp

lemma fold_tick_show_nth:
  "distinct (map location xs) \<Longrightarrow> x \<in> set xs \<Longrightarrow> 2 * unat (location x) < length v \<Longrightarrow>
   fold tick_show xs v ! (2 * unat (location x)) = (case snd (blink_tick x) of None \<Rightarrow> v ! (2 * unat (location x)) | Some c \<Rightarrow> c)"
proof (induction xs arbitrary: v)
  case (Cons y ys)
  show ?case
  proof (cases "x = y")
    case True
    then have "tick_show y v ! (2 * unat (location x)) = (case snd (blink_tick x) of None \<Rightarrow> v ! (2 * unat (location x)) | Some c \<Rightarrow> c)"
      using Cons.prems(3) by (simp add: tick_show_def split: option.splits)
    moreover have "cell_of y \<notin> cell_of ` set ys" using Cons.prems(1) by (auto simp: word_unat_eq_iff)
    ultimately show ?thesis using True fold_tick_show_other [of "cell_of y" ys] by simp
  next
    case False
    then have x: "x \<in> set ys" using Cons.prems(2) by simp
    then have "location x \<in> set (map location ys)" by simp
    then have "location x \<noteq> location y" using Cons.prems(1) by (metis distinct.simps(2) list.simps(9))
    then have "unat (location y) \<noteq> unat (location x)" by (simp add: word_unat_eq_iff)
    then have "tick_show y v ! (2 * unat (location x)) = v ! (2 * unat (location x))" by (simp add: tick_show_def split: option.splits)
    then show ?thesis using Cons x by (simp split: option.split)
  qed
qed simp

text \<open>The screen shows every blink of \<open>xs\<close> as its age says, given by its location.\<close>

definition displays :: "(u16 \<Rightarrow> nat) \<Rightarrow> blink list \<Rightarrow> u8 list \<Rightarrow> bool" where
  "displays age xs v \<longleftrightarrow> distinct (map location xs) \<and>
     (\<forall>x \<in> set xs. good_lengths x \<and> in_phase (age (location x)) x \<and> v ! (2 * unat (location x)) = shown x)"

lemma ticked_static [simp]:
  "good_lengths (ticked x) = good_lengths x" "lit_at n (ticked x) = lit_at n x"
  by (simp_all add: good_lengths_def lit_at_def period_of_def)

lemma in_phase_shown: "in_phase n x \<Longrightarrow> shown x = (if lit_at n x then on_char x else off_char x)"
  by (simp add: in_phase_def shown_def)

lemma displays_tick:
  assumes "displays age xs v" "\<forall>x \<in> set xs. 2 * unat (location x) < length v"
  shows "displays (\<lambda>loc. Suc (age loc)) (map ticked xs) (fold tick_show xs v)"
proof -
  have d: "distinct (map location xs)" using assms(1) by (simp add: displays_def)
  have "in_phase (Suc (age (location x))) (ticked x) \<and> fold tick_show xs v ! (2 * unat (location x)) = shown (ticked x)"
    if "x \<in> set xs" for x
  proof -
    have x: "good_lengths x" "in_phase (age (location x)) x" "v ! (2 * unat (location x)) = shown x"
      using assms(1) that by (simp_all add: displays_def)
    note t = in_phase_tick [OF x(1,2)]
    have "shown (ticked x) = shown x" if "lit_at (Suc (age (location x))) x = lit_at (age (location x)) x"
      using that in_phase_shown [OF t(1)] in_phase_shown [OF x(2)] by simp
    then show ?thesis using fold_tick_show_nth [OF d that] assms(2) that t x(3) by auto
  qed
  then show ?thesis using assms(1) by (simp add: displays_def comp_def)
qed

primrec tasklets :: "u32 \<Rightarrow> nat \<Rightarrow> blinker \<Rightarrow> blinker option" where
  "tasklets base 0 b = Some b"
| "tasklets base (Suc n) b = Option.bind (mp1_rtc_tasklet base b) (tasklets base n)"

lemma blinks_of_bounds:
  assumes "blinker_inv base is b" "x \<in> set (blinks_of is b)"
  shows "unat (location x) < NUM_BLINKS" "2 * unat (location x) < length (vmem_page b)" "location x \<noteq> 0"
  using assms blink_chain_less by (fastforce simp: blinker_inv_def blinks_of_def)+

lemma tasklets_display:
  assumes "blinker_inv base is b" "displays age (blinks_of is b) (vmem_page b)"
  shows "\<exists>b'. tasklets base n b = Some b' \<and> blinker_inv base is b' \<and> blinks_of is b' = map (ticked ^^ n) (blinks_of is b) \<and>
    displays (\<lambda>loc. age loc + n) (blinks_of is b') (vmem_page b') \<and>
    (\<forall>i. i \<notin> cell_of ` set (blinks_of is b) \<longrightarrow> vmem_page b' ! i = vmem_page b ! i)"
  using assms
proof (induction n arbitrary: b age)
  case (Suc n)
  obtain c where c: "mp1_rtc_tasklet base b = Some c" "blinker_inv base is c" "blinks_of is c = map ticked (blinks_of is b)"
    "vmem_page c = fold tick_show (blinks_of is b) (vmem_page b)"
    using mp1_rtc_tasklet_eq [OF Suc.prems(1)] by blast
  have "displays (\<lambda>loc. Suc (age loc)) (blinks_of is c) (vmem_page c)"
    unfolding c(3,4) using Suc.prems blinks_of_bounds(2) by (intro displays_tick) auto
  from Suc.IH [OF c(2) this] obtain b' where b': "tasklets base n c = Some b'" "blinker_inv base is b'"
    "blinks_of is b' = map (ticked ^^ n) (blinks_of is c)" "displays (\<lambda>loc. Suc (age loc) + n) (blinks_of is b') (vmem_page b')"
    "\<forall>i. i \<notin> cell_of ` set (blinks_of is c) \<longrightarrow> vmem_page b' ! i = vmem_page c ! i"
    by blast
  have "vmem_page b' ! i = vmem_page b ! i" if "i \<notin> cell_of ` set (blinks_of is b)" for i
    using b'(5) fold_tick_show_other [OF that] that by (simp add: c(3,4) image_image)
  moreover have "blinks_of is b' = map (ticked ^^ Suc n) (blinks_of is b)"
    using b'(3) c(3) by (simp add: funpow_swap1 [where f = "\<lambda>x. ticked x"])
  ultimately show ?case using c(1) b' by auto
qed auto

lemma tasklets_total:
  assumes "blinker_inv base is b"
  shows "\<exists>b'. tasklets base n b = Some b' \<and> blinker_inv base is b'"
  using assms
proof (induction n arbitrary: b)
  case (Suc n)
  then show ?case using mp1_rtc_tasklet_eq [OF Suc.prems] by auto
qed simp

lemma ticked_pow [simp]:
  "location ((ticked ^^ n) x) = location x" "on_char ((ticked ^^ n) x) = on_char x" "off_char ((ticked ^^ n) x) = off_char x"
  "good_lengths ((ticked ^^ n) x) = good_lengths x" "lit_at m ((ticked ^^ n) x) = lit_at m x"
  by (induction n) simp_all

lemma displays_shows:
  assumes "displays age (map (ticked ^^ n) xs) v" "x \<in> set xs"
  shows "v ! (2 * unat (location x)) = (if lit_at (age (location x)) x then on_char x else off_char x)"
proof -
  have "in_phase (age (location x)) ((ticked ^^ n) x)" "v ! (2 * unat (location x)) = shown ((ticked ^^ n) x)"
    using assms by (auto simp: displays_def)
  then show ?thesis using in_phase_shown by fastforce
qed

section \<open>A blink at location 0\<close>

text \<open>A blink whose link points at itself.\<close>

lemma tasklet_loop_cycle:
  assumes "blinks_at base" "i < NUM_BLINKS" "length (blink_array b) = NUM_BLINKS" "next_blink (blink_array b ! i) = blink_addr base i"
  shows "tasklet_loop base (blink_addr base i) b = None"
proof (rule ccontr)
  assume "tasklet_loop base (blink_addr base i) b \<noteq> None"
  then obtain r where r: "tasklet_loop base (blink_addr base i) b = Some r" by auto
  have "\<not> (blink_addr base i = blink_addr base i \<and> length (blink_array b) = NUM_BLINKS \<and> next_blink (blink_array b ! i) = blink_addr base i)"
  proof (rule tasklet_loop.raw_induct [OF _ r, where P = "\<lambda>base' p b r. base' = base \<longrightarrow>
      \<not> (p = blink_addr base i \<and> length (blink_array b) = NUM_BLINKS \<and> next_blink (blink_array b ! i) = blink_addr base i)",
      THEN mp, OF _ refl])
    fix loop base' p b r
    assume h: "\<And>base' p b r. loop base' p b = Some r \<Longrightarrow> base' = base \<longrightarrow>
        \<not> (p = blink_addr base i \<and> length (blink_array b) = NUM_BLINKS \<and> next_blink (blink_array b ! i) = blink_addr base i)"
      and e: "(if p = 0 then Some b else blink_slot base' b p \<bind> (\<lambda>i. let (x, c) = blink_tick (blink_array b ! i); b = upd_blink i (\<lambda>_. x) b in
        (case c of None \<Rightarrow> Some b | Some c \<Rightarrow> mp1_poke (location x) c b) \<bind> loop base' (next_blink x))) = Some r"
    show "base' = base \<longrightarrow>
        \<not> (p = blink_addr base i \<and> length (blink_array b) = NUM_BLINKS \<and> next_blink (blink_array b ! i) = blink_addr base i)"
    proof (intro impI notI)
      assume a: "base' = base" "p = blink_addr base i \<and> length (blink_array b) = NUM_BLINKS \<and> next_blink (blink_array b ! i) = blink_addr base i"
      let ?u = "upd_blink i (\<lambda>_. ticked (blink_array b ! i)) b"
      obtain d where d: "loop base (blink_addr base i) d = Some r" "blink_array d = blink_array ?u"
        using e a blink_addr_simps(1,3) [OF assms(1,2)]
        by (auto simp: split_def Let_def mp1_poke_def bind_eq_Some_conv split: option.splits if_splits)
      show False using h [OF d(1)] d(2) a assms(2) by simp
    qed
  qed
  with assms(3,4) show False by simp
qed

text \<open>
  \<open>mp1_malloc\<close> takes a location of 0 for a free slot. When a blink is added at location 0, which is a position of
  the screen, the next one gets the same slot and is linked to itself, and \<open>mp1_rtc_tasklet\<close> does not return.\<close>

theorem blink_at_zero_hangs:
  assumes "blinker_inv base [] b" "location x = 0" "unat (location y) < NUM_BLINKS"
  shows "\<exists>b1 b2. mp1_ioctl_add base x b = Some (b1, 0) \<and> mp1_ioctl_add base y b1 = Some (b2, 0) \<and> mp1_rtc_tasklet base b2 = None"
proof -
  let ?b = "put_blink base 0 x b" and ?c = "put_blink base 0 y (put_blink base 0 x b)"
  have b: "blinks_at base" "length (blink_array b) = 2000" "4000 \<le> length (vmem_page b)" "location (blink_array b ! 0) = 0"
    using assms(1) by (simp_all add: blinker_inv_def)
  have p: "location (blink_array ?b ! 0) = 0" "length (blink_array ?b) = 2000" "4000 \<le> length (vmem_page ?b)"
    using b(2,3) assms(2) by (simp_all add: put_blink_def fresh_blink_def)
  have m: "mp1_malloc base (blink_array d) 0 = Some (blink_addr base 0)" if "location (blink_array d ! 0) = 0" "length (blink_array d) = 2000" for d
    using that by (subst mp1_malloc.simps) simp
  have "mp1_ioctl_add base x b = Some (?b, 0)" using b m assms(2) by (intro mp1_ioctl_add_at) simp_all
  moreover have "mp1_ioctl_add base y ?b = Some (?c, 0)" using b(1) p m assms(3) by (intro mp1_ioctl_add_at) simp_all
  moreover have "tasklet_loop base (blink_addr base 0) ?c = None"
    using b by (intro tasklet_loop_cycle) (simp_all add: put_blink_def)
  then have "mp1_rtc_tasklet base ?c = None" by (simp add: mp1_rtc_tasklet_def put_blink_def)
  ultimately show ?thesis by blast
qed

definition no_blinks :: blinker where
  "no_blinks = \<lparr>blink_array = replicate NUM_BLINKS zero_blink, mp1_list_head = 0, vmem_page = replicate 4096 0\<rparr>"

lemma no_blinks_inv: "blinks_at base \<Longrightarrow> blinker_inv base [] no_blinks"
proof -
  have "replicate 2000 zero_blink ! i = zero_blink" if "i < 2000" for i using that by (rule nth_replicate)
  then show "blinks_at base \<Longrightarrow> blinker_inv base [] no_blinks" by (simp add: blinker_inv_def no_blinks_def zero_blink_def)
qed

theorem blink_at_zero_hangs_witness:
  "\<exists>b1 b2. mp1_ioctl_add 0x08049000 zero_blink no_blinks = Some (b1, 0) \<and>
     mp1_ioctl_add 0x08049000 (zero_blink\<lparr>location := 60\<rparr>) b1 = Some (b2, 0) \<and> mp1_rtc_tasklet 0x08049000 b2 = None"
  using blink_at_zero_hangs [OF no_blinks_inv, of "0x08049000" zero_blink "zero_blink\<lparr>location := 60\<rparr>"]
  by (simp add: blinks_at_def zero_blink_def)

end
