(* ===== verification/User_Clock.thy ===== *)
theory User_Clock
  imports User_Kernel
begin

text \<open>
  User programs paced by a virtual clock, and \<^verbatim>\<open>syscalls/ece391pingpong.c\<close>. The interface is a descriptor whose reads
  wait for a tick; it is interpreted with the clocks of the kernel, under a scheduler in whose yields the clock
  interrupts arrive. \<open>pingpong\<close> does not end, so what it does is stated after any number of rounds.
\<close>

section \<open>The program\<close>

abbreviation (input) BUFMAX :: nat where "BUFMAX \<equiv> 81"
abbreviation (input) START :: nat where "START \<equiv> 1"
abbreviation (input) STARTLOOP :: nat where "STARTLOOP \<equiv> 2"
abbreviation (input) LOOPMAX :: nat where "LOOPMAX \<equiv> 78"

text \<open>\<open>for (; i < n; i++) buf[i] = ' '\<close>\<close>

function clear_loop :: "u8 list \<Rightarrow> nat \<Rightarrow> nat \<Rightarrow> u8 list option" where
  "clear_loop buf i n = (if i < n then Option.bind (store buf i 32) (\<lambda>buf. clear_loop buf (i + 1) n) else Some buf)"
  by pat_completeness auto
termination by (relation "measure (\<lambda>(buf, i, n). n - i)") auto

declare clear_loop.simps [simp del]

record 's pong =
  pong_os :: 's
  pong_buf :: "u8 list"
  pong_garbage :: "u8 list"

text \<open>The body that both loops share.\<close>

definition pong_frame :: "'s user_os \<Rightarrow> int \<Rightarrow> u8 \<Rightarrow> nat \<Rightarrow> 's pong \<Rightarrow> 's pong option" where
  "pong_frame os rtc_fd curchar j p = do {
     buf \<leftarrow> clear_loop (pong_buf p) STARTLOOP LOOPMAX;
     buf \<leftarrow> store buf j curchar;
     s \<leftarrow> ece391_fdputs os (pong_os p) 1 buf;
     (s, g, _) \<leftarrow> sc_read os s rtc_fd (pong_garbage p) 4;
     Some \<lparr>pong_os = s, pong_buf = buf, pong_garbage = g\<rparr> }"

function move_out :: "'s user_os \<Rightarrow> int \<Rightarrow> u8 \<Rightarrow> nat \<Rightarrow> 's pong \<Rightarrow> 's pong option" where
  "move_out os rtc_fd curchar j p =
     (if j < LOOPMAX then Option.bind (pong_frame os rtc_fd curchar j p) (move_out os rtc_fd curchar (j + 1)) else Some p)"
  by pat_completeness auto
termination by (relation "measure (\<lambda>(os, rtc_fd, curchar, j, p). LOOPMAX - j)") auto

function bounce_back :: "'s user_os \<Rightarrow> int \<Rightarrow> u8 \<Rightarrow> nat \<Rightarrow> 's pong \<Rightarrow> 's pong option" where
  "bounce_back os rtc_fd curchar j p =
     (if j \<ge> STARTLOOP then Option.bind (pong_frame os rtc_fd curchar j p) (bounce_back os rtc_fd curchar (j - 1)) else Some p)"
  by pat_completeness auto
termination by (relation "measure (\<lambda>(os, rtc_fd, curchar, j, p). j)") auto

declare move_out.simps [simp del] bounce_back.simps [simp del]

definition next_letter :: "u8 \<Rightarrow> u8" where
  "next_letter curchar = (if curchar = 90 then 65 else curchar + 1)"

text \<open>\<open>n\<close> rounds of \<open>while (1)\<close>.\<close>

primrec pong_rounds :: "'s user_os \<Rightarrow> int \<Rightarrow> nat \<Rightarrow> u8 \<Rightarrow> 's pong \<Rightarrow> 's pong option" where
  "pong_rounds os rtc_fd 0 curchar p = Some p"
| "pong_rounds os rtc_fd (Suc n) curchar p = do {
     p \<leftarrow> move_out os rtc_fd curchar STARTLOOP p;
     p \<leftarrow> bounce_back os rtc_fd curchar (LOOPMAX - 1) p;
     pong_rounds os rtc_fd n (next_letter curchar) p }"

text \<open>The program up to the end of its \<open>n\<close>-th round; \<open>buf\<close> and \<open>g\<close> are the uninitialised locals.\<close>

definition pingpong_main :: "'s user_os \<Rightarrow> nat \<Rightarrow> u8 list \<Rightarrow> u8 list \<Rightarrow> 's \<Rightarrow> 's pong option" where
  "pingpong_main os n buf g s = do {
     buf \<leftarrow> clear_loop buf 0 BUFMAX;
     buf \<leftarrow> store buf (BUFMAX - 1) 0;
     buf \<leftarrow> store buf (BUFMAX - 2) 10;
     buf \<leftarrow> store buf (BUFMAX - 3) 124;
     buf \<leftarrow> store buf START 124;
     (s, rtc_fd) \<leftarrow> sc_open os s (lit ''rtc'');
     (s, _) \<leftarrow> sc_write os s rtc_fd (bytes32 32) 4;
     pong_rounds os rtc_fd n 65 \<lparr>pong_os = s, pong_buf = buf, pong_garbage = g\<rparr> }"

section \<open>What is drawn\<close>

definition pong_line :: "u8 \<Rightarrow> nat \<Rightarrow> u8 list" where
  "pong_line c j = [32, 124] @ replicate (j - 2) 32 @ [c] @ replicate (77 - j) 32 @ [124, 10]"

definition pong_round :: "u8 \<Rightarrow> u8 list" where
  "pong_round c = concat (map (pong_line c) ([2..<78] @ rev [2..<78]))"

definition pong_text :: "nat \<Rightarrow> nat \<Rightarrow> u8 list" where
  "pong_text i n = concat (map (\<lambda>k. pong_round (of_nat (65 + k mod 26))) [i..<i + n])"

text \<open>The walls around the part of the buffer that is redrawn.\<close>

definition walled :: "u8 list \<Rightarrow> bool" where
  "walled buf \<longleftrightarrow> length buf = 81 \<and> take 2 buf = [32, 124] \<and> drop 78 buf = [124, 10, 0]"

lemma clear_loop_eq: "i \<le> n \<Longrightarrow> n \<le> length buf \<Longrightarrow> clear_loop buf i n = Some (take i buf @ replicate (n - i) 32 @ drop n buf)"
proof (induction buf i n rule: clear_loop.induct)
  case (1 buf i n)
  show ?case
  proof (cases "i < n")
    case True
    then have "replicate (n - i) (32 :: u8) = 32 # replicate (n - Suc i) 32" by (metis Suc_diff_Suc replicate_Suc)
    then show ?thesis using 1 True by (subst clear_loop.simps) (simp add: take_Suc_conv_app_nth)
  qed (use 1 in \<open>subst clear_loop.simps, simp\<close>)
qed

lemma walledI: "length m = 76 \<Longrightarrow> walled ([32, 124] @ m @ [124, 10, 0])"
  by (simp add: walled_def)

lemma pong_line_buffer:
  assumes "walled buf" "2 \<le> j" "j < 78" "c \<noteq> 0"
  shows "\<exists>b d. clear_loop buf 2 78 = Some b \<and> store b j c = Some d \<and> walled d \<and> 0 \<in> set d \<and> cstr d = pong_line c j"
proof -
  let ?b = "[32, 124] @ replicate 76 32 @ [124, 10, 0]"
  have b: "clear_loop buf 2 78 = Some ?b" using assms(1) clear_loop_eq [of 2 78 buf] by (simp add: walled_def)
  let ?d = "[32, 124] @ (replicate (j - 2) 32 @ [c] @ replicate (77 - j) 32) @ [124, 10, 0]"
  have "replicate 76 (32 :: u8) = replicate (j - 2) 32 @ [32] @ replicate (77 - j) 32"
    using assms(2,3) by (simp add: replicate_add [symmetric] replicate_Suc [symmetric] del: replicate_Suc)
  then have "?b[j := c] = ?d" using assms(2,3) by (simp add: list_update_append split: nat.splits)
  moreover have "j < length ?b" using assms(3) by simp
  ultimately have "store ?b j c = Some ?d" by (metis store_Some)
  moreover have "walled ?d" using assms(2,3) by (intro walledI) simp
  moreover have e: "?d = pong_line c j @ [0]" by (simp add: pong_line_def)
  have "0 \<notin> set (pong_line c j)" using assms(4) by (auto simp: pong_line_def)
  then have "cstr ?d = pong_line c j" unfolding e by (intro cstr_append_nul)
  moreover have "0 \<in> set ?d" by simp
  ultimately show ?thesis using b by blast
qed

section \<open>A clock to wait for\<close>

text \<open>A descriptor whose reads of four bytes return, with nothing else changed that the program can see.\<close>

locale ticker =
  fixes os :: "'s user_os" and inv :: "'s \<Rightarrow> bool" and out :: "'s \<Rightarrow> 'g" and clock :: int
  assumes tick: "\<lbrakk>inv s; length buf = 4\<rbrakk> \<Longrightarrow>
      \<exists>s' buf' r. sc_read os s clock buf 4 = Some (s', buf', r) \<and> length buf' = 4 \<and> inv s' \<and> out s' = out s"

locale frame_clock = printer os inv kept out emit printable + ticker os inv out clock
  for os :: "'s user_os" and inv :: "'s \<Rightarrow> bool" and kept :: "'s \<Rightarrow> 'k" and out :: "'s \<Rightarrow> 'g"
    and emit :: "u8 list \<Rightarrow> 'g \<Rightarrow> 'g" and printable :: "u8 list \<Rightarrow> bool" and clock :: int
begin

definition pong_ok :: "'s pong \<Rightarrow> bool" where
  "pong_ok p \<longleftrightarrow> inv (pong_os p) \<and> walled (pong_buf p) \<and> length (pong_garbage p) = 4"

lemma pong_frame_draws:
  assumes "pong_ok p" "2 \<le> j" "j < 78" "32 \<le> c"
  shows "\<exists>p'. pong_frame os clock c j p = Some p' \<and> pong_ok p' \<and> out (pong_os p') = emit (pong_line c j) (out (pong_os p))"
proof -
  have p: "inv (pong_os p)" "walled (pong_buf p)" "length (pong_garbage p) = 4" using assms(1) by (simp_all add: pong_ok_def)
  have "c \<noteq> 0" using assms(4) by auto
  then obtain b d where b: "clear_loop (pong_buf p) 2 78 = Some b" "store b j c = Some d" "walled d" "0 \<in> set d" "cstr d = pong_line c j"
    using pong_line_buffer [OF p(2) assms(2,3)] by blast
  have "printable (pong_line c j)" by (rule printable_ascii) (use assms(4) in \<open>auto simp: pong_line_def\<close>)
  moreover have "length d < 2 ^ 31" using b(3) by (simp add: walled_def)
  ultimately obtain s1 where s1: "ece391_fdputs os (pong_os p) 1 d = Some s1" "inv s1" "out s1 = emit (pong_line c j) (out (pong_os p))"
    using fdputs [OF p(1) b(4)] b(5) by auto
  obtain s2 g r where "sc_read os s1 clock (pong_garbage p) 4 = Some (s2, g, r)" "length g = 4" "inv s2" "out s2 = out s1"
    using tick [OF s1(2) p(3)] by blast
  then show ?thesis using b s1 by (simp add: pong_frame_def pong_ok_def)
qed

lemma move_out_draws:
  assumes "pong_ok p" "2 \<le> j" "j \<le> 78" "32 \<le> c"
  shows "\<exists>p'. move_out os clock c j p = Some p' \<and> pong_ok p' \<and> out (pong_os p') = emit (concat (map (pong_line c) [j..<78])) (out (pong_os p))"
  using assms(1-3)
proof (induction "78 - j" arbitrary: j p)
  case 0
  then show ?case by (subst move_out.simps) (simp add: emit_Nil)
next
  case (Suc n)
  then have j: "j < 78" "[j..<78] = j # [Suc j..<78]" by (simp_all add: upt_rec)
  obtain p1 where "pong_frame os clock c j p = Some p1" "pong_ok p1" "out (pong_os p1) = emit (pong_line c j) (out (pong_os p))"
    using pong_frame_draws [OF Suc.prems(1,2) j(1) assms(4)] by blast
  then show ?case using Suc.hyps(1) [of "Suc j" p1] Suc.hyps(2) Suc.prems(2) j by (subst move_out.simps) (auto simp: emit_append)
qed

lemma bounce_back_draws:
  assumes "pong_ok p" "1 \<le> j" "j < 78" "32 \<le> c"
  shows "\<exists>p'. bounce_back os clock c j p = Some p' \<and> pong_ok p' \<and> out (pong_os p') = emit (concat (map (pong_line c) (rev [2..<Suc j]))) (out (pong_os p))"
  using assms(1-3)
proof (induction j arbitrary: p)
  case (Suc j)
  show ?case
  proof (cases "j = 0")
    case True
    then show ?thesis using Suc.prems(1) by (subst bounce_back.simps) (simp add: emit_Nil)
  next
    case False
    obtain p1 where "pong_frame os clock c (Suc j) p = Some p1" "pong_ok p1" "out (pong_os p1) = emit (pong_line c (Suc j)) (out (pong_os p))"
      using pong_frame_draws [OF Suc.prems(1) _ Suc.prems(3) assms(4)] False by auto
    moreover have "rev [2..<Suc (Suc j)] = Suc j # rev [2..<Suc j]" using False by simp
    ultimately show ?thesis using Suc.IH [of p1] Suc.prems(3) False by (subst bounce_back.simps) (auto simp: emit_append)
  qed
qed simp

lemma pong_rounds_draw:
  assumes "pong_ok p"
  shows "\<exists>p'. pong_rounds os clock n (of_nat (65 + i mod 26)) p = Some p' \<and> pong_ok p' \<and> out (pong_os p') = emit (pong_text i n) (out (pong_os p))"
  using assms
proof (induction n arbitrary: i p)
  case 0
  then show ?case by (simp add: pong_text_def emit_Nil)
next
  case (Suc n)
  define c where "c = (of_nat (65 + i mod 26) :: u8)"
  have m: "i mod 26 < 26" by simp
  have u: "unat c = 65 + i mod 26" unfolding c_def using m by (simp add: unat_of_nat del: of_nat_add)
  then have c: "32 \<le> c" by (simp add: word_le_nat_alt)
  have n: "next_letter c = of_nat (65 + Suc i mod 26)"
  proof (cases "i mod 26 = 25")
    case True
    then show ?thesis by (simp add: next_letter_def c_def mod_Suc)
  next
    case False
    then have "c \<noteq> 90" using u by auto
    then show ?thesis using False by (simp add: next_letter_def c_def mod_Suc)
  qed
  obtain p1 where p1: "move_out os clock c 2 p = Some p1" "pong_ok p1" "out (pong_os p1) = emit (concat (map (pong_line c) [2..<78])) (out (pong_os p))"
    using move_out_draws [OF Suc.prems, of 2 c] c by auto
  obtain p2 where p2: "bounce_back os clock c 77 p1 = Some p2" "pong_ok p2" "out (pong_os p2) = emit (concat (map (pong_line c) (rev [2..<78]))) (out (pong_os p1))"
    using bounce_back_draws [OF p1(2), of 77 c] c by auto
  have t: "pong_text i (Suc n) = pong_round c @ pong_text (Suc i) n" by (simp add: pong_text_def upt_conv_Cons c_def del: upt_Suc)
  have "out (pong_os p2) = emit (pong_round c) (out (pong_os p))"
    using p1(3) p2(3) by (simp only: pong_round_def map_append concat_append emit_append)
  then show ?case using Suc.IH [OF p2(2), of "Suc i"] p1(1) p2(1) n unfolding c_def [symmetric] t by (auto simp: emit_append)
qed

end

section \<open>The clocks of the kernel\<close>

text \<open>Every yield lets a clock interrupt in, and nothing else that matters here.\<close>

definition ticking :: "(nat \<Rightarrow> kstate \<Rightarrow> kstate) \<Rightarrow> file_ptr list \<Rightarrow> bool" where
  "ticking sched rs \<longleftrightarrow> (\<forall>i u. rtc_list u rs \<longrightarrow> rtc_handle_interrupt 0 u = Some (sched i u))"

text \<open>Descriptor \<open>k\<close> of the running process is one of the open clocks \<open>rs\<close>.\<close>

definition clock_at :: "(nat \<Rightarrow> kstate \<Rightarrow> kstate) \<Rightarrow> file_ptr list \<Rightarrow> nat \<Rightarrow> kstate \<Rightarrow> bool" where
  "clock_at sched rs k s \<longleftrightarrow> ticking sched rs \<and> rtc_list s rs \<and> (cur_pcb s, k) \<in> set rs \<and> cur_pcb s \<noteq> 0 \<and> k < MAX_FILES \<and>
     file_op (get_file s (cur_pcb s, k)) = Some rtc_fops \<and> bit (file_flags (get_file s (cur_pcb s, k))) 1"

text \<open>What waiting leaves as it was.\<close>

definition undisturbed :: "file_ptr list \<Rightarrow> kstate \<Rightarrow> kstate \<Rightarrow> bool" where
  "undisturbed rs s t \<longleftrightarrow> ticks_only s t \<and> (\<forall>q. q \<notin> set rs \<longrightarrow> get_file t q = get_file s q)"

lemma undisturbed_refl [simp]: "undisturbed rs s s"
  by (simp add: undisturbed_def)

lemma undisturbed_trans: "undisturbed rs s t \<Longrightarrow> undisturbed rs t u \<Longrightarrow> undisturbed rs s u"
  by (auto simp: undisturbed_def intro: ticks_only_trans)

lemma fd_used_flags: "fd_used (pcbs s p) k = bit (file_flags (get_file s (p, k))) 0"
  by (simp add: fd_used_def get_file_def)

lemma clock_at_present: "clock_at sched rs k s \<Longrightarrow> fd_present s (int k)"
  by (auto simp: clock_at_def rtc_list_def fd_present_def fd_used_flags)

lemma clock_at_keep:
  assumes "clock_at sched rs k s" "rtc_list t rs" "cur_pcb t = cur_pcb s" "same_file (get_file t (cur_pcb s, k)) (get_file s (cur_pcb s, k))"
  shows "clock_at sched rs k t"
  using assms by (simp add: clock_at_def same_file_def)

lemma clock_at_upd:
  assumes "clock_at sched rs k s" "same_file (g (get_file s (cur_pcb s, k))) (get_file s (cur_pcb s, k))"
  shows "clock_at sched rs k (upd_file (cur_pcb s, k) g s)" "undisturbed rs s (upd_file (cur_pcb s, k) g s)"
proof -
  have l: "rtc_list s rs" "(cur_pcb s, k) \<in> set rs" using assms(1) by (simp_all add: clock_at_def)
  then have ok: "fref_ok s (cur_pcb s, k)" by (simp add: rtc_list_def)
  show "clock_at sched rs k (upd_file (cur_pcb s, k) g s)"
    using rtc_list_upd_keep [of s "(cur_pcb s, k)" g rs] ok assms l by (intro clock_at_keep [OF assms(1)]) simp_all
  show "undisturbed rs s (upd_file (cur_pcb s, k) g s)"
    unfolding undisturbed_def using l(2) ticks_only_upd get_upd_other by metis
qed

lemma clock_at_yield:
  assumes "clock_at sched rs k u"
  shows "clock_at sched rs k (sched i u)" "undisturbed rs u (sched i u)"
proof -
  have l: "rtc_list u rs" "ticking sched rs" "(cur_pcb u, k) \<in> set rs" using assms by (simp_all add: clock_at_def)
  then have i: "rtc_handle_interrupt 0 u = Some (sched i u)" by (simp add: ticking_def)
  have t: "rtc_list (sched i u) rs" "get_file (sched i u) q = (if q \<in> set rs then rtc_tick (get_file u q) else get_file u q)" for q
    using rtc_interrupt_list [OF l(1), of 0] unfolding i by (metis option.inject)+
  have f: "ticks_only u (sched i u)" by (rule rtc_interrupt_files [OF i])
  show "clock_at sched rs k (sched i u)"
    using f t(2) l(3) rtc_tick_view(5) by (intro clock_at_keep [OF assms t(1)]) (simp_all add: ticks_only_def)
  show "undisturbed rs u (sched i u)" using f t(2) by (simp add: undisturbed_def)
qed

lemma clock_read:
  assumes c: "clock_at sched rs k s" and b: "length buf = 4"
  shows "\<exists>s' buf'. sys_read sched f s (int k) (Some buf) 4 = Some (s', Some buf', 0) \<and> length buf' = 4 \<and> clock_at sched rs k s' \<and> undisturbed rs s s'"
proof -
  let ?r = "(cur_pcb s, k)"
  have l: "rtc_list s rs" "ticking sched rs" "?r \<in> set rs" "file_op (get_file s ?r) = Some rtc_fops" "\<not> not_rtc_open (get_file s ?r)"
    using c not_rtc_open_bit by (simp_all add: clock_at_def)
  have g: "get_file_from_fd (Some (cur_pcb s)) (int k) = Some ?r" using c by (simp add: get_file_from_fd_def clock_at_def)
  obtain u where u: "rtc_wait sched 0 ?r s = Some u"
    using rtc_wait_returns [where sched = sched and rs = rs and r = ?r and u = s and n = "unat (rtc_virt_get_ctr (get_file s ?r))" and i = 0] l
    by (auto simp: ticking_def)
  have "clock_at sched rs k u \<and> cur_pcb u = cur_pcb s \<and> undisturbed rs s u"
    by (rule rtc_wait_keeps [OF u, where P = "\<lambda>u. clock_at sched rs k u \<and> cur_pcb u = cur_pcb s \<and> undisturbed rs s u"])
      (use c clock_at_yield undisturbed_trans in \<open>auto simp: undisturbed_def ticks_only_def\<close>)
  then have k: "clock_at sched rs k u" "cur_pcb u = cur_pcb s" "undisturbed rs s u" by simp_all
  define v where "v = upd_file ?r rtc_virt_clr_ticked u"
  define w where "w = upd_file ?r rtc_virt_clr_ticks v"
  have v: "clock_at sched rs k v" "undisturbed rs u v" "cur_pcb v = cur_pcb s"
    using clock_at_upd [OF k(1), of rtc_virt_clr_ticked] k(2) by (simp_all add: v_def)
  have w: "clock_at sched rs k w" "undisturbed rs v w"
    using clock_at_upd [OF v(1), of rtc_virt_clr_ticks] v(3) by (simp_all add: w_def rtc_virt_clr_ticks_def)
  have m: "unat (c_min 4 (4 :: u32)) = 4" by (simp add: c_min_def)
  have "store_bytes buf 0 (bytes32 t) = Some (bytes32 t)" for t using b by (simp add: store_bytes_def)
  then have "rtc_read sched s (Some (cur_pcb s)) (int k) buf 4 = Some (w, bytes32 (rtc_virt_ticks (get_file v ?r)), 0)"
    using g l(5) u by (simp add: rtc_read_def Let_def m v_def w_def)
  then have "sys_read sched f s (int k) (Some buf) 4 = Some (w, Some (bytes32 (rtc_virt_ticks (get_file v ?r))), 0)"
    using fd_presentD [OF clock_at_present [OF c]] l(4) by (simp add: sys_read_def fops_read_def)
  then show ?thesis using w(1) undisturbed_trans [OF k(3) undisturbed_trans [OF v(2) w(2)]] by auto
qed

lemma clock_write:
  assumes c: "clock_at sched rs k s"
  shows "\<exists>s'. sys_write s (int k) (Some (bytes32 32)) 4 = Some (s', 4) \<and> clock_at sched rs k s' \<and> undisturbed rs s s'"
proof -
  let ?r = "(cur_pcb s, k)" and ?g = "\<lambda>f. rtc_virt_rst_ctr (rtc_virt_clr_ticks (rtc_virt_clr_ticked (rtc_virt_set_freq (shift_count 32 0 - 1) f)))"
  have l: "file_op (get_file s ?r) = Some rtc_fops" "\<not> not_rtc_open (get_file s ?r)"
    using c not_rtc_open_bit by (simp_all add: clock_at_def)
  have g: "get_file_from_fd (Some (cur_pcb s)) (int k) = Some ?r" using c by (simp add: get_file_from_fd_def clock_at_def)
  have "rd32 (bytes32 32) 0 = Some 32" by (simp add: rd32_def load_def)
  moreover have "(32 :: u32) = push_bit 5 1" by (simp add: push_bit_eq_mult)
  then have "\<exists>k < 32. (32 :: u32) = push_bit k 1" by (intro exI [of _ 5]) simp
  ultimately have "rtc_write s (Some (cur_pcb s)) (int k) (Some (bytes32 32)) 4 = Some (upd_file ?r ?g s, 4)"
    using rtc_write_cases [OF g l(2)] by (simp only: if_True)
  then have "sys_write s (int k) (Some (bytes32 32)) 4 = Some (upd_file ?r ?g s, 4)"
    using fd_presentD [OF clock_at_present [OF c]] l(1) by (simp add: sys_write_def fops_write_def)
  then show ?thesis using clock_at_upd [OF c, of ?g] rtc_reset_view(5) by blast
qed

lemma sys_open_rtc:
  assumes "resolves f name FILE_TYPE_RTC inode" "can_open s" "rtc_list s rs" "r = (cur_pcb s, free_fd s)" "ticking sched (r # rs)"
  shows "\<exists>s'. sys_open f s (Some name) = Some (s', int (free_fd s)) \<and> clock_at sched (r # rs) (free_fd s) s' \<and>
    s' = (upd_file r (fresh_clock (open_rtcs s)) s)\<lparr>open_rtcs := Some r\<rparr> \<and> (\<forall>q. q \<noteq> r \<longrightarrow> get_file s' q = get_file s q)"
proof -
  let ?s = "(upd_file r (fresh_clock (open_rtcs s)) s)\<lparr>open_rtcs := Some r\<rparr>"
  have c: "cur_pcb s \<noteq> 0" "length (file_array (pcbs s (cur_pcb s))) = MAX_FILES" "\<exists>k < MAX_FILES. \<not> fd_used (pcbs s (cur_pcb s)) k"
    using assms(2) by (simp_all add: can_open_def)
  note o = rtc_open_free [OF c(2,3) free_fd_def, folded assms(4)]
  obtain d where "read_dentry_by_name f name (replicate 64 0) = Some (d, 0)" "d_type d = FILE_TYPE_RTC"
    using resolves_dentry [OF assms(1)] by blast
  then have "sys_open f s (Some name) = Some (?s, int (free_fd s))"
    using o(1) c(1) by (simp add: sys_open_def get_proc_pcb_def)
  moreover have "fref_ok s r" "\<not> bit (file_flags (get_file s r)) 0" using o(2,3) c(2) by (simp_all add: assms(4) fref_ok_def fd_used_flags)
  note l = rtc_list_opened [OF assms(3) this refl]
  have "clock_at sched (r # rs) (free_fd s) ?s"
    using l(1,2) o(2) c(1) assms(4,5) fresh_clock_view by (simp add: clock_at_def)
  ultimately show ?thesis using l(4) by blast
qed

text \<open>Standard output does not depend on the clocks.\<close>

lemma stdout_on_same:
  assumes "stdout_on t s" "cur_pcb s' = cur_pcb s" "con s' = con s" "term_terms s' = term_terms s" "get_file s' (cur_pcb s, 1) = get_file s (cur_pcb s, 1)"
    and "\<And>q. parent (pcbs s' q) = parent (pcbs s q)" "\<And>q. term_ctx (pcbs s' q) = term_ctx (pcbs s q)"
  shows "stdout_on t s'" "term_grid t s' = term_grid t s"
proof -
  have "fd_present s' 1 = fd_present s 1" using assms(2,5) by (simp add: fd_present_def fd_used_flags)
  then show "stdout_on t s'" "term_grid t s' = term_grid t s"
    using assms(1-5) get_term_ctx_same [OF assms(6,7)] by (simp_all add: stdout_on_def term_grid_def term_console_def)
qed

lemma ticks_only_pcb:
  assumes "ticks_only s t"
  shows "parent (pcbs t q) = parent (pcbs s q)" "term_ctx (pcbs t q) = term_ctx (pcbs s q)"
proof -
  have e: "(pcbs t q)\<lparr>file_array := []\<rparr> = (pcbs s q)\<lparr>file_array := []\<rparr>" using assms by (simp add: ticks_only_def)
  show "parent (pcbs t q) = parent (pcbs s q)" "term_ctx (pcbs t q) = term_ctx (pcbs s q)"
    using arg_cong [OF e, of parent] arg_cong [OF e, of term_ctx] by simp_all
qed

lemma rtc_list_same:
  assumes "pcbs s' = pcbs s" "open_rtcs s' = open_rtcs s"
  shows "rtc_list s' rs = rtc_list s rs"
proof -
  have g: "get_file s' r = get_file s r" "fref_ok s' r = fref_ok s r" for r using get_file_same [OF assms(1)] assms(1) by (simp_all add: fref_ok_def)
  have "rtc_chain s' p rs = rtc_chain s p rs" for p by (rule rtc_chain_cong) (simp add: g)
  then show ?thesis unfolding rtc_list_def g assms(2) by simp
qed

text \<open>A program that writes to terminal \<open>t\<close> at the pace of the clock at \<open>k\<close>.\<close>

definition paced :: "(nat \<Rightarrow> kstate \<Rightarrow> kstate) \<Rightarrow> file_ptr list \<Rightarrow> nat \<Rightarrow> nat \<Rightarrow> kstate \<Rightarrow> bool" where
  "paced sched rs k t s \<longleftrightarrow> clock_at sched rs k s \<and> stdout_on t s \<and> (cur_pcb s, 1) \<notin> set rs"

lemma paced_undisturbed:
  assumes "stdout_on t s" "(cur_pcb s, 1) \<notin> set rs" "clock_at sched rs k s'" "undisturbed rs s s'"
  shows "paced sched rs k t s'" "term_grid t s' = term_grid t s"
proof -
  have f: "ticks_only s s'" "get_file s' (cur_pcb s, 1) = get_file s (cur_pcb s, 1)" using assms(2,4) by (simp_all add: undisturbed_def)
  then have e: "cur_pcb s' = cur_pcb s" "con s' = con s" "term_terms s' = term_terms s" by (simp_all add: ticks_only_def)
  note o = stdout_on_same [OF assms(1) e f(2) ticks_only_pcb [OF f(1)]]
  show "paced sched rs k t s'" "term_grid t s' = term_grid t s" using o assms(2,3) e(1) by (simp_all add: paced_def)
qed

interpretation kernel_clock: frame_clock "kernel_os sched f addr ex" "paced sched rs k t" cur_pcb "term_grid t" print_on "\<lambda>cs. 8 \<notin> set cs" "int k"
  for sched f addr ex rs k t
proof
  fix s n and buf :: "u8 list"
  assume a: "paced sched rs k t s" "n \<le> length buf" "8 \<notin> set (take n buf)"
  then have p: "stdout_on t s" "clock_at sched rs k s" "(cur_pcb s, 1) \<notin> set rs" by (simp_all add: paced_def)
  obtain s' where s': "sc_write (kernel_os sched f addr ex) s 1 buf (int n) = Some (s', int n)" "stdout_on t s'"
    "term_grid t s' = print_on (take n buf) (term_grid t s)" "only_screen t s s'"
    using kernel_write [OF p(1) a(2,3)] by blast
  then have e: "pcbs s' = pcbs s" "cur_pcb s' = cur_pcb s" "open_rtcs s' = open_rtcs s" by (simp_all add: only_screen_def)
  have "rtc_list s' rs" using p(2) rtc_list_same [OF e(1,3)] by (simp add: clock_at_def)
  then have "clock_at sched rs k s'" using e(2) get_file_same [OF e(1)] by (intro clock_at_keep [OF p(2)]) simp_all
  then show "\<exists>s'. sc_write (kernel_os sched f addr ex) s 1 buf (int n) = Some (s', int n) \<and> paced sched rs k t s' \<and> cur_pcb s' = cur_pcb s \<and>
      term_grid t s' = print_on (take n buf) (term_grid t s)"
    using s' e p(3) by (auto simp: paced_def)
next
  fix s and buf :: "u8 list"
  assume a: "paced sched rs k t s" "length buf = 4"
  then have p: "stdout_on t s" "clock_at sched rs k s" "(cur_pcb s, 1) \<notin> set rs" by (simp_all add: paced_def)
  obtain s' buf' where "sys_read sched f s (int k) (Some buf) 4 = Some (s', Some buf', 0)" "length buf' = 4" "clock_at sched rs k s'" "undisturbed rs s s'"
    using clock_read [OF p(2) a(2)] by blast
  then show "\<exists>s' buf' r. sc_read (kernel_os sched f addr ex) s (int k) buf 4 = Some (s', buf', r) \<and> length buf' = 4 \<and> paced sched rs k t s' \<and>
      term_grid t s' = term_grid t s"
    using paced_undisturbed [OF p(1,3)] by (auto simp: kernel_os_def)
qed (use ascii_no_backspace in \<open>auto simp: print_on_append\<close>, simp_all add: print_on_def)

section \<open>Properties\<close>

text \<open>
  C28: \<open>pingpong\<close> on the kernel never stops moving: for every \<open>n\<close> it completes its \<open>n\<close>-th round, as long as clock interrupts
  arrive while it waits, and it has then drawn, line by line, a letter that moves from the left wall to the right one
  and back, the letters going round from A to Z.\<close>

theorem pingpong_draws_rounds:
  assumes "resolves f (lit ''rtc'') FILE_TYPE_RTC inode" "can_open s" "stdout_on t s" "rtc_list s rs" "(cur_pcb s, 1) \<notin> set rs"
    and "ticking sched ((cur_pcb s, free_fd s) # rs)" "length buf = 81" "length g = 4"
  shows "\<exists>p. pingpong_main (kernel_os sched f addr ex) n buf g s = Some p \<and> term_grid t (pong_os p) = print_on (pong_text 0 n) (term_grid t s)"
proof -
  let ?os = "kernel_os sched f addr ex" and ?r = "(cur_pcb s, free_fd s)"
  obtain s1 where s1: "sys_open f s (Some (lit ''rtc'')) = Some (s1, int (free_fd s))" "clock_at sched (?r # rs) (free_fd s) s1"
    "s1 = (upd_file ?r (fresh_clock (open_rtcs s)) s)\<lparr>open_rtcs := Some ?r\<rparr>" "\<forall>q. q \<noteq> ?r \<longrightarrow> get_file s1 q = get_file s q"
    using sys_open_rtc [OF assms(1,2,4) refl assms(6)] by blast
  have "fd_used (pcbs s (cur_pcb s)) 1" using assms(3) by (simp add: stdout_on_def fd_present_def)
  then have one: "free_fd s \<noteq> 1" using free_fd_less(2) [OF assms(2)] by metis
  have e: "cur_pcb s1 = cur_pcb s" "con s1 = con s" "term_terms s1 = term_terms s" "parent (pcbs s1 q) = parent (pcbs s q)"
    "term_ctx (pcbs s1 q) = term_ctx (pcbs s q)" for q by (simp_all add: s1(3))
  note o = stdout_on_same [OF assms(3) e(1-3) _ e(4,5)]
  have o: "stdout_on t s1" "term_grid t s1 = term_grid t s" using o s1(4) one by simp_all
  obtain s2 where s2: "sys_write s1 (int (free_fd s)) (Some (bytes32 32)) 4 = Some (s2, 4)" "clock_at sched (?r # rs) (free_fd s) s2" "undisturbed (?r # rs) s1 s2"
    using clock_write [OF s1(2)] by blast
  have p: "paced sched (?r # rs) (free_fd s) t s2" "term_grid t s2 = term_grid t s"
    using paced_undisturbed [OF o(1) _ s2(2,3)] one assms(5) e(1) o(2) by auto
  let ?b = "replicate 81 (32 :: u8)" and ?w = "[32, 124] @ replicate 76 32 @ [124, 10, 0]"
  have b: "clear_loop buf 0 81 = Some ?b" using clear_loop_eq [of 0 81 buf] assms(7) by simp
  have "?b[80 := 0, 79 := 10, 78 := 124, 1 := 124] = ?w" by code_simp
  moreover have "walled ?w" by (rule walledI) simp
  ultimately have w: "walled (?b[80 := 0, 79 := 10, 78 := 124, 1 := 124])" by simp
  have "kernel_clock.pong_ok sched (?r # rs) (free_fd s) t \<lparr>pong_os = s2, pong_buf = ?b[80 := 0, 79 := 10, 78 := 124, 1 := 124], pong_garbage = g\<rparr>"
    using p(1) w assms(8) by (simp add: kernel_clock.pong_ok_def)
  from kernel_clock.pong_rounds_draw [OF this, of f addr ex n 0] obtain p' where
    "pong_rounds ?os (int (free_fd s)) n 65 \<lparr>pong_os = s2, pong_buf = ?b[80 := 0, 79 := 10, 78 := 124, 1 := 124], pong_garbage = g\<rparr> = Some p'"
    "term_grid t (pong_os p') = print_on (pong_text 0 n) (term_grid t s)"
    using p(2) by auto
  moreover have "sc_open ?os s (lit ''rtc'') = Some (s1, int (free_fd s))" "sc_write ?os s1 (int (free_fd s)) (bytes32 32) 4 = Some (s2, 4)"
    using s1(1) s2(1) by (simp_all add: kernel_os_def)
  ultimately show ?thesis by (simp add: pingpong_main_def b)
qed

text \<open>The scheduler that lets in an interrupt at every yield, and a directory with the clock in it.\<close>

definition tick_sched :: "nat \<Rightarrow> kstate \<Rightarrow> kstate" where
  "tick_sched i u = the (rtc_handle_interrupt 0 u)"

lemma ticking_tick_sched: "ticking tick_sched rs"
  unfolding ticking_def tick_sched_def using rtc_interrupt_list [where c = 0] by (metis option.sel)

lemma sample_user_no_rtcs: "rtc_list (sample_user args ks) []"
  by (simp add: rtc_list_def sample_user_def sample_kstate_def upd_pcb_def upd_file_def zero_kstate_def Let_def)

theorem pingpong_draws_rounds_witness:
  "\<exists>p. pingpong_main (kernel_os tick_sched (dir_fs (chars ''rtc'') 0) sample_layout (\<lambda>s b. None)) 27 (replicate 81 0) (replicate 4 0)
       (sample_user [] []) = Some p \<and>
     term_grid 0 (pong_os p) = print_on (pong_text 0 27) (term_grid 0 (sample_user [] []))"
proof -
  have "cstr (bytes32 0) \<noteq> bytes32 0" by code_simp
  then have "resolves (dir_fs (chars ''rtc'') 0) (lit ''rtc'') FILE_TYPE_RTC 0"
    using dir_fs_resolves [of "chars ''rtc''" 0] by (simp add: lit_def chars_def)
  then show ?thesis
    by (intro pingpong_draws_rounds [OF _ sample_user_files(1,2) sample_user_no_rtcs _ ticking_tick_sched]) simp_all
qed

end
