(* ===== verification/User_Fish.thy ===== *)
theory User_Fish
  imports User_Grep Blink User_Clock
begin

text \<open>
  \<^verbatim>\<open>fish/fish.c\<close>: two frames, each a text file, become blinking characters that alternate with every tick of a clock.
  The theory compares the byte by byte reading of both files at once with the lines of the files, and shows what is
  on the screen after any number of ticks.
\<close>

section \<open>The program\<close>

text \<open>A file that is read: the last character and the end-of-file flag, \<open>c0\<close> and \<open>eof0\<close> of the code.\<close>

type_synonym cursor = "u8 \<times> bool"

definition next_char :: "'s user_os \<Rightarrow> int \<Rightarrow> cursor \<Rightarrow> 's \<Rightarrow> ('s \<times> cursor) option" where
  "next_char os fd x s =
     (if fst x \<noteq> 10 then do {
        (s, buf, num_bytes) \<leftarrow> sc_read os s fd [fst x] 1;
        if buf = [] then None
        else Some (s, if num_bytes = 0 then (10, True) else (buf ! 0, snd x)) }
      else Some (s, x))"

text \<open>The structure that is passed to \<open>mp1_ioctl\<close>; its other members are whatever they were.\<close>

definition frame_struct :: "nat \<Rightarrow> nat \<Rightarrow> u8 \<Rightarrow> u8 \<Rightarrow> blink \<Rightarrow> blink" where
  "frame_struct row col c0 c1 bs = bs\<lparr>on_char := if c0 = 10 then 32 else c0, off_char := if c1 = 10 then 32 else c1,
     location := of_nat (row * 80 + col + 40)\<rparr>"

partial_function (option) frame_row ::
  "'s user_os \<Rightarrow> u32 \<Rightarrow> int \<Rightarrow> int \<Rightarrow> nat \<Rightarrow> nat \<Rightarrow> cursor \<Rightarrow> cursor \<Rightarrow> blink \<Rightarrow> 's \<Rightarrow> blinker \<Rightarrow> ('s \<times> blinker \<times> blink \<times> cursor \<times> cursor) option" where
  "frame_row os base fd0 fd1 row col x0 x1 bs s b =
     Option.bind (next_char os fd0 x0 s) (\<lambda>(s, x0).
       Option.bind (next_char os fd1 x1 s) (\<lambda>(s, x1).
         if fst x0 = 10 \<and> fst x1 = 10 then Some (s, b, bs, x0, x1)
         else if fst x0 \<noteq> 32 \<and> fst x0 \<noteq> 10 \<or> fst x1 \<noteq> 32 \<and> fst x1 \<noteq> 10 then
           (let bs = frame_struct row col (fst x0) (fst x1) bs in
            Option.bind (mp1_ioctl base bs 0 RTC_ADD b) (\<lambda>(b, bs, _). frame_row os base fd0 fd1 row (col + 1) x0 x1 bs s b))
         else frame_row os base fd0 fd1 row (col + 1) x0 x1 bs s b))"

definition end_row :: "'s user_os \<Rightarrow> int \<Rightarrow> cursor \<Rightarrow> 's \<Rightarrow> ('s \<times> cursor) option" where
  "end_row os fd x s = (if snd x then map_option (\<lambda>(s, _). (s, (10, True))) (sc_close os s fd) else Some (s, (48, False)))"

partial_function (option) frame_rows ::
  "'s user_os \<Rightarrow> u32 \<Rightarrow> int \<Rightarrow> int \<Rightarrow> nat \<Rightarrow> cursor \<Rightarrow> cursor \<Rightarrow> blink \<Rightarrow> 's \<Rightarrow> blinker \<Rightarrow> ('s \<times> blinker) option" where
  "frame_rows os base fd0 fd1 row x0 x1 bs s b =
     (if \<not> snd x0 \<or> \<not> snd x1 then
        Option.bind (frame_row os base fd0 fd1 row 0 x0 x1 bs s b) (\<lambda>(s, b, bs, x0, x1).
          Option.bind (end_row os fd0 x0 s) (\<lambda>(s, x0).
            Option.bind (end_row os fd1 x1 s) (\<lambda>(s, x1). frame_rows os base fd0 fd1 (row + 1) x0 x1 bs s b)))
      else Some (s, b))"

text \<open>The status with which the program halts at once, or \<open>None\<close> when the function returns.\<close>

definition add_frames :: "'s user_os \<Rightarrow> u32 \<Rightarrow> u8 list \<Rightarrow> u8 list \<Rightarrow> blink \<Rightarrow> 's \<Rightarrow> blinker \<Rightarrow> ('s \<times> blinker \<times> int option) option" where
  "add_frames os base f0 f1 bs s b = do {
     let bs = bs\<lparr>on_length := 15, off_length := 15\<rparr>;
     (s, fd0) \<leftarrow> sc_open os s f0;
     if fd0 < 0 then Some (s, b, Some (-1))
     else do {
       (s, fd1) \<leftarrow> sc_open os s f1;
       if fd1 < 0 then Some (s, b, Some (-1))
       else do {
         (s, b) \<leftarrow> frame_rows os base fd0 fd1 0 (48, False) (48, False) bs s b;
         Some (s, b, None) } } }"

text \<open>\<open>n\<close> rounds of reading the clock and ticking the blinks.\<close>

primrec fish_wait :: "'s user_os \<Rightarrow> u32 \<Rightarrow> int \<Rightarrow> nat \<Rightarrow> u8 list \<Rightarrow> 's \<Rightarrow> blinker \<Rightarrow> ('s \<times> u8 list \<times> blinker) option" where
  "fish_wait os base fd 0 garbage s b = Some (s, garbage, b)"
| "fish_wait os base fd (Suc n) garbage s b = do {
     (s, garbage, _) \<leftarrow> sc_read os s fd garbage 4;
     b \<leftarrow> mp1_rtc_tasklet base b;
     fish_wait os base fd n garbage s b }"

text \<open>\<open>stored\<close> is what the system call stores in \<open>vmem_base_addr\<close>, which is at \<open>vaddr\<close>.\<close>

definition mp1_set_video_mode :: "'s user_os \<Rightarrow> u32 \<Rightarrow> u32 \<Rightarrow> 's \<Rightarrow> ('s \<times> u32) option" where
  "mp1_set_video_mode os vaddr stored s = map_option (\<lambda>(s, ret). (s, if ret = -1 then 0 else stored)) (sc_vidmap os s vaddr)"

abbreviation (input) WAIT :: nat where "WAIT \<equiv> 200"

text \<open>What \<open>main\<close> does when the frames are up: three stretches of waiting, with another blink added and synchronised in between.\<close>

definition fish_show :: "'s user_os \<Rightarrow> u32 \<Rightarrow> int \<Rightarrow> blink \<Rightarrow> u8 list \<Rightarrow> 's \<Rightarrow> blinker \<Rightarrow> ('s \<times> blinker \<times> int) option" where
  "fish_show os base rtc_fd bs garbage s b = do {
     (s, _) \<leftarrow> sc_write os s rtc_fd (bytes32 32) 4;
     (s, garbage, b) \<leftarrow> fish_wait os base rtc_fd WAIT garbage s b;
     let bs = bs\<lparr>on_char := 73, off_char := 77, on_length := 7, off_length := 6, location := 6 * 80 + 60\<rparr>;
     (b, bs, _) \<leftarrow> mp1_ioctl base bs 0 RTC_ADD b;
     (s, garbage, b) \<leftarrow> fish_wait os base rtc_fd WAIT garbage s b;
     (b, bs, _) \<leftarrow> mp1_ioctl base bs (push_bit 16 40 OR (6 * 80 + 60)) RTC_SYNC b;
     (s, garbage, b) \<leftarrow> fish_wait os base rtc_fd WAIT garbage s b;
     let bs = bs\<lparr>location := 60\<rparr>;
     (b, bs, _) \<leftarrow> mp1_ioctl base bs (of_nat WAIT) RTC_REMOVE b;
     (s, garbage, b) \<leftarrow> fish_wait os base rtc_fd (80 * 25) garbage s b;
     (s, _) \<leftarrow> sc_close os s rtc_fd;
     Some (s, b, 0) }"

definition fish_main ::
  "'s user_os \<Rightarrow> u32 \<Rightarrow> u32 \<Rightarrow> u32 \<Rightarrow> blink \<Rightarrow> blink \<Rightarrow> u8 list \<Rightarrow> 's \<Rightarrow> blinker \<Rightarrow> ('s \<times> blinker \<times> int) option" where
  "fish_main os base vaddr stored bs0 bs garbage s b = do {
     b \<leftarrow> clear_blinks b;
     (s, vmem) \<leftarrow> mp1_set_video_mode os vaddr stored s;
     if vmem = 0 then Some (s, b, -1)
     else do {
       (s, rtc_fd) \<leftarrow> sc_open os s (lit ''rtc'');
       (s, b, halted) \<leftarrow> add_frames os base (lit ''frame0.txt'') (lit ''frame1.txt'') bs0 s b;
       case halted of Some code \<Rightarrow> Some (s, b, code) | None \<Rightarrow> fish_show os base rtc_fd bs garbage s b } }"

section \<open>What the frames show\<close>

text \<open>The character of a line; behind its end there are blanks.\<close>

definition char_at :: "u8 list \<Rightarrow> nat \<Rightarrow> u8" where
  "char_at l i = (if i < length l then l ! i else 32)"

function row_cells :: "nat \<Rightarrow> u8 list \<Rightarrow> u8 list \<Rightarrow> (nat \<times> u8 \<times> u8) list" where
  "row_cells p l0 l1 =
     (if l0 = [] \<and> l1 = [] then []
      else (if char_at l0 0 \<noteq> 32 \<or> char_at l1 0 \<noteq> 32 then [(p, char_at l0 0, char_at l1 0)] else []) @ row_cells (Suc p) (tl l0) (tl l1))"
  by pat_completeness auto
termination
proof (relation "measure (\<lambda>(p, l0, l1). length l0 + length l1)", simp)
  fix p :: nat and l0 l1 :: "u8 list"
  assume "\<not> (l0 = [] \<and> l1 = [])"
  then show "((Suc p, tl l0, tl l1), p, l0, l1) \<in> measure (\<lambda>(p, l0, l1). length l0 + length l1)" by (cases l0; cases l1) simp_all
qed

declare row_cells.simps [simp del]

text \<open>The lines of two texts side by side, and where each character goes.\<close>

fun frame_cells :: "nat \<Rightarrow> u8 list list \<Rightarrow> u8 list list \<Rightarrow> (nat \<times> u8 \<times> u8) list" where
  "frame_cells row [] [] = []"
| "frame_cells row (l # ls) [] = row_cells (row * 80 + 40) l [] @ frame_cells (Suc row) ls []"
| "frame_cells row [] (k # ks) = row_cells (row * 80 + 40) [] k @ frame_cells (Suc row) [] ks"
| "frame_cells row (l # ls) (k # ks) = row_cells (row * 80 + 40) l k @ frame_cells (Suc row) ls ks"

lemma frame_cells_step:
  "ls \<noteq> [] \<or> ks \<noteq> [] \<Longrightarrow> frame_cells row ls ks =
     row_cells (row * 80 + 40) (case ls of [] \<Rightarrow> [] | l # _ \<Rightarrow> l) (case ks of [] \<Rightarrow> [] | l # _ \<Rightarrow> l) @ frame_cells (Suc row) (tl ls) (tl ks)"
  by (cases ls; cases ks) simp_all

definition frame_blink :: "nat \<times> u8 \<times> u8 \<Rightarrow> blink" where
  "frame_blink x = \<lparr>location = of_nat (fst x), on_char = fst (snd x), off_char = snd (snd x), on_length = 15, off_length = 15,
     countdown = 15, status = 1, next_blink = 0\<rparr>"

text \<open>The blinks that are shown and the video page, as the blinker holds them.\<close>

definition showing :: "u32 \<Rightarrow> blink list \<Rightarrow> u8 list \<Rightarrow> blinker \<Rightarrow> bool" where
  "showing base xs v b \<longleftrightarrow> (\<exists>is. blinker_inv base is b \<and> blinks_of is b = xs \<and> vmem_page b = v)"

definition draw :: "(nat \<times> u8 \<times> u8) list \<Rightarrow> u8 list \<Rightarrow> u8 list" where
  "draw cells v = fold (\<lambda>x v. v[2 * fst x := fst (snd x)]) cells v"

lemma draw_append: "draw (xs @ ys) v = draw ys (draw xs v)"
  by (simp add: draw_def)

definition cells_ok :: "(nat \<times> u8 \<times> u8) list \<Rightarrow> bool" where
  "cells_ok cells \<longleftrightarrow> (\<forall>x \<in> set cells. 0 < fst x \<and> fst x < NUM_BLINKS)"

lemma add_frame_blink:
  assumes "showing base xs v b" "length xs < NUM_BLINKS" "0 < p" "p < NUM_BLINKS" "p = row * 80 + col + 40"
    and "on_length bs = 15" "off_length bs = 15"
  shows "\<exists>b'. mp1_ioctl base (frame_struct row col c0 c1 bs) 0 RTC_ADD b = Some (b', frame_struct row col c0 c1 bs, 0) \<and>
    showing base (frame_blink (p, if c0 = 10 then 32 else c0, if c1 = 10 then 32 else c1) # xs) (v[2 * p := if c0 = 10 then 32 else c0]) b'"
proof -
  let ?x = "frame_struct row col c0 c1 bs"
  obtain "is" where i: "blinker_inv base is b" "blinks_of is b = xs" "vmem_page b = v" using assms(1) by (auto simp: showing_def)
  have "location ?x = of_nat p" by (simp add: frame_struct_def assms(5))
  then have u: "unat (location ?x) = p" using assms(4) by (simp add: unat_of_nat)
  then have "location ?x \<noteq> 0" using assms(3) by auto
  moreover have "length is < NUM_BLINKS" using assms(2) i(2) by (auto simp: blinks_of_def)
  ultimately obtain j b' where "mp1_ioctl_add base ?x b = Some (b', 0)" "blinker_inv base (j # is) b'"
    "blinks_of (j # is) b' = unlinked (fresh_blink ?x) # xs" "vmem_page b' = v[2 * p := on_char ?x]"
    using mp1_ioctl_add_eq [OF i(1), of ?x] u assms(4) i(2,3) by auto
  moreover have "unlinked (fresh_blink ?x) = frame_blink (p, if c0 = 10 then 32 else c0, if c1 = 10 then 32 else c1)"
    using assms(5-7) by (simp add: unlinked_def fresh_blink_def frame_struct_def frame_blink_def)
  ultimately show ?thesis by (auto simp: mp1_ioctl_def showing_def frame_struct_def)
qed

section \<open>Reading two files at once\<close>

lemma text_lines_Cons:
  "text_lines [] = [[]]" "text_lines (10 # xs) = [] # text_lines xs"
  "c \<noteq> 10 \<Longrightarrow> text_lines (c # xs) = (c # hd (text_lines xs)) # tl (text_lines xs)"
proof -
  show "text_lines [] = [[]]" "text_lines (10 # xs) = [] # text_lines xs" using text_lines_newline [of "[]" xs] by simp_all
  show "text_lines (c # xs) = (c # hd (text_lines xs)) # tl (text_lines xs)" if "c \<noteq> 10"
  proof (cases xs rule: text_cases)
    case (line l ys)
    then show ?thesis using that text_lines_newline [of "c # l" ys] by simp
  qed (use that in simp)
qed

text \<open>
  Two descriptors that deliver their bytes one at a time; \<open>src i s\<close> is what is left to read, \<open>None\<close> when the descriptor
  is closed. Reading or closing one leaves the other alone.
\<close>

locale byte_pair =
  fixes os :: "'s user_os" and ok :: "'s \<Rightarrow> bool" and src :: "bool \<Rightarrow> 's \<Rightarrow> u8 list option" and fd :: "bool \<Rightarrow> int"
  assumes read_byte: "\<lbrakk>ok s; src i s = Some xs\<rbrakk> \<Longrightarrow>
      \<exists>s'. sc_read os s (fd i) [c] 1 = Some (s', (case xs of [] \<Rightarrow> [c] | x # _ \<Rightarrow> [x]), if xs = [] then 0 else 1) \<and> ok s' \<and>
        src i s' = Some (tl xs) \<and> src (\<not> i) s' = src (\<not> i) s"
    and close_fd: "ok s \<Longrightarrow> \<exists>s' r. sc_close os s (fd i) = Some (s', r) \<and> ok s' \<and> src i s' = None \<and> src (\<not> i) s' = src (\<not> i) s"
begin

text \<open>What is still to come of the current line, and the lines behind it.\<close>

definition at_row :: "bool \<Rightarrow> cursor \<Rightarrow> u8 list \<Rightarrow> u8 list list \<Rightarrow> 's \<Rightarrow> bool" where
  "at_row i x line later s \<longleftrightarrow>
     (fst x \<noteq> 10 \<and> \<not> snd x \<and> (\<exists>xs. src i s = Some xs \<and> text_lines xs = line # later)) \<or>
     (fst x = 10 \<and> \<not> snd x \<and> line = [] \<and> (\<exists>xs. src i s = Some xs \<and> text_lines xs = later)) \<or>
     (fst x = 10 \<and> snd x \<and> line = [] \<and> later = [])"

lemma next_char_row:
  assumes "ok s" "at_row i x line later s"
  shows "\<exists>s' x'. next_char os (fd i) x s = Some (s', x') \<and> ok s' \<and> at_row i x' (tl line) later s' \<and>
    fst x' = (if line = [] then 10 else hd line) \<and> (line \<noteq> [] \<longrightarrow> hd line \<noteq> 10) \<and> src (\<not> i) s' = src (\<not> i) s"
proof (cases "fst x = 10")
  case True
  then show ?thesis using assms by (auto simp: next_char_def at_row_def)
next
  case False
  then obtain xs where xs: "src i s = Some xs" "text_lines xs = line # later" "\<not> snd x" using assms(2) by (auto simp: at_row_def)
  obtain s' where s': "sc_read os s (fd i) [fst x] 1 = Some (s', (case xs of [] \<Rightarrow> [fst x] | x # _ \<Rightarrow> [x]), if xs = [] then 0 else 1)" "ok s'"
    "src i s' = Some (tl xs)" "src (\<not> i) s' = src (\<not> i) s"
    using read_byte [OF assms(1) xs(1)] by blast
  show ?thesis
  proof (cases xs)
    case Nil
    then show ?thesis using False s' xs by (simp add: next_char_def at_row_def text_lines_Cons)
  next
    case (Cons c ys)
    show ?thesis
    proof (cases "c = 10")
      case True
      then show ?thesis using Cons False s' xs by (simp add: next_char_def at_row_def text_lines_Cons)
    next
      case c: False
      then have "line = c # hd (text_lines ys)" "later = tl (text_lines ys)" using xs(2) Cons text_lines_Cons(3) by auto
      then show ?thesis using Cons c False s' xs by (simp add: next_char_def at_row_def)
    qed
  qed
qed

lemma frame_row_adds:
  assumes "ok s" "at_row False x0 l0 ls0 s" "at_row True x1 l1 ls1 s" "showing base xs v b" "on_length bs = 15" "off_length bs = 15"
    and "cells_ok (row_cells (row * 80 + col + 40) l0 l1)" "length xs + length (row_cells (row * 80 + col + 40) l0 l1) \<le> NUM_BLINKS"
  shows "\<exists>s' b' bs' x0' x1'. frame_row os base (fd False) (fd True) row col x0 x1 bs s b = Some (s', b', bs', x0', x1') \<and> ok s' \<and>
    at_row False x0' [] ls0 s' \<and> at_row True x1' [] ls1 s' \<and> fst x0' = 10 \<and> fst x1' = 10 \<and> on_length bs' = 15 \<and> off_length bs' = 15 \<and>
    showing base (rev (map frame_blink (row_cells (row * 80 + col + 40) l0 l1)) @ xs) (draw (row_cells (row * 80 + col + 40) l0 l1) v) b'"
  using assms
proof (induction "length l0 + length l1" arbitrary: s x0 x1 l0 l1 xs v b bs col rule: less_induct)
  case less
  obtain s1 y0 where n0: "next_char os (fd False) x0 s = Some (s1, y0)" "ok s1" "at_row False y0 (tl l0) ls0 s1"
    "fst y0 = (if l0 = [] then 10 else hd l0)" "l0 \<noteq> [] \<longrightarrow> hd l0 \<noteq> 10" "src True s1 = src True s"
    using next_char_row [OF less.prems(1,2)] by auto
  have "at_row True x1 l1 ls1 s1" using less.prems(3) n0(6) by (simp add: at_row_def)
  then obtain s2 y1 where n1: "next_char os (fd True) x1 s1 = Some (s2, y1)" "ok s2" "at_row True y1 (tl l1) ls1 s2"
    "fst y1 = (if l1 = [] then 10 else hd l1)" "l1 \<noteq> [] \<longrightarrow> hd l1 \<noteq> 10" "src False s2 = src False s1"
    using next_char_row [OF n0(2), of True x1 l1 ls1] by auto
  have r0: "at_row False y0 (tl l0) ls0 s2" using n0(3) n1(6) by (simp add: at_row_def)
  define p where "p = row * 80 + col + 40"
  define c0 where "c0 = char_at l0 0"
  define c1 where "c1 = char_at l1 0"
  have c: "(if fst y0 = 10 then 32 else fst y0) = c0" "(if fst y1 = 10 then 32 else fst y1) = c1"
    using n0(4,5) n1(4,5) by (auto simp: c0_def c1_def char_at_def hd_conv_nth)
  show ?case
  proof (cases "l0 = [] \<and> l1 = []")
    case True
    then show ?thesis using n0 n1 r0 less.prems(4-6) by (subst frame_row.simps) (simp add: row_cells.simps draw_def)
  next
    case F: False
    then have m: "length (tl l0) + length (tl l1) < length l0 + length l1" by (cases l0; cases l1) simp_all
    have y: "\<not> (fst y0 = 10 \<and> fst y1 = 10)" using F n0(4,5) n1(4,5) by auto
    have p: "row * 80 + Suc col + 40 = Suc p" by (simp add: p_def)
    note ok = less.prems(7,8) [folded p_def]
    show ?thesis
    proof (cases "c0 \<noteq> 32 \<or> c1 \<noteq> 32")
      case True
      then have cells: "row_cells p l0 l1 = (p, c0, c1) # row_cells (Suc p) (tl l0) (tl l1)"
        using F by (subst row_cells.simps) (simp add: c0_def c1_def)
      let ?bs = "frame_struct row col (fst y0) (fst y1) bs"
      have pp: "0 < p" "p < NUM_BLINKS" "length xs < NUM_BLINKS" using ok by (simp_all add: cells cells_ok_def)
      obtain b1 where b1: "mp1_ioctl base ?bs 0 RTC_ADD b = Some (b1, ?bs, 0)" "showing base (frame_blink (p, c0, c1) # xs) (v[2 * p := c0]) b1"
        using add_frame_blink [OF less.prems(4) pp(3,1,2) p_def less.prems(5,6), of "fst y0" "fst y1"] unfolding c by blast
      have w: "fst y0 \<noteq> 32 \<and> fst y0 \<noteq> 10 \<or> fst y1 \<noteq> 32 \<and> fst y1 \<noteq> 10" using True c by (auto split: if_splits)
      have bs: "on_length ?bs = 15" "off_length ?bs = 15" using less.prems(5,6) by (simp_all add: frame_struct_def)
      have "cells_ok (row_cells (row * 80 + Suc col + 40) (tl l0) (tl l1))"
        "length (frame_blink (p, c0, c1) # xs) + length (row_cells (row * 80 + Suc col + 40) (tl l0) (tl l1)) \<le> NUM_BLINKS"
        using ok unfolding p by (simp_all add: cells cells_ok_def)
      note IH = less.hyps [OF m n1(2) r0 n1(3) b1(2) bs this, unfolded p]
      have "frame_row os base (fd False) (fd True) row col x0 x1 bs s b = frame_row os base (fd False) (fd True) row (Suc col) y0 y1 ?bs s2 b1"
        using y w b1(1) by (subst frame_row.simps) (auto simp: n0(1) n1(1) Let_def)
      then show ?thesis using IH unfolding p_def [symmetric] cells by (simp add: draw_def)
    next
      case False
      then have cells: "row_cells p l0 l1 = row_cells (Suc p) (tl l0) (tl l1)"
        using F by (subst row_cells.simps) (auto simp: c0_def c1_def)
      have w: "\<not> (fst y0 \<noteq> 32 \<and> fst y0 \<noteq> 10 \<or> fst y1 \<noteq> 32 \<and> fst y1 \<noteq> 10)" using False c by (auto split: if_splits)
      have "cells_ok (row_cells (row * 80 + Suc col + 40) (tl l0) (tl l1))"
        "length xs + length (row_cells (row * 80 + Suc col + 40) (tl l0) (tl l1)) \<le> NUM_BLINKS"
        using ok unfolding p cells by simp_all
      note IH = less.hyps [OF m n1(2) r0 n1(3) less.prems(4-6) this, unfolded p]
      have "frame_row os base (fd False) (fd True) row col x0 x1 bs s b = frame_row os base (fd False) (fd True) row (Suc col) y0 y1 bs s2 b"
        using y w by (subst frame_row.simps) (auto simp: n0(1) n1(1))
      then show ?thesis using IH unfolding p_def [symmetric] cells by simp
    qed
  qed
qed

text \<open>Where a file is between two rows: at the start of the first of its \<open>lines\<close>, or closed.\<close>

definition between_rows :: "bool \<Rightarrow> cursor \<Rightarrow> u8 list list \<Rightarrow> 's \<Rightarrow> bool" where
  "between_rows i x lines s \<longleftrightarrow> (x = (48, False) \<and> (\<exists>xs. src i s = Some xs \<and> text_lines xs = lines)) \<or> (x = (10, True) \<and> lines = [])"

lemma between_rows_at: "between_rows i x lines s \<Longrightarrow> at_row i x (case lines of [] \<Rightarrow> [] | l # _ \<Rightarrow> l) (tl lines) s"
  using text_lines_not_Nil by (fastforce simp: between_rows_def at_row_def split: list.splits)

lemma end_row_between:
  assumes "ok s" "at_row i x [] later s" "fst x = 10"
  shows "\<exists>s' x'. end_row os (fd i) x s = Some (s', x') \<and> ok s' \<and> between_rows i x' later s' \<and> src (\<not> i) s' = src (\<not> i) s"
proof (cases "snd x")
  case True
  then show ?thesis using close_fd [OF assms(1), of i] assms(2) by (auto simp: end_row_def at_row_def between_rows_def)
next
  case False
  then show ?thesis using assms by (auto simp: end_row_def at_row_def between_rows_def)
qed

lemma between_rows_end: "between_rows i x lines s \<Longrightarrow> snd x \<longleftrightarrow> lines = []"
  using text_lines_not_Nil by (auto simp: between_rows_def)

lemma frame_rows_adds:
  assumes "ok s" "between_rows False x0 ls s" "between_rows True x1 ks s" "showing base xs v b" "on_length bs = 15" "off_length bs = 15"
    and "cells_ok (frame_cells row ls ks)" "length xs + length (frame_cells row ls ks) \<le> NUM_BLINKS"
  shows "\<exists>s' b'. frame_rows os base (fd False) (fd True) row x0 x1 bs s b = Some (s', b') \<and> ok s' \<and>
    showing base (rev (map frame_blink (frame_cells row ls ks)) @ xs) (draw (frame_cells row ls ks) v) b'"
  using assms
proof (induction "length ls + length ks" arbitrary: s x0 x1 ls ks xs v b bs row rule: less_induct)
  case less
  show ?case
  proof (cases "ls = [] \<and> ks = []")
    case True
    then show ?thesis using less.prems(1,4) between_rows_end [OF less.prems(2)] between_rows_end [OF less.prems(3)]
      by (subst frame_rows.simps) (simp add: draw_def)
  next
    case False
    let ?l = "case ls of [] \<Rightarrow> [] | l # _ \<Rightarrow> l" and ?k = "case ks of [] \<Rightarrow> [] | l # _ \<Rightarrow> l"
    define cs where "cs = row_cells (row * 80 + 0 + 40) ?l ?k"
    have cells: "frame_cells row ls ks = cs @ frame_cells (Suc row) (tl ls) (tl ks)" using False frame_cells_step [of ls ks row] by (simp add: cs_def)
    have ok: "cells_ok cs" "cells_ok (frame_cells (Suc row) (tl ls) (tl ks))"
      "length xs + length cs \<le> NUM_BLINKS" "length (rev (map frame_blink cs) @ xs) + length (frame_cells (Suc row) (tl ls) (tl ks)) \<le> NUM_BLINKS"
      using less.prems(7,8) by (auto simp: cells cells_ok_def)
    obtain s1 b1 bs1 y0 y1 where r: "frame_row os base (fd False) (fd True) row 0 x0 x1 bs s b = Some (s1, b1, bs1, y0, y1)" "ok s1"
      "at_row False y0 [] (tl ls) s1" "at_row True y1 [] (tl ks) s1" "fst y0 = 10" "fst y1 = 10" "on_length bs1 = 15" "off_length bs1 = 15"
      "showing base (rev (map frame_blink cs) @ xs) (draw cs v) b1"
      using frame_row_adds [OF less.prems(1) between_rows_at [OF less.prems(2)] between_rows_at [OF less.prems(3)] less.prems(4-6), of row 0]
        ok(1,3) unfolding cs_def [symmetric] by blast
    obtain s2 z0 where e0: "end_row os (fd False) y0 s1 = Some (s2, z0)" "ok s2" "between_rows False z0 (tl ls) s2" "src True s2 = src True s1"
      using end_row_between [OF r(2,3,5)] by auto
    have "at_row True y1 [] (tl ks) s2" using r(4) e0(4) by (simp add: at_row_def)
    then obtain s3 z1 where e1: "end_row os (fd True) y1 s2 = Some (s3, z1)" "ok s3" "between_rows True z1 (tl ks) s3" "src False s3 = src False s2"
      using end_row_between [OF e0(2), of True y1 "tl ks"] r(6) by auto
    have b0: "between_rows False z0 (tl ls) s3" using e0(3) e1(4) by (simp add: between_rows_def)
    have "length (tl ls) + length (tl ks) < length ls + length ks" using False by (cases ls; cases ks) simp_all
    note IH = less.hyps [OF this e1(2) b0 e1(3) r(9,7,8) ok(2,4)]
    have "\<not> snd x0 \<or> \<not> snd x1" using False between_rows_end [OF less.prems(2)] between_rows_end [OF less.prems(3)] by auto
    then have "frame_rows os base (fd False) (fd True) row x0 x1 bs s b = frame_rows os base (fd False) (fd True) (Suc row) z0 z1 bs1 s3 b1"
      using r(1) e0(1) e1(1) by (subst frame_rows.simps) auto
    then show ?thesis using IH by (simp add: cells draw_append)
  qed
qed

end

section \<open>Where the characters are\<close>

definition line_at :: "u8 list list \<Rightarrow> nat \<Rightarrow> u8 list" where
  "line_at ls r = (if r < length ls then ls ! r else [])"

text \<open>The character of a text in a row and a column.\<close>

definition frame_char :: "u8 list \<Rightarrow> nat \<Rightarrow> nat \<Rightarrow> u8" where
  "frame_char txt row col = char_at (line_at (text_lines txt) row) col"

text \<open>A text of at most 24 lines of at most 80 characters.\<close>

definition fits :: "u8 list \<Rightarrow> bool" where
  "fits txt \<longleftrightarrow> length (text_lines txt) \<le> 24 \<and> (\<forall>l \<in> set (text_lines txt). length l \<le> 80)"

lemma char_at_tl: "char_at (tl l) i = char_at l (Suc i)"
  by (cases l) (auto simp: char_at_def nth_tl)

lemma row_cells_eq:
  "row_cells p l0 l1 = map (\<lambda>i. (p + i, char_at l0 i, char_at l1 i))
     (filter (\<lambda>i. char_at l0 i \<noteq> 32 \<or> char_at l1 i \<noteq> 32) [0..<max (length l0) (length l1)])"
proof (induction p l0 l1 rule: row_cells.induct)
  case (1 p l0 l1)
  show ?case
  proof (cases "l0 = [] \<and> l1 = []")
    case False
    then have m: "max (length l0) (length l1) = Suc (max (length (tl l0)) (length (tl l1)))" by (cases l0; cases l1) simp_all
    have u: "[0..<Suc n] = 0 # map Suc [0..<n]" for n by (simp add: map_Suc_upt upt_conv_Cons del: upt_Suc)
    show ?thesis using False "1.IH" [OF False] unfolding m u
      by (subst row_cells.simps) (auto simp: char_at_tl filter_map comp_def)
  qed (simp add: row_cells.simps)
qed

lemma row_cells_bounds:
  assumes "length l0 \<le> 80" "length l1 \<le> 80"
  shows "sorted_wrt (<) (map fst (row_cells p l0 l1))" "x \<in> set (row_cells p l0 l1) \<Longrightarrow> p \<le> fst x \<and> fst x < p + 80"
proof -
  let ?is = "filter (\<lambda>i. char_at l0 i \<noteq> 32 \<or> char_at l1 i \<noteq> 32) [0..<max (length l0) (length l1)]"
  have "map fst (row_cells p l0 l1) = map ((+) p) ?is" by (simp add: row_cells_eq comp_def)
  moreover have "sorted_wrt (<) ?is" by (rule sorted_wrt_filter) simp
  ultimately show "sorted_wrt (<) (map fst (row_cells p l0 l1))" by (simp add: sorted_wrt_map)
  show "x \<in> set (row_cells p l0 l1) \<Longrightarrow> p \<le> fst x \<and> fst x < p + 80" using assms by (auto simp: row_cells_eq)
qed

lemma frame_cells_bounds:
  assumes "\<forall>l \<in> set ls \<union> set ks. length l \<le> 80"
  shows "sorted_wrt (<) (map fst (frame_cells row ls ks)) \<and>
    (\<forall>x \<in> set (frame_cells row ls ks). row * 80 + 40 \<le> fst x \<and> fst x < (row + max (length ls) (length ks)) * 80 + 40)"
  using assms
proof (induction "length ls + length ks" arbitrary: row ls ks rule: less_induct)
  case less
  show ?case
  proof (cases "ls = [] \<and> ks = []")
    case False
    define cs where "cs = row_cells (row * 80 + 40) (case ls of [] \<Rightarrow> [] | l # _ \<Rightarrow> l) (case ks of [] \<Rightarrow> [] | l # _ \<Rightarrow> l)"
    define ds where "ds = frame_cells (Suc row) (tl ls) (tl ks)"
    have e: "frame_cells row ls ks = cs @ ds" using False frame_cells_step [of ls ks row] by (simp add: cs_def ds_def)
    have m: "max (length ls) (length ks) = Suc (max (length (tl ls)) (length (tl ks)))" using False by (cases ls; cases ks) simp_all
    have "\<forall>l \<in> set (tl ls) \<union> set (tl ks). length l \<le> 80" using less.prems by (metis Un_iff list.set_sel(2) tl_Nil)
    moreover have "length (tl ls) + length (tl ks) < length ls + length ks" using False by (cases ls; cases ks) simp_all
    ultimately have d: "sorted_wrt (<) (map fst ds)" "\<forall>x \<in> set ds. Suc row * 80 + 40 \<le> fst x \<and> fst x < (Suc row + max (length (tl ls)) (length (tl ks))) * 80 + 40"
      using less.hyps [of "tl ls" "tl ks" "Suc row"] unfolding ds_def by blast+
    have "length (case ls of [] \<Rightarrow> [] | l # _ \<Rightarrow> l) \<le> 80" "length (case ks of [] \<Rightarrow> [] | l # _ \<Rightarrow> l) \<le> 80"
      using less.prems by (cases ls; cases ks; simp)+
    note r = row_cells_bounds [OF this, where p = "row * 80 + 40", folded cs_def]
    show ?thesis unfolding e m using d r by (fastforce simp: sorted_wrt_append)
  qed simp
qed

lemma line_at_tl: "line_at (tl ls) r = line_at ls (Suc r)"
  by (cases ls) (auto simp: line_at_def nth_tl)

lemma line_at_0: "line_at ls 0 = (case ls of [] \<Rightarrow> [] | l # _ \<Rightarrow> l)"
  by (cases ls) (simp_all add: line_at_def)

lemma row_cells_mem:
  "x \<in> set (row_cells p l0 l1) \<longleftrightarrow> (\<exists>c. x = (p + c, char_at l0 c, char_at l1 c) \<and> (char_at l0 c \<noteq> 32 \<or> char_at l1 c \<noteq> 32))"
proof -
  have "c < max (length l0) (length l1)" if "char_at l0 c \<noteq> 32 \<or> char_at l1 c \<noteq> 32" for c
    using that by (auto simp: char_at_def split: if_splits)
  then show ?thesis unfolding row_cells_eq by auto
qed

text \<open>Exactly the positions where one of the texts is not blank are drawn.\<close>

definition cell_in :: "nat \<Rightarrow> u8 list list \<Rightarrow> u8 list list \<Rightarrow> nat \<Rightarrow> nat \<times> u8 \<times> u8 \<Rightarrow> bool" where
  "cell_in row ls ks r x \<longleftrightarrow> x \<in> set (row_cells ((row + r) * 80 + 40) (line_at ls r) (line_at ks r))"

lemma frame_cells_mem: "x \<in> set (frame_cells row ls ks) \<longleftrightarrow> (\<exists>r. cell_in row ls ks r x)"
proof (induction "length ls + length ks" arbitrary: row ls ks rule: less_induct)
  case less
  show ?case
  proof (cases "ls = [] \<and> ks = []")
    case True
    then show ?thesis by (simp add: line_at_def cell_in_def row_cells.simps)
  next
    case False
    then have "length (tl ls) + length (tl ks) < length ls + length ks" by (cases ls; cases ks) simp_all
    then have "x \<in> set (frame_cells (Suc row) (tl ls) (tl ks)) \<longleftrightarrow> (\<exists>r. cell_in row ls ks (Suc r) x)"
      using less [of "tl ls" "tl ks" "Suc row"] by (simp add: line_at_tl cell_in_def)
    moreover have "(\<exists>r. cell_in row ls ks r x) \<longleftrightarrow> cell_in row ls ks 0 x \<or> (\<exists>r. cell_in row ls ks (Suc r) x)" by (metis not0_implies_Suc)
    moreover have "cell_in row ls ks 0 x \<longleftrightarrow> x \<in> set (row_cells (row * 80 + 40) (line_at ls 0) (line_at ks 0))" by (simp add: cell_in_def)
    ultimately show ?thesis using False frame_cells_step [of ls ks row] unfolding line_at_0 by auto
  qed
qed

section \<open>What the screen shows\<close>

lemma draw_other: "i \<notin> (\<lambda>x. 2 * fst x) ` set cs \<Longrightarrow> draw cs v ! i = v ! i"
  by (induction cs arbitrary: v) (auto simp: draw_def)

lemma length_draw [simp]: "length (draw cs v) = length v"
  by (induction cs arbitrary: v) (auto simp: draw_def)

lemma draw_nth:
  "distinct (map fst cs) \<Longrightarrow> x \<in> set cs \<Longrightarrow> 2 * fst x < length v \<Longrightarrow> draw cs v ! (2 * fst x) = fst (snd x)"
proof (induction cs arbitrary: v)
  case (Cons y ys)
  have e: "draw (y # ys) v = draw ys (v[2 * fst y := fst (snd y)])" by (simp add: draw_def)
  show ?case
  proof (cases "x = y")
    case True
    then have "2 * fst x \<notin> (*) 2 ` fst ` set ys" using Cons.prems(1) by (force simp: image_iff)
    then have "2 * fst x \<notin> (\<lambda>x. 2 * fst x) ` set ys" by (simp add: image_image)
    then show ?thesis unfolding e using draw_other True Cons.prems(3) by simp
  next
    case False
    then show ?thesis unfolding e using Cons by simp
  qed
qed simp

lemma frame_blink_view [simp]:
  "good_lengths (frame_blink x)" "in_phase 0 (frame_blink x)" "shown (frame_blink x) = fst (snd x)"
  "lit_at n (frame_blink x) \<longleftrightarrow> n mod 30 < 15" "on_char (frame_blink x) = fst (snd x)" "off_char (frame_blink x) = snd (snd x)"
  "location (frame_blink x) = of_nat (fst x)"
  by (simp_all add: good_lengths_def in_phase_def lit_at_def period_of_def shown_def frame_blink_def)

lemma cell_of_frame_blink: "fst x < NUM_BLINKS \<Longrightarrow> cell_of (frame_blink x) = 2 * fst x"
  by (simp add: unat_of_nat)

lemma frames_displayed:
  assumes "distinct (map fst cs)" "cells_ok cs" "2 * NUM_BLINKS \<le> length v"
  shows "displays (\<lambda>_. 0) (rev (map frame_blink cs)) (draw cs v)"
proof -
  have "inj_on (of_nat :: nat \<Rightarrow> u16) (set (map fst cs))"
  proof (rule inj_onI)
    fix m n
    assume a: "m \<in> set (map fst cs)" "n \<in> set (map fst cs)" "(of_nat m :: u16) = of_nat n"
    then have "m < 2000" "n < 2000" using assms(2) by (auto simp: cells_ok_def)
    then have "unat (of_nat m :: u16) = m" "unat (of_nat n :: u16) = n" by (simp_all add: unat_of_nat)
    then show "m = n" using a(3) by metis
  qed
  then have "distinct (map location (map frame_blink cs))" using assms(1) by (simp add: comp_def distinct_map inj_on_def)
  moreover have "draw cs v ! cell_of (frame_blink x) = shown (frame_blink x)" if "x \<in> set cs" for x
  proof -
    have "fst x < NUM_BLINKS" using assms(2) that by (simp add: cells_ok_def)
    then show ?thesis using draw_nth [OF assms(1) that, of v] assms(3) cell_of_frame_blink [of x] by simp
  qed
  ultimately show ?thesis by (auto simp: displays_def rev_map [symmetric])
qed

text \<open>The frames as they are after \<open>n\<close> ticks: the first for 15 ticks, then the second for 15, and so on.\<close>

definition frames_shown :: "u8 list \<Rightarrow> u8 list \<Rightarrow> nat \<Rightarrow> u8 list \<Rightarrow> u8 list \<Rightarrow> bool" where
  "frames_shown t0 t1 n v v' \<longleftrightarrow> (\<forall>row < 24. \<forall>col < 80. v' ! (2 * (row * 80 + col + 40)) =
     (if frame_char t0 row col = 32 \<and> frame_char t1 row col = 32 then v ! (2 * (row * 80 + col + 40))
      else frame_char (if n mod 30 < 15 then t0 else t1) row col))"

lemma fits_cells:
  assumes "fits t0" "fits t1"
  shows "distinct (map fst (frame_cells 0 (text_lines t0) (text_lines t1)))" "cells_ok (frame_cells 0 (text_lines t0) (text_lines t1))"
    "length (frame_cells 0 (text_lines t0) (text_lines t1)) < NUM_BLINKS"
proof -
  let ?cs = "frame_cells 0 (text_lines t0) (text_lines t1)"
  have l: "max (length (text_lines t0)) (length (text_lines t1)) \<le> 24" "\<forall>l \<in> set (text_lines t0) \<union> set (text_lines t1). length l \<le> 80"
    using assms by (auto simp: fits_def)
  note b = frame_cells_bounds [OF l(2), of 0]
  show d: "distinct (map fst ?cs)" using b by (simp add: strict_sorted_iff)
  have u: "40 \<le> fst x \<and> fst x < 1960" if "x \<in> set ?cs" for x
  proof -
    have "40 \<le> fst x" "fst x < max (length (text_lines t0)) (length (text_lines t1)) * 80 + 40" using b that by auto
    then show ?thesis using l(1) by linarith
  qed
  then show "cells_ok ?cs" by (fastforce simp: cells_ok_def)
  have "set (map fst ?cs) \<subseteq> {..<1960}" using u by fastforce
  then have "length (map fst ?cs) \<le> card {..<1960 :: nat}" using d by (metis card_mono distinct_card finite_lessThan)
  then show "length ?cs < NUM_BLINKS" by simp
qed

lemma row_col_unique:
  fixes r c row col :: nat
  assumes "r * 80 + c = row * 80 + col" "c < 80" "col < 80"
  shows "r = row \<and> c = col"
proof -
  have "(r * 80 + c) div 80 = r" "(r * 80 + c) mod 80 = c" "(row * 80 + col) div 80 = row" "(row * 80 + col) mod 80 = col"
    using assms(2,3) by simp_all
  then show ?thesis using assms(1) by metis
qed

lemma cell_position:
  assumes "cell_in 0 ls ks r x" "col < 80" "row * 80 + col + 40 = fst x" "\<forall>l \<in> set ls \<union> set ks. length l \<le> 80"
  shows "x = (row * 80 + col + 40, char_at (line_at ls row) col, char_at (line_at ks row) col)"
proof -
  obtain c where c: "x = (r * 80 + 40 + c, char_at (line_at ls r) c, char_at (line_at ks r) c)"
    "char_at (line_at ls r) c \<noteq> 32 \<or> char_at (line_at ks r) c \<noteq> 32"
    using assms(1) by (auto simp: cell_in_def row_cells_mem)
  then have "c < length (line_at ls r) \<or> c < length (line_at ks r)" by (auto simp: char_at_def split: if_splits)
  moreover have "length (line_at ls r) \<le> 80" "length (line_at ks r) \<le> 80" using assms(4) by (simp_all add: line_at_def)
  ultimately have "c < 80" by linarith
  moreover have "r * 80 + c = row * 80 + col" using assms(3) c(1) by simp
  ultimately have "r = row \<and> c = col" using assms(2) row_col_unique by blast
  then show ?thesis using c(1) by simp
qed

lemma frames_shown_after:
  assumes "fits t0" "fits t1" "cs = frame_cells 0 (text_lines t0) (text_lines t1)"
    and "showing base (rev (map frame_blink cs)) (draw cs v) b" "2 * NUM_BLINKS \<le> length v"
  shows "\<exists>b'. tasklets base n b = Some b' \<and> frames_shown t0 t1 n v (vmem_page b')"
proof -
  note c = fits_cells [OF assms(1,2), folded assms(3)]
  obtain "is" where i: "blinker_inv base is b" "blinks_of is b = rev (map frame_blink cs)" "vmem_page b = draw cs v"
    using assms(4) by (auto simp: showing_def)
  have "displays (\<lambda>_. 0) (blinks_of is b) (vmem_page b)" unfolding i(2,3) by (rule frames_displayed [OF c(1,2) assms(5)])
  from tasklets_display [OF i(1) this] obtain b' where b': "tasklets base n b = Some b'" "blinks_of is b' = map (ticked ^^ n) (blinks_of is b)"
    "displays (\<lambda>loc. 0 + n) (blinks_of is b') (vmem_page b')" "\<forall>i. i \<notin> cell_of ` set (blinks_of is b) \<longrightarrow> vmem_page b' ! i = vmem_page b ! i"
    by blast
  have l: "\<forall>l \<in> set (text_lines t0) \<union> set (text_lines t1). length l \<le> 80" using assms(1,2) by (auto simp: fits_def)
  have on: "vmem_page b' ! (2 * fst x) = (if n mod 30 < 15 then fst (snd x) else snd (snd x))" if x: "x \<in> set cs" for x
  proof -
    have "frame_blink x \<in> set (blinks_of is b)" using x by (simp add: i(2))
    from displays_shows [OF b'(3) [unfolded b'(2)] this] show ?thesis
      using cell_of_frame_blink [of x] c(2) x by (simp add: cells_ok_def)
  qed
  have off: "vmem_page b' ! (2 * p) = v ! (2 * p)" if "p \<notin> fst ` set cs" for p
  proof -
    have "cell_of ` set (blinks_of is b) = (\<lambda>x. cell_of (frame_blink x)) ` set cs" by (simp add: i(2) image_image)
    also have "\<dots> = (\<lambda>x. 2 * fst x) ` set cs"
      using c(2) cell_of_frame_blink by (intro image_cong) (auto simp: cells_ok_def)
    finally have "cell_of ` set (blinks_of is b) = (\<lambda>x. 2 * fst x) ` set cs" .
    moreover have "2 * p \<notin> (\<lambda>x. 2 * fst x) ` set cs" using that by (auto simp: image_iff)
    ultimately show ?thesis using b'(4) draw_other [of "2 * p" cs v] i(3) by metis
  qed
  have "frames_shown t0 t1 n v (vmem_page b')"
    unfolding frames_shown_def
  proof (intro allI impI)
    fix row col :: nat
    assume "row < 24" and col: "col < 80"
    let ?p = "row * 80 + col + 40" and ?c0 = "frame_char t0 row col" and ?c1 = "frame_char t1 row col"
    show "vmem_page b' ! (2 * ?p) = (if ?c0 = 32 \<and> ?c1 = 32 then v ! (2 * ?p) else frame_char (if n mod 30 < 15 then t0 else t1) row col)"
    proof (cases "?c0 = 32 \<and> ?c1 = 32")
      case True
      have "?p \<notin> fst ` set cs"
      proof
        assume "?p \<in> fst ` set cs"
        then obtain x r where x: "cell_in 0 (text_lines t0) (text_lines t1) r x" "?p = fst x" using assms(3) by (auto simp: frame_cells_mem)
        have "x = (?p, ?c0, ?c1)" unfolding frame_char_def by (rule cell_position [OF x(1) col x(2) l])
        moreover have "fst (snd x) \<noteq> 32 \<or> snd (snd x) \<noteq> 32" using x(1) by (auto simp: cell_in_def row_cells_mem)
        ultimately show False using True by (metis fst_conv snd_conv)
      qed
      then show ?thesis unfolding if_P [OF True] by (rule off)
    next
      case False
      then have "cell_in 0 (text_lines t0) (text_lines t1) row (?p, ?c0, ?c1)"
        unfolding cell_in_def row_cells_mem frame_char_def by (intro exI [of _ col]) simp
      then have "(?p, ?c0, ?c1) \<in> set cs" using assms(3) by (auto simp: frame_cells_mem)
      then show ?thesis using on [of "(?p, ?c0, ?c1)"] False by auto
    qed
  qed
  then show ?thesis using b'(1) by blast
qed

section \<open>The files of the kernel\<close>

text \<open>Nothing has changed but descriptors \<open>K\<close> of the running process.\<close>

definition only_fds :: "nat set \<Rightarrow> kstate \<Rightarrow> kstate \<Rightarrow> bool" where
  "only_fds K s0 s \<longleftrightarrow> cur_pcb s = cur_pcb s0 \<and> open_rtcs s = open_rtcs s0 \<and>
     (\<forall>q j. q \<noteq> cur_pcb s0 \<or> j \<notin> K \<longrightarrow> get_file s (q, j) = get_file s0 (q, j)) \<and>
     (\<forall>q. length (file_array (pcbs s q)) = length (file_array (pcbs s0 q)))"

lemma only_fds_refl [simp]: "only_fds K s s"
  by (simp add: only_fds_def)

lemma only_fds_upd:
  assumes "only_fds K s0 s" "j \<in> K"
  shows "only_fds K s0 (upd_file (cur_pcb s, j) g s)"
proof -
  have "get_file (upd_file (cur_pcb s, j) g s) (q, i) = get_file s (q, i)" if "q \<noteq> cur_pcb s0 \<or> i \<notin> K" for q i
    using that assms by (intro get_upd_other) (auto simp: only_fds_def)
  then show ?thesis using assms(1) by (simp add: only_fds_def)
qed

lemma only_fds_trans: "only_fds K s t \<Longrightarrow> only_fds K t u \<Longrightarrow> only_fds K s u"
  by (simp add: only_fds_def)

definition frame_files :: "fs \<Rightarrow> (bool \<Rightarrow> nat) \<Rightarrow> kstate \<Rightarrow> kstate \<Rightarrow> bool" where
  "frame_files f k s0 s \<longleftrightarrow> only_fds (range k) s0 s \<and> k True \<noteq> k False \<and> (\<forall>i. k i < length (file_array (pcbs s0 (cur_pcb s0)))) \<and>
     (\<forall>i. fd_present s (int (k i)) \<longrightarrow> open_reg f s (cur_pcb s, k i) \<and> file_op (get_file s (cur_pcb s, k i)) = Some file_fops)"

definition frame_src :: "fs \<Rightarrow> (bool \<Rightarrow> nat) \<Rightarrow> bool \<Rightarrow> kstate \<Rightarrow> u8 list option" where
  "frame_src f k i s = (if fd_present s (int (k i)) then Some (rest_of_file f s (cur_pcb s, k i)) else None)"

lemma open_reg_other:
  assumes "j \<noteq> j'"
  shows "open_reg f (upd_file (p, j) g s) (q, j') = open_reg f s (q, j')" "rest_of_file f (upd_file (p, j) g s) (q, j') = rest_of_file f s (q, j')"
proof -
  have g: "get_file (upd_file (p, j) g s) (q, j') = get_file s (q, j')" using assms by simp
  show "open_reg f (upd_file (p, j) g s) (q, j') = open_reg f s (q, j')" "rest_of_file f (upd_file (p, j) g s) (q, j') = rest_of_file f s (q, j')"
    unfolding open_reg_def rest_of_file_def g by simp_all
qed

lemma frame_files_upd:
  assumes "frame_files f k s0 s" "fd_present (upd_file (cur_pcb s, k i) g s) (int (k i)) \<longrightarrow> open_reg f (upd_file (cur_pcb s, k i) g s) (cur_pcb s, k i) \<and>
      file_op (get_file (upd_file (cur_pcb s, k i) g s) (cur_pcb s, k i)) = Some file_fops"
  shows "frame_files f k s0 (upd_file (cur_pcb s, k i) g s)" "frame_src f k (\<not> i) (upd_file (cur_pcb s, k i) g s) = frame_src f k (\<not> i) s"
proof -
  have n: "k i \<noteq> k (\<not> i)" using assms(1) by (cases i) (auto simp: frame_files_def)
  have o: "fd_present (upd_file (cur_pcb s, k i) g s) (int (k (\<not> i))) = fd_present s (int (k (\<not> i)))" using n by (intro fd_present_upd_other) simp
  have e: "get_file (upd_file (cur_pcb s, k i) g s) (cur_pcb s, k (\<not> i)) = get_file s (cur_pcb s, k (\<not> i))" using n by simp
  show "frame_src f k (\<not> i) (upd_file (cur_pcb s, k i) g s) = frame_src f k (\<not> i) s"
    using o open_reg_other(2) [OF n] by (simp add: frame_src_def)
  have "open_reg f (upd_file (cur_pcb s, k i) g s) (cur_pcb s, k j) \<and> file_op (get_file (upd_file (cur_pcb s, k i) g s) (cur_pcb s, k j)) = Some file_fops"
    if "fd_present (upd_file (cur_pcb s, k i) g s) (int (k j))" for j
  proof (cases "j = i")
    case False
    then have j: "j = (\<not> i)" by auto
    show ?thesis using that assms(1) o e open_reg_other(1) [OF n] unfolding j by (simp add: frame_files_def)
  qed (use that assms(2) in simp)
  then show "frame_files f k s0 (upd_file (cur_pcb s, k i) g s)"
    using assms(1) only_fds_upd [of "range k" s0 s "k i" g] by (simp add: frame_files_def)
qed

interpretation kernel_frames: byte_pair "kernel_os sched f addr ex" "frame_files f k s0" "frame_src f k" "\<lambda>i. int (k i)" for sched f addr ex k s0
proof
  fix s i xs c
  assume a: "frame_files f k s0 s" "frame_src f k i s = Some xs"
  then have p: "fd_present s (int (k i))" "rest_of_file f s (cur_pcb s, k i) = xs" by (simp_all add: frame_src_def split: if_splits)
  then have o: "open_reg f s (cur_pcb s, k i)" "file_op (get_file s (cur_pcb s, k i)) = Some file_fops" using a(1) by (simp_all add: frame_files_def)
  define n where "n = min (length xs) 1"
  obtain g where g: "sys_read sched f s (int (k i)) (Some [c]) (int 1) = Some (upd_file (cur_pcb s, k i) g s, Some (take n xs @ drop n [c]), int n)"
    "fd_present (upd_file (cur_pcb s, k i) g s) (int (k i))" "open_reg f (upd_file (cur_pcb s, k i) g s) (cur_pcb s, k i)"
    "file_op (get_file (upd_file (cur_pcb s, k i) g s) (cur_pcb s, k i)) = Some file_fops"
    "rest_of_file f (upd_file (cur_pcb s, k i) g s) (cur_pcb s, k i) = drop n xs"
    using sys_read_open [OF p(1) o, of 1 "[c]" n sched] p(2) by (auto simp: n_def)
  have e: "take n xs @ drop n [c] = (case xs of [] \<Rightarrow> [c] | x # _ \<Rightarrow> [x])" "int n = (if xs = [] then 0 else 1)" "drop n xs = tl xs"
    by (cases xs; simp add: n_def)+
  have "frame_src f k i (upd_file (cur_pcb s, k i) g s) = Some (tl xs)" using g(2,5) e(3) by (simp add: frame_src_def)
  then show "\<exists>s'. sc_read (kernel_os sched f addr ex) s (int (k i)) [c] 1 =
      Some (s', (case xs of [] \<Rightarrow> [c] | x # _ \<Rightarrow> [x]), if xs = [] then 0 else 1) \<and> frame_files f k s0 s' \<and>
      frame_src f k i s' = Some (tl xs) \<and> frame_src f k (\<not> i) s' = frame_src f k (\<not> i) s"
    using g e(1,2) frame_files_upd [OF a(1), of i g] by (auto simp: kernel_os_def)
next
  fix s i
  assume a: "frame_files f k s0 s"
  show "\<exists>s' r. sc_close (kernel_os sched f addr ex) s (int (k i)) = Some (s', r) \<and> frame_files f k s0 s' \<and>
      frame_src f k i s' = None \<and> frame_src f k (\<not> i) s' = frame_src f k (\<not> i) s"
  proof (cases "fd_present s (int (k i))")
    case False
    then show ?thesis using a fd_rejected [OF False] by (auto simp: kernel_os_def frame_src_def)
  next
    case True
    let ?s = "upd_file (cur_pcb s, k i) (\<lambda>fl. fl\<lparr>file_flags := 0\<rparr>) s"
    have "file_op (get_file s (cur_pcb s, k i)) = Some file_fops" "k i < length (file_array (pcbs s (cur_pcb s)))"
      using a True by (auto simp: frame_files_def only_fds_def)
    then have "sys_close s (int (k i)) = Some (?s, 0)" "\<not> fd_present ?s (int (k i))"
      using sys_close_reg [OF True] by (simp_all add: fd_present_def fd_used_def)
    then show ?thesis using frame_files_upd [OF a, of i "\<lambda>fl. fl\<lparr>file_flags := 0\<rparr>"] by (auto simp: kernel_os_def frame_src_def)
  qed
qed

lemma free_fd_opened:
  assumes "can_open s" "can_open (opened_as ops s inode)"
  shows "free_fd (opened_as ops s inode) \<noteq> free_fd s" "\<not> fd_used (pcbs s (cur_pcb s)) (free_fd (opened_as ops s inode))"
proof -
  let ?s = "opened_as ops s inode"
  note p = opened_present [OF assms(1), of ops inode]
  have u: "\<not> fd_used (pcbs ?s (cur_pcb s)) (free_fd ?s)" using free_fd_less(2) [OF assms(2)] p(2) by simp
  then show n: "free_fd ?s \<noteq> free_fd s" using p(1,2) by (auto simp: fd_present_def)
  have "get_file ?s (cur_pcb s, j) = get_file s (cur_pcb s, j)" if "j \<noteq> free_fd s" for j
    unfolding opened_as_def using that by (intro get_upd_file_other) simp
  then show "\<not> fd_used (pcbs s (cur_pcb s)) (free_fd ?s)" using u n unfolding fd_used_flags by metis
qed

lemma add_frames_kernel:
  assumes r: "resolves f f0 FILE_TYPE_REG i0" "wf_inode f i0" "resolves f f1 FILE_TYPE_REG i1" "wf_inode f i1"
    and o: "can_open s" "can_open (opened s i0)"
    and t: "file_content f (inode_at f i0) = t0" "file_content f (inode_at f i1) = t1" "fits t0" "fits t1" and b: "showing base [] v b"
    and cs: "cs = frame_cells 0 (text_lines t0) (text_lines t1)"
  shows "\<exists>s' b'. add_frames (kernel_os sched f addr ex) base f0 f1 bs s b = Some (s', b', None) \<and>
    showing base (rev (map frame_blink cs)) (draw cs v) b' \<and> only_fds {free_fd s, free_fd (opened s i0)} s s'"
proof -
  let ?os = "kernel_os sched f addr ex" and ?s1 = "opened s i0"
  define s2 where "s2 = opened ?s1 i1"
  define k where "k = (\<lambda>i. if i then free_fd ?s1 else free_fd s)"
  note n = free_fd_opened [OF o] and f1 = opened_reg [OF o(1) r(2)] opened_file_op [OF o(1), of i0]
    and f2 = opened_reg [OF o(2) r(4)] opened_file_op [OF o(2), of i1]
  have c: "cur_pcb ?s1 = cur_pcb s" "cur_pcb s2 = cur_pcb s" using f1(4) f2(4) by (simp_all add: s2_def)
  have s2: "s2 = upd_file (cur_pcb s, k True) (\<lambda>fl. fl\<lparr>file_flags := (file_flags fl OR FILE_PRESENT) OR FILE_OPEN, inode_ptr := i1, file_pos := 0,
      file_op := Some file_fops\<rparr>) ?s1" using c(1) by (simp add: s2_def k_def opened_as_def [of file_fops ?s1])
  have p0: "fd_present s2 (int (k False))" "get_file s2 (cur_pcb s, k False) = get_file ?s1 (cur_pcb s, k False)"
    "open_reg f s2 (cur_pcb s, k False) = open_reg f ?s1 (cur_pcb s, k False)" "rest_of_file f s2 (cur_pcb s, k False) = rest_of_file f ?s1 (cur_pcb s, k False)"
    using n(1) f1(3) fd_present_upd_other [of "k True" "int (k False)"] open_reg_other [of "k True" "k False"] by (simp_all add: s2 k_def)
  have p1: "fd_present s2 (int (k True))" "open_reg f s2 (cur_pcb s, k True)" "rest_of_file f s2 (cur_pcb s, k True) = t1"
    "file_op (get_file s2 (cur_pcb s, k True)) = Some file_fops"
    using f2 c(1) t(2) by (simp_all add: s2_def k_def)
  have l: "k i < length (file_array (pcbs s2 (cur_pcb s)))" for i
    using free_fd_less(1) [OF o(1)] free_fd_less(1) [OF o(2)] f2(5) c(1) by (simp add: k_def s2_def)
  have "open_reg f s2 (cur_pcb s2, k i) \<and> file_op (get_file s2 (cur_pcb s2, k i)) = Some file_fops" for i
    using p0(2,3) p1(2,4) f1(1,6) c(2) by (cases i) (simp_all add: k_def)
  then have ff: "frame_files f k s2 s2" using n(1) l c(2) by (simp add: frame_files_def) (simp add: k_def)
  have src: "frame_src f k False s2 = Some t0" "frame_src f k True s2 = Some t1"
    using p0 p1 f1(2) t(1) c(2) by (simp_all add: frame_src_def k_def)
  then have bt: "kernel_frames.between_rows f k False (48, False) (text_lines t0) s2" "kernel_frames.between_rows f k True (48, False) (text_lines t1) s2"
    by (simp_all add: kernel_frames.between_rows_def)
  note ok = fits_cells [OF t(3,4), folded cs]
  obtain s' b' where s': "frame_rows ?os base (int (k False)) (int (k True)) 0 (48, False) (48, False) (bs\<lparr>on_length := 15, off_length := 15\<rparr>) s2 b = Some (s', b')"
    "frame_files f k s2 s'" "showing base (rev (map frame_blink cs)) (draw cs v) b'"
    using kernel_frames.frame_rows_adds [OF ff bt b, of "bs\<lparr>on_length := 15, off_length := 15\<rparr>" 0 sched addr ex] ok cs by auto
  have "sc_open ?os s f0 = Some (?s1, int (k False))" "sc_open ?os ?s1 f1 = Some (s2, int (k True))"
    using sys_open_reg [OF r(1) o(1)] sys_open_reg [OF r(3) o(2)] by (simp_all add: kernel_os_def k_def s2_def)
  then have "add_frames ?os base f0 f1 bs s b = Some (s', b', None)" using s'(1) by (simp add: add_frames_def Let_def)
  moreover have "only_fds {free_fd s, free_fd ?s1} s s2"
    using only_fds_upd [OF only_fds_upd [OF only_fds_refl], of "free_fd s" "{free_fd s, free_fd ?s1}" "free_fd ?s1"] c(1)
    by (simp add: s2_def opened_as_def)
  moreover have "range k = {free_fd s, free_fd ?s1}" by (auto simp: k_def UNIV_bool)
  ultimately show ?thesis using s'(2,3) only_fds_trans by (auto simp: frame_files_def)
qed


section \<open>The whole program\<close>

context ticker
begin

lemma fish_wait_ticks:
  assumes "inv s" "length g = 4" "blinker_inv base is b"
  shows "\<exists>s' g' b'. fish_wait os base clock n g s b = Some (s', g', b') \<and> inv s' \<and> out s' = out s \<and> length g' = 4 \<and>
    blinker_inv base is b' \<and> tasklets base n b = Some b'"
  using assms
proof (induction n arbitrary: s g b)
  case (Suc n)
  obtain s1 g1 r where "sc_read os s clock g 4 = Some (s1, g1, r)" "length g1 = 4" "inv s1" "out s1 = out s" using tick [OF Suc.prems(1,2)] by blast
  moreover obtain b1 where "mp1_rtc_tasklet base b = Some b1" "blinker_inv base is b1" using mp1_rtc_tasklet_eq [OF Suc.prems(3)] by blast
  ultimately show ?case using Suc.IH [of s1 g1 b1] by auto
qed auto

end

interpretation fish_clock: ticker "kernel_os sched f addr ex" "clock_at sched rs k" cur_pcb "int k" for sched f addr ex rs k
proof
  fix s and buf :: "u8 list"
  assume "clock_at sched rs k s" "length buf = 4"
  from clock_read [OF this, of f] obtain s' buf' where
    "sys_read sched f s (int k) (Some buf) 4 = Some (s', Some buf', 0)" "length buf' = 4" "clock_at sched rs k s'" "undisturbed rs s s'" by blast
  then show "\<exists>s' buf' r. sc_read (kernel_os sched f addr ex) s (int k) buf 4 = Some (s', buf', r) \<and> length buf' = 4 \<and> clock_at sched rs k s' \<and>
      cur_pcb s' = cur_pcb s"
    by (auto simp: kernel_os_def undisturbed_def ticks_only_def)
qed

text \<open>A process that can still open \<open>n\<close> files.\<close>

definition spare :: "nat \<Rightarrow> kstate \<Rightarrow> bool" where
  "spare n s \<longleftrightarrow> cur_pcb s \<noteq> 0 \<and> length (file_array (pcbs s (cur_pcb s))) = MAX_FILES \<and>
     n \<le> card {k. k < MAX_FILES \<and> \<not> fd_used (pcbs s (cur_pcb s)) k}"

lemma spare_can_open: "spare (Suc n) s \<Longrightarrow> can_open s"
proof -
  assume a: "spare (Suc n) s"
  then have "{k. k < MAX_FILES \<and> \<not> fd_used (pcbs s (cur_pcb s)) k} \<noteq> {}" by (auto simp: spare_def simp del: Collect_empty_eq)
  then show ?thesis using a by (auto simp: spare_def can_open_def)
qed

lemma spare_less:
  assumes "spare (Suc n) s" "cur_pcb s' = cur_pcb s" "length (file_array (pcbs s' (cur_pcb s))) = length (file_array (pcbs s (cur_pcb s)))"
    and "\<And>j. j \<noteq> k \<Longrightarrow> get_file s' (cur_pcb s, j) = get_file s (cur_pcb s, j)"
  shows "spare n s'"
proof -
  let ?U = "\<lambda>s'. {j. j < MAX_FILES \<and> \<not> fd_used (pcbs s' (cur_pcb s)) j}"
  have "?U s - {k} \<subseteq> ?U s'" using assms(4) by (auto simp: fd_used_flags)
  then have "card (?U s - {k}) \<le> card (?U s')" by (intro card_mono) simp_all
  moreover have "card (?U s) - 1 \<le> card (?U s - {k})" by (simp add: card_Diff_singleton_if)
  ultimately show ?thesis using assms(1-3) by (simp add: spare_def) linarith
qed

lemma spare_opened: "spare (Suc n) s \<Longrightarrow> spare n (opened_as ops s i)"
  unfolding opened_as_def by (rule spare_less [where k = "free_fd s"]) (auto simp: get_upd_file_other)

lemma vidmap_keeps_files:
  assumes "cur_pcb s \<noteq> 0" "USER_MEM \<le> a" "a < USER_MEM + OFFSET_4MB"
  shows "\<exists>s'. sys_vidmap addr s a = Some (s', Some (a, USER_VID), 0) \<and> only_fds {} s s'"
  using assms by (simp add: sys_vidmap_def get_proc_pcb_def upd_pcb_def set_pdbr_def Let_def not_less not_le only_fds_def get_file_def)

lemma rtc_list_only_fds:
  assumes "only_fds K s s'" "rtc_list s rs" "\<forall>j \<in> K. \<not> fd_used (pcbs s (cur_pcb s)) j"
  shows "rtc_list s' rs" "q \<in> set rs \<Longrightarrow> get_file s' q = get_file s q"
proof -
  have g: "get_file s' q = get_file s q" if "q \<in> set rs" for q
  proof -
    obtain p j where q: "q = (p, j)" by fastforce
    have "bit (file_flags (get_file s (p, j))) 0" using assms(2) that unfolding q by (simp add: rtc_list_def)
    then have "p \<noteq> cur_pcb s \<or> j \<notin> K" using assms(3) by (auto simp: fd_used_flags)
    then show ?thesis using assms(1) unfolding q only_fds_def by blast
  qed
  then show "q \<in> set rs \<Longrightarrow> get_file s' q = get_file s q" .
  have "rtc_chain s' p rs = rtc_chain s p rs" for p by (rule rtc_chain_cong) (simp add: g)
  then show "rtc_list s' rs" using assms(1,2) g by (auto simp: rtc_list_def only_fds_def fref_ok_def)
qed

lemma clock_only_fds:
  assumes "only_fds K s s'" "clock_at sched rs k s" "\<forall>j \<in> K. \<not> fd_used (pcbs s (cur_pcb s)) j"
  shows "clock_at sched rs k s'"
proof -
  have l: "rtc_list s rs" "(cur_pcb s, k) \<in> set rs" using assms(2) by (simp_all add: clock_at_def)
  show ?thesis using rtc_list_only_fds [OF assms(1) l(1) assms(3)] l(2) assms(1) by (intro clock_at_keep [OF assms(2)]) (simp_all add: only_fds_def)
qed

lemma clock_close:
  assumes "clock_at sched (r # rs) k s" "r = (cur_pcb s, k)"
  shows "\<exists>s'. sys_close s (int k) = Some (s', 0) \<and> rtc_list s' rs"
proof -
  have c: "rtc_list s (r # rs)" "file_op (get_file s r) = Some rtc_fops" "k < MAX_FILES" using assms by (simp_all add: clock_at_def)
  then obtain t where "rtc_close s (Some (cur_pcb s)) (int k) = Some (t, 0)" "rtc_list t rs"
    using rtc_close_list [OF c(1), of "int k" "cur_pcb s"] assms(2) by auto
  then show ?thesis using fd_presentD [OF clock_at_present [OF assms(1)]] c(2) assms(2) by (simp add: sys_close_def fops_close_def)
qed

lemma fish_show_ends:
  assumes c: "clock_at sched (r # rs) k s" "r = (cur_pcb s, k)" "length g = 4" and b: "blinker_inv base is b" "length is < NUM_BLINKS"
  shows "\<exists>s' b'. fish_show (kernel_os sched f addr ex) base (int k) bs g s b = Some (s', b', 0) \<and> rtc_list s' rs"
proof -
  let ?os = "kernel_os sched f addr ex"
  let ?bs = "bs\<lparr>on_char := 73, off_char := 77, on_length := 7, off_length := 6, location := 6 * 80 + 60\<rparr>"
  note wait = fish_clock.fish_wait_ticks [where sched = sched and f = f and addr = addr and ex = ex and rs = "r # rs" and k = k]
  obtain s1 where s1: "sc_write ?os s (int k) (bytes32 32) 4 = Some (s1, 4)" "clock_at sched (r # rs) k s1" "cur_pcb s1 = cur_pcb s"
    using clock_write [OF c(1)] by (auto simp: kernel_os_def undisturbed_def ticks_only_def)
  obtain s2 g2 b2 where w2: "fish_wait ?os base (int k) WAIT g s1 b = Some (s2, g2, b2)" "clock_at sched (r # rs) k s2" "cur_pcb s2 = cur_pcb s1"
    "length g2 = 4" "blinker_inv base is b2"
    using wait [OF s1(2) c(3) b(1), of WAIT] by blast
  obtain i b3 where a3: "mp1_ioctl_add base ?bs b2 = Some (b3, 0)" "blinker_inv base (i # is) b3"
    using mp1_ioctl_add_eq [OF w2(5), of ?bs] b(2) by auto
  obtain s4 g4 b4 where w4: "fish_wait ?os base (int k) WAIT g2 s2 b3 = Some (s4, g4, b4)" "clock_at sched (r # rs) k s4" "cur_pcb s4 = cur_pcb s2"
    "length g4 = 4" "blinker_inv base (i # is) b4"
    using wait [OF w2(2,4) a3(2), of WAIT] by blast
  obtain b5 z where a5: "mp1_ioctl_sync base (push_bit 16 40 OR (6 * 80 + 60)) b4 = Some (b5, z)" "blinker_inv base (i # is) b5"
    using mp1_ioctl_sync_total [OF w4(5)] by blast
  obtain s6 g6 b6 where w6: "fish_wait ?os base (int k) WAIT g4 s4 b5 = Some (s6, g6, b6)" "clock_at sched (r # rs) k s6" "cur_pcb s6 = cur_pcb s4"
    "length g6 = 4" "blinker_inv base (i # is) b6"
    using wait [OF w4(2,4) a5(2), of WAIT] by blast
  obtain b7 js y where a7: "mp1_ioctl_remove base (of_nat WAIT) b6 = Some (b7, y)" "blinker_inv base js b7"
    using mp1_ioctl_remove_eq [OF w6(5), of "of_nat WAIT"] by auto
  obtain s8 g8 b8 where w8: "fish_wait ?os base (int k) (80 * 25) g6 s6 b7 = Some (s8, g8, b8)" "clock_at sched (r # rs) k s8" "cur_pcb s8 = cur_pcb s6"
    using wait [OF w6(2,4) a7(2), of "80 * 25"] by blast
  have "r = (cur_pcb s8, k)" using c(2) s1(3) w2(3) w4(3) w6(3) w8(3) by simp
  from clock_close [OF w8(2) this] obtain s9 where s9: "sc_close ?os s8 (int k) = Some (s9, 0)" "rtc_list s9 rs" by (auto simp: kernel_os_def)
  have "fish_show ?os base (int k) bs g s b = Some (s9, b8, 0)"
    using s1(1) w2(1) a3(1) w4(1) a5(1) w6(1) a7(1) w8(1) s9(1) by (simp add: fish_show_def Let_def mp1_ioctl_def)
  then show ?thesis using s9(2) by blast
qed

text \<open>
  C27: the program \<open>fish\<close> ends on the kernel: with its two frames and the clock in the directory and three free descriptors it
  returns 0, every walk along its list of blinks and every wait for the clock having come to an end, and the list of
  open clocks is as it was before.\<close>

theorem fish_ends:
  assumes "resolves f (lit ''rtc'') FILE_TYPE_RTC ir"
    and "resolves f (lit ''frame0.txt'') FILE_TYPE_REG i0" "wf_inode f i0" "fits (file_content f (inode_at f i0))"
    and "resolves f (lit ''frame1.txt'') FILE_TYPE_REG i1" "wf_inode f i1" "fits (file_content f (inode_at f i1))"
    and "spare 3 s" "rtc_list s rs" "ticking sched ((cur_pcb s, free_fd s) # rs)" "USER_MEM \<le> vaddr" "vaddr < USER_MEM + OFFSET_4MB"
    and "blinks_at base" "length (blink_array b) = NUM_BLINKS" "mp1_list_head b = 0" "2 * NUM_BLINKS \<le> length (vmem_page b)" "length g = 4"
  shows "\<exists>s' b'. fish_main (kernel_os sched f addr ex) base vaddr USER_VID bs0 bs g s b = Some (s', b', 0) \<and> rtc_list s' rs"
proof -
  let ?os = "kernel_os sched f addr ex" and ?b = "b\<lparr>blink_array := replicate NUM_BLINKS zero_blink\<rparr>" and ?r = "(cur_pcb s, free_fd s)"
  have c: "cur_pcb s \<noteq> 0" using assms(8) by (simp add: spare_def)
  obtain s1 where s1: "sys_vidmap addr s vaddr = Some (s1, Some (vaddr, USER_VID), 0)" "only_fds {} s s1"
    using vidmap_keeps_files [OF c assms(11,12)] by blast
  then have k1: "cur_pcb s1 = cur_pcb s" "\<And>q. get_file s1 q = get_file s q" "length (file_array (pcbs s1 q)) = length (file_array (pcbs s q))" for q
    by (auto simp: only_fds_def)
  have u1: "fd_used (pcbs s1 q) j = fd_used (pcbs s q) j" for q j by (simp add: fd_used_flags k1(2))
  have sp1: "spare 3 s1" "free_fd s1 = free_fd s" using assms(8) by (simp_all add: spare_def free_fd_def k1(1,3) u1)
  have rl: "rtc_list s1 rs" using rtc_list_only_fds(1) [OF s1(2) assms(9)] by simp
  have co1: "can_open s1" using spare_can_open [of 2 s1] sp1(1) by (simp add: numeral_eq_Suc)
  obtain s2 where s2: "sys_open f s1 (Some (lit ''rtc'')) = Some (s2, int (free_fd s))" "clock_at sched (?r # rs) (free_fd s) s2"
    "s2 = (upd_file ?r (fresh_clock (open_rtcs s1)) s1)\<lparr>open_rtcs := Some ?r\<rparr>" "\<forall>q. q \<noteq> ?r \<longrightarrow> get_file s2 q = get_file s1 q"
    using sys_open_rtc [OF assms(1) co1 rl refl, of sched] assms(10) by (auto simp: k1(1) sp1(2))
  have c2: "cur_pcb s2 = cur_pcb s" using s2(3) k1(1) by simp
  have "spare (Suc (Suc 0)) s2"
    by (rule spare_less [where s = s1 and k = "free_fd s"]) (use sp1(1) s2(3,4) k1(1) in \<open>auto simp: numeral_eq_Suc\<close>)
  then have co: "can_open s2" "can_open (opened s2 i0)" using spare_can_open spare_opened by blast+
  have inv0: "showing base [] (vmem_page b) ?b"
    using no_blinks_inv [OF assms(13)] assms(15,16) by (auto simp: showing_def blinker_inv_def blinks_of_def no_blinks_def)
  define cs where "cs = frame_cells 0 (text_lines (file_content f (inode_at f i0))) (text_lines (file_content f (inode_at f i1)))"
  obtain s3 b3 where s3: "add_frames ?os base (lit ''frame0.txt'') (lit ''frame1.txt'') bs0 s2 ?b = Some (s3, b3, None)"
    "showing base (rev (map frame_blink cs)) (draw cs (vmem_page b)) b3" "only_fds {free_fd s2, free_fd (opened s2 i0)} s2 s3"
    using add_frames_kernel [OF assms(2,3,5,6) co refl refl assms(4,7) inv0 cs_def] by blast
  have "\<forall>j \<in> {free_fd s2, free_fd (opened s2 i0)}. \<not> fd_used (pcbs s2 (cur_pcb s2)) j"
    using free_fd_less(2) [OF co(1)] free_fd_opened(2) [OF co] by simp
  note c3 = clock_only_fds [OF s3(3) s2(2) this]
  obtain "is" where i: "blinker_inv base is b3" "length is < NUM_BLINKS"
    using s3(2) fits_cells(3) [OF assms(4,7)] by (auto simp: showing_def cs_def blinks_of_def dest!: arg_cong [where f = length])
  have "cur_pcb s3 = cur_pcb s" using s3(3) c2 by (simp add: only_fds_def)
  then have "?r = (cur_pcb s3, free_fd s)" by simp
  from fish_show_ends [OF c3 this assms(17) i] obtain s' b' where
    e: "fish_show ?os base (int (free_fd s)) bs g s3 b3 = Some (s', b', 0)" "rtc_list s' rs" by blast
  have "sc_vidmap ?os s vaddr = Some (s1, 0)" "sc_open ?os s1 (lit ''rtc'') = Some (s2, int (free_fd s))"
    using s1(1) s2(1) by (simp_all add: kernel_os_def)
  then have "fish_main ?os base vaddr USER_VID bs0 bs g s b = Some (s', b', 0)"
    using s3(1) e(1) by (simp add: fish_main_def clear_blinks_eq [OF assms(14)] mp1_set_video_mode_def)
  then show ?thesis using e(2) by blast
qed

section \<open>A sample directory\<close>

text \<open>The clock and two frames of one line each.\<close>

definition fish_fs :: fs where
  "fish_fs = \<lparr>img = (bytes32 3 @ bytes32 2 @ replicate 56 0 @ (chars ''rtc'' @ 0 # replicate 28 0 @ bytes32 0 @ bytes32 0 @ replicate 24 0) @
       (chars ''frame0.txt'' @ 0 # replicate 21 0 @ bytes32 2 @ bytes32 0 @ replicate 24 0) @
       (chars ''frame1.txt'' @ 0 # replicate 21 0 @ bytes32 2 @ bytes32 1 @ replicate 24 0) @ 0 # replicate 3839 0) @
       (bytes32 3 @ bytes32 0 @ replicate 4088 0) @ (bytes32 3 @ bytes32 1 @ replicate 4088 0) @
       ([47, 92, 10] @ replicate 4093 0) @ ([92, 47, 10] @ replicate 4093 0), node_head = 4096, data_head = 12288\<rparr>"

lemma fish_fs_drops:
  "img fish_fs = bytes32 3 @ drop 4 (img fish_fs)" "drop 4 (img fish_fs) = bytes32 2 @ drop 8 (img fish_fs)"
  "drop 64 (img fish_fs) = chars ''rtc'' @ 0 # replicate 28 0 @ drop 96 (img fish_fs)" "drop 96 (img fish_fs) = bytes32 0 @ drop 100 (img fish_fs)"
  "drop 100 (img fish_fs) = bytes32 0 @ drop 104 (img fish_fs)"
  "drop 128 (img fish_fs) = chars ''frame0.txt'' @ 0 # replicate 21 0 @ drop 160 (img fish_fs)" "drop 160 (img fish_fs) = bytes32 2 @ drop 164 (img fish_fs)"
  "drop 164 (img fish_fs) = bytes32 0 @ drop 168 (img fish_fs)"
  "drop 192 (img fish_fs) = chars ''frame1.txt'' @ 0 # replicate 21 0 @ drop 224 (img fish_fs)" "drop 224 (img fish_fs) = bytes32 2 @ drop 228 (img fish_fs)"
  "drop 228 (img fish_fs) = bytes32 1 @ drop 232 (img fish_fs)" "drop 256 (img fish_fs) = 0 # replicate 3839 0 @ drop 4096 (img fish_fs)"
  "drop 4096 (img fish_fs) = bytes32 3 @ drop 4100 (img fish_fs)" "drop 4100 (img fish_fs) = bytes32 0 @ drop 4104 (img fish_fs)"
  "drop 8192 (img fish_fs) = bytes32 3 @ drop 8196 (img fish_fs)" "drop 8196 (img fish_fs) = bytes32 1 @ drop 8200 (img fish_fs)"
  "drop 12288 (img fish_fs) = [47, 92, 10] @ replicate 4093 0 @ drop 16384 (img fish_fs)" "drop 16384 (img fish_fs) = [92, 47, 10] @ replicate 4093 0"
  "length (img fish_fs) = 20480"
  by (simp_all add: fish_fs_def chars_def)

lemma fish_fs_words:
  "num_dentries (img fish_fs) = Some 3" "num_inodes (img fish_fs) = Some 2"
  "entry_type fish_fs 0 = Some 0" "entry_inode fish_fs 0 = Some 0" "entry_type fish_fs 1 = Some 2" "entry_inode fish_fs 1 = Some 0"
  "entry_type fish_fs 2 = Some 2" "entry_inode fish_fs 2 = Some 1"
  "rd32 (img fish_fs) 4096 = Some 3" "rd32 (img fish_fs) 4100 = Some 0" "rd32 (img fish_fs) 8192 = Some 3" "rd32 (img fish_fs) 8196 = Some 1"
proof -
  have l: "a \<le> length (img fish_fs)" if "a \<le> 20480" for a using that by (simp add: fish_fs_drops(19))
  have "rd32 (img fish_fs) 0 = Some 3" by (rule rd32_append [where rest = "drop 4 (img fish_fs)"]) (metis drop0 fish_fs_drops(1), simp)
  then show "num_dentries (img fish_fs) = Some 3" by (simp add: num_dentries_def)
  have r: "rd32 (img fish_fs) 4 = Some 2" "rd32 (img fish_fs) 96 = Some 0" "rd32 (img fish_fs) 100 = Some 0" "rd32 (img fish_fs) 160 = Some 2"
    "rd32 (img fish_fs) 164 = Some 0" "rd32 (img fish_fs) 224 = Some 2" "rd32 (img fish_fs) 228 = Some 1"
    by (rule rd32_append [OF fish_fs_drops(2)] rd32_append [OF fish_fs_drops(4)] rd32_append [OF fish_fs_drops(5)] rd32_append [OF fish_fs_drops(7)]
        rd32_append [OF fish_fs_drops(8)] rd32_append [OF fish_fs_drops(10)] rd32_append [OF fish_fs_drops(11)]; rule l; simp)+
  then show "num_inodes (img fish_fs) = Some 2" "entry_type fish_fs 0 = Some 0" "entry_inode fish_fs 0 = Some 0" "entry_type fish_fs 1 = Some 2"
    "entry_inode fish_fs 1 = Some 0" "entry_type fish_fs 2 = Some 2" "entry_inode fish_fs 2 = Some 1"
    by (simp_all add: num_inodes_def entry_type_def entry_inode_def entries_at_def)
  show "rd32 (img fish_fs) 4096 = Some 3" "rd32 (img fish_fs) 4100 = Some 0" "rd32 (img fish_fs) 8192 = Some 3" "rd32 (img fish_fs) 8196 = Some 1"
    by (rule rd32_append [OF fish_fs_drops(13)] rd32_append [OF fish_fs_drops(14)] rd32_append [OF fish_fs_drops(15)] rd32_append [OF fish_fs_drops(16)]; rule l; simp)+
qed

lemma fish_fs_names:
  "entry_name fish_fs 0 = chars ''rtc''" "entry_name fish_fs 1 = chars ''frame0.txt''" "entry_name fish_fs 2 = chars ''frame1.txt''" "entry_name fish_fs 3 = []"
proof -
  have n: "0 \<notin> set (chars ''rtc'')" "0 \<notin> set (chars ''frame0.txt'')" "0 \<notin> set (chars ''frame1.txt'')" by (simp_all add: chars_def)
  have d: "drop (entries_at 0) (img fish_fs) = chars ''rtc'' @ 0 # replicate 28 0 @ drop 96 (img fish_fs)"
    "drop (entries_at 1) (img fish_fs) = chars ''frame0.txt'' @ 0 # replicate 21 0 @ drop 160 (img fish_fs)"
    "drop (entries_at 2) (img fish_fs) = chars ''frame1.txt'' @ 0 # replicate 21 0 @ drop 224 (img fish_fs)"
    "drop (entries_at 3) (img fish_fs) = 0 # replicate 3839 0 @ drop 4096 (img fish_fs)"
    using fish_fs_drops(3,6,9,12) by (simp_all add: entries_at_def del: drop_drop)
  show "entry_name fish_fs 0 = chars ''rtc''" unfolding entry_name_def d(1) by (rule cstr_append_nul [OF n(1)])
  show "entry_name fish_fs 1 = chars ''frame0.txt''" unfolding entry_name_def d(2) by (rule cstr_append_nul [OF n(2)])
  show "entry_name fish_fs 2 = chars ''frame1.txt''" unfolding entry_name_def d(3) by (rule cstr_append_nul [OF n(3)])
  show "entry_name fish_fs 3 = []" unfolding entry_name_def d(4) by simp
qed

lemma fish_fs_le: "i \<le> unat (3 :: u32) \<longleftrightarrow> i = 0 \<or> i = 1 \<or> i = 2 \<or> i = 3"
  by auto

lemma fish_fs_resolves:
  "resolves fish_fs (lit ''rtc'') FILE_TYPE_RTC 0" "resolves fish_fs (lit ''frame0.txt'') FILE_TYPE_REG 0" "resolves fish_fs (lit ''frame1.txt'') FILE_TYPE_REG 1"
proof -
  have "0 \<in> set (drop 64 (img fish_fs))" "0 \<in> set (drop 128 (img fish_fs))" "0 \<in> set (drop 192 (img fish_fs))" "0 \<in> set (drop 256 (img fish_fs))"
    unfolding fish_fs_drops(3,6,9,12) by simp_all
  moreover have l: "length (chars ''rtc'') < 36" "length (chars ''frame0.txt'') < 36" "length (chars ''frame1.txt'') < 36" by (simp_all add: chars_def)
  ultimately have w: "wf_dir fish_fs (unat (3 :: u32))"
    unfolding wf_dir_def fish_fs_le using fish_fs_names by (auto simp: entries_at_def fish_fs_drops(19))
  have r: "readable (lit ''rtc'') FILE_NAME_SIZE" "readable (lit ''frame0.txt'') FILE_NAME_SIZE" "readable (lit ''frame1.txt'') FILE_NAME_SIZE"
    by (simp_all add: readable_def lit_def)
  have u: "[0..<unat (3 :: u32) + 1] = [0, 1, 2, 3]" by (simp add: upt_rec)
  have "List.find (name_match fish_fs (lit ''rtc'')) [0..<unat (3 :: u32) + 1] = Some 0"
    "List.find (name_match fish_fs (lit ''frame0.txt'')) [0..<unat (3 :: u32) + 1] = Some 1"
    "List.find (name_match fish_fs (lit ''frame1.txt'')) [0..<unat (3 :: u32) + 1] = Some 2"
    unfolding u using fish_fs_names by (simp_all add: name_match_def lit_def chars_def)
  then show "resolves fish_fs (lit ''rtc'') FILE_TYPE_RTC 0" "resolves fish_fs (lit ''frame0.txt'') FILE_TYPE_REG 0"
    "resolves fish_fs (lit ''frame1.txt'') FILE_TYPE_REG 1"
    unfolding resolves_def using fish_fs_words(1,3-8) w r by blast+
qed

lemma fish_fs_files:
  "wf_inode fish_fs 0" "wf_inode fish_fs 1" "file_content fish_fs (inode_at fish_fs 0) = [47, 92, 10]" "file_content fish_fs (inode_at fish_fs 1) = [92, 47, 10]"
proof -
  have i: "inode_at fish_fs 0 = 4096" "inode_at fish_fs 1 = 8192" "byte_length fish_fs 4096 = Some 3" "byte_length fish_fs 8192 = Some 3"
    "data_block_idx fish_fs 4096 0 = Some 0" "data_block_idx fish_fs 8192 0 = Some 1" "data_head fish_fs = 12288" "nblocks 3 = 1"
    by (simp_all add: inode_at_def byte_length_def data_block_idx_def fish_fs_words nblocks_def) (simp_all add: fish_fs_def)
  then show "wf_inode fish_fs 0" "wf_inode fish_fs 1" using fish_fs_words(2) fish_fs_drops(19) by (auto simp: wf_inode_def wf_file_def)
  have "file_block fish_fs 4096 0 = take 4096 (drop 12288 (img fish_fs))" "file_block fish_fs 8192 0 = take 4096 (drop 16384 (img fish_fs))"
    using i by (simp_all add: file_block_def)
  then show "file_content fish_fs (inode_at fish_fs 0) = [47, 92, 10]" "file_content fish_fs (inode_at fish_fs 1) = [92, 47, 10]"
    using i by (simp_all add: file_content_def) (simp_all add: fish_fs_drops(17,18))
qed

lemma fish_fs_fits: "fits [47, 92, 10]" "fits [92, 47, 10]"
  using text_lines_newline [of "[47, 92]" "[]"] text_lines_newline [of "[92, 47]" "[]"] by (simp_all add: fits_def)


lemma sample_user_spare: "spare 3 (sample_user args ks)"
proof -
  let ?s = "sample_user args ks"
  have "{2, 3, 4} \<subseteq> {k. k < MAX_FILES \<and> \<not> fd_used (pcbs ?s 3) k}"
    by (auto simp: sample_user_pcb fd_used_def sample_file_array zero_file_def)
  then have "card {2, 3, 4 :: nat} \<le> card {k. k < MAX_FILES \<and> \<not> fd_used (pcbs ?s 3) k}" by (intro card_mono) simp_all
  then show ?thesis using sample_user_files(1) [of args ks] by (simp add: spare_def can_open_def sample_user_pcb(1))
qed

theorem fish_ends_witness:
  "\<exists>s' b'. fish_main (kernel_os tick_sched fish_fs sample_layout (\<lambda>s b. None)) 0x08049000 0x08048000 USER_VID zero_blink zero_blink (replicate 4 0)
       (sample_user [] []) no_blinks = Some (s', b', 0) \<and> rtc_list s' []"
  by (rule fish_ends [OF fish_fs_resolves(1,2) fish_fs_files(1) _ fish_fs_resolves(3) fish_fs_files(2) _ sample_user_spare sample_user_no_rtcs ticking_tick_sched])
    (simp_all add: fish_fs_files fish_fs_fits blinks_at_def no_blinks_def)

end
