(* ===== verification/User_Syserr.thy ===== *)
theory User_Syserr
  imports User_Kernel
begin

text \<open>
  \<^verbatim>\<open>syscalls/ece391syserr.c\<close>: the program that tests how the system calls treat bad arguments. Each test counts what
  does not fail as it should. On the model of the kernel all eight tests pass.
\<close>

section \<open>The tests\<close>

text \<open>A check: the message is printed and \<open>fail\<close> set to 2 when the call did not return -1.\<close>

definition check :: "'s user_os \<Rightarrow> string \<Rightarrow> int \<Rightarrow> 's \<Rightarrow> int \<Rightarrow> ('s \<times> int) option" where
  "check os msg r s fail = (if r \<noteq> -1 then fail_with os s (line_of msg) 2 else Some (s, fail))"

text \<open>The verdict at the end of a test, which returns \<open>fail\<close>.\<close>

definition verdict :: "'s user_os \<Rightarrow> string \<Rightarrow> 's \<Rightarrow> int \<Rightarrow> ('s \<times> int) option" where
  "verdict os name s fail = fail_with os s (line_of (name @ (if fail \<noteq> 0 then '': FAIL'' else '': PASS''))) fail"

text \<open>The common body of tests 1 and 2.\<close>

definition err_fd :: "'s user_os \<Rightarrow> string \<Rightarrow> int \<Rightarrow> u8 list \<Rightarrow> 's \<Rightarrow> ('s \<times> int) option" where
  "err_fd os name fd buf s = do {
     (s, buf, r) \<leftarrow> sc_read os s fd buf 31;
     (s, fail) \<leftarrow> check os ''read fail'' r s 0;
     (s, r) \<leftarrow> sc_write os s fd buf 31;
     (s, fail) \<leftarrow> check os ''write fail'' r s fail;
     (s, r) \<leftarrow> sc_close os s fd;
     (s, fail) \<leftarrow> check os ''close fail'' r s fail;
     verdict os name s fail }"

definition err_neg_fd :: "'s user_os \<Rightarrow> u8 list \<Rightarrow> 's \<Rightarrow> ('s \<times> int) option" where
  "err_neg_fd os = err_fd os ''err_neg_fd'' (-1073741823)"

definition err_big_fd :: "'s user_os \<Rightarrow> u8 list \<Rightarrow> 's \<Rightarrow> ('s \<times> int) option" where
  "err_big_fd os = err_fd os ''err_big_fd'' 1073741823"

fun open_lots :: "'s user_os \<Rightarrow> nat \<Rightarrow> 's \<Rightarrow> int \<Rightarrow> ('s \<times> int) option" where
  "open_lots os 0 s cnt = Some (s, cnt)"
| "open_lots os (Suc n) s cnt = do {
     (s, fd) \<leftarrow> sc_open os s (lit ''.'');
     open_lots os n s (if fd = -1 then cnt + 1 else cnt) }"

fun close_all :: "'s user_os \<Rightarrow> int list \<Rightarrow> 's \<Rightarrow> 's option" where
  "close_all os [] s = Some s"
| "close_all os (i # is) s = do { (s, _) \<leftarrow> sc_close os s i; close_all os is s }"

definition err_open_lots :: "'s user_os \<Rightarrow> 's \<Rightarrow> ('s \<times> int) option" where
  "err_open_lots os s = do {
     (s, cnt) \<leftarrow> open_lots os 7 s 0;
     s \<leftarrow> close_all os [2..7] s;
     if cnt = 1 then fail_with os s (line_of ''err_open_lots: PASS'') 0
     else fail_with os s (line_of ''err_open_lots: FAIL'') 2 }"

definition err_open :: "'s user_os \<Rightarrow> 's \<Rightarrow> ('s \<times> int) option" where
  "err_open os s = do {
     (s, r) \<leftarrow> sc_open os s (lit ''helloo'');
     (s, fail) \<leftarrow> check os ([CHR 0x27] @ ''helloo'' @ [CHR 0x27] @ '' fail'') r s 0;
     (s, r) \<leftarrow> sc_open os s (lit ''shel'');
     (s, fail) \<leftarrow> check os ([CHR 0x27] @ ''shel'' @ [CHR 0x27] @ '' fail'') r s fail;
     (s, r) \<leftarrow> sc_open os s (lit []);
     (s, fail) \<leftarrow> check os ''empty string fail'' r s fail;
     verdict os ''err_open'' s fail }"

fun closes :: "'s user_os \<Rightarrow> int list \<Rightarrow> 's \<Rightarrow> int \<Rightarrow> ('s \<times> int) option" where
  "closes os [] s fail = Some (s, fail)"
| "closes os (i # is) s fail = do {
     (s, r) \<leftarrow> sc_close os s i;
     (s, fail) \<leftarrow> check os ''close unopened or invalid fd fail'' r s fail;
     closes os is s fail }"

fun reads :: "'s user_os \<Rightarrow> int list \<Rightarrow> u8 list \<Rightarrow> 's \<Rightarrow> int \<Rightarrow> ('s \<times> u8 list \<times> int) option" where
  "reads os [] buf s fail = Some (s, buf, fail)"
| "reads os (i # is) buf s fail = do {
     (s, buf, r) \<leftarrow> sc_read os s i buf 31;
     (s, fail) \<leftarrow> check os ''read from unopened fd fail'' r s fail;
     reads os is buf s fail }"

fun writes :: "'s user_os \<Rightarrow> int list \<Rightarrow> u8 list \<Rightarrow> 's \<Rightarrow> int \<Rightarrow> ('s \<times> int) option" where
  "writes os [] buf s fail = Some (s, fail)"
| "writes os (i # is) buf s fail = do {
     (s, r) \<leftarrow> sc_write os s i buf 31;
     (s, fail) \<leftarrow> check os ''write to unopened fd fail'' r s fail;
     writes os is buf s fail }"

definition err_unopened :: "'s user_os \<Rightarrow> u8 list \<Rightarrow> 's \<Rightarrow> ('s \<times> int) option" where
  "err_unopened os buf s = do {
     (s, fail) \<leftarrow> closes os [0..7] s 0;
     (s, buf, fail) \<leftarrow> reads os [2..7] buf s fail;
     (s, fail) \<leftarrow> writes os [2..7] buf s fail;
     verdict os ''err_unopened'' s fail }"

definition err_vidmap :: "'s user_os \<Rightarrow> 's \<Rightarrow> ('s \<times> int) option" where
  "err_vidmap os s = do {
     (s, r) \<leftarrow> sc_vidmap os s 0;
     (s, fail) \<leftarrow> check os ''Null pointer fail'' r s 0;
     (s, r) \<leftarrow> sc_vidmap os s 0x400000;
     (s, fail) \<leftarrow> check os ''Kernel pointer fail fail'' r s fail;
     verdict os ''err_vidmap'' s fail }"

definition err_stdin_out :: "'s user_os \<Rightarrow> u8 list \<Rightarrow> 's \<Rightarrow> ('s \<times> int) option" where
  "err_stdin_out os buf s = do {
     (s, r) \<leftarrow> sc_write os s 0 buf 31;
     (s, fail) \<leftarrow> check os ''write to stdin fail'' r s 0;
     (s, buf, r) \<leftarrow> sc_read os s 1 buf 31;
     (s, fail) \<leftarrow> check os ''read from stdout fail'' r s fail;
     verdict os ''err_stdin_out'' s fail }"

definition err_syscall_num :: "'s user_os \<Rightarrow> 's \<Rightarrow> ('s \<times> int) option" where
  "err_syscall_num os s = do {
     (s, r) \<leftarrow> sc_call os s 1073741823;
     (s, fail) \<leftarrow> check os ''syscall 0 fail'' r s 0;
     (s, r) \<leftarrow> sc_call os s (-1073741823);
     (s, fail) \<leftarrow> check os ''big num syscall fail'' r s fail;
     (s, r) \<leftarrow> sc_call os s 0;
     (s, fail) \<leftarrow> check os ''neg num syscall fail'' r s fail;
     verdict os ''err_syscall_num'' s fail }"

text \<open>\<open>b\<close> are the arrays of the tests.\<close>

fun run_tests :: "('s \<Rightarrow> ('s \<times> int) option) list \<Rightarrow> 's \<Rightarrow> int \<Rightarrow> ('s \<times> int) option" where
  "run_tests [] s fail = Some (s, fail)"
| "run_tests (test # ts) s fail = do { (s, r) \<leftarrow> test s; run_tests ts s (fail + r) }"

definition tests :: "'s user_os \<Rightarrow> u8 list \<Rightarrow> ('s \<Rightarrow> ('s \<times> int) option) list" where
  "tests os b = [err_neg_fd os b, err_big_fd os b, err_open_lots os, err_open os, err_unopened os b, err_vidmap os,
     err_stdin_out os b, err_syscall_num os]"

definition syserr_main :: "'s user_os \<Rightarrow> u8 list \<Rightarrow> u8 list \<Rightarrow> 's \<Rightarrow> ('s \<times> int) option" where
  "syserr_main os buf b s = do {
     s \<leftarrow> ece391_fdputs os s 1 (lit ''Choose from tests 1-8. 0 to run all: '');
     (s, buf, cnt) \<leftarrow> sc_read os s 0 buf 127;
     if cnt = -1 then fail_with os s (line_of ''Can't read test #'') 2
     else
       let select = uint (buf ! 0) - 48
       in if select = 0 then do {
            (s, fail) \<leftarrow> run_tests (tests os b) s 0;
            if fail \<noteq> 0 then fail_with os s (lit ([CHR 0x0A] @ ''Overall Tests: FAIL'' @ [CHR 0x0A])) fail
            else fail_with os s (lit ([CHR 0x0A] @ ''Overall Tests: PASS'' @ [CHR 0x0A])) fail }
          else if 1 \<le> select \<and> select \<le> 8 then (tests os b ! nat (select - 1)) s
          else fail_with os s (lit ''Invalid test number. Choose from tests 1-8 or 0'') 0 }"

section \<open>The tests on the kernel\<close>

text \<open>A process at its terminal with no files open but standard input and output.\<close>

definition ready :: "nat \<Rightarrow> kstate \<Rightarrow> bool" where
  "ready t s \<longleftrightarrow> at_terminal t s \<and> length (file_array (pcbs s (cur_pcb s))) = MAX_FILES \<and>
     (\<forall>k. 2 \<le> k \<and> k < MAX_FILES \<longrightarrow> \<not> fd_used (pcbs s (cur_pcb s)) k)"

text \<open>A test that ends, returns 0 and prints \<open>msg\<close>.\<close>

definition passes :: "nat \<Rightarrow> (kstate \<Rightarrow> (kstate \<times> int) option) \<Rightarrow> u8 list \<Rightarrow> bool" where
  "passes t test msg \<longleftrightarrow> (\<forall>s. ready t s \<longrightarrow> (\<exists>s'. test s = Some (s', 0) \<and> ready t s' \<and>
     typed_lines (keys s' t) = typed_lines (keys s t) \<and> term_grid t s' = print_on msg (term_grid t s)))"

definition pass_line :: "string \<Rightarrow> u8 list" where
  "pass_line name = chars (name @ '': PASS'' @ [CHR 0x0A])"

lemma ready_fail_with:
  assumes "ready t s" "\<forall>c \<in> set (chars str). c = 10 \<or> 32 \<le> c" "length str < 2 ^ 30"
  shows "\<exists>s'. fail_with (kernel_os sched f addr ex) s (lit str) ret = Some (s', ret) \<and> ready t s' \<and>
    typed_lines (keys s' t) = typed_lines (keys s t) \<and> term_grid t s' = print_on (chars str) (term_grid t s)"
proof -
  have "at_terminal_of t (pcbs s) (cur_pcb s) s" using assms(1) by (simp add: ready_def at_terminal_of_def)
  from fixed_terminal.fail_with_lit [OF this assms(2,3), of sched f addr ex ret]
  show ?thesis using assms(1) by (auto simp: ready_def at_terminal_of_def)
qed

lemma verdict_passes:
  assumes "\<And>s. ready t s \<Longrightarrow> test s = verdict (kernel_os sched f addr ex) name s 0"
    and "\<forall>c \<in> set (pass_line name). c = 10 \<or> 32 \<le> c" "length name < 2 ^ 20"
  shows "passes t test (pass_line name)"
  unfolding passes_def
  using assms(1) ready_fail_with [of t _ "name @ '': PASS'' @ [CHR 0x0A]" sched f addr ex 0] assms(2,3)
  by (auto simp: verdict_def pass_line_def)

lemma ready_fds:
  assumes "ready t s"
  shows "fd_present s fd \<longleftrightarrow> fd = 0 \<or> fd = 1"
proof -
  have p: "fd_present s 0" "fd_present s 1" using assms by (simp_all add: ready_def at_terminal_def stdout_on_def)
  have "fd \<in> {0, 1}" if "fd_present s fd"
  proof (rule ccontr)
    assume n: "fd \<notin> {0, 1}"
    have f: "0 \<le> fd" "fd < int MAX_FILES" "fd_used (pcbs s (cur_pcb s)) (nat fd)" using that by (simp_all add: fd_present_def)
    then have "2 \<le> nat fd" "nat fd < MAX_FILES" using n by auto
    with f(3) assms show False by (simp add: ready_def)
  qed
  with p show ?thesis by auto
qed

lemma ready_rejects:
  assumes "ready t s" "fd \<noteq> 0" "fd \<noteq> 1"
  shows "sc_read (kernel_os sched f addr ex) s fd buf n = Some (s, buf, -1)"
    "sc_write (kernel_os sched f addr ex) s fd buf n = Some (s, -1)" "sc_close (kernel_os sched f addr ex) s fd = Some (s, -1)"
  using fd_rejected [of s fd] ready_fds [OF assms(1), of fd] assms(2,3) by (simp_all add: kernel_os_def)

lemma ready_std:
  assumes "ready t s"
  shows "fd = 0 \<or> fd = 1 \<Longrightarrow> sc_close (kernel_os sched f addr ex) s fd = Some (s, -1)"
    "sc_write (kernel_os sched f addr ex) s 0 buf n = Some (s, -1)" "sc_read (kernel_os sched f addr ex) s 1 buf n = Some (s, buf, -1)"
proof -
  have p: "fd_present s 0" "fd_present s 1" "file_op (get_file s (cur_pcb s, 0)) = Some term_fops" "file_op (get_file s (cur_pcb s, 1)) = Some term_fops"
    using assms by (simp_all add: ready_def at_terminal_def stdout_on_def)
  show "sc_write (kernel_os sched f addr ex) s 0 buf n = Some (s, -1)"
    using fd_presentD [OF p(1)] p(3) by (simp add: kernel_os_def sys_write_def fops_write_def term_write_def)
  show "sc_read (kernel_os sched f addr ex) s 1 buf n = Some (s, buf, -1)"
    using fd_presentD [OF p(2)] p(4) by (simp add: kernel_os_def sys_read_def fops_read_def term_read_def)
  show "sc_close (kernel_os sched f addr ex) s fd = Some (s, -1)" if "fd = 0 \<or> fd = 1"
    using fd_presentD [OF p(1)] fd_presentD [OF p(2)] p(3,4) that by (auto simp: kernel_os_def sys_close_def fops_close_def term_close_def)
qed

lemma check_failed [simp]: "check os msg (-1) s fail = Some (s, fail)"
  by (simp add: check_def)

lemma rejected_loops:
  shows "\<forall>i \<in> set is. sc_close os s i = Some (s, -1) \<Longrightarrow> closes os is s fail = Some (s, fail)"
    "\<forall>i \<in> set is. sc_read os s i buf 31 = Some (s, buf, -1) \<Longrightarrow> reads os is buf s fail = Some (s, buf, fail)"
    "\<forall>i \<in> set is. sc_write os s i buf 31 = Some (s, -1) \<Longrightarrow> writes os is buf s fail = Some (s, fail)"
  by (induction "is") simp_all

lemma err_fd_passes:
  assumes "fd \<noteq> 0" "fd \<noteq> 1" "\<forall>c \<in> set (pass_line name). c = 10 \<or> 32 \<le> c" "length name < 2 ^ 20"
  shows "passes t (err_fd (kernel_os sched f addr ex) name fd b) (pass_line name)"
  by (rule verdict_passes [OF _ assms(3,4)]) (simp add: err_fd_def ready_rejects [OF _ assms(1,2)])

lemma err_unopened_passes: "passes t (err_unopened (kernel_os sched f addr ex) b) (pass_line ''err_unopened'')"
proof (rule verdict_passes)
  fix s
  assume r: "ready t s"
  let ?os = "kernel_os sched f addr ex"
  have "sc_close ?os s i = Some (s, -1)" for i using ready_std(1) [OF r, of i] ready_rejects(3) [OF r, of i] by blast
  moreover have "i \<noteq> 0 \<and> i \<noteq> 1" if "i \<in> set [2..7]" for i :: int using that by auto
  ultimately show "err_unopened ?os b s = verdict ?os ''err_unopened'' s 0"
    using ready_rejects [OF r] by (simp add: err_unopened_def rejected_loops)
qed (simp_all add: pass_line_def chars_def)

lemma err_vidmap_passes: "passes t (err_vidmap (kernel_os sched f addr ex)) (pass_line ''err_vidmap'')"
  by (rule verdict_passes) (simp_all add: err_vidmap_def kernel_os_def sys_vidmap_def pass_line_def chars_def)

lemma err_stdin_out_passes: "passes t (err_stdin_out (kernel_os sched f addr ex) b) (pass_line ''err_stdin_out'')"
  by (rule verdict_passes) (simp_all add: err_stdin_out_def ready_std pass_line_def chars_def)

lemma err_syscall_num_passes: "passes t (err_syscall_num (kernel_os sched f addr ex)) (pass_line ''err_syscall_num'')"
  by (rule verdict_passes) (simp_all add: err_syscall_num_def kernel_os_def syscall_oob_def pass_line_def chars_def)

text \<open>A directory in which no entry has the name.\<close>

definition unresolved :: "fs \<Rightarrow> u8 list \<Rightarrow> bool" where
  "unresolved f name \<longleftrightarrow> (\<exists>n. num_dentries (img f) = Some n \<and> wf_dir f (unat n) \<and> readable name FILE_NAME_SIZE \<and>
     List.find (name_match f name) [0..<unat n + 1] = None)"

lemma open_unresolved:
  assumes "unresolved f name"
  shows "sc_open (kernel_os sched f addr ex) s name = Some (s, -1)"
proof -
  obtain n where n: "num_dentries (img f) = Some n" "wf_dir f (unat n)" "readable name FILE_NAME_SIZE"
    "List.find (name_match f name) [0..<unat n + 1] = None"
    using assms by (auto simp: unresolved_def simp del: upt_Suc)
  have "read_dentry_by_name f name (replicate 64 0) = Some (replicate 64 0, -1)"
    using read_dentry_by_name_find [OF n(1,2) _ n(3), of "replicate 64 0"] n(4) by simp
  then show ?thesis by (simp add: kernel_os_def sys_open_def)
qed

lemma empty_unresolved:
  assumes "unresolved f name"
  shows "unresolved f (lit [])"
proof -
  have "\<not> name_match f (lit []) i" for i by (simp add: name_match_def lit_def chars_def)
  then show ?thesis using assms unfolding unresolved_def find_None_iff by (auto simp: readable_def lit_def)
qed

lemma err_open_passes:
  assumes "unresolved f (lit ''helloo'')" "unresolved f (lit ''shel'')"
  shows "passes t (err_open (kernel_os sched f addr ex)) (pass_line ''err_open'')"
  using assms empty_unresolved [OF assms(1)]
  by (intro verdict_passes) (simp_all add: err_open_def open_unresolved pass_line_def chars_def)

text \<open>The directory is open on exactly the descriptors from \<open>a\<close> to \<open>b\<close> (exclusive).\<close>

definition dirs_open :: "nat \<Rightarrow> nat \<Rightarrow> nat \<Rightarrow> kstate \<Rightarrow> bool" where
  "dirs_open t a b s \<longleftrightarrow> at_terminal t s \<and> length (file_array (pcbs s (cur_pcb s))) = MAX_FILES \<and>
     (\<forall>k. 2 \<le> k \<and> k < MAX_FILES \<longrightarrow> (fd_used (pcbs s (cur_pcb s)) k \<longleftrightarrow> a \<le> k \<and> k < b) \<and>
       (a \<le> k \<and> k < b \<longrightarrow> file_op (get_file s (cur_pcb s, k)) = Some dir_fops))"

lemma ready_dirs_open: "ready t s \<longleftrightarrow> dirs_open t a a s"
  by (auto simp: ready_def dirs_open_def)

lemma at_terminal_upd_file:
  assumes "2 \<le> k"
  shows "at_terminal t (upd_file (p, k) g s) = at_terminal t s"
    "keys (upd_file (p, k) g s) t = keys s t" "term_grid t (upd_file (p, k) g s) = term_grid t s"
proof -
  have f: "get_file (upd_file (p, k) g s) (q, 0) = get_file s (q, 0)" for q using assms by (simp add: get_file_def)
  show "keys (upd_file (p, k) g s) t = keys s t" by (simp add: keys_def)
  then show "at_terminal t (upd_file (p, k) g s) = at_terminal t s"
    using assms f stdout_on_upd_file(1) [of k t p g s] fd_present_upd_other [of k 0 p g s]
    by (simp add: at_terminal_def term_ok_def)
  show "term_grid t (upd_file (p, k) g s) = term_grid t s" using assms stdout_on_upd_file(2) [of k] by simp
qed

lemma dirs_open_next:
  assumes "dirs_open t 2 b s" "2 \<le> b" "b < MAX_FILES"
  shows "can_open s" "free_fd s = b"
proof -
  let ?b = "pcbs s (cur_pcb s)"
  have l: "length (file_array ?b) = MAX_FILES" "fd_used ?b 0" "fd_used ?b 1" "cur_pcb s \<noteq> 0"
    and u: "\<forall>k. 2 \<le> k \<and> k < MAX_FILES \<longrightarrow> (fd_used ?b k \<longleftrightarrow> k < b)"
    using assms(1) by (auto simp: dirs_open_def at_terminal_def stdout_on_def fd_present_def)
  have n: "\<not> fd_used ?b b" using u assms(2,3) by simp
  then show "can_open s" using l assms(3) by (auto simp: can_open_def)
  have "b \<le> k" if "\<not> fd_used ?b k" for k
  proof (rule ccontr)
    assume "\<not> b \<le> k"
    then have "k < b" "k < MAX_FILES" using assms(3) by simp_all
    moreover have "k \<noteq> 0" "k \<noteq> 1" using l(2,3) that by metis+
    ultimately show False using u that by auto
  qed
  with n show "free_fd s = b" unfolding free_fd_def by (intro Least_equality) auto
qed

lemma open_lots_fills:
  assumes "resolves f (lit ''.'') FILE_TYPE_DIR inode" "dirs_open t 2 b s" "2 \<le> b" "b + n = MAX_FILES"
  shows "\<exists>s'. open_lots (kernel_os sched f addr ex) n s cnt = Some (s', cnt) \<and> dirs_open t 2 MAX_FILES s' \<and>
    keys s' t = keys s t \<and> term_grid t s' = term_grid t s"
  using assms(2-)
proof (induction n arbitrary: s b)
  case (Suc n)
  then have b: "b < MAX_FILES" by simp
  note c = dirs_open_next [OF Suc.prems(1,2) b]
  let ?s = "opened_as dir_fops s inode"
  have o: "sc_open (kernel_os sched f addr ex) s (lit ''.'') = Some (?s, int b)"
    using sys_open_dir [OF assms(1) c(1)] c(2) by (simp add: kernel_os_def)
  have same: "at_terminal t ?s = at_terminal t s" "keys ?s t = keys s t" "term_grid t ?s = term_grid t s" "cur_pcb ?s = cur_pcb s"
    unfolding opened_as_def c(2) using at_terminal_upd_file [OF Suc.prems(2)] by simp_all
  have "dirs_open t 2 (Suc b) ?s"
    using Suc.prems(1,2) b unfolding dirs_open_def same
    by (auto simp: opened_as_def c(2) fd_used_def get_file_def nth_list_update bit_or_iff)
  from Suc.IH [OF this] Suc.prems(2,3) o same show ?case by simp
qed (auto simp: dirs_open_def)

lemma open_full:
  assumes "resolves f (lit ''.'') FILE_TYPE_DIR inode" "dirs_open t 2 MAX_FILES s"
  shows "sc_open (kernel_os sched f addr ex) s (lit ''.'') = Some (s, -1)"
proof -
  obtain d where d: "read_dentry_by_name f (lit ''.'') (replicate 64 0) = Some (d, 0)" "d_type d = FILE_TYPE_DIR"
    using resolves_dentry [OF assms(1)] by blast
  let ?b = "pcbs s (cur_pcb s)"
  have l: "fd_used ?b 0" "fd_used ?b 1" "cur_pcb s \<noteq> 0" "\<forall>k. 2 \<le> k \<and> k < MAX_FILES \<longrightarrow> fd_used ?b k"
    using assms(2) by (auto simp: dirs_open_def at_terminal_def stdout_on_def fd_present_def)
  have "fd_used ?b k" if "k < MAX_FILES" for k using that l(1,2,4) by (cases "k = 0 \<or> k = 1") auto
  then have "get_unused_fd (Some (cur_pcb s)) s = (s, -1)" unfolding get_unused_fd_cases by auto
  then show ?thesis using d l(3) by (simp add: kernel_os_def sys_open_def dir_open_def open_with_def get_proc_pcb_def)
qed

lemma close_all_empties:
  assumes "dirs_open t a MAX_FILES s" "2 \<le> a" "a + n = MAX_FILES"
  shows "\<exists>s'. close_all (kernel_os sched f addr ex) (map int [a..<MAX_FILES]) s = Some s' \<and> ready t s' \<and>
    keys s' t = keys s t \<and> term_grid t s' = term_grid t s"
  using assms
proof (induction n arbitrary: s a)
  case 0
  then show ?case using ready_dirs_open [of t s a] by simp
next
  case (Suc n)
  then have a: "a < MAX_FILES" by simp
  let ?s = "upd_file (cur_pcb s, a) (\<lambda>fl. fl\<lparr>file_flags := 0\<rparr>) s"
  have l: "length (file_array (pcbs s (cur_pcb s))) = MAX_FILES" "fd_used (pcbs s (cur_pcb s)) a" "cur_pcb s \<noteq> 0"
    "file_op (get_file s (cur_pcb s, a)) = Some dir_fops"
    using Suc.prems(1,2) a by (auto simp: dirs_open_def at_terminal_def fd_present_def)
  then have p: "fd_present s (int a)" using a by (simp add: fd_present_def)
  then have c: "sc_close (kernel_os sched f addr ex) s (int a) = Some (?s, 0)"
    using fd_presentD [OF p] l(4) by (simp add: kernel_os_def sys_close_def fops_close_def dir_close_def release_fd_def)
  note same = at_terminal_upd_file [OF Suc.prems(2)]
  have "dirs_open t (Suc a) MAX_FILES ?s"
    using Suc.prems(1,2) a l(1) unfolding dirs_open_def same
    by (auto simp: fd_used_def get_file_def nth_list_update)
  from Suc.IH [OF this] Suc.prems(2,3) have "\<exists>s'. close_all (kernel_os sched f addr ex) (map int [Suc a..<MAX_FILES]) ?s = Some s' \<and>
      ready t s' \<and> keys s' t = keys ?s t \<and> term_grid t s' = term_grid t ?s" by simp
  then show ?case using a c same by (simp add: upt_conv_Cons del: upt_Suc)
qed

lemma open_lots_add: "open_lots os (m + n) s cnt = Option.bind (open_lots os m s cnt) (\<lambda>r. open_lots os n (fst r) (snd r))"
proof (induction m arbitrary: s cnt)
  case (Suc m)
  then show ?case by (cases "sc_open os s (lit ''.'')") auto
qed simp

lemma err_open_lots_passes:
  assumes "resolves f (lit ''.'') FILE_TYPE_DIR inode"
  shows "passes t (err_open_lots (kernel_os sched f addr ex)) (pass_line ''err_open_lots'')"
  unfolding passes_def
proof (intro allI impI)
  fix s
  assume r: "ready t s"
  let ?os = "kernel_os sched f addr ex"
  obtain s1 where s1: "open_lots ?os 6 s 0 = Some (s1, 0)" "dirs_open t 2 MAX_FILES s1" "keys s1 t = keys s t" "term_grid t s1 = term_grid t s"
    using open_lots_fills [OF assms _ _ _, of t 2 s 6 sched addr ex 0] r ready_dirs_open [of t s 2] by auto
  have "open_lots ?os (6 + 1) s 0 = Some (s1, 1)"
    unfolding open_lots_add s1(1) using open_full [OF assms s1(2)] by simp
  then have o: "open_lots ?os 7 s 0 = Some (s1, 1)" by simp
  obtain s2 where s2: "close_all ?os (map int [2..<MAX_FILES]) s1 = Some s2" "ready t s2" "keys s2 t = keys s t" "term_grid t s2 = term_grid t s"
    using close_all_empties [OF s1(2), of 6 sched f addr ex] s1(3,4) by auto
  have l: "[2..7] = map int [2..<MAX_FILES]" by (simp add: upt_rec upto_rec1)
  obtain s3 where "fail_with ?os s2 (lit (''err_open_lots: PASS'' @ [CHR 0x0A])) 0 = Some (s3, 0)" "ready t s3"
    "typed_lines (keys s3 t) = typed_lines (keys s t)" "term_grid t s3 = print_on (chars (''err_open_lots: PASS'' @ [CHR 0x0A])) (term_grid t s)"
    using ready_fail_with [OF s2(2), of "''err_open_lots: PASS'' @ [CHR 0x0A]" sched f addr ex 0] s2(3,4) by (auto simp: chars_def)
  then show "\<exists>s'. err_open_lots ?os s = Some (s', 0) \<and> ready t s' \<and> typed_lines (keys s' t) = typed_lines (keys s t) \<and>
      term_grid t s' = print_on (pass_line ''err_open_lots'') (term_grid t s)"
    using o s2(1) unfolding err_open_lots_def l by (simp add: pass_line_def del: close_all.simps)
qed

lemma run_tests_pass:
  assumes "list_all2 (passes t) ts msgs" "ready t s"
  shows "\<exists>s'. run_tests ts s fail = Some (s', fail) \<and> ready t s' \<and> typed_lines (keys s' t) = typed_lines (keys s t) \<and>
    term_grid t s' = print_on (concat msgs) (term_grid t s)"
  using assms
proof (induction ts arbitrary: msgs s)
  case Nil
  then show ?case by (simp add: print_on_def)
next
  case (Cons test ts)
  then obtain msg xs where t: "msgs = msg # xs" "passes t test msg" "list_all2 (passes t) ts xs" by (auto simp: list_all2_Cons1)
  then obtain s1 where s1: "test s = Some (s1, 0)" "ready t s1" "typed_lines (keys s1 t) = typed_lines (keys s t)"
    "term_grid t s1 = print_on msg (term_grid t s)" using Cons.prems(2) unfolding passes_def by blast
  from Cons.IH [OF t(3) s1(2)] s1 t(1) show ?case by (auto simp: print_on_append)
qed

definition test_names :: "string list" where
  "test_names = [''err_neg_fd'', ''err_big_fd'', ''err_open_lots'', ''err_open'', ''err_unopened'', ''err_vidmap'', ''err_stdin_out'', ''err_syscall_num'']"

lemma all_tests_pass:
  assumes "resolves f (lit ''.'') FILE_TYPE_DIR inode" "unresolved f (lit ''helloo'')" "unresolved f (lit ''shel'')"
  shows "list_all2 (passes t) (tests (kernel_os sched f addr ex) b) (map pass_line test_names)"
  using err_fd_passes [of "-1073741823" "''err_neg_fd''"] err_fd_passes [of 1073741823 "''err_big_fd''"]
  by (simp add: tests_def test_names_def err_neg_fd_def err_big_fd_def err_open_lots_passes [OF assms(1)] err_open_passes [OF assms(2,3)]
      err_unopened_passes err_vidmap_passes err_stdin_out_passes err_syscall_num_passes, simp add: pass_line_def chars_def)

section \<open>Properties\<close>

text \<open>
  C13: the test program of the system calls passes on the kernel: when 0 is typed, for any directory that has an entry for itself and none called
  \<open>helloo\<close> or \<open>shel\<close>, all eight tests report success (bad descriptors, more files than descriptors, names that do not
  exist, closing and using what is not open, bad pointers, the wrong direction, bad call numbers) and the
  program ends with status 0.\<close>

theorem syserr_tests_pass:
  assumes "ready t s" "keys s t = [48, 10]" "length buf = 128"
    and "resolves f (lit ''.'') FILE_TYPE_DIR inode" "unresolved f (lit ''helloo'')" "unresolved f (lit ''shel'')"
  shows "\<exists>s'. syserr_main (kernel_os sched f addr ex) buf b s = Some (s', 0) \<and>
    term_grid t s' = print_on (chars ''Choose from tests 1-8. 0 to run all: '' @ concat (map pass_line test_names) @
      10 # pass_line ''Overall Tests'') (term_grid t s)"
proof -
  let ?os = "kernel_os sched f addr ex" and ?p = "''Choose from tests 1-8. 0 to run all: ''"
  have a: "at_terminal_of t (pcbs s) (cur_pcb s) s" using assms(1) by (simp add: ready_def at_terminal_of_def)
  obtain s1 where s1: "ece391_fdputs ?os s 1 (lit ?p) = Some s1" "at_terminal_of t (pcbs s) (cur_pcb s) s1"
    "typed_lines (keys s1 t) = typed_lines (keys s t)" "term_grid t s1 = print_on (chars ?p) (term_grid t s)"
    using fixed_terminal.fdputs_lit [OF a, of ?p sched f addr ex] by (auto simp: chars_def)
  have l: "typed_lines (keys s1 t) = [48, 10] # typed_lines []"
    unfolding s1(3) assms(2) using typed_lines_line [of "[48]" "[]"] by simp
  obtain s2 buf' where s2: "sc_read ?os s1 0 buf (int 127) = Some (s2, buf', 2)" "take (Suc (Suc 0)) buf' = [48, 10]"
    "at_terminal_of t (pcbs s) (cur_pcb s) s2" "term_grid t s2 = term_grid t s1"
    using fixed_terminal.read_line [OF s1(2) l, of 127 buf sched f addr ex] assms(3) by auto
  then have b: "buf' ! 0 = 48" using nth_take [of 0 "Suc (Suc 0)" buf'] by simp
  have "ready t s2" using s2(3) assms(1) by (simp add: ready_def at_terminal_of_def)
  from run_tests_pass [OF all_tests_pass [OF assms(4-6)] this]
  obtain s3 where s3: "run_tests (tests ?os b) s2 0 = Some (s3, 0)" "ready t s3"
    "term_grid t s3 = print_on (concat (map pass_line test_names)) (term_grid t s2)" by blast
  let ?m = "[CHR 0x0A] @ ''Overall Tests: PASS'' @ [CHR 0x0A]"
  obtain s4 where "fail_with ?os s3 (lit ?m) 0 = Some (s4, 0)" "term_grid t s4 = print_on (chars ?m) (term_grid t s3)"
    using ready_fail_with [OF s3(2), of ?m sched f addr ex 0] by (auto simp: chars_def)
  moreover have "chars ?m = 10 # pass_line ''Overall Tests''" by (simp add: pass_line_def chars_def)
  ultimately show ?thesis using s1(1,4) s2(1,4) s3(1,3) b by (simp add: syserr_main_def print_on_append)
qed

lemma dot_fs_unresolved:
  assumes "0 \<notin> set (chars name)" "chars name \<noteq> chars ''.''" "length name < 32"
  shows "unresolved dot_fs (lit name)"
proof -
  have "cstr (lit name) = chars name" "length (chars name) < 32" using assms(1,3) by (simp_all add: lit_def) (simp add: chars_def)
  then have "\<not> name_match dot_fs (lit name) 0" "\<not> name_match dot_fs (lit name) (Suc 0)"
    using assms(2) by (simp_all add: name_match_def dot_fs_dir) (simp add: chars_def)
  then have "List.find (name_match dot_fs (lit name)) [0..<unat (1 :: u32) + 1] = None" by (simp add: upt_rec)
  then show ?thesis unfolding unresolved_def using dot_fs_dir(3,4)
    by (intro exI [of _ "1 :: u32"]) (simp add: readable_def lit_def)
qed

lemma sample_user_ready: "ready 0 (sample_user [] [48, 10])"
proof -
  have "\<not> fd_used (pcbs (sample_user [] [48, 10]) 3) k" if "2 \<le> k \<and> k < 8" for k
  proof -
    have "k = 2 \<or> k = 3 \<or> k = 4 \<or> k = 5 \<or> k = 6 \<or> k = 7" using that by auto
    then show ?thesis by (auto simp: fd_used_def sample_user_pcb sample_file_array zero_file_def)
  qed
  then show ?thesis
    using sample_user_terminal(1) [of "[48, 10]" "[]"] by (simp add: ready_def sample_user_pcb(1)) (simp add: sample_user_pcb sample_file_array)
qed

theorem syserr_tests_pass_witness:
  "\<exists>s'. syserr_main (kernel_os (\<lambda>i s. s) dot_fs sample_layout (\<lambda>s b. None)) (replicate 128 0) (replicate 32 0) (sample_user [] [48, 10]) = Some (s', 0)"
  using syserr_tests_pass [OF sample_user_ready, of "replicate 128 0" dot_fs 0 "\<lambda>i s. s" sample_layout "\<lambda>s b. None" "replicate 32 0"]
    sample_user_terminal(2) [of "[48, 10]" "[]"] dot_fs_dir(5) dot_fs_unresolved [of "''helloo''"] dot_fs_unresolved [of "''shel''"]
  by (auto simp: chars_def)

end
