(* ===== verification/Spec2Isabelle.thy ===== *)
theory Spec2Isabelle
  imports Circ_Buf Lib_String Lib_Printf Lib_Mem Port_IO Vga Paging Proc File_Sys Rtc Kbd I8259 Sched_Queue Term Video_Switch
    Syscalls Exec Proc_Table Sched Root_Proc Term_Keys Idt Isr Boot Kernel_Run User_Support User_Programs User_Kernel User_Grep Blink User_Clock User_Fish User_Syserr
begin

text \<open>
  Yes-OS is a small protected-mode kernel for 32-bit x86 (\<^verbatim>\<open>student-distrib\<close>): up to ten processes with an
  address space each, a read-only file system, four terminals on one text screen, a keyboard, virtual
  real-time clocks and a round-robin scheduler, reached by system calls and interrupts. This development
  models its C code function by function and proves what makes it correct.

  \<^bold>\<open>How the parts interact.\<close> Every event enters through \<open>isr_impl\<close> or a system call. A timer interrupt calls the
  scheduler, which saves the frame of the running process and resumes another; a keyboard interrupt decodes a
  byte and hands the key to the terminal on the screen, which edits the line, kills the foreground process or
  switches terminals; the clock interrupt ticks every open virtual clock; an exception of user code halts
  the process. \<open>exec\<close> loads a file into the memory of a new process and enters it, \<open>halt\<close> closes its files and
  resumes the parent. Files, directories, clocks and terminals share one descriptor table with an operation
  table per kind.

  \<^bold>\<open>The state.\<close> The record \<open>kstate\<close> (theory \<^verbatim>\<open>Proc\<close>) holds the global variables of the kernel: the console, the
  terminals, the process control blocks, \<open>nprocs\<close> and the bitmap of identifiers, the run queues, the list of
  clocks, the page tables, the task state segment and the frames on the kernel stacks. A pointer to a control
  block is its process identifier (the code computes one from the other, which theory \<^verbatim>\<open>Proc\<close> proves sound),
  a pointer to a terminal its index, a pointer to a frame its address. The stack pointer is represented by
  \<open>cur_pcb\<close>, the block on whose stack the kernel runs. Port output is the log \<open>io\<close>.

  \<^bold>\<open>The theories and the code they model.\<close>
  \<^item> \<^verbatim>\<open>Prelude\<close>: integer types, error values, shared lemmas.
  \<^item> \<^verbatim>\<open>Circ_Buf\<close> (\<^verbatim>\<open>queue.h\<close>): the circular buffer macros implement a bounded queue (locale \<open>bounded_queue\<close>), with
    the out-of-bounds access of the two tail macros.
  \<^item> \<^verbatim>\<open>Lib_String\<close>, \<^verbatim>\<open>Lib_Printf\<close>, \<^verbatim>\<open>Lib_Mem\<close> (\<^verbatim>\<open>lib.c\<close>): strings, \<open>itoa\<close>, \<open>printf\<close> and the text it prints for any list
    of conversions; the assembler \<open>memset\<close>, \<open>memcpy\<close>, \<open>memmove\<close> against plain byte copies.
  \<^item> \<^verbatim>\<open>Port_IO\<close>, \<^verbatim>\<open>Vga\<close> (\<^verbatim>\<open>vga.c\<close>, \<^verbatim>\<open>lib.c\<close>): the console refines a 25 by 80 grid; \<open>term_putc\<close> does the same on any
    screen.
  \<^item> \<^verbatim>\<open>Paging\<close> (\<^verbatim>\<open>paging.c\<close>, \<^verbatim>\<open>paging.h\<close>): the page tables against the processor's translation; user code reaches
    exactly its own memory. \<^verbatim>\<open>Video_Switch\<close>: moving a terminal's video memory on and off the screen.
  \<^item> \<^verbatim>\<open>Proc\<close> (\<^verbatim>\<open>proc.h\<close>): control blocks, descriptors and identifiers (locale \<open>allocator\<close> for both).
  \<^item> \<^verbatim>\<open>File_Sys\<close> (\<^verbatim>\<open>file_sys.c\<close>): directory lookup, reading across data blocks, file and directory operations, the
    loader. \<^verbatim>\<open>Rtc\<close> (\<^verbatim>\<open>rtc.c\<close>): the list of clocks and their rates. \<^verbatim>\<open>Kbd\<close> (\<^verbatim>\<open>kbd.c\<close>, \<^verbatim>\<open>scancodes.h\<close>): the PS/2
    controller and the decoder. \<^verbatim>\<open>I8259\<close> (\<^verbatim>\<open>i8259.c\<close>, \<^verbatim>\<open>pit.c\<close>): the interrupt controllers and the timer.
  \<^item> \<^verbatim>\<open>Term\<close>, \<^verbatim>\<open>Term_Keys\<close> (\<^verbatim>\<open>term.c\<close>): terminals as files and under the keyboard. What is typed is what is read;
    switching terminals and back shows the same page.
  \<^item> \<^verbatim>\<open>Syscalls\<close>, \<^verbatim>\<open>Exec\<close>, \<^verbatim>\<open>Proc_Table\<close> (\<^verbatim>\<open>syscall_impl.c\<close>): the system calls; \<open>exec\<close> and \<open>halt\<close> with all their
    exits, their round trip, and what they keep of the process table.
  \<^item> \<^verbatim>\<open>Sched_Queue\<close>, \<^verbatim>\<open>Sched\<close> (\<^verbatim>\<open>sched.c\<close>): the run queues as lists; the context switch resumes the first live
    process; over a round each process runs once (locale \<open>round_robin\<close>); the step relation \<open>kernel_step\<close> with
    the invariant of the process table. \<^verbatim>\<open>Root_Proc\<close>: processes that the kernel starts itself, and the new shell when
    no process is left.
  \<^item> \<^verbatim>\<open>Idt\<close>, \<^verbatim>\<open>Isr\<close> (\<^verbatim>\<open>isr.c\<close>, \<^verbatim>\<open>x86_desc.h\<close>): the descriptor table and the dispatcher of interrupts and exceptions.
  \<^item> \<^verbatim>\<open>Boot\<close> (\<^verbatim>\<open>kernel.c\<close>, \<^verbatim>\<open>multiboot.h\<close>, \<^verbatim>\<open>x86_desc.h\<close>): \<open>entry\<close> from the multiboot report over all initialisations to the
    first shell, with every way it ends; it composes the drivers, paging, terminals, \<open>exec\<close> and the dispatcher.
  \<^item> \<^verbatim>\<open>Kernel_Run\<close>: every way into the kernel as one relation \<open>kernel_run\<close>, and the shape of the kernel's data (sizes of
    arrays, sound buffers, indices in range) as an invariant of every run from the boot on.
  \<^item> \<^verbatim>\<open>User_Support\<close>, \<^verbatim>\<open>User_Programs\<close> (\<^verbatim>\<open>syscalls/ece391*.c\<close>): the support library and the programs shell, cat, ls, hello,
    testprint and counter over an interface of system calls (locale \<open>printer\<close>, extended by \<open>piece_reader\<close> and
    \<open>line_terminal\<close>). \<^verbatim>\<open>User_Kernel\<close> interprets the interface with the system calls of the kernel model: what the
    programs print there. \<^verbatim>\<open>User_Grep\<close>: grep, which reads in pieces, against searching the lines of the whole file
    (locale \<open>text_reader\<close>). \<^verbatim>\<open>User_Clock\<close>: programs paced by a clock (locales \<open>ticker\<close> and \<open>frame_clock\<close>) and pingpong.
  \<^item> \<^verbatim>\<open>Blink\<close>, \<^verbatim>\<open>User_Fish\<close> (\<^verbatim>\<open>fish/fish.c\<close>, \<^verbatim>\<open>fish/blink.S\<close>): the linked list of blinking characters in an array refines a list
    of blinks; the two frames of fish, read byte by byte in step (locale \<open>byte_pair\<close>), alternate on the screen.
  \<^item> \<^verbatim>\<open>User_Syserr\<close>: the system call tests of the repository pass on the model.

  \<^bold>\<open>Conventions.\<close> Machine integers are words of their width; \<open>int32_t\<close> values that are only compared and counted
  are \<open>int\<close>. The result \<open>None\<close> is undefined behaviour of C (an access outside an array, a null or dangling
  pointer) or a loop that does not end; so a theorem that concludes \<open>Some\<close> says that the code returns and
  stays in bounds. Loops are structural recursion or recursion with a measure; those whose end depends on
  data (the walk to an ancestor, the loader, the polls, the loop of the scheduler) are partial
  functions, and their termination is proved in the theorems that use them. No fuel is used. A function that
  need not return to its caller has a result of type \<open>outcome\<close>.

  \<^bold>\<open>Parameters.\<close> What is not C code of the kernel is an argument: the addresses the linker gives to page tables
  and stubs, the bytes read from devices, and what other processes and interrupts do to the kernel while a
  call yields or the processor sleeps (\<open>sched\<close>, \<open>hlt\<close>).

  \<^bold>\<open>Not modelled.\<close> The assembler stubs and the boot code before \<open>entry\<close>; the manual tests of \<^verbatim>\<open>testing.c\<close>, which no
  build includes; caches and timing; preemption inside a system call other than at its yields. Of the user programs:
  \<^verbatim>\<open>ece391sched.c\<close>, which does not link; \<^verbatim>\<open>ece391sigtest.c\<close>, which needs signals the kernel does not have;
  \<^verbatim>\<open>ece391emulate.c\<close>, which runs the programs on Linux.
\<close>

end
